(* ===== verification/Go_Prelude.thy ===== *)
theory Go_Prelude
  imports Main "HOL-Library.Word" "HOL-Library.AList"
begin

text \<open>
  Shared vocabulary of the development: the Go types the components use (bytes, strings, times,
  maps), the outcome of a fallible Go function, and the generic list, option and map lemmas that
  the component theories rely on.

  \<^item> a Go \<open>byte\<close> is an \<open>8 word\<close>, a \<open>[]byte\<close> a list of them; a Go string is a sequence of
    bytes, which is what \<open>string\<close> (a list of 8-bit characters) is;
  \<^item> a \<open>time.Time\<close> is the number of nanoseconds since the Unix epoch, a \<open>time.Duration\<close> a number
    of nanoseconds, \<open>Time.Unix()\<close> the floor of the division by a second;
  \<^item> a Go map is an association list with distinct keys; its order stands for the iteration order
    that Go leaves unspecified, and every theorem holds for all of them.
\<close>

section \<open>Fact collections\<close>

named_theorems wf_intros \<open>preservation of the components' well-formedness invariants\<close>
named_theorems gomap_simps \<open>lookup, update and delete on Go maps\<close>

section \<open>Outcomes of Go functions\<close>

text \<open>
  A Go function that can fail returns a value and an error; a run-time failure (an index out of
  range) is a panic and is kept apart from an error value.
\<close>

datatype ('e, 'a) go_result = Ret (ret_val: 'a) | Err (err_val: 'e) | Panic

fun go_bind :: "('e, 'a) go_result \<Rightarrow> ('a \<Rightarrow> ('e, 'b) go_result) \<Rightarrow> ('e, 'b) go_result" where
  "go_bind (Ret x) f = f x"
| "go_bind (Err e) f = Err e"
| "go_bind Panic f = Panic"

lemma go_bind_eq_Ret: "go_bind r f = Ret y \<longleftrightarrow> (\<exists>x. r = Ret x \<and> f x = Ret y)"
  by (cases r) auto

section \<open>Bytes and strings\<close>

type_synonym byte = "8 word"
type_synonym bytes = "8 word list"

definition byte_of :: "char \<Rightarrow> byte" where
  "byte_of c = of_char c"

definition char_byte :: "byte \<Rightarrow> char" where
  "char_byte b = char_of (unat b)"

definition bytes_of :: "string \<Rightarrow> bytes" where
  "bytes_of s = map byte_of s"

definition string_of :: "bytes \<Rightarrow> string" where
  "string_of bs = map char_byte bs"

lemma unat_byte_of: "unat (byte_of c) = of_char c"
proof -
  have "(of_char c :: nat) < 256" by (rule nat_of_char_less_256)
  moreover have "byte_of c = word_of_nat (of_char c)" by (simp add: byte_of_def of_nat_of_char)
  ultimately show ?thesis by (simp add: unsigned_of_nat take_bit_nat_eq_self)
qed

lemma char_byte_byte_of [simp]: "char_byte (byte_of c) = c"
  by (simp add: char_byte_def unat_byte_of)

lemma byte_of_char_byte [simp]: "byte_of (char_byte b) = b"
proof -
  have "unat b < 256" using unsigned_less [of b] by simp
  then have "unat (byte_of (char_byte b)) = unat b"
    by (simp add: unat_byte_of char_byte_def)
  then show ?thesis by (simp add: word_unat_eq_iff)
qed

lemma string_of_bytes_of [simp]: "string_of (bytes_of s) = s"
  by (induction s) (simp_all add: string_of_def bytes_of_def)

lemma bytes_of_string_of [simp]: "bytes_of (string_of b) = b"
  by (induction b) (simp_all add: string_of_def bytes_of_def)

lemma length_bytes_of [simp]: "length (bytes_of s) = length s"
  by (simp add: bytes_of_def)

lemma length_string_of [simp]: "length (string_of b) = length b"
  by (simp add: string_of_def)

lemma bytes_of_append: "bytes_of (s @ t) = bytes_of s @ bytes_of t"
  by (simp add: bytes_of_def)

section \<open>Codecs\<close>

text \<open>What every encoding of the development promises: decoding an encoded value gives it back, so no two values share an encoding.\<close>

locale codec =
  fixes enc :: "'a \<Rightarrow> 'b"
    and dec :: "'b \<Rightarrow> 'a option"
  assumes dec_enc: "dec (enc x) = Some x"
begin

lemma enc_inject: "enc x = enc y \<longleftrightarrow> x = y"
  by (metis dec_enc option.inject)

lemma enc_image: "s = enc x \<Longrightarrow> dec s = Some y \<longleftrightarrow> y = x"
  by (auto simp: dec_enc)

end

interpretation bytes_codec: codec bytes_of "\<lambda>b. Some (string_of b)"
  by unfold_locales simp

lemmas bytes_of_inject [simp] = bytes_codec.enc_inject

section \<open>Go maps as association lists\<close>

type_synonym ('k, 'v) gomap = "('k \<times> 'v) list"

abbreviation mget :: "('k, 'v) gomap \<Rightarrow> 'k \<Rightarrow> 'v option" where
  "mget m k \<equiv> map_of m k"

abbreviation mput :: "('k, 'v) gomap \<Rightarrow> 'k \<Rightarrow> 'v \<Rightarrow> ('k, 'v) gomap" where
  "mput m k v \<equiv> AList.update k v m"

abbreviation mdel :: "('k, 'v) gomap \<Rightarrow> 'k \<Rightarrow> ('k, 'v) gomap" where
  "mdel m k \<equiv> AList.delete k m"

definition wf_gomap :: "('k, 'v) gomap \<Rightarrow> bool" where
  "wf_gomap m \<longleftrightarrow> distinct (map fst m)"

lemma wf_gomap_Nil [simp, wf_intros]: "wf_gomap []"
  by (simp add: wf_gomap_def)

lemma wf_gomap_mput [simp, wf_intros]: "wf_gomap m \<Longrightarrow> wf_gomap (mput m k v)"
  by (simp add: wf_gomap_def distinct_update)

lemma wf_gomap_mdel [simp, wf_intros]: "wf_gomap m \<Longrightarrow> wf_gomap (mdel m k)"
  by (simp add: wf_gomap_def distinct_delete)

lemma wf_gomap_filter [simp, wf_intros]: "wf_gomap m \<Longrightarrow> wf_gomap (filter P m)"
  by (simp add: wf_gomap_def distinct_map_filter)

lemma mget_mput [simp, gomap_simps]: "mget (mput m k v) k' = (if k' = k then Some v else mget m k')"
  by (simp add: update_conv)

lemma mget_mdel [simp, gomap_simps]: "mget (mdel m k) k' = (if k' = k then None else mget m k')"
  by (simp add: delete_conv)

lemma mget_Some_iff: "wf_gomap m \<Longrightarrow> mget m k = Some v \<longleftrightarrow> (k, v) \<in> set m"
  by (simp add: wf_gomap_def)

lemma map_of_rev_wf: "distinct (map fst m) \<Longrightarrow> map_of (rev m) = map_of m"
  by (subst map_of_inject_set) (simp_all add: rev_map [symmetric])

lemma mget_filter:
  "wf_gomap m \<Longrightarrow> mget (filter (\<lambda>(k, v). P k v) m) k =
     (case mget m k of Some v \<Rightarrow> if P k v then Some v else None | None \<Rightarrow> None)"
proof (induction m)
  case Nil
  then show ?case by simp
next
  case (Cons a m)
  obtain k1 v1 where a: "a = (k1, v1)" by (cases a)
  from Cons.prems a have "wf_gomap m" and "mget m k1 = None"
    by (auto simp: wf_gomap_def map_of_eq_None_iff)
  with Cons.IH show ?case by (auto simp: a)
qed

lemma length_mput_new: "mget m k = None \<Longrightarrow> length (mput m k v) = Suc (length m)"
  by (induction m) (auto split: if_splits)

lemma length_mput_old: "mget m k = Some w \<Longrightarrow> length (mput m k v) = length m"
  by (induction m) (auto split: if_splits)

lemma length_mput_le: "length (mput m k v) \<le> Suc (length m)"
  by (cases "mget m k") (auto simp: length_mput_new length_mput_old)

lemma length_mdel_le: "length (mdel m k) \<le> length m"
  by (simp add: length_delete_le)

lemma length_mdel_present: "mget m k = Some v \<Longrightarrow> length (mdel m k) < length m"
proof (induction m)
  case Nil
  then show ?case by simp
next
  case (Cons a m)
  show ?case
  proof (cases "fst a = k")
    case True
    then show ?thesis using length_mdel_le [of k m] by (cases a) simp
  next
    case False
    with Cons show ?thesis by (cases a) (simp split: if_splits)
  qed
qed

section \<open>Time\<close>

type_synonym time = int
type_synonym duration = int

definition second :: duration where "second = 1000000000"

definition minute :: duration where "minute = 60 * second"

definition hour :: duration where "hour = 60 * minute"

text \<open>\<open>time.Time.Unix\<close>: whole seconds since the epoch, rounded down.\<close>

definition unix :: "time \<Rightarrow> int" where "unix t = t div second"

lemma unix_mono: "s \<le> t \<Longrightarrow> unix s \<le> unix t"
  by (simp add: unix_def second_def zdiv_mono1)

lemma unix_add_seconds: "unix (t + n * second) = unix t + n"
  by (simp add: unix_def second_def)

end
