(* ===== verification/Base58.thy ===== *)
theory Base58
  imports Go_Prelude
begin

text \<open>
  The base58 codec of \<^verbatim>\<open>go/internal/base58/base58.go\<close>: \<open>Encode\<close> and \<open>Decode\<close> with their pre-sized
  buffers, the carry loops that walk a buffer from the right, and the index expressions that would
  panic outside the buffer.

  The lemmas relate the carry loop to positional values: the loop computes \<open>m * value + carry\<close> in
  base \<open>b\<close>. With the size estimates 138/100 and 733/1000 of the code, neither function ever indexes
  outside its buffer; \<open>Decode\<close> inverts \<open>Encode\<close>, and \<open>Encode\<close> inverts \<open>Decode\<close>.
\<close>

section \<open>The code\<close>

definition alphabet :: string where
  "alphabet = ''123456789ABCDEFGHJKLMNPQRSTUVWXYZabcdefghijkmnopqrstuvwxyz''"

text \<open>
  \<open>reverse\<close>: the index of a byte in the alphabet, or none where the table holds -1. The table is
  filled in ascending order, so the last occurrence wins; the alphabet has no duplicates.
\<close>

definition reverse :: "char \<Rightarrow> nat option" where
  "reverse c = map_of (rev (zip alphabet [0..<length alphabet])) c"

text \<open>\<open>for zeros < len(b) && b[zeros] == 0 { zeros++ }\<close>, for any list and any leading element.\<close>

fun leading :: "'a \<Rightarrow> 'a list \<Rightarrow> nat" where
  "leading z [] = 0"
| "leading z (x # xs) = (if x = z then Suc (leading z xs) else 0)"

text \<open>
  The inner loop of both functions,
  \<^verbatim>\<open>for ; j > high || carry != 0; j-- { carry += m * int(buf[j]); buf[j] = byte(carry % b); carry /= b }\<close>,
  returning the buffer and the final \<open>j\<close>, which becomes the next \<open>high\<close>. An index outside the buffer
  panics.
\<close>

function carry_loop :: "nat \<Rightarrow> nat \<Rightarrow> int \<Rightarrow> int \<Rightarrow> nat \<Rightarrow> bytes \<Rightarrow> ('e, bytes \<times> int) go_result" where
  "carry_loop m b high j carry buf =
     (if j > high \<or> carry \<noteq> 0 then
        (if j < 0 \<or> j \<ge> int (length buf) then Panic
         else let c = carry + m * unat (buf ! nat j)
              in carry_loop m b high (j - 1) (c div b) (buf[nat j := word_of_nat (c mod b)]))
      else Ret (buf, j))"
  by pat_completeness auto
termination
  by (relation "measure (\<lambda>(m, b, high, j, carry, buf). nat (j + 1))") auto

declare carry_loop.simps [simp del]

text \<open>The outer loop of \<open>Encode\<close>, over \<open>b[zeros:]\<close>.\<close>

fun encode_loop :: "bytes \<Rightarrow> bytes \<Rightarrow> int \<Rightarrow> ('e, bytes) go_result" where
  "encode_loop [] buf high = Ret buf"
| "encode_loop (d # ds) buf high =
     go_bind (carry_loop 256 58 high (int (length buf) - 1) (unat d) buf)
       (\<lambda>(buf', high'). encode_loop ds buf' high')"

definition alphabet_at :: "byte \<Rightarrow> ('e, char) go_result" where
  "alphabet_at d = (if unat d < length alphabet then Ret (alphabet ! unat d) else Panic)"

fun alphabet_all :: "bytes \<Rightarrow> ('e, string) go_result" where
  "alphabet_all [] = Ret []"
| "alphabet_all (d # ds) = go_bind (alphabet_at d) (\<lambda>c. go_bind (alphabet_all ds) (\<lambda>cs. Ret (c # cs)))"

definition encode_size :: "nat \<Rightarrow> nat" where
  "encode_size n = n * 138 div 100 + 1"

definition Encode :: "bytes \<Rightarrow> (unit, string) go_result" where
  "Encode b =
     (let zeros = leading 0 b;
          size = encode_size (length b - zeros)
      in go_bind (encode_loop (drop zeros b) (replicate size 0) (int size - 1))
           (\<lambda>buf. let j = leading 0 buf
                  in go_bind (alphabet_all (drop j buf))
                       (\<lambda>out. Ret (replicate zeros (CHR ''1'') @ out))))"

text \<open>The outer loop of \<open>Decode\<close>; the error names the offending byte and its position.\<close>

datatype base58_error = InvalidCharacter char nat

fun decode_loop :: "string \<Rightarrow> nat \<Rightarrow> bytes \<Rightarrow> int \<Rightarrow> (base58_error, bytes) go_result" where
  "decode_loop [] i buf high = Ret buf"
| "decode_loop (c # cs) i buf high =
     (case reverse c of
        None \<Rightarrow> Err (InvalidCharacter c i)
      | Some d \<Rightarrow>
          go_bind (carry_loop 58 256 high (int (length buf) - 1) d buf)
            (\<lambda>(buf', high'). decode_loop cs (Suc i) buf' high'))"

definition decode_size :: "nat \<Rightarrow> nat" where
  "decode_size n = n * 733 div 1000 + 1"

definition Decode :: "string \<Rightarrow> (base58_error, bytes) go_result" where
  "Decode s =
     (let zeros = leading (CHR ''1'') s;
          size = decode_size (length s - zeros)
      in go_bind (decode_loop (drop zeros s) zeros (replicate size 0) (int size - 1))
           (\<lambda>buf. Ret (replicate zeros 0 @ drop (leading 0 buf) buf)))"

section \<open>Positional values\<close>

text \<open>Big-endian value of a digit list in base \<open>b\<close>.\<close>

definition pval :: "nat \<Rightarrow> nat list \<Rightarrow> nat" where
  "pval b ds = foldl (\<lambda>a d. a * b + d) 0 ds"

lemma pval_Nil [simp]: "pval b [] = 0"
  by (simp add: pval_def)

lemma pval_snoc [simp]: "pval b (ds @ [d]) = pval b ds * b + d"
  by (simp add: pval_def)

lemma pval_bound: "\<forall>d \<in> set ds. d < b \<Longrightarrow> pval b ds < b ^ length ds"
proof (induction ds rule: rev_induct)
  case Nil
  then show ?case by simp
next
  case (snoc d ds)
  then have "pval b ds + 1 \<le> b ^ length ds" and "d < b" by auto
  then have "pval b ds * b + d < (pval b ds + 1) * b" by simp
  also have "\<dots> \<le> b ^ length ds * b" using \<open>pval b ds + 1 \<le> _\<close> by (rule mult_le_mono1)
  finally show ?case by (simp add: mult.commute)
qed

lemma pval_zeros: "\<forall>d \<in> set ds. d = 0 \<Longrightarrow> pval b ds = 0"
  by (induction ds rule: rev_induct) auto

lemma pval_eq_0: "0 < b \<Longrightarrow> pval b ds = 0 \<Longrightarrow> d \<in> set ds \<Longrightarrow> d = 0"
  by (induction ds rule: rev_induct) auto

lemma pval_replicate_append: "pval b (replicate n 0 @ ds) = pval b ds"
proof (induction ds rule: rev_induct)
  case Nil
  then show ?case by (simp add: pval_zeros)
next
  case (snoc d ds)
  then show ?case by (simp flip: append_assoc)
qed

text \<open>A digit list without a leading zero is determined by its value.\<close>

definition canon_digits :: "nat \<Rightarrow> nat list \<Rightarrow> bool" where
  "canon_digits b ds \<longleftrightarrow> (\<forall>d \<in> set ds. d < b) \<and> (ds \<noteq> [] \<longrightarrow> hd ds \<noteq> 0)"

lemma canon_butlast: "canon_digits b (ds @ [d]) \<Longrightarrow> canon_digits b ds"
  by (cases ds) (auto simp: canon_digits_def)

lemma canon_pos: "0 < b \<Longrightarrow> canon_digits b ds \<Longrightarrow> ds \<noteq> [] \<Longrightarrow> 0 < pval b ds"
  by (metis canon_digits_def list.set_sel(1) neq0_conv pval_eq_0)

lemma canon_unique:
  assumes "0 < b" "canon_digits b xs" "canon_digits b ys" "pval b xs = pval b ys"
  shows "xs = ys"
  using assms(2-4)
proof (induction xs arbitrary: ys rule: rev_induct)
  case Nil
  then show ?case using canon_pos [OF assms(1), of ys] by fastforce
next
  case (snoc x xs)
  have "0 < pval b (xs @ [x])" using assms(1) snoc.prems(1) by (intro canon_pos) auto
  with snoc.prems(3) have "ys \<noteq> []" by auto
  then obtain zs z where ys: "ys = zs @ [z]" by (metis rev_exhaust)
  have lt: "x < b" "z < b" using snoc.prems(1,2) by (auto simp: canon_digits_def ys)
  have eq: "pval b xs * b + x = pval b zs * b + z" using snoc.prems(3) by (simp add: ys)
  have "x = z" using arg_cong [OF eq, of "\<lambda>n. n mod b"] lt by simp
  moreover have "pval b xs = pval b zs" using arg_cong [OF eq, of "\<lambda>n. n div b"] lt by simp
  ultimately show ?case
    using snoc.IH [of zs] snoc.prems(1,2) canon_butlast by (auto simp: ys)
qed

lemma pval_Cons: "pval b (d # ds) = d * b ^ length ds + pval b ds"
proof (induction ds rule: rev_induct)
  case Nil
  then show ?case by (simp add: pval_def)
next
  case (snoc e ds)
  have "pval b (d # ds @ [e]) = pval b (d # ds) * b + e"
    by (metis append_Cons pval_snoc)
  with snoc show ?case by (simp add: algebra_simps)
qed

section \<open>The carry loop\<close>

lemma unat_word_mod: "b \<le> 256 \<Longrightarrow> 0 < b \<Longrightarrow> unat (word_of_nat (c mod b) :: byte) = c mod b"
  by (simp add: unsigned_of_nat take_bit_nat_eq_self order_less_le_trans [OF mod_less_divisor])

text \<open>What the outer loops maintain: digits of the base, zeros up to and including \<open>high\<close>.\<close>

definition zero_upto :: "int \<Rightarrow> bytes \<Rightarrow> bool" where
  "zero_upto high buf \<longleftrightarrow> -1 \<le> high \<and> high < int (length buf) \<and>
     (\<forall>i < length buf. int i \<le> high \<longrightarrow> buf ! i = 0)"

definition digits :: "nat \<Rightarrow> bytes \<Rightarrow> bool" where
  "digits b buf \<longleftrightarrow> (\<forall>d \<in> set buf. unat d < b)"

abbreviation bval :: "nat \<Rightarrow> bytes \<Rightarrow> nat" where
  "bval b buf \<equiv> pval b (map unat buf)"

lemma carry_loop_gen:
  assumes b: "1 < b" "b \<le> 256" and high: "-1 \<le> high"
    and "\<forall>i < length xs. int i \<le> high \<longrightarrow> xs ! i = 0"
    and "m * bval b xs + c < b ^ length xs" and "digits b xs"
  shows "\<exists>xs' h. carry_loop m b high (int (length xs) - 1) c (xs @ ys) = (Ret (xs' @ ys, h) :: ('e, bytes \<times> int) go_result) \<and>
    length xs' = length xs \<and> digits b xs' \<and> bval b xs' = m * bval b xs + c \<and> zero_upto h xs'"
  using assms(4-6)
proof (induction xs arbitrary: c ys rule: rev_induct)
  case Nil
  then show ?case
    using high by (auto simp: carry_loop.simps digits_def zero_upto_def)
next
  case (snoc d xs)
  let ?j = "int (length xs)" and ?c = "c + m * unat d"
  show ?case
  proof (cases "?j > high \<or> c \<noteq> 0")
    case True
    let ?w = "word_of_nat (?c mod b) :: byte"
    have w: "unat ?w = ?c mod b" using b by (intro unat_word_mod) auto
    have "(m * bval b xs + ?c div b) * b + ?c mod b = m * bval b xs * b + ?c"
      by (simp add: algebra_simps)
    also have "\<dots> < b ^ length xs * b" using snoc.prems(2) by (simp add: algebra_simps)
    finally have "(m * bval b xs + ?c div b) * b < b ^ length xs * b" by linarith
    then have lt: "m * bval b xs + ?c div b < b ^ length xs" by simp
    have zs: "\<forall>i < length xs. int i \<le> high \<longrightarrow> xs ! i = 0"
      using snoc.prems(1) by (metis length_append_singleton less_Suc_eq nth_append)
    have dg: "digits b xs" using snoc.prems(3) by (simp add: digits_def)
    from snoc.IH [OF zs lt dg, of "?w # ys"] obtain xs' h where
      eq: "carry_loop m b high (?j - 1) (?c div b) (xs @ ?w # ys) = (Ret (xs' @ ?w # ys, h) :: ('e, bytes \<times> int) go_result)" and
      r: "length xs' = length xs" "digits b xs'" "bval b xs' = m * bval b xs + ?c div b" "zero_upto h xs'"
      by auto
    have "carry_loop m b high ?j c (xs @ d # ys) = (Ret (xs' @ ?w # ys, h) :: ('e, bytes \<times> int) go_result)"
      using True eq by (subst carry_loop.simps) (simp add: Let_def)
    moreover have "bval b (xs' @ [?w]) = m * bval b (xs @ [d]) + c"
      using r(3) w by (simp add: algebra_simps)
    moreover have "digits b (xs' @ [?w])" using r(2) w b by (simp add: digits_def)
    moreover have "zero_upto h (xs' @ [?w])" using r(4) by (auto simp: zero_upto_def nth_append)
    ultimately show ?thesis using r(1) by (intro exI [of _ "xs' @ [?w]"] exI [of _ h]) simp
  next
    case False
    have all0: "\<forall>i < length (xs @ [d]). (xs @ [d]) ! i = 0" using snoc.prems(1) False by auto
    then have "\<forall>e \<in> set (xs @ [d]). e = 0" by (metis in_set_conv_nth)
    then have "bval b (xs @ [d]) = 0" by (intro pval_zeros) auto
    moreover have "carry_loop m b high ?j c (xs @ d # ys) = (Ret (xs @ d # ys, ?j) :: ('e, bytes \<times> int) go_result)"
      using False by (subst carry_loop.simps) simp
    ultimately show ?thesis
      using False all0 snoc.prems(3)
      by (intro exI [of _ "xs @ [d]"] exI [of _ ?j]) (auto simp: zero_upto_def)
  qed
qed

lemma carry_loop_correct:
  assumes "1 < b" "b \<le> 256" "zero_upto high buf" "digits b buf" "m * bval b buf + c < b ^ length buf"
  shows "\<exists>buf' h. carry_loop m b high (int (length buf) - 1) c buf = (Ret (buf', h) :: ('e, bytes \<times> int) go_result) \<and>
    length buf' = length buf \<and> digits b buf' \<and> bval b buf' = m * bval b buf + c \<and> zero_upto h buf'"
  using carry_loop_gen [of b high buf m c "[]"] assms by (auto simp: zero_upto_def)

section \<open>The outer loops\<close>

lemma loop_room:
  assumes "v * m ^ length (d # ds) + pval m (d # ds) < (B :: nat)" and "0 < m"
  shows "m * v + d < B" and "(m * v + d) * m ^ length ds + pval m ds < B"
proof -
  show eq: "(m * v + d) * m ^ length ds + pval m ds < B"
    using assms(1) by (simp add: pval_Cons algebra_simps)
  have "m * v + d \<le> (m * v + d) * m ^ length ds" using assms(2) by simp
  then show "m * v + d < B" using eq by linarith
qed

lemma encode_loop_correct:
  assumes "zero_upto high buf" "digits 58 buf"
    and "bval 58 buf * 256 ^ length ds + bval 256 ds < 58 ^ length buf"
  shows "\<exists>buf'. encode_loop ds buf high = (Ret buf' :: ('e, bytes) go_result) \<and> length buf' = length buf \<and> digits 58 buf' \<and>
    bval 58 buf' = bval 58 buf * 256 ^ length ds + bval 256 ds"
  using assms
proof (induction ds arbitrary: buf high)
  case Nil
  then show ?case by simp
next
  case (Cons d ds)
  note room = loop_room [of "bval 58 buf" 256 "unat d" "map unat ds", simplified, OF Cons.prems(3) [simplified]]
  from carry_loop_correct [OF _ _ Cons.prems(1,2) room(1), where ?'e = 'e] obtain buf1 h where
    c: "carry_loop 256 58 high (int (length buf) - 1) (unat d) buf = (Ret (buf1, h) :: ('e, bytes \<times> int) go_result)"
      "length buf1 = length buf" "digits 58 buf1" "bval 58 buf1 = 256 * bval 58 buf + unat d" "zero_upto h buf1"
    by auto
  from Cons.IH [OF c(5,3)] room(2) show ?case
    by (auto simp: c pval_Cons algebra_simps)
qed

text \<open>The byte at each position of a string over the alphabet.\<close>

definition digit58 :: "char \<Rightarrow> nat" where
  "digit58 c = the (reverse c)"

lemma decode_loop_correct:
  assumes "zero_upto high buf" "digits 256 buf" "\<forall>c \<in> set s. reverse c \<noteq> None"
    and "bval 256 buf * 58 ^ length s + pval 58 (map digit58 s) < 256 ^ length buf"
  shows "\<exists>buf'. decode_loop s i buf high = Ret buf' \<and> length buf' = length buf \<and> digits 256 buf' \<and>
    bval 256 buf' = bval 256 buf * 58 ^ length s + pval 58 (map digit58 s)"
  using assms
proof (induction s arbitrary: i buf high)
  case Nil
  then show ?case by simp
next
  case (Cons d s)
  note room = loop_room [of "bval 256 buf" 58 "digit58 d" "map digit58 s", simplified, OF Cons.prems(4) [simplified]]
  from Cons.prems(3) have rd: "reverse d = Some (digit58 d)" by (auto simp: digit58_def)
  from carry_loop_correct [OF _ _ Cons.prems(1,2) room(1), where ?'e = base58_error] obtain buf1 h where
    c: "carry_loop 58 256 high (int (length buf) - 1) (digit58 d) buf = (Ret (buf1, h) :: (base58_error, bytes \<times> int) go_result)"
      "length buf1 = length buf" "digits 256 buf1" "bval 256 buf1 = 58 * bval 256 buf + digit58 d" "zero_upto h buf1"
    by auto
  from Cons.IH [OF c(5,3)] Cons.prems(3) room(2) show ?case
    by (auto simp: c rd pval_Cons algebra_simps)
qed

text \<open>The size estimates: \<open>log 256 / log 58 < 138/100\<close> and \<open>log 58 / log 256 < 733/1000\<close>.\<close>

lemma size_bound:
  assumes "(m :: nat) ^ q \<le> b ^ p" "0 < q" "0 < b"
  shows "m ^ n \<le> b ^ (n * p div q + 1)"
proof -
  have "n * p < q * (n * p div q + 1)"
    using assms(2) by (metis Suc_eq_plus1 dividend_less_times_div mult_Suc_right)
  then have le: "n * p \<le> q * (n * p div q + 1)" by simp
  have "(m ^ n) ^ q = (m ^ q) ^ n" by (simp flip: power_mult add: mult.commute)
  also have "\<dots> \<le> (b ^ p) ^ n" using assms(1) by (rule power_mono) simp
  also have "\<dots> = b ^ (n * p)" by (simp flip: power_mult add: mult.commute)
  also have "\<dots> \<le> b ^ (q * (n * p div q + 1))" using le assms(3) by (intro power_increasing) auto
  also have "\<dots> = (b ^ (n * p div q + 1)) ^ q" by (metis mult.commute power_mult)
  finally show ?thesis using assms(2) by (simp add: power_mono_iff)
qed

lemma encode_size_enough: "(256::nat) ^ n \<le> 58 ^ encode_size n"
  unfolding encode_size_def by (rule size_bound) simp_all

lemma decode_size_enough: "(58::nat) ^ n \<le> 256 ^ decode_size n"
proof -
  have "71 * (n * 52 div 71) \<le> n * 52" by simp
  then have "1000 * (n * 52 div 71) \<le> n * 733" by linarith
  then have le: "n * 52 div 71 + 1 \<le> decode_size n"
    by (simp add: decode_size_def less_eq_div_iff_mult_less_eq mult.commute)
  have "(58::nat) ^ n \<le> 256 ^ (n * 52 div 71 + 1)" by (rule size_bound) simp_all
  also have "\<dots> \<le> 256 ^ decode_size n" using le by (rule power_increasing) simp
  finally show ?thesis .
qed

section \<open>The alphabet\<close>

lemma length_alphabet [simp]: "length alphabet = 58"
  by (simp add: alphabet_def)

lemma distinct_alphabet: "distinct alphabet"
  by (simp add: alphabet_def)

lemma reverse_zip: "reverse c = map_of (zip alphabet [0..<58]) c"
proof -
  have "distinct (map fst (zip alphabet [0..<58]))" by (simp add: distinct_alphabet)
  then show ?thesis by (simp add: reverse_def map_of_rev_wf)
qed

lemma reverse_alphabet [simp]: "d < 58 \<Longrightarrow> reverse (alphabet ! d) = Some d"
  by (subst reverse_zip) (simp add: map_of_zip_nth distinct_alphabet)

lemma reverse_Some: "reverse c = Some d \<Longrightarrow> d < 58 \<and> alphabet ! d = c"
  by (auto simp: reverse_zip dest!: map_of_SomeD simp: set_zip)

lemma reverse_eq_None: "reverse c = None \<longleftrightarrow> c \<notin> set alphabet"
  by (simp add: reverse_zip map_of_zip_is_None)

lemma digit58_alphabet [simp]: "d < 58 \<Longrightarrow> digit58 (alphabet ! d) = d"
  by (simp add: digit58_def)

lemma alphabet_0: "alphabet ! 0 = CHR ''1''"
  by (simp add: alphabet_def)

lemma alphabet_eq_1: "d < 58 \<Longrightarrow> alphabet ! d = CHR ''1'' \<longleftrightarrow> d = 0"
  using nth_eq_iff_index_eq [OF distinct_alphabet, of d 0] by (simp add: alphabet_0)

lemma alphabet_all_Ret:
  "digits 58 ds \<Longrightarrow> alphabet_all ds = Ret (map (\<lambda>d. alphabet ! unat d) ds)"
  by (induction ds) (simp_all add: digits_def alphabet_at_def)

section \<open>Leading zeros\<close>

lemma drop_leading: "drop (leading z xs) xs = dropWhile (\<lambda>x. x = z) xs"
  by (induction xs) auto

lemma replicate_leading: "replicate (leading z xs) z @ drop (leading z xs) xs = xs"
  by (induction xs) auto

lemma leading_le: "leading z xs \<le> length xs"
  by (induction xs) auto

lemma leading_replicate_append:
  "ds = [] \<or> hd ds \<noteq> z \<Longrightarrow> leading z (replicate n z @ ds) = n"
  by (induction n) (cases ds, auto)

lemma pval_drop_leading: "pval b (map unat (drop (leading 0 xs) xs)) = bval b xs"
proof -
  have "bval b xs = pval b (map unat (replicate (leading 0 xs) 0 @ drop (leading 0 xs) xs))"
    by (simp only: replicate_leading)
  then show ?thesis by (simp add: pval_replicate_append)
qed

lemma canon_drop_leading: "digits b buf \<Longrightarrow> canon_digits b (map unat (drop (leading 0 buf) buf))"
proof -
  assume "digits b buf"
  moreover have "dropWhile (\<lambda>x. x = 0) buf \<noteq> [] \<Longrightarrow> hd (dropWhile (\<lambda>x. x = 0) buf) \<noteq> 0"
    using hd_dropWhile [of "\<lambda>x. x = 0" buf] by simp
  ultimately show ?thesis
    by (auto simp: canon_digits_def digits_def drop_leading hd_map unat_eq_0 dest: set_dropWhileD)
qed

lemma zero_upto_replicate: "zero_upto (int n - 1) (replicate n 0)"
  by (auto simp: zero_upto_def)

lemma digits_replicate: "0 < b \<Longrightarrow> digits b (replicate n 0)"
  by (auto simp: digits_def)

lemma pval_replicate [simp]: "pval b (replicate n 0) = 0"
  by (rule pval_zeros) auto

lemma digits_256: "digits 256 buf"
  using unsigned_less [where ?'a = nat and ?'b = 8] by (simp add: digits_def)

lemma pval_map_le: "\<forall>x \<in> set xs. f x < b \<Longrightarrow> pval b (map f xs) < b ^ length xs"
  using pval_bound [of "map f xs" b] by simp

section \<open>What the two functions compute\<close>

text \<open>The canonical base-58 digits of the value of \<open>b\<close>, behind one \<open>1\<close> per leading zero byte.\<close>

lemma Encode_spec:
  "\<exists>ds. Encode b = Ret (replicate (leading 0 b) (CHR ''1'') @ map ((!) alphabet) ds) \<and>
     canon_digits 58 ds \<and> pval 58 ds = bval 256 b"
proof -
  let ?t = "drop (leading 0 b) b" and ?n = "encode_size (length b - leading 0 b)"
  have "bval 256 ?t < 256 ^ length ?t"
    using digits_256 [of ?t] by (intro pval_map_le) (simp add: digits_def)
  also have "\<dots> \<le> 58 ^ ?n" using encode_size_enough by simp
  finally have "bval 256 ?t < 58 ^ ?n" .
  then obtain buf where
    buf: "encode_loop ?t (replicate ?n 0) (int ?n - 1) = (Ret buf :: (unit, bytes) go_result)"
      "digits 58 buf" "bval 58 buf = bval 256 ?t"
    using encode_loop_correct [OF zero_upto_replicate [of ?n] digits_replicate [of 58 ?n], where ds = ?t]
    by auto
  let ?d = "drop (leading 0 buf) buf"
  have "digits 58 ?d" using buf(2) by (auto simp: digits_def dest: in_set_dropD)
  then have "Encode b = Ret (replicate (leading 0 b) (CHR ''1'') @ map ((!) alphabet) (map unat ?d))"
    by (simp add: Encode_def Let_def buf(1) alphabet_all_Ret comp_def)
  moreover have "pval 58 (map unat ?d) = bval 256 b"
    by (simp only: pval_drop_leading buf(3))
  ultimately show ?thesis using canon_drop_leading [OF buf(2)] by blast
qed

lemma Decode_spec:
  assumes "set s \<subseteq> set alphabet"
  shows "\<exists>ds. Decode s = Ret (replicate (leading (CHR ''1'') s) 0 @ ds) \<and>
     canon_digits 256 (map unat ds) \<and> bval 256 ds = pval 58 (map digit58 s)"
proof -
  let ?z = "leading (CHR ''1'') s"
  let ?t = "drop ?z s" and ?n = "decode_size (length s - leading (CHR ''1'') s)"
  have rv: "\<forall>c \<in> set ?t. reverse c \<noteq> None"
    using assms by (auto simp: reverse_eq_None dest: in_set_dropD)
  then have "\<forall>c \<in> set ?t. digit58 c < 58" using reverse_Some by (fastforce simp: digit58_def)
  then have "pval 58 (map digit58 ?t) < 58 ^ length ?t" by (rule pval_map_le)
  also have "\<dots> \<le> 256 ^ ?n" using decode_size_enough by simp
  finally have "pval 58 (map digit58 ?t) < 256 ^ ?n" .
  then obtain buf where
    buf: "decode_loop ?t ?z (replicate ?n 0) (int ?n - 1) = Ret buf"
      "bval 256 buf = pval 58 (map digit58 ?t)"
    using decode_loop_correct [OF zero_upto_replicate [of ?n] digits_replicate [of 256 ?n] rv] by auto
  have "digit58 (CHR ''1'') = 0" using digit58_alphabet [of 0] by (simp add: alphabet_0)
  then have "map digit58 s = replicate ?z 0 @ map digit58 ?t"
    by (metis map_append map_replicate replicate_leading)
  then have "pval 58 (map digit58 s) = pval 58 (map digit58 ?t)"
    by (simp only: pval_replicate_append)
  moreover have "Decode s = Ret (replicate ?z 0 @ drop (leading 0 buf) buf)"
    by (simp add: Decode_def Let_def buf(1))
  ultimately show ?thesis
    using canon_drop_leading [OF digits_256, of buf]
    by (intro exI [of _ "drop (leading 0 buf) buf"]) (simp add: pval_drop_leading buf(2) del: drop_map)
qed

lemma less_mult_add: "0 < (p :: nat) \<Longrightarrow> a < a * p + p"
  by (cases p) simp_all

lemma room_step:
  assumes "v * 58 ^ Suc n + 58 ^ Suc n \<le> (B :: nat)" "e < 58"
  shows "(58 * v + e) * 58 ^ n + 58 ^ n \<le> B" and "58 * v + e < B"
proof -
  have "(58 * v + e + 1) * 58 ^ n \<le> (58 * v + 58) * 58 ^ n"
    using assms(2) by (intro mult_le_mono1) simp
  also have "\<dots> = v * 58 ^ Suc n + 58 ^ Suc n" by (simp add: algebra_simps)
  also have "\<dots> \<le> B" by (rule assms(1))
  finally show le: "(58 * v + e) * 58 ^ n + 58 ^ n \<le> B" by (simp add: algebra_simps)
  show "58 * v + e < B"
    using le less_mult_add [of "58 ^ n" "58 * v + e"] by simp
qed

lemma decode_loop_invalid:
  assumes "c \<in> set s" "reverse c = None"
    and "zero_upto high buf" "bval 256 buf * 58 ^ length s + 58 ^ length s \<le> 256 ^ length buf"
  shows "\<exists>i < length s. decode_loop s k buf high = Err (InvalidCharacter (s ! i) (k + i)) \<and>
    reverse (s ! i) = None \<and> (\<forall>d \<in> set (take i s). reverse d \<noteq> None)"
  using assms
proof (induction s arbitrary: k buf high)
  case Nil
  then show ?case by simp
next
  case (Cons d s)
  show ?case
  proof (cases "reverse d")
    case None
    then show ?thesis by auto
  next
    case (Some e)
    have e: "e < 58" using Some reverse_Some by blast
    note r = room_step [OF Cons.prems(4) [unfolded list.size(4) add_0_right add_Suc_right] e]
    from carry_loop_correct [OF _ _ Cons.prems(3) digits_256 r(2), where ?'e = base58_error] obtain buf1 h where
      c: "carry_loop 58 256 high (int (length buf) - 1) e buf = (Ret (buf1, h) :: (base58_error, bytes \<times> int) go_result)"
        "length buf1 = length buf" "bval 256 buf1 = 58 * bval 256 buf + e" "zero_upto h buf1"
      by auto
    have "c \<in> set s" using Cons.prems(1,2) Some by auto
    from Cons.IH [OF this Cons.prems(2) c(4), of "Suc k"] r(1) obtain i where
      "i < length s" "decode_loop s (Suc k) buf1 h = Err (InvalidCharacter (s ! i) (Suc k + i))"
      "reverse (s ! i) = None" "\<forall>d \<in> set (take i s). reverse d \<noteq> None"
      by (auto simp: c)
    then show ?thesis by (intro exI [of _ "Suc i"]) (simp add: Some c)
  qed
qed

lemma Decode_invalid:
  assumes "\<not> set s \<subseteq> set alphabet"
  shows "\<exists>i < length s. Decode s = Err (InvalidCharacter (s ! i) i) \<and>
    s ! i \<notin> set alphabet \<and> set (take i s) \<subseteq> set alphabet"
proof -
  let ?z = "leading (CHR ''1'') s"
  let ?t = "drop ?z s" and ?n = "decode_size (length s - leading (CHR ''1'') s)"
  have one: "CHR ''1'' \<in> set alphabet" by (simp add: alphabet_def)
  have sp: "set s = set (replicate ?z (CHR ''1'')) \<union> set ?t"
    by (metis replicate_leading set_append)
  then obtain c where c: "c \<in> set ?t" "reverse c = None"
    using assms one by (auto simp: reverse_eq_None split: if_splits)
  from decode_loop_invalid [OF c zero_upto_replicate [of ?n], of ?z] obtain i where
    i: "i < length ?t" "decode_loop ?t ?z (replicate ?n 0) (int ?n - 1) = Err (InvalidCharacter (?t ! i) (?z + i))"
      "reverse (?t ! i) = None" "\<forall>d \<in> set (take i ?t). reverse d \<noteq> None"
    using decode_size_enough by auto
  have "take (?z + i) s = replicate ?z (CHR ''1'') @ take i ?t"
    using take_append [of "?z + i" "replicate ?z (CHR ''1'')" ?t] by (simp add: replicate_leading)
  then have "set (take (?z + i) s) \<subseteq> set alphabet"
    using i(4) one by (auto simp: reverse_eq_None)
  moreover have "Decode s = Err (InvalidCharacter (s ! (?z + i)) (?z + i))"
    using i(1,2) by (simp add: Decode_def Let_def)
  ultimately show ?thesis
    using i(1,3) by (intro exI [of _ "?z + i"]) (simp add: reverse_eq_None)
qed

lemma digit58_inv: "c \<in> set alphabet \<Longrightarrow> digit58 c < 58 \<and> alphabet ! digit58 c = c"
  using reverse_Some [of c] by (cases "reverse c") (auto simp: digit58_def reverse_eq_None)

lemma pval_digit58: "pval 58 (map digit58 (drop (leading (CHR ''1'') s) s)) = pval 58 (map digit58 s)"
proof -
  have "digit58 (CHR ''1'') = 0" using digit58_alphabet [of 0] by (simp add: alphabet_0)
  then have "map digit58 s = replicate (leading (CHR ''1'') s) 0 @ map digit58 (drop (leading (CHR ''1'') s) s)"
    by (metis map_append map_replicate replicate_leading)
  then show ?thesis by (metis pval_replicate_append)
qed

lemma canon_digit58:
  assumes "set s \<subseteq> set alphabet"
  shows "canon_digits 58 (map digit58 (drop (leading (CHR ''1'') s) s))"
proof -
  let ?t = "drop (leading (CHR ''1'') s) s"
  have t: "set ?t \<subseteq> set alphabet" using assms by (auto dest: in_set_dropD)
  have "digit58 (hd ?t) \<noteq> 0" if "?t \<noteq> []"
  proof -
    have "hd ?t \<noteq> CHR ''1''"
      using hd_dropWhile [of "\<lambda>x. x = CHR ''1''" s] that by (simp add: drop_leading)
    moreover have "hd ?t \<in> set alphabet" using t that by (meson list.set_sel(1) subsetD)
    ultimately show ?thesis using digit58_inv [of "hd ?t"] alphabet_0 by metis
  qed
  moreover have "\<forall>c \<in> set ?t. digit58 c < 58" using t digit58_inv by blast
  ultimately show ?thesis by (auto simp: canon_digits_def hd_map)
qed

lemma Encode_roundtrip: "\<exists>s. Encode b = Ret s \<and> Decode s = Ret b"
proof -
  obtain ds where ds: "Encode b = Ret (replicate (leading 0 b) (CHR ''1'') @ map ((!) alphabet) ds)"
    "canon_digits 58 ds" "pval 58 ds = bval 256 b" using Encode_spec by blast
  let ?s = "replicate (leading 0 b) (CHR ''1'') @ map ((!) alphabet) ds"
  have lt: "\<forall>d \<in> set ds. d < 58" using ds(2) by (simp add: canon_digits_def)
  have lead: "leading (CHR ''1'') ?s = leading 0 b"
    using ds(2) lt by (intro leading_replicate_append) (auto simp: canon_digits_def hd_map alphabet_eq_1)
  have "alphabet ! 0 \<in> set alphabet" by (rule nth_mem) simp
  then have "set ?s \<subseteq> set alphabet" using lt by (auto simp: alphabet_0 nth_mem)
  then obtain es where es: "Decode ?s = Ret (replicate (leading 0 b) 0 @ es)"
    "canon_digits 256 (map unat es)" "bval 256 es = pval 58 (map digit58 ?s)"
    using Decode_spec [of ?s] by (auto simp: lead)
  have "map digit58 ?s = replicate (leading 0 b) 0 @ ds"
    using lt digit58_alphabet [of 0] by (simp add: alphabet_0 map_idI)
  then have "bval 256 es = bval 256 (drop (leading 0 b) b)"
    using es(3) ds(3) by (simp only: pval_replicate_append pval_drop_leading)
  then have "map unat es = map unat (drop (leading 0 b) b)"
    using canon_unique [OF _ es(2) canon_drop_leading [OF digits_256]] by simp
  then have "es = drop (leading 0 b) b" by (simp add: inj_map_eq_map [OF inj_unsigned])
  then show ?thesis using ds(1) es(1) by (simp add: replicate_leading)
qed

lemma Decode_valid:
  assumes "set s \<subseteq> set alphabet"
  shows "\<exists>b. Decode s = Ret b \<and> Encode b = Ret s"
proof -
  let ?z = "leading (CHR ''1'') s"
  obtain es where es: "Decode s = Ret (replicate ?z 0 @ es)" "canon_digits 256 (map unat es)"
    "bval 256 es = pval 58 (map digit58 s)" using Decode_spec [OF assms] by blast
  have lead: "leading 0 (replicate ?z 0 @ es) = ?z"
    using es(2) by (intro leading_replicate_append) (auto simp: canon_digits_def hd_map unat_eq_0)
  obtain ds where ds: "Encode (replicate ?z 0 @ es) = Ret (replicate ?z (CHR ''1'') @ map ((!) alphabet) ds)"
    "canon_digits 58 ds" "pval 58 ds = bval 256 es"
    using Encode_spec [of "replicate ?z 0 @ es"] by (auto simp: lead pval_replicate_append)
  have "map digit58 (drop ?z s) = ds"
    using canon_unique [OF _ canon_digit58 [OF assms] ds(2)] ds(3) es(3) by (simp add: pval_digit58)
  moreover have "\<forall>c \<in> set (drop ?z s). alphabet ! digit58 c = c"
    using assms digit58_inv by (blast dest: in_set_dropD)
  ultimately have "map ((!) alphabet) ds = drop ?z s" by (auto simp: comp_def intro!: map_idI)
  then show ?thesis using es(1) ds(1) by (simp add: replicate_leading)
qed

lemma Decode_Ret: "Decode s = Ret b \<Longrightarrow> set s \<subseteq> set alphabet \<and> Encode b = Ret s"
  using Decode_valid [of s] Decode_invalid [of s] by (cases "set s \<subseteq> set alphabet") auto

lemma leading_replicate: "leading z (replicate n z) = n"
  by (induction n) simp_all

text \<open>All-zero inputs, the smallest ids: a zero byte is the digit \<open>1\<close>.\<close>

lemma Decode_ones: "Decode (replicate n (CHR ''1'')) = Ret (replicate n 0)"
  by (simp add: Decode_def leading_replicate decode_size_def)

lemma Encode_zeros: "Encode (replicate n 0) = Ret (replicate n (CHR ''1''))"
  using Decode_Ret [OF Decode_ones] by simp

section \<open>Properties\<close>

text \<open>
  C27. \<open>Encode\<close> never panics and \<open>Decode\<close> inverts it: every byte sequence, leading zero bytes
  included, is recovered from its base58 string.
\<close>

theorem Decode_Encode: "\<exists>s. Encode b = Ret s \<and> Decode s = Ret b"
  by (rule Encode_roundtrip)

text \<open>
  \<open>Decode\<close> never panics: on a string over the alphabet it returns the bytes whose encoding is
  exactly that string (so two strings never decode to the same bytes), and on any other string it
  returns an error naming the first byte outside the alphabet and its position.
\<close>

theorem Decode_total:
  "case Decode s of
     Ret b \<Rightarrow> set s \<subseteq> set alphabet \<and> Encode b = Ret s
   | Err (InvalidCharacter c i) \<Rightarrow>
       i < length s \<and> c = s ! i \<and> c \<notin> set alphabet \<and> set (take i s) \<subseteq> set alphabet
   | Panic \<Rightarrow> False"
proof (cases "set s \<subseteq> set alphabet")
  case False
  then show ?thesis using Decode_invalid [OF False] by auto
next
  case True
  then show ?thesis using Decode_valid [OF True] by auto
qed

end
