(* ===== verification/Codec.thy ===== *)
theory Codec
  imports Go_Prelude
begin

text \<open>
  The text encodings of Go's standard library that the components use: decimal integers
  (\<open>strconv.Itoa\<close>, \<open>FormatInt\<close>), lower-case hexadecimal (\<open>encoding/hex\<close>), base64
  (\<open>base64.StdEncoding\<close>), the character classes of the components' regular expressions, and
  \<open>strings.HasPrefix\<close>, \<open>strings.TrimPrefix\<close>, \<open>strings.TrimSpace\<close> on byte strings.
  The lemmas are the round trips and the absence of separators that the signing formats rely on.
\<close>

section \<open>Decimal numbers\<close>

definition digit_char :: "nat \<Rightarrow> char" where
  "digit_char d = char_of (48 + d)"

fun dec_nat :: "nat \<Rightarrow> string" where
  "dec_nat n = (if n < 10 then [digit_char n] else dec_nat (n div 10) @ [digit_char (n mod 10)])"

declare dec_nat.simps [simp del]

definition itoa :: "int \<Rightarrow> string" where
  "itoa i = (if i < 0 then CHR ''-'' # dec_nat (nat (- i)) else dec_nat (nat i))"

definition digit_chars :: string where
  "digit_chars = ''0123456789''"

lemma of_digit_char: "d < 10 \<Longrightarrow> of_char (digit_char d) = (48 + d :: nat)"
  by (simp add: digit_char_def)

lemma digit_char_inject: "d < 10 \<Longrightarrow> e < 10 \<Longrightarrow> digit_char d = digit_char e \<longleftrightarrow> d = e"
  by (metis add_left_cancel of_digit_char)

lemma digit_char_less: "d < 10 \<Longrightarrow> digit_char d \<in> set digit_chars"
proof -
  have "\<forall>d \<in> set [0..<10]. digit_char d \<in> set digit_chars" by code_simp
  then show "d < 10 \<Longrightarrow> digit_char d \<in> set digit_chars" by simp
qed

lemma dec_nat_not_Nil [simp]: "dec_nat n \<noteq> []"
  by (subst dec_nat.simps) simp

lemma set_dec_nat: "set (dec_nat n) \<subseteq> set digit_chars"
proof (induction n rule: dec_nat.induct)
  case (1 n)
  then show ?case by (subst dec_nat.simps) (auto simp: digit_char_less)
qed

lemma dec_nat_inject [simp]: "dec_nat m = dec_nat n \<longleftrightarrow> m = n"
proof (induction m arbitrary: n rule: dec_nat.induct)
  case (1 m)
  show ?case
  proof
    assume eq: "dec_nat m = dec_nat n"
    have len: "dec_nat k = [digit_char k]" if "k < 10" for k
      using that by (simp add: dec_nat.simps)
    have app: "dec_nat k = dec_nat (k div 10) @ [digit_char (k mod 10)]" if "\<not> k < 10" for k
      using that by (simp add: dec_nat.simps [of k])
    show "m = n"
    proof (cases "m < 10"; cases "n < 10")
      assume "m < 10" "n < 10"
      then show ?thesis using eq by (simp add: len digit_char_inject)
    next
      assume "m < 10" "\<not> n < 10"
      then show ?thesis using eq by (simp add: len app dec_nat_not_Nil [symmetric])
    next
      assume "\<not> m < 10" "n < 10"
      then show ?thesis using eq by (simp add: len app)
    next
      assume a: "\<not> m < 10" "\<not> n < 10"
      then have "dec_nat (m div 10) = dec_nat (n div 10)" "digit_char (m mod 10) = digit_char (n mod 10)"
        using eq by (simp_all add: app)
      then have "m div 10 = n div 10" "m mod 10 = n mod 10"
        using "1.IH" [OF a(1)] by (simp_all add: digit_char_inject)
      then show ?thesis by (metis div_mult_mod_eq)
    qed
  qed simp
qed

lemma dec_nat_no_minus: "dec_nat n \<noteq> CHR ''-'' # s"
  using set_dec_nat [of n] by (auto simp: digit_chars_def)

lemma itoa_inject [simp]: "itoa i = itoa j \<longleftrightarrow> i = j"
  using dec_nat_no_minus by (auto simp: itoa_def) metis+

lemma set_itoa: "set (itoa i) \<subseteq> insert (CHR ''-'') (set digit_chars)"
  using set_dec_nat by (auto simp: itoa_def)

text \<open>The number a string of decimal digits denotes.\<close>

definition atoi :: "string \<Rightarrow> int" where
  "atoi s = int (foldl (\<lambda>a c. a * 10 + (of_char c - 48)) 0 s)"

lemma atoi_itoa: "0 \<le> i \<Longrightarrow> atoi (itoa i) = i"
proof -
  have "foldl (\<lambda>a c. a * 10 + (of_char c - 48)) 0 (dec_nat n) = n" for n
  proof (induction n rule: dec_nat.induct)
    case (1 n)
    then show ?case by (cases "n < 10") (simp_all add: dec_nat.simps [of n] of_digit_char)
  qed
  then show "0 \<le> i \<Longrightarrow> atoi (itoa i) = i" by (simp add: atoi_def itoa_def)
qed

section \<open>Hexadecimal\<close>

definition hex_chars :: string where
  "hex_chars = ''0123456789abcdef''"

definition nibble_char :: "nat \<Rightarrow> char" where
  "nibble_char n = hex_chars ! n"

fun hex_EncodeToString :: "bytes \<Rightarrow> string" where
  "hex_EncodeToString [] = []"
| "hex_EncodeToString (b # bs) =
     nibble_char (unat b div 16) # nibble_char (unat b mod 16) # hex_EncodeToString bs"

text \<open>\<open>hex.DecodeString\<close> also accepts upper-case digits; an odd length or another byte is an error.\<close>

definition hex_value :: "char \<Rightarrow> nat option" where
  "hex_value c =
     (let n = of_char c :: nat
      in if 48 \<le> n \<and> n \<le> 57 then Some (n - 48)
         else if 97 \<le> n \<and> n \<le> 102 then Some (n - 87)
         else if 65 \<le> n \<and> n \<le> 70 then Some (n - 55) else None)"

fun hex_DecodeString :: "string \<Rightarrow> bytes option" where
  "hex_DecodeString [] = Some []"
| "hex_DecodeString [c] = None"
| "hex_DecodeString (c # d # s) =
     (case (hex_value c, hex_value d) of
        (Some x, Some y) \<Rightarrow> map_option ((#) (word_of_nat (16 * x + y))) (hex_DecodeString s)
      | _ \<Rightarrow> None)"

lemma hex_value_nibble [simp]: "n < 16 \<Longrightarrow> hex_value (nibble_char n) = Some n"
proof -
  have all: "\<forall>n \<in> set [0..<16]. hex_value (nibble_char n) = Some n" by code_simp
  show "n < 16 \<Longrightarrow> hex_value (nibble_char n) = Some n" using all by simp
qed

lemma nibble_char_mem: "n < 16 \<Longrightarrow> nibble_char n \<in> set hex_chars"
  unfolding nibble_char_def by (rule nth_mem) (simp add: hex_chars_def)

lemma byte_bound: "unat (b :: byte) < 256"
  using unsigned_less [of b] by simp

lemma hex_Decode_Encode [simp]: "hex_DecodeString (hex_EncodeToString bs) = Some bs"
proof (induction bs)
  case Nil
  then show ?case by simp
next
  case (Cons b bs)
  have "unat b div 16 < 16" using byte_bound [of b] by (simp add: div_less_iff_less_mult)
  with Cons show ?case by simp
qed

interpretation hex_codec: codec hex_EncodeToString hex_DecodeString
  by unfold_locales (rule hex_Decode_Encode)

lemmas hex_EncodeToString_inject [simp] = hex_codec.enc_inject

lemma length_hex_EncodeToString [simp]: "length (hex_EncodeToString b) = 2 * length b"
  by (induction b) simp_all

lemma set_hex_EncodeToString: "set (hex_EncodeToString b) \<subseteq> set hex_chars"
proof (induction b)
  case (Cons b bs)
  have "unat b div 16 < 16" using byte_bound [of b] by (simp add: div_less_iff_less_mult)
  with Cons show ?case by (simp add: nibble_char_mem)
qed simp

lemma length_hex_DecodeString: "hex_DecodeString s = Some b \<Longrightarrow> length s = 2 * length b"
  by (induction s arbitrary: b rule: hex_DecodeString.induct) (auto split: option.splits)

section \<open>Base64\<close>

definition b64_chars :: string where
  "b64_chars = ''ABCDEFGHIJKLMNOPQRSTUVWXYZabcdefghijklmnopqrstuvwxyz0123456789+/''"

definition b64_char :: "nat \<Rightarrow> char" where
  "b64_char n = b64_chars ! n"

definition b64_value :: "char \<Rightarrow> nat option" where
  "b64_value c = map_of (zip b64_chars [0..<64]) c"

fun b64_EncodeToString :: "bytes \<Rightarrow> string" where
  "b64_EncodeToString [] = []"
| "b64_EncodeToString [a] =
     [b64_char (unat a div 4), b64_char (unat a mod 4 * 16), CHR ''='', CHR ''='']"
| "b64_EncodeToString [a, b] =
     [b64_char (unat a div 4), b64_char (unat a mod 4 * 16 + unat b div 16),
      b64_char (unat b mod 16 * 4), CHR ''='']"
| "b64_EncodeToString (a # b # c # r) =
     b64_char (unat a div 4) # b64_char (unat a mod 4 * 16 + unat b div 16) #
     b64_char (unat b mod 16 * 4 + unat c div 64) # b64_char (unat c mod 64) # b64_EncodeToString r"

text \<open>
  \<open>StdEncoding.DecodeString\<close> skips carriage returns and newlines, wants quanta of four characters,
  accepts one or two padding characters in the last quantum and, not being strict, ignores the
  unused low bits there.
\<close>

fun b64_quanta :: "string \<Rightarrow> bytes option" where
  "b64_quanta [] = Some []"
| "b64_quanta (a # b # c # d # r) =
     (case (b64_value a, b64_value b) of
        (Some x, Some y) \<Rightarrow>
          (if c = CHR ''='' then
             (if d = CHR ''='' \<and> r = [] then Some [word_of_nat (x * 4 + y div 16)] else None)
           else case b64_value c of
             None \<Rightarrow> None
           | Some z \<Rightarrow>
               (if d = CHR ''='' then
                  (if r = [] then Some [word_of_nat (x * 4 + y div 16), word_of_nat (y mod 16 * 16 + z div 4)] else None)
                else case b64_value d of
                  None \<Rightarrow> None
                | Some w \<Rightarrow>
                    map_option (\<lambda>t. word_of_nat (x * 4 + y div 16) # word_of_nat (y mod 16 * 16 + z div 4) #
                                     word_of_nat (z mod 4 * 64 + w) # t) (b64_quanta r)))
      | _ \<Rightarrow> None)"
| "b64_quanta _ = None"

definition b64_DecodeString :: "string \<Rightarrow> bytes option" where
  "b64_DecodeString s = b64_quanta (filter (\<lambda>c. c \<noteq> CHR 0x0A \<and> c \<noteq> CHR 0x0D) s)"

lemma length_b64_chars: "length b64_chars = 64"
  by (simp add: b64_chars_def)

lemma b64_value_char [simp]: "n < 64 \<Longrightarrow> b64_value (b64_char n) = Some n"
proof -
  have "distinct b64_chars" by (simp add: b64_chars_def)
  then show "n < 64 \<Longrightarrow> b64_value (b64_char n) = Some n"
    by (simp add: b64_value_def b64_char_def map_of_zip_nth length_b64_chars)
qed

lemma b64_char_mem: "n < 64 \<Longrightarrow> b64_char n \<in> set b64_chars"
  unfolding b64_char_def by (rule nth_mem) (simp add: length_b64_chars)

lemma b64_char_plain:
  assumes "n < 64"
  shows "b64_char n \<noteq> CHR ''=''" "b64_char n \<noteq> CHR 0x0A" "b64_char n \<noteq> CHR 0x0D"
proof -
  have "c \<in> set b64_chars \<Longrightarrow> c \<noteq> CHR ''='' \<and> c \<noteq> CHR 0x0A \<and> c \<noteq> CHR 0x0D" for c
    by (auto simp: b64_chars_def)
  with b64_char_mem [OF assms] show "b64_char n \<noteq> CHR ''=''" "b64_char n \<noteq> CHR 0x0A" "b64_char n \<noteq> CHR 0x0D"
    by auto
qed

lemma b64_group_bounds:
  fixes a b c :: byte
  shows "unat a div 4 < 64" "unat a mod 4 * 16 < 64" "unat a mod 4 * 16 + unat b div 16 < 64"
    "unat b mod 16 * 4 < 64" "unat b mod 16 * 4 + unat c div 64 < 64" "unat c mod 64 < 64"
  using byte_bound [of a] byte_bound [of b] byte_bound [of c] by auto

lemma b64_join:
  fixes b c :: byte
  shows "unat b div 16 div 16 = 0" "unat b div 16 mod 16 = unat b div 16"
    "unat c div 64 div 4 = 0" "unat c div 64 mod 4 = unat c div 64"
  using byte_bound [of b] byte_bound [of c] by auto

lemma b64_quanta_Encode: "b64_quanta (b64_EncodeToString bs) = Some bs"
  by (induction bs rule: b64_EncodeToString.induct)
    (simp_all add: b64_group_bounds b64_char_plain b64_join del: of_nat_add of_nat_mult)

lemma b64_plain: "filter (\<lambda>c. c \<noteq> CHR 0x0A \<and> c \<noteq> CHR 0x0D) (b64_EncodeToString bs) = b64_EncodeToString bs"
  by (induction bs rule: b64_EncodeToString.induct) (simp_all add: b64_group_bounds b64_char_plain)

lemma b64_Decode_Encode [simp]: "b64_DecodeString (b64_EncodeToString bs) = Some bs"
  by (simp add: b64_DecodeString_def b64_plain b64_quanta_Encode)

interpretation b64_codec: codec b64_EncodeToString b64_DecodeString
  by unfold_locales (rule b64_Decode_Encode)

section \<open>Character classes\<close>

definition is_digit :: "char \<Rightarrow> bool" where
  "is_digit c \<longleftrightarrow> (let n = of_char c :: nat in 48 \<le> n \<and> n \<le> 57)"

definition is_alnum :: "char \<Rightarrow> bool" where
  "is_alnum c \<longleftrightarrow> (let n = of_char c :: nat in 48 \<le> n \<and> n \<le> 57 \<or> 65 \<le> n \<and> n \<le> 90 \<or> 97 \<le> n \<and> n \<le> 122)"

definition is_lower_hex :: "char \<Rightarrow> bool" where
  "is_lower_hex c \<longleftrightarrow> (let n = of_char c :: nat in 48 \<le> n \<and> n \<le> 57 \<or> 97 \<le> n \<and> n \<le> 102)"

text \<open>The class \<^verbatim>\<open>[0-9A-Za-z._-]\<close>.\<close>

definition is_name_char :: "char \<Rightarrow> bool" where
  "is_name_char c \<longleftrightarrow> is_alnum c \<or> c = CHR ''.'' \<or> c = CHR ''_'' \<or> c = CHR ''-''"

section \<open>Strings\<close>

definition HasPrefix :: "string \<Rightarrow> string \<Rightarrow> bool" where
  "HasPrefix s p \<longleftrightarrow> take (length p) s = p"

definition TrimPrefix :: "string \<Rightarrow> string \<Rightarrow> string" where
  "TrimPrefix s p = (if HasPrefix s p then drop (length p) s else s)"

lemma HasPrefix_append [simp]: "HasPrefix (p @ s) p"
  by (simp add: HasPrefix_def)

lemma HasPrefix_iff: "HasPrefix s p \<longleftrightarrow> (\<exists>t. s = p @ t)"
  by (metis HasPrefix_append HasPrefix_def append_take_drop_id)

lemma TrimPrefix_append [simp]: "TrimPrefix (p @ s) p = s"
  by (simp add: TrimPrefix_def)

text \<open>The part before and after the first separator: the shape of every signing format.\<close>

lemma append_sep_inject:
  assumes "q \<notin> set a" "q \<notin> set a'" "a @ q # r = a' @ q # r'"
  shows "a = a' \<and> r = r'"
  using assms
proof (induction a arbitrary: a')
  case Nil
  then show ?case by (cases a') auto
next
  case (Cons x a)
  then show ?case by (cases a') auto
qed

lemma append_sep_inject_right:
  assumes "q \<notin> set r" "q \<notin> set r'" "a @ q # r = a' @ q # r'"
  shows "a = a' \<and> r = r'"
proof -
  have "rev r @ q # rev a = rev r' @ q # rev a'" using arg_cong [OF assms(3), of rev] by simp
  then show ?thesis using append_sep_inject [of q "rev r" "rev r'" "rev a" "rev a'"] assms(1,2) by simp
qed

end
