(* ===== verification/Identity.thy ===== *)
theory Identity
  imports Base58 Codec Sha256
begin

text \<open>
  The owner identity of \<^verbatim>\<open>go/internal/identity\<close>: the control proof over a challenge
  (\<^verbatim>\<open>auth.go\<close>), device bindings (\<^verbatim>\<open>binding.go\<close>), guest grants (\<^verbatim>\<open>grant.go\<close>) and machine
  revocations (\<^verbatim>\<open>revocation.go\<close>), with their validation, signing bytes, signing and verification.

  Ed25519 is a parameter: \<open>sign priv msg\<close> and \<open>verify pub msg sig\<close>, arguments of every
  definition that signs or verifies. \<open>json.Unmarshal\<close> into a wire record is a parameter
  \<open>unmarshal\<close> of the two parsers. Times are nanoseconds; the timestamps of the records are Go
  \<open>int64\<close> seconds, whose differences cannot wrap because validation admits positive values only.

  The lemmas show that the signing bytes of a record determine the record, that messages of
  different domains never coincide, that what a signer produces verifies, and that what verifies
  was signed for exactly that record.
\<close>

section \<open>Errors\<close>

datatype id_error =
    UnsupportedVersion int | OwnerNotKey | GuestNotKey | UnsafeDevice | BadX25519 | BadTimestamp
  | InvalidMachineID | InvalidScope | BadMode | NBNotPositive | NANotAfterNB | WindowExceedsCap | BadGID
  | BadOwnerKey | BadSignatureEncoding | SignatureDoesNotVerify | OwnerFieldMismatch
  | TTLNotPositive | TTLExceedsCap | NoEntropy | NotValidYet | Expired | InvalidRecord | BadJSON

text \<open>\<open>base58.Decode\<close> followed by the test for 32 bytes, the guard every verifier starts with.\<close>

definition key_of :: "string \<Rightarrow> bytes option" where
  "key_of s = (case Decode s of Ret b \<Rightarrow> if length b = 32 then Some b else None | _ \<Rightarrow> None)"

definition sig_of :: "string \<Rightarrow> bytes option" where
  "sig_of s = (case Decode s of Ret b \<Rightarrow> if length b = 64 then Some b else None | _ \<Rightarrow> None)"

section \<open>Signer and challenges: signer.go, auth.go\<close>

record Signer =
  Mnemonic :: string
  Priv :: bytes
  Pub :: bytes
  Address :: string

definition AuthDomain :: string where "AuthDomain = ''miranda/auth/v1''"

definition attachDomain :: string where "attachDomain = ''miranda/attach/v1''"

definition registrationDomain :: string where "registrationDomain = ''miranda/agent-registration/v1''"

definition authMessage :: "bytes \<Rightarrow> bytes" where
  "authMessage challenge = bytes_of AuthDomain @ challenge"

definition SignAuth :: "(bytes \<Rightarrow> bytes \<Rightarrow> bytes) \<Rightarrow> Signer \<Rightarrow> bytes \<Rightarrow> bytes" where
  "SignAuth sign s challenge = sign (Priv s) (authMessage challenge)"

definition VerifyAuth :: "(bytes \<Rightarrow> bytes \<Rightarrow> bytes \<Rightarrow> bool) \<Rightarrow> string \<Rightarrow> bytes \<Rightarrow> bytes \<Rightarrow> id_error option" where
  "VerifyAuth verify ownerID challenge sig =
     (case key_of ownerID of
        None \<Rightarrow> Some BadOwnerKey
      | Some pub \<Rightarrow>
          if length sig \<noteq> 64 \<or> \<not> verify pub (authMessage challenge) sig
          then Some SignatureDoesNotVerify else None)"

abbreviation nl :: char where "nl \<equiv> CHR 0x0A"

definition AttachChallenge :: "string \<Rightarrow> string \<Rightarrow> string \<Rightarrow> bytes" where
  "AttachChallenge session machineID sdp =
     bytes_of (attachDomain @ [nl] @ session @ [nl] @ machineID @ [nl] @
               hex_EncodeToString (sha256 (bytes_of sdp)))"

definition RegistrationChallenge :: "string \<Rightarrow> string \<Rightarrow> bytes" where
  "RegistrationChallenge machineID commitment =
     bytes_of (registrationDomain @ [nl] @ machineID @ [nl] @ commitment)"

section \<open>Bindings: binding.go\<close>

definition bindingDomain :: string where "bindingDomain = ''miranda/binding/v1''"

record Binding =
  bV :: int
  bWallet :: string
  bDevice :: string
  bX25519 :: string
  bTs :: int

record SignedBinding =
  sbBinding :: Binding
  sbSig :: string

text \<open>\<^verbatim>\<open>^[0-9A-Za-z._-]+$\<close> and \<^verbatim>\<open>^[0-9a-f]{64}$\<close>.\<close>

definition deviceRe :: "string \<Rightarrow> bool" where
  "deviceRe s \<longleftrightarrow> s \<noteq> [] \<and> list_all is_name_char s"

definition hex64Re :: "string \<Rightarrow> bool" where
  "hex64Re s \<longleftrightarrow> length s = 64 \<and> list_all is_lower_hex s"

definition validate_binding :: "Binding \<Rightarrow> id_error option" where
  "validate_binding b =
     (if bV b \<noteq> 1 then Some (UnsupportedVersion (bV b))
      else if key_of (bWallet b) = None then Some OwnerNotKey
      else if \<not> deviceRe (bDevice b) then Some UnsafeDevice
      else if \<not> hex64Re (bX25519 b) then Some BadX25519
      else if bTs b \<le> 0 then Some BadTimestamp
      else None)"

definition canonical_binding_text :: "Binding \<Rightarrow> string" where
  "canonical_binding_text b =
     ''{\"v\":'' @ itoa (bV b) @ '',\"wallet\":\"'' @ bWallet b @ ''\",\"device\":\"'' @ bDevice b @
     ''\",\"x25519\":\"'' @ bX25519 b @ ''\",\"ts\":'' @ itoa (bTs b) @ ''}''"

definition CanonicalBinding :: "Binding \<Rightarrow> id_error + string" where
  "CanonicalBinding b =
     (case validate_binding b of Some e \<Rightarrow> Inl e | None \<Rightarrow> Inr (canonical_binding_text b))"

definition bindingMessage :: "string \<Rightarrow> bytes" where
  "bindingMessage canonical = bytes_of bindingDomain @ bytes_of canonical"

definition encode58 :: "bytes \<Rightarrow> string" where
  "encode58 b = ret_val (Encode b)"

definition SignBinding ::
  "(bytes \<Rightarrow> bytes \<Rightarrow> bytes) \<Rightarrow> Signer \<Rightarrow> string \<Rightarrow> string \<Rightarrow> int \<Rightarrow> id_error + SignedBinding" where
  "SignBinding sign w device x25519 ts =
     (let b = \<lparr>bV = 1, bWallet = Address w, bDevice = device, bX25519 = x25519, bTs = ts\<rparr>
      in case CanonicalBinding b of
           Inl e \<Rightarrow> Inl e
         | Inr canon \<Rightarrow> Inr \<lparr>sbBinding = b, sbSig = encode58 (sign (Priv w) (bindingMessage canon))\<rparr>)"

definition VerifyBinding :: "(bytes \<Rightarrow> bytes \<Rightarrow> bytes \<Rightarrow> bool) \<Rightarrow> SignedBinding \<Rightarrow> id_error option" where
  "VerifyBinding verify sb =
     (case CanonicalBinding (sbBinding sb) of
        Inl e \<Rightarrow> Some e
      | Inr canon \<Rightarrow>
          (case key_of (bWallet (sbBinding sb)) of
             None \<Rightarrow> Some BadOwnerKey
           | Some pub \<Rightarrow>
               (case sig_of (sbSig sb) of
                  None \<Rightarrow> Some BadSignatureEncoding
                | Some sig \<Rightarrow>
                    if verify pub (bindingMessage canon) sig then None else Some SignatureDoesNotVerify)))"

definition JSON_binding :: "SignedBinding \<Rightarrow> id_error + string" where
  "JSON_binding sb =
     (case CanonicalBinding (sbBinding sb) of
        Inl e \<Rightarrow> Inl e
      | Inr canon \<Rightarrow> Inr (butlast canon @ '',\"sig\":\"'' @ sbSig sb @ ''\"}''))"

record wireBinding =
  wbV :: int
  wbWallet :: string
  wbDevice :: string
  wbX25519 :: string
  wbTs :: int
  wbSig :: string

definition ParseSignedBinding :: "(string \<Rightarrow> wireBinding option) \<Rightarrow> string \<Rightarrow> id_error + SignedBinding" where
  "ParseSignedBinding unmarshal data =
     (case unmarshal data of
        None \<Rightarrow> Inl BadJSON
      | Some w \<Rightarrow>
          Inr \<lparr>sbBinding = \<lparr>bV = wbV w, bWallet = wbWallet w, bDevice = wbDevice w,
                             bX25519 = wbX25519 w, bTs = wbTs w\<rparr>,
               sbSig = wbSig w\<rparr>)"

section \<open>Revocations: revocation.go\<close>

definition revocationDomain :: string where "revocationDomain = ''miranda/revocation/v1''"

text \<open>\<^verbatim>\<open>^[0-9A-Za-z._-]{1,128}$\<close>.\<close>

definition machineIDRe :: "string \<Rightarrow> bool" where
  "machineIDRe s \<longleftrightarrow> 1 \<le> length s \<and> length s \<le> 128 \<and> list_all is_name_char s"

record Revocation =
  rvV :: int
  rvOwnerID :: string
  rvMachineID :: string
  rvTS :: int
  rvSignature :: string

definition RevocationChallenge :: "string \<Rightarrow> int \<Rightarrow> bytes" where
  "RevocationChallenge machineID ts = bytes_of (revocationDomain @ [nl] @ machineID @ [nl] @ itoa ts)"

definition SignRevocation ::
  "(bytes \<Rightarrow> bytes \<Rightarrow> bytes) \<Rightarrow> Signer \<Rightarrow> string \<Rightarrow> time \<Rightarrow> id_error + Revocation" where
  "SignRevocation sign s machineID ts =
     (if \<not> machineIDRe machineID then Inl InvalidMachineID
      else if unix ts \<le> 0 then Inl BadTimestamp
      else Inr \<lparr>rvV = 1, rvOwnerID = Address s, rvMachineID = machineID, rvTS = unix ts,
                rvSignature = b64_EncodeToString (SignAuth sign s (RevocationChallenge machineID (unix ts)))\<rparr>)"

definition VerifyRevocation :: "(bytes \<Rightarrow> bytes \<Rightarrow> bytes \<Rightarrow> bool) \<Rightarrow> Revocation \<Rightarrow> id_error option" where
  "VerifyRevocation verify r =
     (if rvV r \<noteq> 1 \<or> \<not> machineIDRe (rvMachineID r) \<or> rvTS r \<le> 0 then Some InvalidRecord
      else case b64_DecodeString (rvSignature r) of
             None \<Rightarrow> Some BadSignatureEncoding
           | Some sig \<Rightarrow> VerifyAuth verify (rvOwnerID r) (RevocationChallenge (rvMachineID r) (rvTS r)) sig)"

section \<open>Grants: grant.go\<close>

definition grantDomain :: string where "grantDomain = ''miranda/grant/v1''"

definition GrantDefaultTTL :: duration where "GrantDefaultTTL = hour"

definition GrantMaxTTL :: duration where "GrantMaxTTL = 24 * hour"

definition GrantSkew :: duration where "GrantSkew = 5 * minute"

text \<open>\<^verbatim>\<open>^[0-9A-Za-z._-]{1,64}$\<close> and \<^verbatim>\<open>^[0-9a-f]{16}$\<close>.\<close>

definition scopeRe :: "string \<Rightarrow> bool" where
  "scopeRe s \<longleftrightarrow> 1 \<le> length s \<and> length s \<le> 64 \<and> list_all is_name_char s"

definition gidRe :: "string \<Rightarrow> bool" where
  "gidRe s \<longleftrightarrow> length s = 16 \<and> list_all is_lower_hex s"

record Grant =
  gV :: int
  gOwner :: string
  gMachine :: string
  gGuest :: string
  gScope :: string
  gMode :: string
  gNB :: int
  gNA :: int
  gGID :: string

record SignedGrant =
  sgGrant :: Grant
  sgSig :: string

definition validate_grant :: "Grant \<Rightarrow> id_error option" where
  "validate_grant g =
     (if gV g \<noteq> 1 then Some (UnsupportedVersion (gV g))
      else if key_of (gOwner g) = None then Some OwnerNotKey
      else if \<not> machineIDRe (gMachine g) then Some InvalidMachineID
      else if key_of (gGuest g) = None then Some GuestNotKey
      else if \<not> scopeRe (gScope g) then Some InvalidScope
      else if gMode g \<noteq> ''ro'' \<and> gMode g \<noteq> ''rw'' then Some BadMode
      else if gNB g \<le> 0 then Some NBNotPositive
      else if gNA g \<le> gNB g then Some NANotAfterNB
      else if gNA g - gNB g > (GrantMaxTTL + GrantSkew) div second then Some WindowExceedsCap
      else if \<not> gidRe (gGID g) then Some BadGID
      else None)"

definition canonical_grant_text :: "Grant \<Rightarrow> string" where
  "canonical_grant_text g =
     ''{\"v\":'' @ itoa (gV g) @ '',\"owner\":\"'' @ gOwner g @ ''\",\"machine\":\"'' @ gMachine g @
     ''\",\"guest\":\"'' @ gGuest g @ ''\",\"scope\":\"'' @ gScope g @ ''\",\"mode\":\"'' @ gMode g @
     ''\",\"nb\":'' @ itoa (gNB g) @ '',\"na\":'' @ itoa (gNA g) @ '',\"gid\":\"'' @ gGID g @ ''\"}''"

definition CanonicalGrant :: "Grant \<Rightarrow> id_error + string" where
  "CanonicalGrant g =
     (case validate_grant g of Some e \<Rightarrow> Inl e | None \<Rightarrow> Inr (canonical_grant_text g))"

definition grantMessage :: "string \<Rightarrow> bytes" where
  "grantMessage canonical = bytes_of grantDomain @ bytes_of canonical"

definition SignGrant :: "(bytes \<Rightarrow> bytes \<Rightarrow> bytes) \<Rightarrow> Signer \<Rightarrow> Grant \<Rightarrow> id_error + SignedGrant" where
  "SignGrant sign s g =
     (if gOwner g \<noteq> Address s then Inl OwnerFieldMismatch
      else case CanonicalGrant g of
             Inl e \<Rightarrow> Inl e
           | Inr canon \<Rightarrow> Inr \<lparr>sgGrant = g, sgSig = encode58 (sign (Priv s) (grantMessage canon))\<rparr>)"

text \<open>\<open>MintGrant\<close>; the argument \<open>rnd\<close> is what \<open>rand.Read\<close> puts into the 8-byte gid, or its failure.\<close>

definition MintGrant ::
  "(bytes \<Rightarrow> bytes \<Rightarrow> bytes) \<Rightarrow> bytes option \<Rightarrow> Signer \<Rightarrow> string \<Rightarrow> string \<Rightarrow> string \<Rightarrow> string \<Rightarrow>
   duration \<Rightarrow> time \<Rightarrow> id_error + SignedGrant" where
  "MintGrant sign rnd s machine guest scope mode ttl now =
     (if ttl \<le> 0 then Inl TTLNotPositive
      else if ttl > GrantMaxTTL then Inl TTLExceedsCap
      else case rnd of
             None \<Rightarrow> Inl NoEntropy
           | Some gid \<Rightarrow>
               SignGrant sign s
                 \<lparr>gV = 1, gOwner = Address s, gMachine = machine, gGuest = guest,
                  gScope = (if scope = [] then ''main'' else scope),
                  gMode = (if mode = [] then ''ro'' else mode),
                  gNB = unix (now - GrantSkew), gNA = unix (now + ttl),
                  gGID = hex_EncodeToString gid\<rparr>)"

definition VerifyGrant :: "(bytes \<Rightarrow> bytes \<Rightarrow> bytes \<Rightarrow> bool) \<Rightarrow> SignedGrant \<Rightarrow> id_error option" where
  "VerifyGrant verify sg =
     (case CanonicalGrant (sgGrant sg) of
        Inl e \<Rightarrow> Some e
      | Inr canon \<Rightarrow>
          (case key_of (gOwner (sgGrant sg)) of
             None \<Rightarrow> Some BadOwnerKey
           | Some pub \<Rightarrow>
               (case sig_of (sgSig sg) of
                  None \<Rightarrow> Some BadSignatureEncoding
                | Some sig \<Rightarrow>
                    if verify pub (grantMessage canon) sig then None else Some SignatureDoesNotVerify)))"

definition ValidAt :: "Grant \<Rightarrow> time \<Rightarrow> id_error option" where
  "ValidAt g now =
     (let t = unix now
      in if t < gNB g then Some NotValidYet else if t > gNA g then Some Expired else None)"

definition JSON_grant :: "SignedGrant \<Rightarrow> id_error + string" where
  "JSON_grant sg =
     (case CanonicalGrant (sgGrant sg) of
        Inl e \<Rightarrow> Inl e
      | Inr canon \<Rightarrow> Inr (butlast canon @ '',\"sig\":\"'' @ sgSig sg @ ''\"}''))"

record wireGrant =
  wgV :: int
  wgOwner :: string
  wgMachine :: string
  wgGuest :: string
  wgScope :: string
  wgMode :: string
  wgNB :: int
  wgNA :: int
  wgGID :: string
  wgSig :: string

definition ParseSignedGrant :: "(string \<Rightarrow> wireGrant option) \<Rightarrow> string \<Rightarrow> id_error + SignedGrant" where
  "ParseSignedGrant unmarshal data =
     (case unmarshal data of
        None \<Rightarrow> Inl BadJSON
      | Some w \<Rightarrow>
          Inr \<lparr>sgGrant = \<lparr>gV = wgV w, gOwner = wgOwner w, gMachine = wgMachine w, gGuest = wgGuest w,
                           gScope = wgScope w, gMode = wgMode w, gNB = wgNB w, gNA = wgNA w, gGID = wgGID w\<rparr>,
               sgSig = wgSig w\<rparr>)"

section \<open>Keys and characters\<close>

lemma key_of_Some:
  "key_of s = Some k \<longleftrightarrow> Decode s = Ret k \<and> length k = 32"
  by (auto simp: key_of_def split: go_result.splits if_splits)

lemma key_of_alphabet: "key_of s = Some k \<Longrightarrow> set s \<subseteq> set alphabet"
  using Decode_Ret by (auto simp: key_of_Some)

lemma key_of_inject: "key_of s = Some k \<Longrightarrow> key_of t = Some k \<Longrightarrow> s = t"
  by (metis Decode_Ret go_result.inject(1) key_of_Some)

lemma Decode_encode58 [simp]: "Decode (encode58 b) = Ret b"
  using Encode_roundtrip [of b] by (auto simp: encode58_def)

lemma key_of_encode58: "length b = 32 \<Longrightarrow> key_of (encode58 b) = Some b"
  by (simp add: key_of_def)

lemma sig_of_encode58: "length b = 64 \<Longrightarrow> sig_of (encode58 b) = Some b"
  by (simp add: sig_of_def)

abbreviation qt :: char where "qt \<equiv> CHR 0x22"

lemma qt_key: "key_of s = Some k \<Longrightarrow> qt \<notin> set s"
  by (drule key_of_alphabet) (auto simp: alphabet_def)

lemma qt_name: "list_all is_name_char s \<Longrightarrow> qt \<notin> set s"
  by (auto simp: list_all_iff is_name_char_def is_alnum_def)

lemma nl_name: "list_all is_name_char s \<Longrightarrow> nl \<notin> set s"
  by (auto simp: list_all_iff is_name_char_def is_alnum_def)

lemma qt_hex: "list_all is_lower_hex s \<Longrightarrow> qt \<notin> set s"
  by (auto simp: list_all_iff is_lower_hex_def)

lemma quoted_inject:
  "qt \<notin> set a \<Longrightarrow> qt \<notin> set a' \<Longrightarrow> a @ qt # r = a' @ qt # r' \<longleftrightarrow> a = a' \<and> r = r'"
  using append_sep_inject [of qt a a'] by auto

lemma itoa_comma_inject: "itoa i @ CHR '','' # r = itoa j @ CHR '','' # r' \<longleftrightarrow> i = j \<and> r = r'"
proof -
  have "CHR '','' \<notin> set (itoa k)" for k using set_itoa [of k] by (auto simp: digit_chars_def)
  then show ?thesis using append_sep_inject [of "CHR '',''" "itoa i" "itoa j"] by auto
qed

section \<open>Signing bytes determine the record\<close>

lemma validate_grant_None:
  "validate_grant g = None \<Longrightarrow>
     gV g = 1 \<and> qt \<notin> set (gOwner g) \<and> qt \<notin> set (gMachine g) \<and> qt \<notin> set (gGuest g) \<and>
     qt \<notin> set (gScope g) \<and> qt \<notin> set (gMode g) \<and> qt \<notin> set (gGID g)"
  by (auto simp: validate_grant_def machineIDRe_def scopeRe_def gidRe_def qt_name qt_hex
      split: if_splits dest: qt_key)

lemma canonical_grant_inject:
  assumes "validate_grant g = None" "validate_grant g' = None"
    and "canonical_grant_text g = canonical_grant_text g'"
  shows "g = g'"
  using assms(3) validate_grant_None [OF assms(1)] validate_grant_None [OF assms(2)]
  by (intro Grant.equality) (auto simp: canonical_grant_text_def quoted_inject itoa_comma_inject)

lemma validate_binding_None:
  "validate_binding b = None \<Longrightarrow>
     bV b = 1 \<and> qt \<notin> set (bWallet b) \<and> qt \<notin> set (bDevice b) \<and> qt \<notin> set (bX25519 b)"
  by (auto simp: validate_binding_def deviceRe_def hex64Re_def qt_name qt_hex
      split: if_splits dest: qt_key)

lemma canonical_binding_inject:
  assumes "validate_binding b = None" "validate_binding b' = None"
    and "canonical_binding_text b = canonical_binding_text b'"
  shows "b = b'"
  using assms(3) validate_binding_None [OF assms(1)] validate_binding_None [OF assms(2)]
  by (intro Binding.equality) (auto simp: canonical_binding_text_def quoted_inject)

lemma CanonicalGrant_Inr:
  "CanonicalGrant g = Inr c \<longleftrightarrow> validate_grant g = None \<and> c = canonical_grant_text g"
  by (auto simp: CanonicalGrant_def split: option.splits)

lemma CanonicalBinding_Inr:
  "CanonicalBinding b = Inr c \<longleftrightarrow> validate_binding b = None \<and> c = canonical_binding_text b"
  by (auto simp: CanonicalBinding_def split: option.splits)

lemma message_domains [simp]:
  "authMessage c \<noteq> bindingMessage x" "authMessage c \<noteq> grantMessage y" "bindingMessage x \<noteq> grantMessage y"
  "bindingMessage x \<noteq> authMessage c" "grantMessage y \<noteq> authMessage c" "grantMessage y \<noteq> bindingMessage x"
  by (simp_all add: authMessage_def bindingMessage_def grantMessage_def AuthDomain_def bindingDomain_def
      grantDomain_def bytes_of_def byte_of_def)

lemma message_inject [simp]:
  "authMessage c = authMessage c' \<longleftrightarrow> c = c'" "bindingMessage x = bindingMessage x' \<longleftrightarrow> x = x'"
  "grantMessage y = grantMessage y' \<longleftrightarrow> y = y'"
  by (simp_all add: authMessage_def bindingMessage_def grantMessage_def)

section \<open>Verification\<close>

lemma VerifyGrant_None:
  "VerifyGrant verify sg = None \<longleftrightarrow>
     validate_grant (sgGrant sg) = None \<and>
     (\<exists>pub sig. key_of (gOwner (sgGrant sg)) = Some pub \<and> sig_of (sgSig sg) = Some sig \<and>
        verify pub (grantMessage (canonical_grant_text (sgGrant sg))) sig)"
  by (auto simp: VerifyGrant_def CanonicalGrant_def split: option.splits)

lemma VerifyBinding_None:
  "VerifyBinding verify sb = None \<longleftrightarrow>
     validate_binding (sbBinding sb) = None \<and>
     (\<exists>pub sig. key_of (bWallet (sbBinding sb)) = Some pub \<and> sig_of (sbSig sb) = Some sig \<and>
        verify pub (bindingMessage (canonical_binding_text (sbBinding sb))) sig)"
  by (auto simp: VerifyBinding_def CanonicalBinding_def split: option.splits)

lemma VerifyAuth_None:
  "VerifyAuth verify owner c sig = None \<longleftrightarrow>
     (\<exists>pub. key_of owner = Some pub \<and> length sig = 64 \<and> verify pub (authMessage c) sig)"
  by (auto simp: VerifyAuth_def split: option.splits)

text \<open>What one owner has signed, and the bytes each act puts under the key.\<close>

datatype owner_act = ActAuth bytes | ActBinding Binding | ActGrant Grant

fun act_message :: "owner_act \<Rightarrow> bytes option" where
  "act_message (ActAuth c) = Some (authMessage c)"
| "act_message (ActBinding b) =
     (case CanonicalBinding b of Inl e \<Rightarrow> None | Inr c \<Rightarrow> Some (bindingMessage c))"
| "act_message (ActGrant g) =
     (case CanonicalGrant g of Inl e \<Rightarrow> None | Inr c \<Rightarrow> Some (grantMessage c))"

lemma act_message_Some:
  "act_message a = Some (authMessage c) \<Longrightarrow> a = ActAuth c"
  "act_message a = Some (bindingMessage x) \<Longrightarrow> \<exists>b. a = ActBinding b \<and> CanonicalBinding b = Inr x"
  "act_message a = Some (grantMessage y) \<Longrightarrow> \<exists>g. a = ActGrant g \<and> CanonicalGrant g = Inr y"
  by (cases a; simp split: sum.splits)+

section \<open>Challenges\<close>

lemma nl_hex: "nl \<notin> set (hex_EncodeToString b)"
  using set_hex_EncodeToString [of b] by (auto simp: hex_chars_def)

lemma nl_itoa: "nl \<notin> set (itoa i)"
  using set_itoa [of i] by (auto simp: digit_chars_def)

lemma AttachChallenge_inject:
  assumes "AttachChallenge s m d = AttachChallenge s' m' d'" "nl \<notin> set m" "nl \<notin> set m'"
  shows "s = s' \<and> m = m' \<and> sha256 (bytes_of d) = sha256 (bytes_of d')"
proof -
  from assms(1) have "(s @ nl # m) @ nl # hex_EncodeToString (sha256 (bytes_of d)) =
      (s' @ nl # m') @ nl # hex_EncodeToString (sha256 (bytes_of d'))"
    by (simp add: AttachChallenge_def)
  then have 1: "s @ nl # m = s' @ nl # m'" and
      2: "hex_EncodeToString (sha256 (bytes_of d)) = hex_EncodeToString (sha256 (bytes_of d'))"
    using append_sep_inject_right [OF nl_hex nl_hex] by blast+
  from 1 have "s = s' \<and> m = m'" using append_sep_inject_right [OF assms(2,3)] by blast
  with 2 show ?thesis by simp
qed

lemma RevocationChallenge_inject:
  assumes "RevocationChallenge m t = RevocationChallenge m' t'"
  shows "m = m' \<and> t = t'"
proof -
  from assms have "m @ nl # itoa t = m' @ nl # itoa t'" by (simp add: RevocationChallenge_def)
  then show ?thesis using append_sep_inject_right [OF nl_itoa nl_itoa] by fastforce
qed

lemma RegistrationChallenge_inject:
  assumes "RegistrationChallenge m c = RegistrationChallenge m' c'" "nl \<notin> set m" "nl \<notin> set m'"
  shows "m = m' \<and> c = c'"
proof -
  from assms(1) have "m @ nl # c = m' @ nl # c'" by (simp add: RegistrationChallenge_def)
  then show ?thesis using append_sep_inject [OF assms(2,3)] by blast
qed

lemma challenge_kinds [simp]:
  "AttachChallenge s m d \<noteq> RevocationChallenge m' t" "AttachChallenge s m d \<noteq> RegistrationChallenge m' c"
  "RegistrationChallenge m c \<noteq> RevocationChallenge m' t"
  by (simp_all add: AttachChallenge_def RevocationChallenge_def RegistrationChallenge_def attachDomain_def
      revocationDomain_def registrationDomain_def bytes_of_def byte_of_def)

section \<open>Minting\<close>

text \<open>What the code relies on of Ed25519: a signature has 64 bytes and verifies under the signer's key.\<close>

definition signs_for :: "(bytes \<Rightarrow> bytes \<Rightarrow> bytes) \<Rightarrow> (bytes \<Rightarrow> bytes \<Rightarrow> bytes \<Rightarrow> bool) \<Rightarrow> Signer \<Rightarrow> bool" where
  "signs_for sign verify s \<longleftrightarrow>
     length (Pub s) = 32 \<and> Address s = encode58 (Pub s) \<and>
     (\<forall>m. length (sign (Priv s) m) = 64 \<and> verify (Pub s) m (sign (Priv s) m))"

lemma signs_for_key: "signs_for sign verify s \<Longrightarrow> key_of (Address s) = Some (Pub s)"
  by (simp add: signs_for_def key_of_encode58)

lemma VerifyAuth_SignAuth: "signs_for sign verify s \<Longrightarrow> VerifyAuth verify (Address s) c (SignAuth sign s c) = None"
  by (simp add: VerifyAuth_None signs_for_key SignAuth_def) (simp add: signs_for_def)

lemma SignGrant_verifies:
  assumes "signs_for sign verify s" "gOwner g = Address s" "validate_grant g = None"
  shows "\<exists>sg. SignGrant sign s g = Inr sg \<and> sgGrant sg = g \<and> VerifyGrant verify sg = None"
  using assms signs_for_key [OF assms(1)]
  by (auto simp: SignGrant_def CanonicalGrant_def VerifyGrant_None sig_of_encode58 signs_for_def)

lemma mint_window:
  assumes "ttl \<le> GrantMaxTTL"
  shows "unix (now + ttl) - unix (now - GrantSkew) \<le> (GrantMaxTTL + GrantSkew) div second"
proof -
  have "unix (now + ttl) \<le> unix (now + 86400 * second)"
    using assms by (intro unix_mono) (simp add: GrantMaxTTL_def hour_def minute_def)
  then have "unix (now + ttl) \<le> unix now + 86400" by (simp only: unix_add_seconds)
  moreover have "unix (now - GrantSkew) = unix now - 300"
    using unix_add_seconds [of now "-300"] by (simp add: GrantSkew_def minute_def)
  ultimately show ?thesis
    by (simp add: GrantMaxTTL_def hour_def) (simp add: GrantSkew_def minute_def second_def)
qed

lemma mint_nb_na:
  assumes "0 < ttl" "GrantSkew + second \<le> now"
  shows "0 < unix (now - GrantSkew)" "unix (now - GrantSkew) < unix (now + ttl)"
proof -
  have "unix second \<le> unix (now - GrantSkew)" using assms(2) by (intro unix_mono) simp
  then show "0 < unix (now - GrantSkew)" by (simp add: unix_def second_def)
  have "unix (now - GrantSkew) = unix now - 300"
    using unix_add_seconds [of now "-300"] by (simp add: GrantSkew_def minute_def)
  moreover have "unix now \<le> unix (now + ttl)" using assms(1) by (intro unix_mono) simp
  ultimately show "unix (now - GrantSkew) < unix (now + ttl)" by simp
qed

lemma gidRe_hex: "length gid = 8 \<Longrightarrow> gidRe (hex_EncodeToString gid)"
proof -
  have "\<forall>c \<in> set hex_chars. is_lower_hex c" by code_simp
  then have "list_all is_lower_hex (hex_EncodeToString gid)"
    using set_hex_EncodeToString [of gid] by (auto simp: list_all_iff)
  then show "length gid = 8 \<Longrightarrow> gidRe (hex_EncodeToString gid)" by (simp add: gidRe_def)
qed

section \<open>What verifies was signed\<close>

text \<open>
  The contract of a kind of signed record: its text determines it among the valid ones, the signing bytes determine the text, and only an act of that kind
  puts them under the key. Then a valid record whose signing bytes verify under an unforgeable key was signed.
\<close>

locale signed_record =
  fixes valid :: "'r \<Rightarrow> bool"
    and text_of :: "'r \<Rightarrow> 't"
    and message :: "'t \<Rightarrow> bytes"
    and act :: "'r \<Rightarrow> owner_act"
  assumes text_inject: "valid r \<Longrightarrow> valid r' \<Longrightarrow> text_of r = text_of r' \<Longrightarrow> r = r'"
    and only_act: "act_message a = Some (message t) \<Longrightarrow> \<exists>r. a = act r \<and> valid r \<and> text_of r = t"
begin

lemma was_signed:
  assumes "\<And>m sig. verify pub m sig \<Longrightarrow> \<exists>a \<in> acts. act_message a = Some m"
    and "verify pub (message (text_of r)) sig" "valid r"
  shows "act r \<in> acts"
proof -
  from assms(1,2) obtain a where "a \<in> acts" "act_message a = Some (message (text_of r))" by blast
  with only_act text_inject assms(3) show ?thesis by metis
qed

end

interpretation grants: signed_record "\<lambda>g. validate_grant g = None" canonical_grant_text grantMessage ActGrant
  by unfold_locales (blast intro: canonical_grant_inject, metis act_message_Some(3) CanonicalGrant_Inr)

interpretation bindings: signed_record "\<lambda>b. validate_binding b = None" canonical_binding_text bindingMessage ActBinding
  by unfold_locales (blast intro: canonical_binding_inject, metis act_message_Some(2) CanonicalBinding_Inr)

interpretation challenges: signed_record "\<lambda>c. True" "\<lambda>c. c" authMessage ActAuth
  by unfold_locales (use act_message_Some(1) in auto)

lemma grant_signed:
  assumes "\<And>m sig. verify pub m sig \<Longrightarrow> \<exists>a \<in> acts. act_message a = Some m"
    and "VerifyGrant verify sg = None" "key_of (gOwner (sgGrant sg)) = Some pub"
  shows "ActGrant (sgGrant sg) \<in> acts"
  using grants.was_signed [OF assms(1)] assms(2,3) by (auto simp: VerifyGrant_None)

lemma binding_signed:
  assumes "\<And>m sig. verify pub m sig \<Longrightarrow> \<exists>a \<in> acts. act_message a = Some m"
    and "VerifyBinding verify sb = None" "key_of (bWallet (sbBinding sb)) = Some pub"
  shows "ActBinding (sbBinding sb) \<in> acts"
  using bindings.was_signed [OF assms(1)] assms(2,3) by (auto simp: VerifyBinding_None)

lemma auth_signed:
  assumes "\<And>m sig. verify pub m sig \<Longrightarrow> \<exists>a \<in> acts. act_message a = Some m"
    and "VerifyAuth verify owner c sig = None" "key_of owner = Some pub"
  shows "ActAuth c \<in> acts"
  using challenges.was_signed [OF assms(1)] assms(2,3) by (auto simp: VerifyAuth_None)

section \<open>Properties\<close>

text \<open>
  C13. Authenticity across the owner's signing uses: if every message that verifies under the owner's
  key is one the owner signed (as a challenge, a binding or a grant), then a grant that
  \<open>VerifyGrant\<close> accepts is exactly a grant the owner signed, and likewise for bindings and for
  challenge proofs. No signature made for one purpose, or for a record differing in any field,
  is accepted for another.
\<close>

theorem verified_was_signed:
  assumes unforgeable: "\<And>m sig. verify pub m sig \<Longrightarrow> \<exists>a \<in> acts. act_message a = Some m"
  shows "(VerifyGrant verify sg = None \<and> key_of (gOwner (sgGrant sg)) = Some pub \<longrightarrow> ActGrant (sgGrant sg) \<in> acts) \<and>
    (VerifyBinding verify sb = None \<and> key_of (bWallet (sbBinding sb)) = Some pub \<longrightarrow> ActBinding (sbBinding sb) \<in> acts) \<and>
    (VerifyAuth verify owner c asig = None \<and> key_of owner = Some pub \<longrightarrow> ActAuth c \<in> acts)"
proof (intro conjI impI; elim conjE)
  show "ActGrant (sgGrant sg) \<in> acts"
    if "VerifyGrant verify sg = None" "key_of (gOwner (sgGrant sg)) = Some pub"
    using grant_signed [OF unforgeable that] .
  show "ActBinding (sbBinding sb) \<in> acts"
    if "VerifyBinding verify sb = None" "key_of (bWallet (sbBinding sb)) = Some pub"
    using binding_signed [OF unforgeable that] .
  show "ActAuth c \<in> acts" if "VerifyAuth verify owner c asig = None" "key_of owner = Some pub"
    using auth_signed [OF unforgeable that] .
qed

text \<open>An owner id, a signer and a grant used by the witnesses; the stand-in scheme signs with zeros.\<close>

definition demo_id :: string where "demo_id = replicate 32 (CHR ''1'')"

definition demo_signer :: Signer where
  "demo_signer = \<lparr>Mnemonic = [], Priv = [], Pub = replicate 32 0, Address = demo_id\<rparr>"

definition demo_sign :: "bytes \<Rightarrow> bytes \<Rightarrow> bytes" where
  "demo_sign priv m = replicate 64 0"

definition demo_verify :: "bytes \<Rightarrow> bytes \<Rightarrow> bytes \<Rightarrow> bool" where
  "demo_verify pub m sig \<longleftrightarrow> sig = replicate 64 0"

definition demo_grant :: Grant where
  "demo_grant = \<lparr>gV = 1, gOwner = demo_id, gMachine = ''m1'', gGuest = demo_id, gScope = ''main'',
     gMode = ''ro'', gNB = 1000, gNA = 4900, gGID = ''0123456789abcdef''\<rparr>"

definition demo_signed_grant :: SignedGrant where
  "demo_signed_grant = \<lparr>sgGrant = demo_grant, sgSig = replicate 64 (CHR ''1'')\<rparr>"

lemma key_of_demo: "key_of demo_id = Some (replicate 32 0)"
  by (simp only: key_of_def demo_id_def Decode_ones) simp

lemma demo_id_encode58: "demo_id = encode58 (replicate 32 0)"
  by (simp only: encode58_def demo_id_def Encode_zeros go_result.sel)

lemma signs_for_demo: "signs_for demo_sign demo_verify demo_signer"
  by (simp add: signs_for_def demo_sign_def demo_verify_def demo_signer_def demo_id_encode58)

lemma validate_demo: "validate_grant demo_grant = None"
  by (simp add: validate_grant_def demo_grant_def key_of_demo machineIDRe_def scopeRe_def gidRe_def
      is_name_char_def is_alnum_def is_lower_hex_def GrantMaxTTL_def GrantSkew_def hour_def minute_def second_def)

lemma sig_of_demo: "sig_of (replicate 64 (CHR ''1'')) = Some (replicate 64 0)"
  by (simp only: sig_of_def Decode_ones) simp

theorem verified_was_signed_witness:
  "VerifyGrant (\<lambda>pub m sig. m = grantMessage (canonical_grant_text demo_grant)) demo_signed_grant = None \<and>
   ActGrant demo_grant \<in> {ActGrant demo_grant}"
proof -
  let ?v = "\<lambda>(pub :: bytes) m (sig :: bytes). m = grantMessage (canonical_grant_text demo_grant)"
  have ok: "VerifyGrant ?v demo_signed_grant = None"
    unfolding VerifyGrant_None demo_signed_grant_def SignedGrant.simps validate_demo sig_of_demo
    by (simp add: demo_grant_def key_of_demo)
  have unf: "?v (replicate 32 0) m sig \<Longrightarrow> \<exists>a \<in> {ActGrant demo_grant}. act_message a = Some m" for m sig
    by (simp add: CanonicalGrant_def validate_demo)
  have "key_of (gOwner (sgGrant demo_signed_grant)) = Some (replicate 32 0)"
    by (simp add: demo_signed_grant_def demo_grant_def key_of_demo)
  with verified_was_signed [of ?v "replicate 32 0" "{ActGrant demo_grant}", OF unf, of demo_signed_grant] ok
  show ?thesis by (simp add: demo_signed_grant_def)
qed

text \<open>
  \<open>MintGrant\<close> with a lifetime in \<open>(0, 24 h]\<close> and well-formed names succeeds, the grant verifies
  under the minting owner's key, names the requested machine and guest (read-only on session
  \<open>main\<close> by default), and is valid exactly from five minutes before minting until its lifetime
  has passed.
\<close>

theorem MintGrant_correct:
  assumes "signs_for sign verify s" "0 < ttl" "ttl \<le> GrantMaxTTL" "GrantSkew + second \<le> now"
    and "machineIDRe machine" "key_of guest \<noteq> None" "scope = [] \<or> scopeRe scope"
    and "mode \<in> {[], ''ro'', ''rw''}" "length gid = 8"
  shows "\<exists>sg. MintGrant sign (Some gid) s machine guest scope mode ttl now = Inr sg \<and>
    VerifyGrant verify sg = None \<and>
    gOwner (sgGrant sg) = Address s \<and> gMachine (sgGrant sg) = machine \<and> gGuest (sgGrant sg) = guest \<and>
    (scope = [] \<longrightarrow> gScope (sgGrant sg) = ''main'') \<and> (mode = [] \<longrightarrow> gMode (sgGrant sg) = ''ro'') \<and>
    (\<forall>t. ValidAt (sgGrant sg) t = None \<longleftrightarrow> unix (now - GrantSkew) \<le> unix t \<and> unix t \<le> unix (now + ttl))"
proof -
  define g where "g = \<lparr>gV = 1, gOwner = Address s, gMachine = machine, gGuest = guest,
    gScope = (if scope = [] then ''main'' else scope), gMode = (if mode = [] then ''ro'' else mode),
    gNB = unix (now - GrantSkew), gNA = unix (now + ttl), gGID = hex_EncodeToString gid\<rparr>"
  have sc: "scopeRe (if scope = [] then ''main'' else scope)"
    using assms(7) by (auto simp: scopeRe_def is_name_char_def is_alnum_def)
  have "validate_grant g = None"
    unfolding validate_grant_def g_def
    using mint_nb_na [OF assms(2,4)] mint_window [OF assms(3), of now] gidRe_hex [OF assms(9)]
      signs_for_key [OF assms(1)] sc assms(5,6,8) by auto
  then obtain sg where "SignGrant sign s g = Inr sg" "sgGrant sg = g" "VerifyGrant verify sg = None"
    using SignGrant_verifies [OF assms(1), of g] by (auto simp: g_def)
  then show ?thesis
    using assms(2,3) by (auto simp: MintGrant_def g_def ValidAt_def Let_def)
qed

theorem MintGrant_correct_witness:
  "\<exists>sg. MintGrant demo_sign (Some (replicate 8 7)) demo_signer ''m1'' demo_id [] [] hour (1000 * second) = Inr sg \<and>
    VerifyGrant demo_verify sg = None \<and> gMode (sgGrant sg) = ''ro''"
proof -
  have "machineIDRe ''m1''" by code_simp
  then show ?thesis
    using MintGrant_correct [OF signs_for_demo, of hour "1000 * second" "''m1''" demo_id "[]" "[]" "replicate 8 7"]
    by (auto simp: key_of_demo hour_def minute_def second_def GrantMaxTTL_def GrantSkew_def)
qed

text \<open>
  Whatever an owner signs, a grant the agent accepts is usable for at most the 24 h cap plus the
  five minutes of skew: two instants at which the same verified grant is valid are less than
  86701 seconds apart.
\<close>

theorem verified_grant_bounded:
  assumes "VerifyGrant verify sg = None" "ValidAt (sgGrant sg) t = None" "ValidAt (sgGrant sg) t' = None"
  shows "t' - t < (GrantMaxTTL + GrantSkew) + second"
proof -
  let ?g = "sgGrant sg"
  have w: "gNA ?g - gNB ?g \<le> 86700"
    using assms(1) by (auto simp: VerifyGrant_None validate_grant_def GrantMaxTTL_def GrantSkew_def
        hour_def minute_def second_def split: if_splits)
  have "unix t' - unix t \<le> 86700"
    using assms(2,3) w by (auto simp: ValidAt_def Let_def split: if_splits)
  moreover have "unix t * second \<le> t" "t' < (unix t' + 1) * second"
    using div_mult_mod_eq [of t second] div_mult_mod_eq [of t' second]
      pos_mod_sign [of second t] pos_mod_bound [of second t']
    by (simp_all add: unix_def second_def)
  ultimately show ?thesis
    by (simp add: GrantMaxTTL_def GrantSkew_def hour_def minute_def second_def)
qed

theorem verified_grant_bounded_witness:
  "VerifyGrant demo_verify demo_signed_grant = None \<and> ValidAt demo_grant (1000 * second) = None \<and>
   ValidAt demo_grant (4900 * second) = None \<and> 3900 * second < GrantMaxTTL + GrantSkew + second"
proof -
  have ok: "VerifyGrant demo_verify demo_signed_grant = None"
    unfolding VerifyGrant_None demo_signed_grant_def SignedGrant.simps validate_demo sig_of_demo
    by (simp add: demo_grant_def key_of_demo demo_verify_def)
  have v: "ValidAt demo_grant (1000 * second) = None" "ValidAt demo_grant (4900 * second) = None"
    by (simp_all add: ValidAt_def demo_grant_def unix_def second_def)
  have "sgGrant demo_signed_grant = demo_grant" by (simp add: demo_signed_grant_def)
  with verified_grant_bounded [OF ok, of "1000 * second" "4900 * second"] v ok show ?thesis by simp
qed

text \<open>
  Each challenge binds what it names: two attach challenges agree only for the same signaling
  session, machine and SDP digest, two revocation challenges only for the same machine and time, two
  registration challenges only for the same machine and commitment (machine ids have no line break), and a
  challenge of one kind is never one of another kind.
\<close>

theorem challenges_bind:
  assumes "machineIDRe m" "machineIDRe m'"
  shows "(AttachChallenge s m d = AttachChallenge s' m' d' \<longleftrightarrow>
            s = s' \<and> m = m' \<and> sha256 (bytes_of d) = sha256 (bytes_of d')) \<and>
    (RevocationChallenge m t = RevocationChallenge m' t' \<longleftrightarrow> m = m' \<and> t = t') \<and>
    (RegistrationChallenge m c = RegistrationChallenge m' c' \<longleftrightarrow> m = m' \<and> c = c') \<and>
    AttachChallenge s m d \<noteq> RevocationChallenge m' t \<and> AttachChallenge s m d \<noteq> RegistrationChallenge m' c \<and>
    RegistrationChallenge m c \<noteq> RevocationChallenge m' t"
proof -
  have nlm: "nl \<notin> set m" "nl \<notin> set m'" using assms by (simp_all add: machineIDRe_def nl_name)
  have "AttachChallenge s m d = AttachChallenge s' m' d' \<longleftrightarrow>
      s = s' \<and> m = m' \<and> sha256 (bytes_of d) = sha256 (bytes_of d')"
    using AttachChallenge_inject [OF _ nlm] by (auto simp: AttachChallenge_def)
  moreover have "RevocationChallenge m t = RevocationChallenge m' t' \<longleftrightarrow> m = m' \<and> t = t'"
    using RevocationChallenge_inject by blast
  moreover have "RegistrationChallenge m c = RegistrationChallenge m' c' \<longleftrightarrow> m = m' \<and> c = c'"
    using RegistrationChallenge_inject [OF _ nlm] by blast
  ultimately show ?thesis by simp
qed

theorem challenges_bind_witness:
  "AttachChallenge ''s'' ''m1'' ''x'' \<noteq> AttachChallenge ''s'' ''m2'' ''x''"
proof -
  have "machineIDRe ''m1''" "machineIDRe ''m2''"
    by (simp_all add: machineIDRe_def is_name_char_def is_alnum_def)
  from challenges_bind [OF this] show ?thesis by simp
qed

end
