(* ===== verification/Lru.thy ===== *)
theory Lru
  imports Go_Prelude
begin

text \<open>
  The contract shared by the three bounded tables of the relay (request limiter, registration proofs,
  flap counter): a routine that scans a map and deletes an entry of least rank. The lemmas on room,
  survivors and bounded insertion are proved once in the locale; each table interprets it on its own
  scan loop. Two of the loops are the same loop over different entries, \<open>scan_min\<close>.
\<close>

locale evictor =
  fixes keyok :: "'k \<Rightarrow> bool"
    and rank :: "'e \<Rightarrow> 'r::linorder"
    and evict :: "('k, 'e) gomap \<Rightarrow> ('k, 'e) gomap"
  assumes evict_Nil: "evict [] = []"
    and evict_least: "m \<noteq> [] \<Longrightarrow> (\<And>k e. (k, e) \<in> set m \<Longrightarrow> keyok k) \<Longrightarrow>
      \<exists>k e. (k, e) \<in> set m \<and> evict m = mdel m k \<and> (\<forall>k' e'. (k', e') \<in> set m \<longrightarrow> rank e \<le> rank e')"
begin

definition keys_ok :: "('k, 'e) gomap \<Rightarrow> bool" where
  "keys_ok m \<longleftrightarrow> (\<forall>k \<in> fst ` set m. keyok k)"

lemma keys_ok_mput: "keys_ok m \<Longrightarrow> keyok k \<Longrightarrow> keys_ok (mput m k v)"
  by (auto simp: keys_ok_def dom_update)

lemma keys_ok_mdel: "keys_ok m \<Longrightarrow> keys_ok (mdel m k)"
  using dom_delete_subset [of k m] unfolding keys_ok_def by blast

lemma keys_ok_Nil: "keys_ok []"
  by (simp add: keys_ok_def)

lemma evict_cases:
  assumes "keys_ok m"
  obtains "m = []" "evict m = []"
  | k e where "(k, e) \<in> set m" "evict m = mdel m k" "\<And>k' e'. (k', e') \<in> set m \<Longrightarrow> rank e \<le> rank e'"
  using evict_Nil evict_least [of m] assms unfolding keys_ok_def by (cases "m = []") force+

lemma evict_keys:
  assumes "keys_ok m"
  shows "fst ` set (evict m) \<subseteq> fst ` set m"
  using assms
proof (cases rule: evict_cases)
  case (2 k e)
  then show ?thesis by (simp add: dom_delete_subset)
qed simp

lemma keys_ok_evict: "keys_ok m \<Longrightarrow> keys_ok (evict m)"
  using evict_keys [of m] unfolding keys_ok_def by blast

lemma wf_evict: "keys_ok m \<Longrightarrow> wf_gomap m \<Longrightarrow> wf_gomap (evict m)"
  by (erule evict_cases [of m]) simp_all

lemma length_evict:
  assumes "keys_ok m" "m \<noteq> []"
  shows "length (evict m) < length m"
  using assms(1)
proof (cases rule: evict_cases)
  case (2 k e)
  then obtain e' where "mget m k = Some e'" by (metis weak_map_of_SomeI)
  then show ?thesis using 2(2) length_mdel_present by simp
qed (simp add: assms)

lemma mget_evict: "keys_ok m \<Longrightarrow> mget (evict m) k = Some e \<Longrightarrow> mget m k = Some e"
  by (erule evict_cases [of m]) (auto split: if_splits)

lemma evict_survivor:
  assumes "keys_ok m" "wf_gomap m" "mget m k = Some e" "mget m k' = Some e'" "rank e' < rank e"
  shows "mget (evict m) k = Some e"
  using assms(1)
proof (cases rule: evict_cases)
  case 1
  then show ?thesis using assms by simp
next
  case (2 k0 e0)
  have "rank e0 \<le> rank e'" using 2(3) assms(4) by (metis map_of_SomeD)
  moreover have "mget m k0 = Some e0" using assms(2) 2(1) by (simp add: mget_Some_iff)
  ultimately have "k0 \<noteq> k" using assms(3,5) by auto
  then show ?thesis using 2(2) assms(3) by simp
qed

text \<open>Inserting a new key into a table of bound \<open>b\<close>, evicting first when it is full.\<close>

lemma bounded_insert:
  assumes "keys_ok m" "0 < b" "length m \<le> b" "mget m k = None"
  shows "length (mput (if b \<le> length m then evict m else m) k v) \<le> b"
proof (cases "b \<le> length m")
  case True
  then have "length (evict m) < b" using length_evict [OF assms(1)] assms(2,3) by fastforce
  then show ?thesis using length_mput_le [of k v "evict m"] True by simp
next
  case False
  then show ?thesis using length_mput_le [of k v m] by simp
qed

end

section \<open>The logical clock\<close>

text \<open>A \<open>uint64\<close> counter moves forward until it wraps.\<close>

lemma unat_tick: "unat (c :: 64 word) + 1 < 2 ^ 64 \<Longrightarrow> unat (c + 1) = unat c + 1"
  by (simp add: unat_word_ariths)

section \<open>The scan with a first flag\<close>

text \<open>
  \<^verbatim>\<open>for k, e := range m { if first || rank(e) < oldest { key, oldest, first = k, rank(e), false } }\<close>:
  the accumulator is none while \<open>first\<close> holds.
\<close>

fun scan_min :: "('e \<Rightarrow> 'r::linorder) \<Rightarrow> ('k, 'e) gomap \<Rightarrow> ('k \<times> 'r) option \<Rightarrow> ('k \<times> 'r) option" where
  "scan_min rank [] acc = acc"
| "scan_min rank ((k, e) # es) acc =
     scan_min rank es
       (case acc of
          None \<Rightarrow> Some (k, rank e)
        | Some (key, oldest) \<Rightarrow> if rank e < oldest then Some (k, rank e) else acc)"

definition evict_min :: "('e \<Rightarrow> 'r::linorder) \<Rightarrow> ('k, 'e) gomap \<Rightarrow> ('k, 'e) gomap" where
  "evict_min rank es = (case scan_min rank es None of None \<Rightarrow> es | Some (key, oldest) \<Rightarrow> mdel es key)"

lemma scan_min_least:
  "\<exists>k s. scan_min rank es (Some (k0, s0)) = Some (k, s) \<and> ((k, s) = (k0, s0) \<or> (\<exists>e. (k, e) \<in> set es \<and> rank e = s)) \<and>
     s \<le> s0 \<and> (\<forall>k' e'. (k', e') \<in> set es \<longrightarrow> s \<le> rank e')"
proof (induction es arbitrary: k0 s0)
  case (Cons x es)
  obtain key entry where x: "x = (key, entry)" by (cases x)
  show ?case
    using Cons.IH [of key "rank entry"] Cons.IH [of k0 s0] x
    by (cases "rank entry < s0") fastforce+
qed simp

lemma evictor_evict_min:
  fixes rank :: "'e \<Rightarrow> 'r::linorder"
  shows "evictor (\<lambda>_ :: 'k. True) rank (evict_min rank)"
proof
  show "evict_min rank [] = []" by (simp add: evict_min_def)
next
  fix m :: "('k, 'e) gomap"
  assume "m \<noteq> []"
  then obtain key entry es where m: "m = (key, entry) # es" by (cases m) auto
  obtain k s where s: "scan_min rank es (Some (key, rank entry)) = Some (k, s)"
      "(k, s) = (key, rank entry) \<or> (\<exists>e. (k, e) \<in> set es \<and> rank e = s)"
      "s \<le> rank entry" "\<forall>k' e'. (k', e') \<in> set es \<longrightarrow> s \<le> rank e'"
    using scan_min_least [of rank es key "rank entry"] by blast
  then have "evict_min rank m = mdel m k" by (simp add: evict_min_def m)
  moreover obtain e where "(k, e) \<in> set m" "rank e = s" using s(2) m by auto
  moreover have "\<forall>k' e'. (k', e') \<in> set m \<longrightarrow> s \<le> rank e'" using s(3,4) m by auto
  ultimately show "\<exists>k e. (k, e) \<in> set m \<and> evict_min rank m = mdel m k \<and>
      (\<forall>k' e'. (k', e') \<in> set m \<longrightarrow> rank e \<le> rank e')" by blast
qed

end
