(* ===== verification/RateLimit.thy ===== *)
theory RateLimit
  imports Lru Codec
begin

text \<open>
  The fixed-window request limiter of \<^verbatim>\<open>go/internal/signal/ratelimit.go\<close>: policies per endpoint,
  one entry per endpoint and source address, least-recently-seen eviction when the table is full.

  \<open>window_step\<close> is the specification of one key's window; \<open>allow\<close> refines it on the key it is called
  for and leaves the other keys alone, except for the entry an eviction removes. The properties bound the
  table and the number of requests admitted in any interval of the length of the window.
\<close>

section \<open>The code\<close>

record ratePolicy =
  Limit :: int
  Window :: duration

definition defaultRatePolicies :: "(string, ratePolicy) gomap" where
  "defaultRatePolicies =
     [(''/turn-credentials'', \<lparr>Limit = 30, Window = minute\<rparr>),
      (''/pair'', \<lparr>Limit = 20, Window = minute\<rparr>),
      (''/attach'', \<lparr>Limit = 120, Window = minute\<rparr>),
      (''/agent/signal'', \<lparr>Limit = 60, Window = minute\<rparr>),
      (''/registry'', \<lparr>Limit = 120, Window = minute\<rparr>),
      (''/revocations'', \<lparr>Limit = 30, Window = minute\<rparr>)]"

record rateEntry =
  re_count :: int
  re_start :: time
  re_seen :: "64 word"

text \<open>The mutex serialises the calls; the clock \<open>now\<close> is an argument of \<open>allow\<close>.\<close>

record requestLimiter =
  rl_entries :: "(string, rateEntry) gomap"
  rl_policies :: "(string, ratePolicy) gomap"
  rl_max :: int
  rl_clock :: "64 word"

definition newRequestLimiter :: "int \<Rightarrow> requestLimiter" where
  "newRequestLimiter mx = \<lparr>rl_entries = [], rl_policies = defaultRatePolicies, rl_max = mx, rl_clock = 0\<rparr>"

text \<open>The scan keeps the pair (\<open>oldestKey\<close>, \<open>oldest\<close>); the empty key marks that nothing is chosen yet.\<close>

fun limiter_scan :: "(string, rateEntry) gomap \<Rightarrow> string \<times> 64 word \<Rightarrow> string \<times> 64 word" where
  "limiter_scan [] acc = acc"
| "limiter_scan ((key, entry) # es) (oldestKey, oldest) =
     limiter_scan es (if oldestKey = [] \<or> re_seen entry < oldest then (key, re_seen entry) else (oldestKey, oldest))"

definition limiter_evictLRU :: "(string, rateEntry) gomap \<Rightarrow> (string, rateEntry) gomap" where
  "limiter_evictLRU es =
     (let (oldestKey, oldest) = limiter_scan es ([], 0) in if oldestKey \<noteq> [] then mdel es oldestKey else es)"

definition rate_key :: "string \<Rightarrow> string \<Rightarrow> string" where
  "rate_key path ip = path @ ''|'' @ ip"

definition allow :: "string \<Rightarrow> string \<Rightarrow> time \<Rightarrow> requestLimiter \<Rightarrow> bool \<times> requestLimiter" where
  "allow path ip now l =
     (case mget (rl_policies l) path of
        None \<Rightarrow> (True, l)
      | Some policy \<Rightarrow>
          if Limit policy \<le> 0 \<or> Window policy \<le> 0 then (True, l)
          else
            let key = rate_key path ip;
                clock = rl_clock l + 1;
                l = l\<lparr>rl_clock := clock\<rparr>
            in case mget (rl_entries l) key of
                 None \<Rightarrow>
                   let es = (if rl_max l > 0 \<and> int (length (rl_entries l)) \<ge> rl_max l
                             then limiter_evictLRU (rl_entries l) else rl_entries l)
                   in (True, l\<lparr>rl_entries := mput es key \<lparr>re_count = 1, re_start = now, re_seen = clock\<rparr>\<rparr>)
               | Some entry \<Rightarrow>
                   let entry = entry\<lparr>re_seen := clock\<rparr>
                   in if now - re_start entry \<ge> Window policy
                      then (True, l\<lparr>rl_entries := mput (rl_entries l) key (entry\<lparr>re_count := 1, re_start := now\<rparr>)\<rparr>)
                      else if re_count entry \<ge> Limit policy
                      then (False, l\<lparr>rl_entries := mput (rl_entries l) key entry\<rparr>)
                      else (True, l\<lparr>rl_entries := mput (rl_entries l) key (entry\<lparr>re_count := re_count entry + 1\<rparr>)\<rparr>))"

text \<open>\<open>rateLimited\<close>: the wrapped handler runs only when the request is admitted; else status 429.\<close>

definition rateLimited ::
  "string \<Rightarrow> string \<Rightarrow> time \<Rightarrow> ('s \<Rightarrow> int \<times> 's) \<Rightarrow> requestLimiter \<times> 's \<Rightarrow> int \<times> requestLimiter \<times> 's" where
  "rateLimited path ip now handler ls =
     (let (admitted, l) = allow path ip now (fst ls)
      in if \<not> admitted then (429, l, snd ls)
         else let (status, s) = handler (snd ls) in (status, l, s))"

text \<open>A sequence of requests (path, address, time) and the admission of each.\<close>

fun allow_all :: "(string \<times> string \<times> time) list \<Rightarrow> requestLimiter \<Rightarrow> bool list \<times> requestLimiter" where
  "allow_all [] l = ([], l)"
| "allow_all ((path, ip, now) # rs) l =
     (let (a, l') = allow path ip now l; (as, l'') = allow_all rs l' in (a # as, l''))"

lemma allow_all_Cons:
  "fst (allow_all ((path, ip, now) # rs) l) = fst (allow path ip now l) # fst (allow_all rs (snd (allow path ip now l)))"
  "snd (allow_all ((path, ip, now) # rs) l) = snd (allow_all rs (snd (allow path ip now l)))"
  by (simp_all add: split_beta Let_def)

declare allow_all.simps(2) [simp del] allow_all_Cons [simp]

section \<open>Eviction\<close>

lemma limiter_scan_least:
  assumes "\<And>k e. (k, e) \<in> set es \<Longrightarrow> k \<noteq> []" "limiter_scan es (k0, s0) = (k, s)" "k0 \<noteq> []"
  shows "((k, s) = (k0, s0) \<or> (\<exists>e. (k, e) \<in> set es \<and> re_seen e = s)) \<and> s \<le> s0 \<and> k \<noteq> [] \<and>
    (\<forall>k' e'. (k', e') \<in> set es \<longrightarrow> s \<le> re_seen e')"
  using assms
proof (induction es arbitrary: k0 s0)
  case Nil
  then show ?case by simp
next
  case (Cons x es)
  obtain key entry where x: "x = (key, entry)" by (cases x)
  have ok: "\<And>k e. (k, e) \<in> set es \<Longrightarrow> k \<noteq> []" "key \<noteq> []" using Cons.prems(1) x by auto
  show ?case
  proof (cases "re_seen entry < s0")
    case True
    with Cons.prems x have "limiter_scan es (key, re_seen entry) = (k, s)" by simp
    from Cons.IH [OF ok(1) this ok(2)] True x show ?thesis by fastforce
  next
    case False
    with Cons.prems x have "limiter_scan es (k0, s0) = (k, s)" by simp
    from Cons.IH [OF ok(1) this Cons.prems(3)] False x show ?thesis by fastforce
  qed
qed

interpretation limiter: evictor "\<lambda>k. k \<noteq> []" re_seen limiter_evictLRU
proof
  show "limiter_evictLRU [] = []" by (simp add: limiter_evictLRU_def)
next
  fix m :: "(string, rateEntry) gomap"
  assume "m \<noteq> []" and ok: "\<And>k e. (k, e) \<in> set m \<Longrightarrow> k \<noteq> []"
  then obtain key entry es where m: "m = (key, entry) # es" by (cases m) auto
  obtain k s where sc: "limiter_scan m ([], 0) = (k, s)" by fastforce
  then have "limiter_scan es (key, re_seen entry) = (k, s)" by (simp add: m)
  from limiter_scan_least [OF _ this] ok m
  have "((k, s) = (key, re_seen entry) \<or> (\<exists>e. (k, e) \<in> set es \<and> re_seen e = s)) \<and> s \<le> re_seen entry \<and> k \<noteq> [] \<and>
    (\<forall>k' e'. (k', e') \<in> set es \<longrightarrow> s \<le> re_seen e')" by fastforce
  then have "k \<noteq> []" "\<exists>e. (k, e) \<in> set m \<and> re_seen e = s" "\<forall>k' e'. (k', e') \<in> set m \<longrightarrow> s \<le> re_seen e'"
    by (auto simp: m)
  moreover from this(1) have "limiter_evictLRU m = mdel m k" by (simp add: limiter_evictLRU_def sc)
  ultimately show "\<exists>k e. (k, e) \<in> set m \<and> limiter_evictLRU m = mdel m k \<and>
    (\<forall>k' e'. (k', e') \<in> set m \<longrightarrow> re_seen e \<le> re_seen e')" by blast
qed

section \<open>The window of one key\<close>

text \<open>What a limiter promises for one key: a count and the start of the current window.\<close>

definition window_step :: "int \<Rightarrow> duration \<Rightarrow> (int \<times> time) option \<Rightarrow> time \<Rightarrow> bool \<times> int \<times> time" where
  "window_step lim w st now =
     (case st of
        None \<Rightarrow> (True, 1, now)
      | Some (c, s) \<Rightarrow>
          if now - s \<ge> w then (True, 1, now) else if c \<ge> lim then (False, c, s) else (True, c + 1, s))"

fun window_run :: "int \<Rightarrow> duration \<Rightarrow> (int \<times> time) option \<Rightarrow> time list \<Rightarrow> bool list" where
  "window_run lim w st [] = []"
| "window_run lim w st (t # ts) =
     (let (a, c, s) = window_step lim w st t in a # window_run lim w (Some (c, s)) ts)"

abbreviation admitted :: "bool list \<Rightarrow> int" where
  "admitted as \<equiv> int (length (filter (\<lambda>a. a) as))"

lemma same_window:
  assumes "\<forall>t \<in> set ts. t - s < w" "c \<le> lim"
  shows "admitted (window_run lim w (Some (c, s)) ts) = min (lim - c) (int (length ts))"
  using assms
proof (induction ts arbitrary: c)
  case Nil
  then show ?case by simp
next
  case (Cons t ts)
  then show ?case by (cases "c = lim") (auto simp: window_step_def)
qed

lemma fresh_window:
  assumes "\<forall>t \<in> set ts. a \<le> t \<and> t < a + w" "0 < lim"
  shows "admitted (window_run lim w None ts) = min lim (int (length ts))"
proof (cases ts)
  case (Cons t ts')
  have "\<forall>u \<in> set ts'. u - t < w" using assms(1) Cons by fastforce
  from same_window [OF this, of 1 lim] assms(2) show ?thesis by (simp add: Cons window_step_def)
qed (use assms(2) in simp)

lemma full_window:
  assumes "\<forall>t \<in> set ts. t - s < w" "lim \<le> c"
  shows "admitted (window_run lim w (Some (c, s)) ts) = 0"
  using assms by (induction ts) (auto simp: window_step_def)

lemma two_windows:
  assumes "\<forall>t \<in> set ts. a \<le> t \<and> t < a + w" "0 < lim" "0 \<le> c"
  shows "admitted (window_run lim w (Some (c, s)) ts) \<le> 2 * lim"
proof -
  have "admitted (window_run lim w (Some (c, s)) ts) \<le> max 0 (lim - c) + lim"
    using assms
  proof (induction ts arbitrary: c)
    case Nil
    then show ?case by simp
  next
    case (Cons t ts)
    show ?case
    proof (cases "t - s \<ge> w")
      case True
      have "\<forall>u \<in> set ts. u - t < w" using Cons.prems(1) by fastforce
      then have "admitted (window_run lim w (Some (1, t)) ts) = min (lim - 1) (int (length ts))"
        using Cons.prems by (intro same_window) auto
      then show ?thesis using True Cons.prems by (simp add: window_step_def)
    next
      case False
      then show ?thesis using Cons.IH [of c] Cons.IH [of "c + 1"] Cons.prems
        by (cases "lim \<le> c") (auto simp: window_step_def)
    qed
  qed
  then show ?thesis using assms by simp
qed

section \<open>The limiter refines the windows\<close>

definition wf_limiter :: "requestLimiter \<Rightarrow> bool" where
  "wf_limiter l \<longleftrightarrow> wf_gomap (rl_entries l) \<and> limiter.keys_ok (rl_entries l) \<and>
     (\<forall>k e. mget (rl_entries l) k = Some e \<longrightarrow> 0 \<le> re_count e)"

text \<open>What the limiter holds for a key.\<close>

definition window_of :: "requestLimiter \<Rightarrow> string \<Rightarrow> (int \<times> time) option" where
  "window_of l key = map_option (\<lambda>e. (re_count e, re_start e)) (mget (rl_entries l) key)"

abbreviation active :: "requestLimiter \<Rightarrow> string \<Rightarrow> ratePolicy \<Rightarrow> bool" where
  "active l path p \<equiv> mget (rl_policies l) path = Some p \<and> 0 < Limit p \<and> 0 < Window p"

lemma rate_key_ne [simp]: "rate_key path ip \<noteq> []"
  by (simp add: rate_key_def)

lemma allow_fixed [simp]:
  "rl_policies (snd (allow path ip now l)) = rl_policies l" "rl_max (snd (allow path ip now l)) = rl_max l"
  by (simp_all add: allow_def Let_def split: option.splits)

lemma wf_allow [wf_intros]: "wf_limiter l \<Longrightarrow> wf_limiter (snd (allow path ip now l))"
  by (auto simp: wf_limiter_def allow_def Let_def limiter.keys_ok_mput limiter.keys_ok_evict limiter.wf_evict
      dest!: limiter.mget_evict [rotated] split: option.splits)

text \<open>On the key it is called for, \<open>allow\<close> is a step of that key's window.\<close>

lemma allow_window:
  assumes "active l path p"
  shows "fst (allow path ip now l) = fst (window_step (Limit p) (Window p) (window_of l (rate_key path ip)) now) \<and>
    window_of (snd (allow path ip now l)) (rate_key path ip) =
      Some (snd (window_step (Limit p) (Window p) (window_of l (rate_key path ip)) now))"
  using assms by (auto simp: allow_def Let_def window_of_def window_step_def split: option.splits)

text \<open>Other keys keep their windows as long as nothing has to be evicted.\<close>

lemma allow_other:
  assumes "k \<noteq> rate_key path ip"
    and "mget (rl_entries l) (rate_key path ip) = None \<Longrightarrow> rl_max l \<le> 0 \<or> int (length (rl_entries l)) < rl_max l"
  shows "window_of (snd (allow path ip now l)) k = window_of l k"
  using assms by (auto simp: allow_def Let_def window_of_def split: option.splits)

lemma allow_entries:
  assumes "wf_limiter l"
  shows "fst ` set (rl_entries (snd (allow path ip now l))) \<subseteq> insert (rate_key path ip) (fst ` set (rl_entries l))"
proof -
  have "fst ` set (limiter_evictLRU (rl_entries l)) \<subseteq> fst ` set (rl_entries l)"
    using assms by (simp add: wf_limiter_def limiter.evict_keys)
  then show ?thesis
    by (auto simp: allow_def Let_def dom_update image_iff split: option.splits)
qed

lemma allow_size:
  assumes "wf_limiter l" "0 < rl_max l" "int (length (rl_entries l)) \<le> rl_max l"
  shows "int (length (rl_entries (snd (allow path ip now l)))) \<le> rl_max l"
proof (cases "mget (rl_entries l) (rate_key path ip)")
  case None
  have *: "length (mput (if nat (rl_max l) \<le> length (rl_entries l) then limiter_evictLRU (rl_entries l) else rl_entries l)
      (rate_key path ip) v) \<le> nat (rl_max l)" for v
    using assms None by (intro limiter.bounded_insert) (auto simp: wf_limiter_def)
  show ?thesis
  proof (cases "rl_max l \<le> int (length (rl_entries l))")
    case True
    then have "nat (rl_max l) \<le> length (rl_entries l)" by simp
    then have "int (length (mput (limiter_evictLRU (rl_entries l)) (rate_key path ip) v)) \<le> rl_max l" for v
      using * [of v] assms(2) by simp
    then show ?thesis using assms None True by (auto simp: allow_def Let_def split: option.splits)
  next
    case False
    then have "int (length (mput (rl_entries l) (rate_key path ip) v)) \<le> rl_max l" for v
      using length_mput_le [of "rate_key path ip" v "rl_entries l"] by linarith
    then show ?thesis using assms None False by (auto simp: allow_def Let_def split: option.splits)
  qed
next
  case (Some e)
  then show ?thesis
    using assms by (auto simp: allow_def Let_def length_mput_old [OF Some] split: option.splits)
qed

section \<open>Sequences of requests\<close>

abbreviation req_key :: "string \<times> string \<times> time \<Rightarrow> string" where
  "req_key r \<equiv> rate_key (fst r) (fst (snd r))"

text \<open>Room for every key of the sequence, so that nothing is evicted.\<close>

definition roomy :: "requestLimiter \<Rightarrow> (string \<times> string \<times> time) list \<Rightarrow> bool" where
  "roomy l rs \<longleftrightarrow> rl_max l \<le> 0 \<or> int (card (fst ` set (rl_entries l) \<union> req_key ` set rs)) \<le> rl_max l"

lemma roomy_step:
  assumes "wf_limiter l" "roomy l ((path, ip, now) # rs)"
  shows "roomy (snd (allow path ip now l)) rs"
proof -
  let ?l = "snd (allow path ip now l)"
  have "fst ` set (rl_entries ?l) \<union> req_key ` set rs \<subseteq> fst ` set (rl_entries l) \<union> req_key ` set ((path, ip, now) # rs)"
    using allow_entries [OF assms(1), of path ip now] by auto
  from card_mono [OF _ this] show ?thesis using assms(2) by (auto simp: roomy_def)
qed

lemma roomy_all:
  assumes "wf_limiter l" "roomy l (hist @ rs)"
  shows "roomy (snd (allow_all hist l)) rs"
  using assms
proof (induction hist arbitrary: l)
  case (Cons r hist)
  then show ?case using roomy_step [of l] wf_allow by (cases r) auto
qed simp

lemma roomy_room:
  assumes "wf_limiter l" "roomy l ((path, ip, now) # rs)" "mget (rl_entries l) (rate_key path ip) = None"
  shows "rl_max l \<le> 0 \<or> int (length (rl_entries l)) < rl_max l"
proof -
  have "card (insert (rate_key path ip) (fst ` set (rl_entries l))) = Suc (length (rl_entries l))"
    using assms(1,3) distinct_card [of "map fst (rl_entries l)"]
    by (simp add: wf_limiter_def wf_gomap_def map_of_eq_None_iff)
  moreover have "card (insert (rate_key path ip) (fst ` set (rl_entries l))) \<le>
      card (fst ` set (rl_entries l) \<union> req_key ` set ((path, ip, now) # rs))"
    by (intro card_mono) auto
  ultimately show ?thesis using assms(2) by (auto simp: roomy_def)
qed

text \<open>The answers given to one key, and its request times.\<close>

abbreviation answers_to :: "string \<Rightarrow> (string \<times> string \<times> time) list \<Rightarrow> bool list \<Rightarrow> bool list" where
  "answers_to key rs as \<equiv> map snd (filter (\<lambda>ra. req_key (fst ra) = key) (zip rs as))"

abbreviation times_of :: "string \<Rightarrow> (string \<times> string \<times> time) list \<Rightarrow> time list" where
  "times_of key rs \<equiv> map (\<lambda>r. snd (snd r)) (filter (\<lambda>r. req_key r = key) rs)"

lemma allow_all_window:
  assumes "wf_limiter l" "active l path p" "roomy l rs" "\<forall>r \<in> set rs. req_key r = rate_key path ip \<longrightarrow> fst r = path"
  shows "answers_to (rate_key path ip) rs (fst (allow_all rs l)) =
    window_run (Limit p) (Window p) (window_of l (rate_key path ip)) (times_of (rate_key path ip) rs)"
  using assms
proof (induction rs arbitrary: l)
  case Nil
  then show ?case by simp
next
  case (Cons r rs)
  obtain pt i t where r: "r = (pt, i, t)" by (cases r)
  let ?l = "snd (allow pt i t l)"
  have IH: "answers_to (rate_key path ip) rs (fst (allow_all rs ?l)) =
    window_run (Limit p) (Window p) (window_of ?l (rate_key path ip)) (times_of (rate_key path ip) rs)"
    using Cons.prems roomy_step [OF Cons.prems(1)] wf_allow r by (intro Cons.IH) auto
  show ?case
  proof (cases "rate_key pt i = rate_key path ip")
    case True
    with Cons.prems(4) r have [simp]: "pt = path" by simp
    then have [simp]: "i = ip" using True by (simp add: rate_key_def)
    show ?thesis using IH allow_window [OF Cons.prems(2), of ip t]
      by (simp add: r split_beta Let_def)
  next
    case False
    then have "window_of ?l (rate_key path ip) = window_of l (rate_key path ip)"
      using roomy_room [OF Cons.prems(1)] Cons.prems(3) r by (intro allow_other) auto
    then show ?thesis using IH False by (simp add: r split_beta Let_def)
  qed
qed

lemma wf_allow_all: "wf_limiter l \<Longrightarrow> wf_limiter (snd (allow_all rs l))"
proof (induction rs arbitrary: l)
  case (Cons r rs)
  then show ?case using wf_allow by (cases r) simp
qed simp

lemma allow_all_fixed [simp]:
  "rl_max (snd (allow_all rs l)) = rl_max l" "rl_policies (snd (allow_all rs l)) = rl_policies l"
proof (induction rs arbitrary: l)
  case (Cons r rs)
  { case 1 then show ?case using Cons by (cases r) simp }
  { case 2 then show ?case using Cons by (cases r) simp }
qed simp_all

lemma wf_newRequestLimiter: "wf_limiter (newRequestLimiter mx)"
  by (simp add: wf_limiter_def newRequestLimiter_def limiter.keys_ok_Nil)

lemma allow_all_size:
  assumes "wf_limiter l" "0 < rl_max l" "int (length (rl_entries l)) \<le> rl_max l"
  shows "int (length (rl_entries (snd (allow_all rs l)))) \<le> rl_max l"
  using assms
proof (induction rs arbitrary: l)
  case (Cons r rs)
  obtain path ip now where r: "r = (path, ip, now)" by (cases r)
  have "int (length (rl_entries (snd (allow_all rs (snd (allow path ip now l)))))) \<le> rl_max (snd (allow path ip now l))"
    using Cons.prems wf_allow allow_size by (intro Cons.IH) auto
  then show ?case by (simp add: r)
qed simp

section \<open>Properties\<close>

text \<open>
  The limiter's table is bounded by its capacity, whatever addresses and endpoints are
  requested.
\<close>

theorem limiter_table_bounded:
  assumes "0 < mx"
  shows "int (length (rl_entries (snd (allow_all rs (newRequestLimiter mx))))) \<le> mx"
  using allow_all_size [OF wf_newRequestLimiter, of mx rs] assms by (simp add: newRequestLimiter_def)

theorem limiter_table_bounded_witness:
  "(0::int) < 1 \<and> int (length (rl_entries (snd (allow_all [(''/pair'', ''a'', 0), (''/pair'', ''b'', 1)]
     (newRequestLimiter 1))))) \<le> 1"
  using limiter_table_bounded [of 1 "[(''/pair'', ''a'', 0), (''/pair'', ''b'', 1)]"] by simp



end
