(* ===== verification/ProofStore.thy ===== *)
theory ProofStore
  imports Lru
begin

text \<open>
  The registration-proof store and the flap counter of \<^verbatim>\<open>go/internal/signal/proofstore.go\<close>. A slot
  (owner and machine) is open until it presents its first proof; from then on only that proof
  registers it, as long as the slot is not evicted. The counter reports how often a slot was replaced within a
  sliding window.
\<close>

section \<open>The code: proofStore\<close>

definition defaultMaxAgentProofs :: int where "defaultMaxAgentProofs = 65536"

definition maxAgentProofBytes :: nat where "maxAgentProofBytes = 512"

record proofEntry =
  pe_secret :: string
  pe_seen :: "64 word"

record proofStore =
  ps_max :: int
  ps_clock :: "64 word"
  ps_entries :: "(string, proofEntry) gomap"

definition newProofStore :: "int \<Rightarrow> proofStore" where
  "newProofStore mx =
     \<lparr>ps_max = (if mx \<le> 0 then defaultMaxAgentProofs else mx), ps_clock = 0, ps_entries = []\<rparr>"

text \<open>\<open>subtle.ConstantTimeCompare\<close> returns 1 exactly for equal byte strings.\<close>

definition proof_ok :: "string \<Rightarrow> string \<Rightarrow> proofStore \<Rightarrow> bool \<times> proofStore" where
  "proof_ok k pf p =
     (case mget (ps_entries p) k of
        None \<Rightarrow> (True, p)
      | Some e \<Rightarrow>
          let clock = ps_clock p + 1
          in (pf = pe_secret e,
              p\<lparr>ps_clock := clock, ps_entries := mput (ps_entries p) k (e\<lparr>pe_seen := clock\<rparr>)\<rparr>))"

definition proof_evictLRU :: "(string, proofEntry) gomap \<Rightarrow> (string, proofEntry) gomap" where
  "proof_evictLRU es = evict_min pe_seen es"

definition learn :: "string \<Rightarrow> string \<Rightarrow> proofStore \<Rightarrow> proofStore" where
  "learn k pf p =
     (if pf = [] \<or> length pf > maxAgentProofBytes then p
      else if mget (ps_entries p) k \<noteq> None then p
      else
        let es = (if int (length (ps_entries p)) \<ge> ps_max p then proof_evictLRU (ps_entries p) else ps_entries p);
            clock = ps_clock p + 1
        in p\<lparr>ps_clock := clock, ps_entries := mput es k \<lparr>pe_secret = pf, pe_seen = clock\<rparr>\<rparr>)"

section \<open>The code: flapCounter\<close>

record flapCounter =
  fc_threshold :: int
  fc_window :: duration
  fc_max :: int
  fc_slots :: "(string, time list) gomap"

definition newFlapCounter :: "int \<Rightarrow> duration \<Rightarrow> int \<Rightarrow> flapCounter" where
  "newFlapCounter threshold window mx =
     \<lparr>fc_threshold = threshold, fc_window = window,
      fc_max = (if mx \<le> 0 then defaultMaxAgentProofs else mx), fc_slots = []\<rparr>"

text \<open>
  \<open>flapSlot.last\<close>: the most recent stamp, or Go's zero time (year 1), which lies before every stamp a
  clock since then yields.
\<close>

definition zero_time :: time where "zero_time = - 62135596800 * second"

definition flap_last :: "time list \<Rightarrow> time" where
  "flap_last stamps = (if stamps = [] then zero_time else last stamps)"

definition evictOldest :: "(string, time list) gomap \<Rightarrow> (string, time list) gomap" where
  "evictOldest es = evict_min flap_last es"

definition flap_record :: "string \<Rightarrow> time \<Rightarrow> flapCounter \<Rightarrow> (bool \<times> int) \<times> flapCounter" where
  "flap_record k now f =
     (let es = (case mget (fc_slots f) k of
                  Some s \<Rightarrow> fc_slots f
                | None \<Rightarrow>
                    mput (if int (length (fc_slots f)) \<ge> fc_max f then evictOldest (fc_slots f) else fc_slots f) k []);
          stamps = (case mget es k of Some s \<Rightarrow> s | None \<Rightarrow> []);
          cutoff = now - fc_window f;
          stamps' = filter (\<lambda>t. cutoff < t) stamps @ [now];
          count = int (length stamps')
      in ((count > fc_threshold f, count), f\<lparr>fc_slots := mput es k stamps'\<rparr>))"

section \<open>Eviction\<close>

interpretation proofs: evictor "\<lambda>_. True" pe_seen proof_evictLRU
  using evictor_evict_min [of pe_seen] by (simp add: proof_evictLRU_def [abs_def])

interpretation flaps: evictor "\<lambda>_. True" flap_last evictOldest
  using evictor_evict_min [of flap_last] by (simp add: evictOldest_def [abs_def])

lemma keys_ok_True [simp]: "proofs.keys_ok m" "flaps.keys_ok m'"
  by (simp_all add: proofs.keys_ok_def flaps.keys_ok_def)

section \<open>Sequences of calls\<close>

datatype proof_op = OpOk (op_slot: string) string | OpLearn (op_slot: string) string

fun proof_step :: "proof_op \<Rightarrow> proofStore \<Rightarrow> proofStore" where
  "proof_step (OpOk k pf) p = snd (proof_ok k pf p)"
| "proof_step (OpLearn k pf) p = learn k pf p"

abbreviation proof_run :: "proof_op list \<Rightarrow> proofStore \<Rightarrow> proofStore" where
  "proof_run ops p \<equiv> fold proof_step ops p"

text \<open>The stamps are distinct and not ahead of the clock.\<close>

definition stamps_ok :: "(string, proofEntry) gomap \<Rightarrow> 64 word \<Rightarrow> bool" where
  "stamps_ok es clock \<longleftrightarrow>
     (\<forall>k e. mget es k = Some e \<longrightarrow> pe_seen e \<le> clock) \<and>
     (\<forall>k e k' e'. mget es k = Some e \<longrightarrow> mget es k' = Some e' \<longrightarrow> pe_seen e = pe_seen e' \<longrightarrow> k = k')"

definition wf_proofs :: "proofStore \<Rightarrow> bool" where
  "wf_proofs p \<longleftrightarrow> wf_gomap (ps_entries p) \<and> 0 < ps_max p \<and> int (length (ps_entries p)) \<le> ps_max p \<and>
     stamps_ok (ps_entries p) (ps_clock p)"

lemma stamps_ok_sub:
  assumes "stamps_ok es clock" "\<And>k e. mget es' k = Some e \<Longrightarrow> mget es k = Some e"
  shows "stamps_ok es' clock"
  using assms unfolding stamps_ok_def by metis

lemma stamps_ok_touch:
  assumes "stamps_ok es clock" "unat clock + 1 < 2 ^ 64" "pe_seen e = clock + 1"
  shows "stamps_ok (mput es k e) (clock + 1)"
proof -
  have lt: "clock < clock + 1" using unat_tick [OF assms(2)] by (simp add: word_less_nat_alt)
  have old: "pe_seen e' < clock + 1" if "mget es k' = Some e'" for k' e'
    using assms(1) that lt unfolding stamps_ok_def by fastforce
  show ?thesis
    unfolding stamps_ok_def
  proof (intro conjI allI impI)
    show "pe_seen e' \<le> clock + 1" if "mget (mput es k e) k' = Some e'" for k' e'
      using that assms(3) old [of k' e'] by (auto split: if_splits)
    show "k1 = k2" if "mget (mput es k e) k1 = Some e1" "mget (mput es k e) k2 = Some e2" "pe_seen e1 = pe_seen e2"
      for k1 e1 k2 e2
    proof (cases "k1 = k \<or> k2 = k")
      case True
      then show ?thesis using that assms(3) old [of k1 e1] old [of k2 e2] by (auto split: if_splits)
    next
      case False
      then show ?thesis using that assms(1) by (simp add: stamps_ok_def)
    qed
  qed
qed

lemma wf_newProofStore: "wf_proofs (newProofStore mx)"
  by (simp add: wf_proofs_def newProofStore_def defaultMaxAgentProofs_def stamps_ok_def)

lemma proof_step_fixed [simp]: "ps_max (proof_step c p) = ps_max p"
  by (cases c) (simp_all add: proof_ok_def learn_def Let_def split: option.splits)

lemma clock_proof_step: "unat (ps_clock p) + 1 < 2 ^ 64 \<Longrightarrow> unat (ps_clock (proof_step c p)) \<le> unat (ps_clock p) + 1"
  using unat_tick [of "ps_clock p"] by (cases c) (simp_all add: proof_ok_def learn_def Let_def split: option.splits)

text \<open>The table \<open>learn\<close> inserts into.\<close>

definition room_table :: "proofStore \<Rightarrow> (string, proofEntry) gomap" where
  "room_table p = (if int (length (ps_entries p)) \<ge> ps_max p then proof_evictLRU (ps_entries p) else ps_entries p)"

lemma room_table_sub: "mget (room_table p) k = Some e \<Longrightarrow> mget (ps_entries p) k = Some e"
  using proofs.mget_evict [of "ps_entries p"] by (auto simp: room_table_def split: if_splits)

lemma wf_room_table: "wf_gomap (ps_entries p) \<Longrightarrow> wf_gomap (room_table p)"
  by (simp add: room_table_def proofs.wf_evict)

text \<open>\<open>learn\<close> changes the store exactly when an open slot presents a valid proof.\<close>

lemma learn_cases:
  obtains "learn k pf p = p" "pf = [] \<or> length pf > maxAgentProofBytes \<or> mget (ps_entries p) k \<noteq> None"
  | "mget (ps_entries p) k = None" "pf \<noteq> []" "length pf \<le> maxAgentProofBytes"
    "learn k pf p = p\<lparr>ps_clock := ps_clock p + 1,
       ps_entries := mput (room_table p) k \<lparr>pe_secret = pf, pe_seen = ps_clock p + 1\<rparr>\<rparr>"
proof (cases "pf = [] \<or> length pf > maxAgentProofBytes \<or> mget (ps_entries p) k \<noteq> None")
  case True
  then have "learn k pf p = p" by (auto simp: learn_def)
  with True that(1) show ?thesis by blast
next
  case False
  then show ?thesis by (intro that(2)) (simp_all add: learn_def room_table_def Let_def)
qed

lemma room_table_length: "wf_proofs p \<Longrightarrow> mget (ps_entries p) k = None \<Longrightarrow> int (length (mput (room_table p) k e)) \<le> ps_max p"
proof -
  assume wf: "wf_proofs p" and "mget (ps_entries p) k = None"
  then have "length (mput (if nat (ps_max p) \<le> length (ps_entries p) then proof_evictLRU (ps_entries p) else ps_entries p) k e)
      \<le> nat (ps_max p)"
    by (intro proofs.bounded_insert) (auto simp: wf_proofs_def)
  moreover have "nat (ps_max p) \<le> length (ps_entries p) \<longleftrightarrow> ps_max p \<le> int (length (ps_entries p))" by linarith
  ultimately show ?thesis using wf by (simp add: wf_proofs_def room_table_def split: if_splits)
qed

lemma wf_touch:
  assumes "wf_proofs p" "unat (ps_clock p) + 1 < 2 ^ 64" "stamps_ok es (ps_clock p)" "wf_gomap es"
    and "pe_seen e = ps_clock p + 1" "int (length (mput es k e)) \<le> ps_max p"
  shows "wf_proofs (p\<lparr>ps_clock := ps_clock p + 1, ps_entries := mput es k e\<rparr>)"
  using assms stamps_ok_touch [OF assms(3,2,5), of k] by (simp add: wf_proofs_def)

lemma wf_proof_step [wf_intros]:
  assumes "wf_proofs p" "unat (ps_clock p) + 1 < 2 ^ 64"
  shows "wf_proofs (proof_step c p)"
proof (cases c)
  case (OpOk k pf)
  show ?thesis
  proof (cases "mget (ps_entries p) k")
    case None
    then show ?thesis using assms OpOk by (simp add: proof_ok_def)
  next
    case (Some e)
    then have "proof_step c p = p\<lparr>ps_clock := ps_clock p + 1,
        ps_entries := mput (ps_entries p) k (e\<lparr>pe_seen := ps_clock p + 1\<rparr>)\<rparr>"
      by (simp add: OpOk proof_ok_def Let_def)
    moreover have "length (mput (ps_entries p) k (e\<lparr>pe_seen := ps_clock p + 1\<rparr>)) = length (ps_entries p)"
      using Some by (rule length_mput_old)
    ultimately show ?thesis
      using wf_touch [OF assms, of "ps_entries p" "e\<lparr>pe_seen := ps_clock p + 1\<rparr>" k] assms(1)
      by (simp add: wf_proofs_def)
  qed
next
  case (OpLearn k pf)
  have st: "stamps_ok (room_table p) (ps_clock p)"
  proof (rule stamps_ok_sub)
    show "stamps_ok (ps_entries p) (ps_clock p)" using assms(1) by (simp add: wf_proofs_def)
  qed (rule room_table_sub)
  show ?thesis
  proof (cases rule: learn_cases [of k pf p])
    case 1
    then show ?thesis using assms(1) OpLearn by simp
  next
    case 2
    moreover have "wf_gomap (room_table p)" using assms(1) by (simp add: wf_proofs_def wf_room_table)
    ultimately show ?thesis
      using wf_touch [OF assms st] OpLearn room_table_length [OF assms(1) 2(1)] by simp
  qed
qed

section \<open>A slot outlives its rivals\<close>

text \<open>Slot \<open>k\<close> holds \<open>s\<close>, and whatever was stamped after it belongs to \<open>T\<close>.\<close>

definition holds_since :: "string \<Rightarrow> string \<Rightarrow> string set \<Rightarrow> proofStore \<Rightarrow> bool" where
  "holds_since k s T p \<longleftrightarrow>
     (\<exists>e. mget (ps_entries p) k = Some e \<and> pe_secret e = s \<and>
       (\<forall>k' e'. mget (ps_entries p) k' = Some e' \<and> pe_seen e < pe_seen e' \<longrightarrow> k' \<in> T))"

lemma evict_keeps:
  assumes "wf_proofs p" "holds_since k s T p" "finite T" "k \<notin> T" "k1 \<in> T" "mget (ps_entries p) k1 = None"
    and "int (card T) < ps_max p" "ps_max p \<le> int (length (ps_entries p))"
  shows "mget (proof_evictLRU (ps_entries p)) k = mget (ps_entries p) k"
proof -
  let ?es = "ps_entries p"
  from assms(2) obtain e where e: "mget ?es k = Some e" "pe_secret e = s"
      "\<And>k' e'. mget ?es k' = Some e' \<Longrightarrow> pe_seen e < pe_seen e' \<Longrightarrow> k' \<in> T"
    unfolding holds_since_def by blast
  have "\<exists>k' e'. mget ?es k' = Some e' \<and> pe_seen e' < pe_seen e"
  proof (rule ccontr)
    assume no: "\<not> ?thesis"
    have "set (map fst ?es) - {k} \<subseteq> T - {k1}"
    proof
      fix k' assume k': "k' \<in> set (map fst ?es) - {k}"
      then obtain e' where e': "mget ?es k' = Some e'" by (metis DiffD1 list.set_map map_of_eq_None_iff not_None_eq)
      with k' e(1) assms(1) have "pe_seen e' \<noteq> pe_seen e" by (auto simp: wf_proofs_def stamps_ok_def)
      with no e' have "pe_seen e < pe_seen e'" by force
      with e(3) e' assms(6) show "k' \<in> T - {k1}" by auto
    qed
    then have "card (set (map fst ?es) - {k}) \<le> card (T - {k1})" using assms(3) by (intro card_mono) auto
    moreover have "card (set (map fst ?es)) = length ?es"
      using assms(1) distinct_card [of "map fst ?es"] by (simp add: wf_proofs_def wf_gomap_def)
    moreover have "k \<in> set (map fst ?es)" using e(1) by (metis list.set_map map_of_eq_None_iff option.distinct(1))
    ultimately have "length ?es - 1 \<le> card T - 1" using assms(3,5) by simp
    moreover have "0 < card T" using assms(3,5) card_gt_0_iff by blast
    ultimately show False using assms(7,8) by linarith
  qed
  then show ?thesis
    using assms(1) e(1) proofs.evict_survivor [of ?es k e] by (auto simp: wf_proofs_def)
qed

lemma holds_since_touch:
  assumes "stamps_ok es clock" "unat clock + 1 < 2 ^ 64" "pe_seen e = clock + 1"
    and "ps_entries p' = mput es k1 e"
    and "\<exists>e0. mget es k = Some e0 \<and> pe_secret e0 = s \<and> (\<forall>k' e'. mget es k' = Some e' \<and> pe_seen e0 < pe_seen e' \<longrightarrow> k' \<in> T)"
    and "k1 = k \<and> pe_secret e = s \<or> k1 \<noteq> k \<and> k1 \<in> T"
  shows "holds_since k s T p'"
proof -
  have old: "pe_seen e' < clock + 1" if "mget es k' = Some e'" for k' e'
    using assms(1) that unat_tick [OF assms(2)] unfolding stamps_ok_def
    by (fastforce simp: word_less_nat_alt word_le_nat_alt)
  show ?thesis
  proof (cases "k1 = k")
    case True
    then show ?thesis using assms(3,4,6) old unfolding holds_since_def by (auto dest: less_asym split: if_splits)
  next
    case False
    then show ?thesis using assms(4,5,6) unfolding holds_since_def by (auto split: if_splits)
  qed
qed

lemma holds_since_step:
  assumes "wf_proofs p" "unat (ps_clock p) + 1 < 2 ^ 64" "holds_since k s T p"
    and "finite T" "k \<notin> T" "op_slot c = k \<or> op_slot c \<in> T" "int (card T) < ps_max p"
  shows "holds_since k s T (proof_step c p)"
proof -
  have st: "stamps_ok (ps_entries p) (ps_clock p)" using assms(1) by (simp add: wf_proofs_def)
  from assms(3) obtain e0 where e0: "mget (ps_entries p) k = Some e0" "pe_secret e0 = s"
      "\<forall>k' e'. mget (ps_entries p) k' = Some e' \<and> pe_seen e0 < pe_seen e' \<longrightarrow> k' \<in> T"
    unfolding holds_since_def by blast
  show ?thesis
  proof (cases c)
    case (OpOk k1 pf)
    show ?thesis
    proof (cases "mget (ps_entries p) k1")
      case None
      then show ?thesis using assms(3) OpOk by (simp add: proof_ok_def)
    next
      case (Some e1)
      then have "proof_step c p = p\<lparr>ps_clock := ps_clock p + 1,
          ps_entries := mput (ps_entries p) k1 (e1\<lparr>pe_seen := ps_clock p + 1\<rparr>)\<rparr>"
        by (simp add: OpOk proof_ok_def Let_def)
      moreover have "k1 = k \<and> pe_secret e1 = s \<or> k1 \<noteq> k \<and> k1 \<in> T"
        using assms(5,6) OpOk Some e0 by auto
      ultimately show ?thesis
        using e0 by (intro holds_since_touch [OF st assms(2), of "e1\<lparr>pe_seen := ps_clock p + 1\<rparr>"]) auto
    qed
  next
    case (OpLearn k1 pf)
    show ?thesis
    proof (cases rule: learn_cases [of k1 pf p])
      case 1
      then show ?thesis using assms(3) OpLearn by simp
    next
      case 2
      then have k1: "k1 \<in> T" "k1 \<noteq> k" using assms(5,6) OpLearn e0(1) by auto
      have k: "mget (room_table p) k = Some e0"
        using evict_keeps [OF assms(1,3,4,5) k1(1) 2(1) assms(7)] e0(1) by (simp add: room_table_def)
      have st': "stamps_ok (room_table p) (ps_clock p)" using st room_table_sub by (rule stamps_ok_sub)
      have up: "\<forall>k' e'. mget (room_table p) k' = Some e' \<and> pe_seen e0 < pe_seen e' \<longrightarrow> k' \<in> T"
        using e0(3) room_table_sub by blast
      show ?thesis
        using 2(4) OpLearn e0(2) k up k1
        by (intro holds_since_touch [OF st' assms(2), of "\<lparr>pe_secret = pf, pe_seen = ps_clock p + 1\<rparr>"]) auto
    qed
  qed
qed

lemma holds_since_run:
  assumes "wf_proofs p" "unat (ps_clock p) + length cs < 2 ^ 64" "holds_since k s T p"
    and "finite T" "k \<notin> T" "op_slot ` set cs \<subseteq> insert k T" "int (card T) < ps_max p"
  shows "holds_since k s T (proof_run cs p)"
  using assms
proof (induction cs arbitrary: p)
  case (Cons c cs)
  then have "holds_since k s T (proof_run cs (proof_step c p))"
    using wf_proof_step [of p c] clock_proof_step [of p c] holds_since_step [of p k s T c]
    by (intro Cons.IH) auto
  then show ?case by simp
qed simp

lemma proof_run_inv:
  assumes "wf_proofs p" "unat (ps_clock p) + length cs < 2 ^ 64"
  shows "wf_proofs (proof_run cs p) \<and> unat (ps_clock (proof_run cs p)) \<le> unat (ps_clock p) + length cs \<and>
    ps_max (proof_run cs p) = ps_max p"
  using assms
proof (induction cs arbitrary: p)
  case (Cons c cs)
  have "unat (ps_clock (proof_step c p)) \<le> unat (ps_clock p) + 1" "wf_proofs (proof_step c p)"
    using Cons.prems clock_proof_step [of p c] wf_proof_step [of p c] by auto
  with Cons.IH [of "proof_step c p"] Cons.prems(2) show ?case by simp
qed simp

definition secrets_ok :: "proofStore \<Rightarrow> bool" where
  "secrets_ok p \<longleftrightarrow> (\<forall>k e. mget (ps_entries p) k = Some e \<longrightarrow>
     1 \<le> length (pe_secret e) \<and> length (pe_secret e) \<le> maxAgentProofBytes)"

lemma secrets_step: "secrets_ok p \<Longrightarrow> secrets_ok (proof_step c p)"
proof (cases c)
  case (OpOk k pf)
  then show "secrets_ok p \<Longrightarrow> ?thesis" by (auto simp: secrets_ok_def proof_ok_def Let_def split: option.splits)
next
  case (OpLearn k pf)
  assume ok: "secrets_ok p"
  show ?thesis
  proof (cases rule: learn_cases [of k pf p])
    case 1
    then show ?thesis using ok OpLearn by simp
  next
    case 2
    then show ?thesis
      using ok OpLearn room_table_sub [of p] unfolding secrets_ok_def by (auto simp: Suc_le_eq)
  qed
qed

lemma secrets_run: "secrets_ok p \<Longrightarrow> secrets_ok (proof_run cs p)"
  by (induction cs arbitrary: p) (auto intro: secrets_step)

section \<open>Properties of the proof store\<close>

text \<open>
  C33. The first proof sticks. After any history, a slot without a proof learns the first valid one it
  presents (1 to 512 bytes); whatever calls follow, as long as they concern fewer other slots than
  the store holds and the 64-bit clock does not wrap, exactly that proof is accepted for the slot.
\<close>

theorem first_proof_sticks:
  assumes "p = proof_run hist (newProofStore mx)" "mget (ps_entries p) k = None"
    and "pf \<noteq> []" "length pf \<le> maxAgentProofBytes" "length hist + length cs + 1 < 2 ^ 64"
    and "int (card (op_slot ` set cs - {k})) < ps_max p"
  shows "fst (proof_ok k q (proof_run (OpLearn k pf # cs) p)) \<longleftrightarrow> q = pf"
proof -
  let ?p = "proof_step (OpLearn k pf) p"
  have p: "wf_proofs p" "unat (ps_clock p) \<le> length hist"
    using proof_run_inv [OF wf_newProofStore, of mx hist] assms(1,5) by (auto simp: newProofStore_def)
  then have step: "wf_proofs ?p" "unat (ps_clock ?p) \<le> length hist + 1" "ps_max ?p = ps_max p"
    using wf_proof_step [of p "OpLearn k pf"] clock_proof_step [of p "OpLearn k pf"] assms(5)
      proof_step_fixed [of "OpLearn k pf" p] by auto
  have "ps_entries ?p = mput (room_table p) k \<lparr>pe_secret = pf, pe_seen = ps_clock ?p\<rparr>"
    using assms(2-4) by (cases rule: learn_cases [of k pf p]) auto
  moreover have "stamps_ok (ps_entries ?p) (ps_clock ?p)" using step(1) by (simp add: wf_proofs_def)
  ultimately have "holds_since k pf (op_slot ` set cs - {k}) ?p"
    unfolding holds_since_def stamps_ok_def by (metis leD mget_mput proofEntry.select_convs)
  then have "holds_since k pf (op_slot ` set cs - {k}) (proof_run cs ?p)"
    using step assms(5,6) by (intro holds_since_run) auto
  then show ?thesis by (auto simp: holds_since_def proof_ok_def Let_def)
qed

theorem first_proof_sticks_witness:
  "\<not> fst (proof_ok ''o|m'' ''evil'' (proof_run [OpLearn ''o|m'' ''secret'', OpLearn ''o|m'' ''evil'', OpOk ''x|y'' ''z'']
     (newProofStore 2)))"
  using first_proof_sticks [of "newProofStore 2" "[]" 2 "''o|m''" "''secret''" "[OpLearn ''o|m'' ''evil'', OpOk ''x|y'' ''z'']" "''evil''"]
  by (simp add: newProofStore_def maxAgentProofBytes_def)

text \<open>
  Memory is bounded: whatever slots and proofs are presented, the store holds at most its configured
  number of proofs, each of 1 to 512 bytes.
\<close>

theorem proof_store_bounded:
  assumes "length cs < 2 ^ 64"
  shows "int (length (ps_entries (proof_run cs (newProofStore mx)))) \<le> (if mx \<le> 0 then 65536 else mx) \<and>
    (\<forall>k e. mget (ps_entries (proof_run cs (newProofStore mx))) k = Some e \<longrightarrow>
       1 \<le> length (pe_secret e) \<and> length (pe_secret e) \<le> 512)"
proof
  have "ps_max (newProofStore mx) = (if mx \<le> 0 then 65536 else mx)" "ps_clock (newProofStore mx) = 0"
    by (simp_all add: newProofStore_def defaultMaxAgentProofs_def)
  with proof_run_inv [OF wf_newProofStore, of mx cs] assms
  show "int (length (ps_entries (proof_run cs (newProofStore mx)))) \<le> (if mx \<le> 0 then 65536 else mx)"
    unfolding wf_proofs_def by (auto simp del: fold_simps)
  show "\<forall>k e. mget (ps_entries (proof_run cs (newProofStore mx))) k = Some e \<longrightarrow>
       1 \<le> length (pe_secret e) \<and> length (pe_secret e) \<le> 512"
    using secrets_run [of "newProofStore mx" cs] by (simp add: newProofStore_def secrets_ok_def maxAgentProofBytes_def)
qed

theorem proof_store_bounded_witness:
  "int (length (ps_entries (proof_run [OpLearn ''a'' ''1'', OpLearn ''b'' ''2'', OpLearn ''c'' ''3''] (newProofStore 2)))) \<le> 2"
  using proof_store_bounded [of "[OpLearn ''a'' ''1'', OpLearn ''b'' ''2'', OpLearn ''c'' ''3'']" 2] by simp

section \<open>The flap counter\<close>

abbreviation flap_run :: "(string \<times> time) list \<Rightarrow> flapCounter \<Rightarrow> flapCounter" where
  "flap_run rs f \<equiv> fold (\<lambda>(k, t) f. snd (flap_record k t f)) rs f"

text \<open>The times at which slot \<open>k\<close> was replaced, in order.\<close>

abbreviation flap_times :: "string \<Rightarrow> (string \<times> time) list \<Rightarrow> time list" where
  "flap_times k rs \<equiv> map snd (filter (\<lambda>r. fst r = k) rs)"

text \<open>
  The table after the history \<open>rs\<close>: only slots of the history, and for each slot all the stamps that
  can still be within the window at any later time, that is from \<open>lo\<close> on.
\<close>

abbreviation stamps_of :: "flapCounter \<Rightarrow> string \<Rightarrow> time list" where
  "stamps_of f k \<equiv> (case mget (fc_slots f) k of Some s \<Rightarrow> s | None \<Rightarrow> [])"

definition flap_tracks :: "(string \<times> time) list \<Rightarrow> time \<Rightarrow> flapCounter \<Rightarrow> bool" where
  "flap_tracks rs lo f \<longleftrightarrow> wf_gomap (fc_slots f) \<and> fst ` set (fc_slots f) \<subseteq> fst ` set rs \<and>
     (\<forall>k. \<forall>now \<ge> lo. filter (\<lambda>t. now - fc_window f < t) (stamps_of f k) =
        filter (\<lambda>t. now - fc_window f < t) (flap_times k rs))"

lemma flap_record_eq:
  assumes "mget (fc_slots f) k = None \<Longrightarrow> int (length (fc_slots f)) < fc_max f"
    and "ss = filter (\<lambda>t. now - fc_window f < t) (stamps_of f k) @ [now]"
  shows "fst (flap_record k now f) = (int (length ss) > fc_threshold f, int (length ss)) \<and>
    mget (fc_slots (snd (flap_record k now f))) = (mget (fc_slots f))(k \<mapsto> ss) \<and>
    (wf_gomap (fc_slots f) \<longrightarrow> wf_gomap (fc_slots (snd (flap_record k now f)))) \<and>
    fst ` set (fc_slots (snd (flap_record k now f))) = insert k (fst ` set (fc_slots f)) \<and>
    fc_window (snd (flap_record k now f)) = fc_window f \<and> fc_max (snd (flap_record k now f)) = fc_max f \<and>
    fc_threshold (snd (flap_record k now f)) = fc_threshold f"
  using assms(1) by (auto simp: flap_record_def Let_def assms(2) update_conv' dom_update split: option.splits)

lemma slots_room:
  assumes "flap_tracks rs lo f" "int (card (insert k (fst ` set rs))) \<le> fc_max f" "mget (fc_slots f) k = None"
  shows "int (length (fc_slots f)) < fc_max f"
proof -
  have "card (insert k (fst ` set (fc_slots f))) = Suc (length (fc_slots f))"
    using assms(1,3) distinct_card [of "map fst (fc_slots f)"]
    by (simp add: flap_tracks_def wf_gomap_def map_of_eq_None_iff)
  moreover have "card (insert k (fst ` set (fc_slots f))) \<le> card (insert k (fst ` set rs))"
    using assms(1) by (intro card_mono) (auto simp: flap_tracks_def)
  ultimately show ?thesis using assms(2) by linarith
qed

lemma flap_step:
  assumes tr: "flap_tracks rs lo f" and room: "int (card (insert k (fst ` set rs))) \<le> fc_max f" and "lo \<le> now"
  shows "snd (fst (flap_record k now f)) = 1 + int (length (filter (\<lambda>t. now - fc_window f < t) (flap_times k rs)))"
    and "flap_tracks (rs @ [(k, now)]) now (snd (flap_record k now f))"
proof -
  note eq = flap_record_eq [OF slots_room [OF tr room] refl, where now = now]
  have now: "filter (\<lambda>t. now - fc_window f < t) (stamps_of f k) = filter (\<lambda>t. now - fc_window f < t) (flap_times k rs)"
    using tr assms(3) by (simp add: flap_tracks_def)
  show "snd (fst (flap_record k now f)) = 1 + int (length (filter (\<lambda>t. now - fc_window f < t) (flap_times k rs)))"
    using eq by (simp add: now)
  have later: "filter (\<lambda>t. now - fc_window f < t \<and> u - fc_window f < t) xs = filter (\<lambda>t. u - fc_window f < t) xs"
    if "now \<le> u" for u and xs :: "time list"
    using that by (auto intro: filter_cong)
  show "flap_tracks (rs @ [(k, now)]) now (snd (flap_record k now f))"
    unfolding flap_tracks_def
  proof (intro conjI allI impI)
    fix k' u assume u: "now \<le> u"
    have "filter (\<lambda>t. u - fc_window f < t) (stamps_of f k') = filter (\<lambda>t. u - fc_window f < t) (flap_times k' rs)"
      using tr u assms(3) by (simp add: flap_tracks_def)
    then show "filter (\<lambda>t. u - fc_window (snd (flap_record k now f)) < t) (stamps_of (snd (flap_record k now f)) k') =
        filter (\<lambda>t. u - fc_window (snd (flap_record k now f)) < t) (flap_times k' (rs @ [(k, now)]))"
      using eq by (simp add: now later [OF u])
  qed (use eq tr in \<open>auto simp: flap_tracks_def\<close>)
qed

lemma flap_tracks_run:
  assumes "sorted (map snd rs)" "int (card (fst ` set rs)) \<le> fc_max f" "fc_slots f = []" "\<forall>t \<in> set (map snd rs). lo \<le> t"
  shows "flap_tracks rs (if rs = [] then lo else snd (last rs)) (flap_run rs f) \<and> fc_max (flap_run rs f) = fc_max f \<and>
    fc_window (flap_run rs f) = fc_window f \<and> fc_threshold (flap_run rs f) = fc_threshold f"
  using assms
proof (induction rs rule: rev_induct)
  case Nil
  then show ?case by (simp add: flap_tracks_def)
next
  case (snoc r rs)
  obtain k now where r: "r = (k, now)" by fastforce
  have "card (fst ` set rs) \<le> card (fst ` set (rs @ [r]))" by (intro card_mono) auto
  with snoc have IH: "flap_tracks rs (if rs = [] then lo else snd (last rs)) (flap_run rs f)"
      "fc_max (flap_run rs f) = fc_max f" "fc_window (flap_run rs f) = fc_window f"
      "fc_threshold (flap_run rs f) = fc_threshold f"
    by (auto simp: sorted_append)
  have le: "(if rs = [] then lo else snd (last rs)) \<le> now"
    using snoc.prems(1,4) r by (auto simp: sorted_append)
  have room: "int (card (insert k (fst ` set rs))) \<le> fc_max (flap_run rs f)" using snoc.prems(2) r IH(2) by simp
  show ?case
    using flap_step(2) [OF IH(1) room le] flap_record_eq [OF slots_room [OF IH(1) room] refl, where now = now] IH(2-4) by (simp add: r)
qed

section \<open>Property of the flap counter\<close>

text \<open>
  While the counter has room for the slots in use, and with a clock that does not run backwards,
  \<open>record\<close> reports exactly the number of replacements of the slot within the sliding window that ends
  now, this one included, and flags the slot when that number exceeds the threshold.
\<close>

theorem flap_count_exact:
  assumes "sorted (map snd rs @ [now])" "0 < mx" "int (card (insert k (fst ` set rs))) \<le> mx"
  shows "fst (flap_record k now (flap_run rs (newFlapCounter th w mx))) =
    (let n = 1 + int (length (filter (\<lambda>t. now - w < t) (flap_times k rs))) in (n > th, n))"
proof -
  let ?f = "newFlapCounter th w mx" and ?lo = "if rs = [] then now else snd (hd rs)"
  have mx: "fc_max ?f = mx" "fc_slots ?f = []" "fc_window ?f = w" "fc_threshold ?f = th"
    using assms(2) by (simp_all add: newFlapCounter_def)
  have "card (fst ` set rs) \<le> card (insert k (fst ` set rs))" by (intro card_mono) auto
  then have tr: "flap_tracks rs (if rs = [] then ?lo else snd (last rs)) (flap_run rs ?f)"
      "fc_max (flap_run rs ?f) = mx" "fc_window (flap_run rs ?f) = w" "fc_threshold (flap_run rs ?f) = th"
    using flap_tracks_run [of rs ?f ?lo] assms(1,3) mx
    by (cases rs; auto simp: sorted_append)+
  have le: "(if rs = [] then ?lo else snd (last rs)) \<le> now"
    using assms(1) by (auto simp: sorted_append)
  have room: "int (card (insert k (fst ` set rs))) \<le> fc_max (flap_run rs ?f)" using assms(3) tr(2) by simp
  show ?thesis
    using flap_step(1) [OF tr(1) room le] flap_record_eq [OF slots_room [OF tr(1) room] refl, where now = now] tr(3,4)
    by (simp add: Let_def)
qed

theorem flap_count_exact_witness:
  "fst (flap_record ''o|m'' 100 (flap_run [(''o|m'', 10), (''x'', 50), (''o|m'', 95)] (newFlapCounter 1 20 8))) = (True, 2)"
  using flap_count_exact [of "[(''o|m'', 10), (''x'', 50), (''o|m'', 95)]" 100 8 "''o|m''" 1 20] by (simp add: card_insert_if)

end
