(* ===== verification/Signal_Conn.thy ===== *)
theory Signal_Conn
  imports Go_Prelude
begin

text \<open>
  The connection objects of the relay, \<^verbatim>\<open>go/internal/signal/protocol.go\<close> and the first part of
  \<^verbatim>\<open>server.go\<close>: signaling messages, an agent's control socket with the browser sessions bound to it,
  a browser's attach socket, and the operations that hand messages to their writers.

  A Go channel of capacity 32 is a queue of at most 32 messages. A \<open>select\<close> picks any alternative
  that is ready; the choice is an argument \<open>sel\<close> of the operation, and a result none means that the
  chosen alternative is not ready. A send's timer counts as ready when the queue is full. A closed channel \<open>done\<close> is a flag.
\<close>

section \<open>Messages: protocol.go\<close>

definition TypeReady :: string where "TypeReady = ''ready''"
definition TypeAttach :: string where "TypeAttach = ''attach''"
definition TypeOffer :: string where "TypeOffer = ''offer''"
definition TypeAnswer :: string where "TypeAnswer = ''answer''"
definition TypeError :: string where "TypeError = ''error''"
definition TypeClose :: string where "TypeClose = ''close''"
definition TypeRegistry :: string where "TypeRegistry = ''registry''"

lemmas Type_defs = TypeReady_def TypeAttach_def TypeOffer_def TypeAnswer_def TypeError_def TypeClose_def TypeRegistry_def

record SignalMsg =
  smType :: string
  smSession :: string
  smSDP :: string
  smReason :: string
  smBinding :: string
  smAuth :: string
  smRegistry :: string

definition msg0 :: SignalMsg where
  "msg0 = \<lparr>smType = [], smSession = [], smSDP = [], smReason = [], smBinding = [], smAuth = [], smRegistry = []\<rparr>"

section \<open>Connections: server.go\<close>

type_synonym cid = nat
type_synonym bid = nat

definition chan_cap :: nat where "chan_cap = 32"

text \<open>
  \<open>agentConn\<close>. The last four fields are the variables of the \<open>handleAgent\<close> call that created the
  connection: the slot it registers and the credentials it presented.
\<close>

record agentConn =
  ac_out :: "SignalMsg list"
  ac_done :: bool
  ac_once :: bool
  ac_sessions :: "(string, bid) gomap"
  ac_registry :: string
  ac_owner :: string
  ac_machine :: string
  ac_proof :: string
  ac_auth :: string

definition newAgentConn :: "string \<Rightarrow> string \<Rightarrow> string \<Rightarrow> string \<Rightarrow> agentConn" where
  "newAgentConn owner machine pf auth =
     \<lparr>ac_out = [], ac_done = False, ac_once = False, ac_sessions = [], ac_registry = [],
      ac_owner = owner, ac_machine = machine, ac_proof = pf, ac_auth = auth\<rparr>"

text \<open>
  \<open>browserConn\<close>, with the variables of its \<open>handleAttach\<close> call: the slot key, the session id, the agent
  it looked up, and whether the one offer was used.
\<close>

record browserConn =
  bc_out :: "SignalMsg list"
  bc_done :: bool
  bc_key :: string
  bc_sess :: string
  bc_agent :: cid
  bc_offered :: bool

definition newBrowserConn :: "string \<Rightarrow> string \<Rightarrow> cid \<Rightarrow> browserConn" where
  "newBrowserConn k sess ac =
     \<lparr>bc_out = [], bc_done = False, bc_key = k, bc_sess = sess, bc_agent = ac, bc_offered = False\<rparr>"

definition setRegistry :: "string \<Rightarrow> agentConn \<Rightarrow> agentConn" where
  "setRegistry blob ac = ac\<lparr>ac_registry := blob\<rparr>"

definition registryBlob :: "agentConn \<Rightarrow> string" where
  "registryBlob ac = ac_registry ac"

datatype bind_error = errAgentGone | errAgentCapacity

definition bind_session :: "string \<Rightarrow> bid \<Rightarrow> int \<Rightarrow> agentConn \<Rightarrow> bind_error + agentConn" where
  "bind_session sess bc maxSessions ac =
     (if ac_done ac then Inl errAgentGone
      else if maxSessions > 0 \<and> int (length (ac_sessions ac)) \<ge> maxSessions then Inl errAgentCapacity
      else Inr (ac\<lparr>ac_sessions := mput (ac_sessions ac) sess bc\<rparr>))"

definition unbind :: "string \<Rightarrow> agentConn \<Rightarrow> agentConn" where
  "unbind sess ac = ac\<lparr>ac_sessions := mdel (ac_sessions ac) sess\<rparr>"

definition session_of :: "string \<Rightarrow> agentConn \<Rightarrow> bid option" where
  "session_of sess ac = mget (ac_sessions ac) sess"

text \<open>
  \<open>teardown\<close> under \<open>once\<close>, in its two parts: under the agent's lock the bound browsers are collected and the
  session map emptied; after the lock \<open>done\<close> is closed and each collected browser is failed.
\<close>

definition teardown_collect :: "agentConn \<Rightarrow> (bid list \<times> agentConn) option" where
  "teardown_collect ac =
     (if ac_once ac then None
      else Some (map snd (ac_sessions ac), ac\<lparr>ac_once := True, ac_sessions := []\<rparr>))"

definition teardown_close :: "agentConn \<Rightarrow> agentConn" where
  "teardown_close ac = ac\<lparr>ac_done := True\<rparr>"

definition notify :: "bool \<Rightarrow> SignalMsg \<Rightarrow> browserConn \<Rightarrow> browserConn option" where
  "notify sel m bc =
     (if sel then if length (bc_out bc) < chan_cap then Some (bc\<lparr>bc_out := bc_out bc @ [m]\<rparr>) else None
      else if bc_done bc \<or> length (bc_out bc) \<ge> chan_cap then Some bc else None)"

definition close_browser :: "browserConn \<Rightarrow> browserConn" where
  "close_browser bc = bc\<lparr>bc_done := True\<rparr>"

definition fail_browser :: "bool \<Rightarrow> string \<Rightarrow> browserConn \<Rightarrow> browserConn option" where
  "fail_browser sel reason bc =
     map_option close_browser (notify sel (msg0\<lparr>smType := TypeError, smReason := reason\<rparr>) bc)"

definition agentSend :: "bool \<Rightarrow> agentConn \<Rightarrow> bool \<Rightarrow> SignalMsg \<Rightarrow> (bool \<times> agentConn) option" where
  "agentSend sel ac browserDone m =
     (if sel then if length (ac_out ac) < chan_cap then Some (True, ac\<lparr>ac_out := ac_out ac @ [m]\<rparr>) else None
      else if ac_done ac \<or> browserDone \<or> length (ac_out ac) \<ge> chan_cap then Some (False, ac) else None)"

section \<open>Writers\<close>

text \<open>
  \<open>flushAndClose\<close> on the queue, given which writes succeed (the infinite stream \<open>ok\<close> of outcomes of
  \<open>c.Write\<close>): the messages that reach the socket before it is closed.
\<close>

fun flushAndClose :: "(nat \<Rightarrow> bool) \<Rightarrow> nat \<Rightarrow> SignalMsg list \<Rightarrow> SignalMsg list" where
  "flushAndClose ok n [] = []"
| "flushAndClose ok n (m # q) = (if ok n then m # flushAndClose ok (Suc n) q else [])"

text \<open>
  \<open>writeUntil\<close>: the first message, then rounds of the \<open>select\<close>. A round is a message put into the
  queue by some other goroutine, the writer taking the first queued message, or the shutdown
  (\<open>done\<close> or the request context), which flushes. Result: what was written, and whether the writer returned.
\<close>

datatype writer_round = WEnqueue SignalMsg | WTake | WShutdown

fun writer_loop :: "(nat \<Rightarrow> bool) \<Rightarrow> nat \<Rightarrow> SignalMsg list \<Rightarrow> writer_round list \<Rightarrow> SignalMsg list \<times> bool" where
  "writer_loop ok n q [] = ([], False)"
| "writer_loop ok n q (WEnqueue m # rs) = writer_loop ok n (q @ [m]) rs"
| "writer_loop ok n q (WTake # rs) =
     (case q of
        [] \<Rightarrow> writer_loop ok n [] rs
      | m # q' \<Rightarrow>
          if ok n then let (w, fin) = writer_loop ok (Suc n) q' rs in (m # w, fin) else ([], True))"
| "writer_loop ok n q (WShutdown # rs) = (flushAndClose ok n q, True)"

definition writeUntil :: "(nat \<Rightarrow> bool) \<Rightarrow> SignalMsg list \<Rightarrow> writer_round list \<Rightarrow> SignalMsg \<Rightarrow> SignalMsg list \<times> bool" where
  "writeUntil ok q rs first =
     (if smType first \<noteq> [] then
        if ok 0 then let (w, fin) = writer_loop ok 1 q rs in (first # w, fin) else ([], True)
      else writer_loop ok 0 q rs)"

section \<open>Lemmas\<close>

lemma bind_session_cases:
  obtains "bind_session sess bc mx ac = Inl errAgentGone" "ac_done ac"
  | "bind_session sess bc mx ac = Inl errAgentCapacity" "\<not> ac_done ac" "0 < mx" "mx \<le> int (length (ac_sessions ac))"
  | "bind_session sess bc mx ac = Inr (ac\<lparr>ac_sessions := mput (ac_sessions ac) sess bc\<rparr>)" "\<not> ac_done ac"
    "mx \<le> 0 \<or> int (length (ac_sessions ac)) < mx"
  unfolding bind_session_def by (cases "ac_done ac"; cases "mx > 0 \<and> int (length (ac_sessions ac)) \<ge> mx") auto

lemma notify_Some:
  "notify sel m bc = Some bc' \<Longrightarrow>
     bc' = bc \<or> bc' = bc\<lparr>bc_out := bc_out bc @ [m]\<rparr> \<and> length (bc_out bc) < chan_cap"
  by (auto simp: notify_def split: if_splits)

lemma flushAndClose_prefix: "\<exists>r. q = flushAndClose ok n q @ r"
  by (induction ok n q rule: flushAndClose.induct) auto

lemma flushAndClose_all: "(\<And>i. ok i) \<Longrightarrow> flushAndClose ok n q = q"
  by (induction ok n q rule: flushAndClose.induct) auto

text \<open>The messages handed to the writer, in order.\<close>

fun enqueued :: "writer_round list \<Rightarrow> SignalMsg list" where
  "enqueued [] = []"
| "enqueued (WEnqueue m # rs) = m # enqueued rs"
| "enqueued (WTake # rs) = enqueued rs"
| "enqueued (WShutdown # rs) = []"

lemma writer_loop_all:
  assumes "\<And>i. ok i" "WShutdown \<in> set rs"
  shows "writer_loop ok n q rs = (q @ enqueued rs, True)"
  using assms
proof (induction ok n q rs rule: writer_loop.induct)
  case (3 ok n q rs)
  then show ?case by (cases q) auto
qed (auto simp: flushAndClose_all)

lemma writer_loop_prefix: "\<exists>r. q @ enqueued rs = fst (writer_loop ok n q rs) @ r"
proof (induction ok n q rs rule: writer_loop.induct)
  case (3 ok n q rs)
  then show ?case by (cases q) (auto simp: split_beta Let_def)
next
  case (4 ok n q rs)
  then show ?case using flushAndClose_prefix [of q ok n] by simp
qed auto

section \<open>Property\<close>

text \<open>
  The writer delivers in order and flushes before closing: whatever the interleaving with the
  senders, what reaches the socket is the first message followed by a prefix of the messages handed over,
  and when the writes succeed and the connection is shut down, it is all of them, a final error
  included.
\<close>

theorem writeUntil_delivers:
  "(\<exists>r. first # q @ enqueued rs = fst (writeUntil ok q rs first) @ r \<or> q @ enqueued rs = fst (writeUntil ok q rs first) @ r) \<and>
   ((\<forall>i. ok i) \<and> WShutdown \<in> set rs \<and> smType first \<noteq> [] \<longrightarrow> writeUntil ok q rs first = (first # q @ enqueued rs, True))"
  using writer_loop_prefix [of q rs ok 1] writer_loop_prefix [of q rs ok 0] writer_loop_all [of ok rs 1 q]
  by (auto simp: writeUntil_def split_beta Let_def)

theorem writeUntil_delivers_witness:
  "writeUntil (\<lambda>_. True) [] [WEnqueue (msg0\<lparr>smType := TypeError\<rparr>), WShutdown] (msg0\<lparr>smType := TypeReady\<rparr>) =
     ([msg0\<lparr>smType := TypeReady\<rparr>, msg0\<lparr>smType := TypeError\<rparr>], True)"
  using writeUntil_delivers [of "msg0\<lparr>smType := TypeReady\<rparr>" "[]" "[WEnqueue (msg0\<lparr>smType := TypeError\<rparr>), WShutdown]" "\<lambda>_. True"]
  by (simp add: TypeReady_def)

end
