(* ===== verification/Relay_Server.thy ===== *)
theory Relay_Server
  imports Identity ProofStore Signal_Conn
begin

text \<open>
  The relay of \<^verbatim>\<open>go/internal/signal/server.go\<close>: the broker's state and, for each handler, its critical
  sections (what runs under \<open>s.mu\<close> or one agent's lock) as functions on that state. \<open>Relay\<close> composes them into
  the interleavings of concurrent handlers.

  Agent and browser connections are objects with identity (a later registration compares the pointer stored in
  the map with its own), so they live in heaps \<open>sv_conns\<close> and \<open>sv_browsers\<close> and the maps hold addresses. Ed25519
  verification and the JSON decoder are arguments \<open>verify\<close> and \<open>decode\<close>.
\<close>

section \<open>Constants and state\<close>

definition maxSignalMessageBytes :: nat where "maxSignalMessageBytes = 256 * 1024"
definition defaultMaxAgentSessions :: int where "defaultMaxAgentSessions = 128"
definition defaultMaxRevocations :: int where "defaultMaxRevocations = 100000"
definition defaultMaxAgents :: int where "defaultMaxAgents = 4096"
definition maxRegistryBlobBytes :: nat where "maxRegistryBlobBytes = 16 * 1024"
definition capacityReason :: string where "capacityReason = ''server capacity reached''"
definition flapWindow :: duration where "flapWindow = 30 * second"
definition flapThreshold :: int where "flapThreshold = 3"

text \<open>What is at the path of the revocations file.\<close>

datatype disk_file = NoFile | Unreadable | Undecodable | RevFile int "Revocation list"

record Server =
  sv_agents :: "(string, cid) gomap"
  sv_proofs :: proofStore
  sv_flaps :: flapCounter
  sv_revoked :: "(string, Revocation) gomap"
  sv_revocationsFile :: string
  sv_maxRevocations :: int
  sv_maxAgents :: int
  sv_maxAgentSessions :: int
  sv_revVersion :: "64 word"
  sv_revPersisted :: "64 word"
  sv_revDurable :: "(string, bool) gomap"
  sv_disk :: disk_file
  sv_conns :: "(cid, agentConn) gomap"
  sv_browsers :: "(bid, browserConn) gomap"
  sv_next :: nat

definition NewServer :: "disk_file \<Rightarrow> Server" where
  "NewServer d =
     \<lparr>sv_agents = [], sv_proofs = newProofStore defaultMaxAgentProofs,
      sv_flaps = newFlapCounter flapThreshold flapWindow defaultMaxAgentProofs,
      sv_revoked = [], sv_revocationsFile = [], sv_maxRevocations = defaultMaxRevocations,
      sv_maxAgents = defaultMaxAgents, sv_maxAgentSessions = defaultMaxAgentSessions,
      sv_revVersion = 0, sv_revPersisted = 0, sv_revDurable = [], sv_disk = d,
      sv_conns = [], sv_browsers = [], sv_next = 0\<rparr>"

definition SetMaxAgents :: "int \<Rightarrow> Server \<Rightarrow> Server" where
  "SetMaxAgents n s = (if n > 0 then s\<lparr>sv_maxAgents := n\<rparr> else s)"

abbreviation bar :: char where "bar \<equiv> CHR ''|''"

definition slot_key :: "string \<Rightarrow> string \<Rightarrow> string" where
  "slot_key owner machine = owner @ [bar] @ machine"

definition shortIDLen :: nat where "shortIDLen = 8"

definition shortID :: "string \<Rightarrow> string" where
  "shortID i = (if length i > shortIDLen then take shortIDLen i else i)"

text \<open>\<open>newSessionID\<close>: 16 random bytes in hex, or the failure of the random source.\<close>

definition newSessionID :: "bytes option \<Rightarrow> string option" where
  "newSessionID rnd = map_option hex_EncodeToString rnd"

definition decodeInboundSignal :: "(bytes \<Rightarrow> SignalMsg option) \<Rightarrow> bytes \<Rightarrow> SignalMsg option" where
  "decodeInboundSignal decode data = (if length data > maxSignalMessageBytes then None else decode data)"

section \<open>GET /registry\<close>

definition registry_entries :: "string \<Rightarrow> Server \<Rightarrow> (string \<times> string) list" where
  "registry_entries owner s =
     (let prefix = owner @ [bar]
      in concat (map (\<lambda>(k, ac).
           if \<not> HasPrefix k prefix then []
           else if mget (sv_revoked s) k \<noteq> None then []
           else case mget (sv_conns s) ac of
                  None \<Rightarrow> []
                | Some c \<Rightarrow> if registryBlob c \<noteq> [] then [(TrimPrefix k prefix, registryBlob c)] else [])
         (sv_agents s)))"

text \<open>\<open>handleRegistry\<close>, with the query parameters \<open>owner_id\<close> and the older \<open>wallet\<close>: a status or the list.\<close>

definition handleRegistry :: "string \<Rightarrow> string \<Rightarrow> Server \<Rightarrow> int + (string \<times> string) list" where
  "handleRegistry owner_id wallet s =
     (let owner = (if owner_id = [] then wallet else owner_id)
      in if owner = [] then Inl 400 else Inr (registry_entries owner s))"

section \<open>Agents\<close>

definition agentRegistrationAuthorized ::
  "(bytes \<Rightarrow> bytes \<Rightarrow> bytes \<Rightarrow> bool) \<Rightarrow> string \<Rightarrow> string \<Rightarrow> string \<Rightarrow> string \<Rightarrow> bool" where
  "agentRegistrationAuthorized verify owner machine pf authorization =
     (if key_of owner = None then True
      else case hex_DecodeString pf of
             None \<Rightarrow> False
           | Some secret \<Rightarrow>
               if length secret \<noteq> 32 then False
               else case b64_DecodeString authorization of
                      None \<Rightarrow> False
                    | Some sig \<Rightarrow>
                        VerifyAuth verify owner
                          (RegistrationChallenge machine (hex_EncodeToString (sha256 secret))) sig = None)"

text \<open>
  \<open>handleAgent\<close> up to the accepted WebSocket: a status, or none when the upgrade goes ahead. The proof check
  touches the proof store.
\<close>

definition handleAgent_check ::
  "(bytes \<Rightarrow> bytes \<Rightarrow> bytes \<Rightarrow> bool) \<Rightarrow> string \<Rightarrow> string \<Rightarrow> string \<Rightarrow> string \<Rightarrow> Server \<Rightarrow> int option \<times> Server" where
  "handleAgent_check verify owner machine pf authorization s =
     (if owner = [] \<or> machine = [] then (Some 400, s)
      else if bar \<in> set owner \<or> bar \<in> set machine then (Some 400, s)
      else if mget (sv_revoked s) (slot_key owner machine) \<noteq> None then (Some 410, s)
      else if \<not> agentRegistrationAuthorized verify owner machine pf authorization then (Some 401, s)
      else let (ok, p) = proof_ok (slot_key owner machine) pf (sv_proofs s);
               s = s\<lparr>sv_proofs := p\<rparr>
           in (if \<not> ok then Some 401 else None, s))"

datatype reg_outcome = RegRevoked | RegProof | RegCapacity | Registered cid "cid option" bool

text \<open>The second critical section of \<open>handleAgent\<close>: re-check, cap, learn the proof, take the slot.\<close>

definition handleAgent_register ::
  "string \<Rightarrow> string \<Rightarrow> string \<Rightarrow> string \<Rightarrow> time \<Rightarrow> Server \<Rightarrow> reg_outcome \<times> Server" where
  "handleAgent_register owner machine pf authorization now s =
     (let k = slot_key owner machine
      in if mget (sv_revoked s) k \<noteq> None then (RegRevoked, s)
         else
           let (ok, p) = proof_ok k pf (sv_proofs s); s = s\<lparr>sv_proofs := p\<rparr>
           in if \<not> ok then (RegProof, s)
              else
                let prev = mget (sv_agents s) k
                in if prev = None \<and> sv_maxAgents s > 0 \<and> int (length (sv_agents s)) \<ge> sv_maxAgents s
                   then (RegCapacity, s)
                   else
                     let ac = sv_next s;
                         (flapped, f) = (if prev \<noteq> None
                                         then (let (r, f) = flap_record k now (sv_flaps s) in (fst r, f))
                                         else (False, sv_flaps s))
                     in (Registered ac prev flapped,
                         s\<lparr>sv_proofs := learn k pf (sv_proofs s),
                           sv_agents := mput (sv_agents s) k ac,
                           sv_conns := mput (sv_conns s) ac (newAgentConn owner machine pf authorization),
                           sv_next := Suc ac, sv_flaps := f\<rparr>))"

text \<open>The deferred function of \<open>handleAgent\<close>, before its \<open>teardown\<close>.\<close>

definition handleAgent_leave :: "cid \<Rightarrow> agentConn \<Rightarrow> Server \<Rightarrow> Server" where
  "handleAgent_leave ac c s =
     (let k = slot_key (ac_owner c) (ac_machine c)
      in if mget (sv_agents s) k = Some ac then s\<lparr>sv_agents := mdel (sv_agents s) k\<rparr> else s)"

abbreviation put_conn :: "cid \<Rightarrow> agentConn \<Rightarrow> Server \<Rightarrow> Server" where
  "put_conn ac c s \<equiv> s\<lparr>sv_conns := mput (sv_conns s) ac c\<rparr>"

abbreviation put_browser :: "bid \<Rightarrow> browserConn \<Rightarrow> Server \<Rightarrow> Server" where
  "put_browser b bc s \<equiv> s\<lparr>sv_browsers := mput (sv_browsers s) b bc\<rparr>"

text \<open>One frame of the agent's reader. \<open>sel\<close> is the choice of \<open>notify\<close>'s select.\<close>

definition agent_frame ::
  "(bytes \<Rightarrow> SignalMsg option) \<Rightarrow> bool \<Rightarrow> cid \<Rightarrow> agentConn \<Rightarrow> bytes \<Rightarrow> Server \<Rightarrow> Server option" where
  "agent_frame decode sel ac c data s =
     (case decodeInboundSignal decode data of
        None \<Rightarrow> Some s
      | Some m \<Rightarrow>
          if smType m = TypeRegistry then
            if length (smRegistry m) > maxRegistryBlobBytes then Some s
            else Some (put_conn ac (setRegistry (smRegistry m) c) s)
          else if smType m = TypeAnswer then
            case session_of (smSession m) c of
              None \<Rightarrow> Some s
            | Some b \<Rightarrow>
                (case mget (sv_browsers s) b of
                   None \<Rightarrow> None
                 | Some bc \<Rightarrow>
                     map_option (\<lambda>bc. put_browser b (close_browser bc) s)
                       (notify sel (msg0\<lparr>smType := TypeAnswer, smSDP := smSDP m\<rparr>) bc))
          else Some s)"

section \<open>Browsers\<close>

datatype attach_outcome = AttachBad | AttachRevoked | AttachOffline | AttachFound cid

text \<open>\<open>handleAttach\<close> up to the lookup under \<open>s.mu\<close>.\<close>

definition handleAttach_lookup :: "string \<Rightarrow> string \<Rightarrow> Server \<Rightarrow> attach_outcome" where
  "handleAttach_lookup owner machine s =
     (if owner = [] \<or> machine = [] then AttachBad
      else if mget (sv_revoked s) (slot_key owner machine) \<noteq> None then AttachRevoked
      else case mget (sv_agents s) (slot_key owner machine) of None \<Rightarrow> AttachOffline | Some ac \<Rightarrow> AttachFound ac)"

text \<open>The rest of \<open>handleAttach\<close> up to its \<open>bind\<close>, which creates the browser connection.\<close>

definition handleAttach_bind :: "bytes option \<Rightarrow> string \<Rightarrow> cid \<Rightarrow> agentConn \<Rightarrow> Server \<Rightarrow> bid option \<times> Server" where
  "handleAttach_bind rnd k ac c s =
     (case newSessionID rnd of
        None \<Rightarrow> (None, s)
      | Some sess \<Rightarrow>
          (case bind_session sess (sv_next s) (sv_maxAgentSessions s) c of
             Inl e \<Rightarrow> (None, s)
           | Inr c' \<Rightarrow>
               (Some (sv_next s),
                put_conn ac c' (put_browser (sv_next s) (newBrowserConn k sess ac) (s\<lparr>sv_next := Suc (sv_next s)\<rparr>)))))"

text \<open>
  Handing a message to an agent on behalf of browser \<open>b\<close>; a failed hand-over fails the browser
  (\<open>fsel\<close> is the choice of its \<open>notify\<close>).
\<close>

definition send_or_fail ::
  "bool \<Rightarrow> bool \<Rightarrow> cid \<Rightarrow> agentConn \<Rightarrow> bid \<Rightarrow> browserConn \<Rightarrow> SignalMsg \<Rightarrow> Server \<Rightarrow> Server option" where
  "send_or_fail sel fsel ac c b bc m s =
     (case agentSend sel c (bc_done bc) m of
        None \<Rightarrow> None
      | Some (True, c') \<Rightarrow> Some (put_conn ac c' s)
      | Some (False, c') \<Rightarrow>
          map_option (\<lambda>bc. put_browser b bc s) (fail_browser fsel ''machine offline'' bc))"

text \<open>The notification that a browser wants the agent.\<close>

definition handleAttach_notify :: "bool \<Rightarrow> bool \<Rightarrow> cid \<Rightarrow> agentConn \<Rightarrow> bid \<Rightarrow> browserConn \<Rightarrow> Server \<Rightarrow> Server option" where
  "handleAttach_notify sel fsel ac c b bc s =
     send_or_fail sel fsel ac c b bc (msg0\<lparr>smType := TypeAttach, smSession := bc_sess bc\<rparr>) s"

text \<open>
  One frame of the browser's reader: the first offer goes to the agent that is live under the browser's key now,
  later ones are ignored.
\<close>

definition browser_frame ::
  "(bytes \<Rightarrow> SignalMsg option) \<Rightarrow> bool \<Rightarrow> bool \<Rightarrow> bid \<Rightarrow> browserConn \<Rightarrow> bytes \<Rightarrow> Server \<Rightarrow> Server option" where
  "browser_frame decode sel fsel b bc data s =
     (case decodeInboundSignal decode data of
        None \<Rightarrow> Some s
      | Some m \<Rightarrow>
          if smType m \<noteq> TypeOffer \<or> bc_offered bc then Some s
          else
            let bc = bc\<lparr>bc_offered := True\<rparr>; s = put_browser b bc s
            in case mget (sv_agents s) (bc_key bc) of
                 None \<Rightarrow> map_option (\<lambda>bc. put_browser b bc s) (fail_browser fsel ''machine offline'' bc)
               | Some live \<Rightarrow>
                   (case mget (sv_conns s) live of
                      None \<Rightarrow> None
                    | Some c \<Rightarrow>
                        send_or_fail sel fsel live c b bc
                          (msg0\<lparr>smType := TypeOffer, smSession := bc_sess bc, smSDP := smSDP m,
                                smBinding := smBinding m, smAuth := smAuth m\<rparr>) s))"

text \<open>The deferred function of \<open>handleAttach\<close>: unbind the session, close the browser.\<close>

definition handleAttach_leave :: "bid \<Rightarrow> browserConn \<Rightarrow> Server \<Rightarrow> Server" where
  "handleAttach_leave b bc s =
     (let s = (case mget (sv_conns s) (bc_agent bc) of
                 None \<Rightarrow> s
               | Some c \<Rightarrow> put_conn (bc_agent bc) (unbind (bc_sess bc) c) s)
      in put_browser b (close_browser bc) s)"

section \<open>Slots\<close>

lemma slot_key_inject:
  "bar \<notin> set o1 \<Longrightarrow> bar \<notin> set o2 \<Longrightarrow> slot_key o1 m1 = slot_key o2 m2 \<longleftrightarrow> o1 = o2 \<and> m1 = m2"
  using append_sep_inject [of bar o1 o2 m1 m2] by (auto simp: slot_key_def)

lemma slot_prefix:
  assumes "bar \<notin> set owner" "bar \<notin> set machine"
  shows "HasPrefix (slot_key owner machine) (q @ [bar]) \<longleftrightarrow> q = owner"
proof
  assume "HasPrefix (slot_key owner machine) (q @ [bar])"
  then obtain t where t: "owner @ bar # machine = q @ bar # t" by (auto simp: HasPrefix_iff slot_key_def)
  have "bar \<notin> set q"
  proof
    assume "bar \<in> set q"
    then have "2 \<le> count_list (q @ bar # t) bar"
      by (simp add: count_list_append) (metis One_nat_def Suc_leI count_list_0_iff neq0_conv trans_le_add1)
    moreover have "count_list (owner @ bar # machine) bar = 1"
      using assms by (simp add: count_list_append count_list_0_iff)
    ultimately show False using t by simp
  qed
  then show "q = owner" using append_sep_inject [OF _ assms(1) t [symmetric]] by blast
next
  assume "q = owner"
  then show "HasPrefix (slot_key owner machine) (q @ [bar])"
    by (simp add: slot_key_def HasPrefix_iff)
qed

lemma TrimPrefix_slot [simp]: "TrimPrefix (slot_key owner machine) (owner @ [bar]) = machine"
  using TrimPrefix_append [of "owner @ [bar]" machine] by (simp add: slot_key_def)

end
