(* ===== verification/Utf8.thy ===== *)
theory Utf8
  imports Codec
begin

text \<open>
  Go strings as runes: \<open>utf8.DecodeRuneInString\<close>, the \<open>range\<close> loop over a string, \<open>utf8.RuneCountInString\<close>,
  \<open>unicode.IsSpace\<close>, \<open>unicode.IsControl\<close> and the \<open>strings.TrimSpace\<close>, as the components use them. An invalid
  byte decodes to U+FFFD with width one.
\<close>

definition rune_error :: nat where "rune_error = 65533"

definition cont :: "nat \<Rightarrow> bool" where "cont b \<longleftrightarrow> 128 \<le> b \<and> b \<le> 191"

text \<open>The rune a byte string starts with, and its width.\<close>

fun decode_rune :: "nat list \<Rightarrow> nat \<times> nat" where
  "decode_rune [] = (rune_error, 0)"
| "decode_rune (a # s) =
     (if a < 128 then (a, 1)
      else case s of
        b # t \<Rightarrow>
          if 194 \<le> a \<and> a \<le> 223 \<and> cont b then ((a - 192) * 64 + (b - 128), 2)
          else (case t of
            c # u \<Rightarrow>
              if (a = 224 \<and> 160 \<le> b \<and> b \<le> 191 \<or> a = 237 \<and> 128 \<le> b \<and> b \<le> 159 \<or>
                  (225 \<le> a \<and> a \<le> 239 \<and> a \<noteq> 237) \<and> cont b) \<and> cont c
              then ((a - 224) * 4096 + (b - 128) * 64 + (c - 128), 3)
              else (case u of
                d # v \<Rightarrow>
                  if (a = 240 \<and> 144 \<le> b \<and> b \<le> 191 \<or> 241 \<le> a \<and> a \<le> 243 \<and> cont b \<or> a = 244 \<and> 128 \<le> b \<and> b \<le> 143) \<and>
                     cont c \<and> cont d
                  then ((a - 240) * 262144 + (b - 128) * 4096 + (c - 128) * 64 + (d - 128), 4)
                  else (rune_error, 1)
              | [] \<Rightarrow> (rune_error, 1))
          | [] \<Rightarrow> (rune_error, 1))
      | [] \<Rightarrow> (rune_error, 1))"

declare decode_rune.simps [simp del]

lemma decode_rune_width: "s \<noteq> [] \<Longrightarrow> 1 \<le> snd (decode_rune s) \<and> snd (decode_rune s) \<le> length s"
  by (cases s) (auto simp: decode_rune.simps split: list.splits)

text \<open>The runes of a string with their widths, in the order of a \<open>range\<close> loop.\<close>

function rune_list :: "nat list \<Rightarrow> (nat \<times> nat) list" where
  "rune_list s = (if s = [] then [] else decode_rune s # rune_list (drop (snd (decode_rune s)) s))"
  by pat_completeness auto
termination
  by (relation "measure length") (use decode_rune_width in \<open>auto simp: Suc_le_eq\<close>)

declare rune_list.simps [simp del]

definition codes :: "string \<Rightarrow> nat list" where "codes s = map of_char s"

definition runes :: "string \<Rightarrow> nat list" where "runes s = map fst (rune_list (codes s))"

definition RuneCountInString :: "string \<Rightarrow> nat" where "RuneCountInString s = length (rune_list (codes s))"

text \<open>\<open>utf8.ValidString\<close>.\<close>

definition ValidString :: "string \<Rightarrow> bool" where
  "ValidString s \<longleftrightarrow> list_all (\<lambda>(r, w). \<not> (r = rune_error \<and> w = 1)) (rune_list (codes s))"

definition IsSpace :: "nat \<Rightarrow> bool" where
  "IsSpace r \<longleftrightarrow> r \<in> {9, 10, 11, 12, 13, 32, 133, 160, 5760, 8232, 8233, 8239, 8287, 12288} \<or> 8192 \<le> r \<and> r \<le> 8202"

definition IsControl :: "nat \<Rightarrow> bool" where
  "IsControl r \<longleftrightarrow> r < 32 \<or> 127 \<le> r \<and> r < 160"

text \<open>\<open>strings.TrimSpace\<close>: the bytes of the runes left after trimming white-space runes at both ends.\<close>

definition TrimSpace :: "string \<Rightarrow> string" where
  "TrimSpace s =
     (let rs = rune_list (codes s);
          lead = takeWhile (\<lambda>(r, w). IsSpace r) rs;
          rest = dropWhile (\<lambda>(r, w). IsSpace r) rs;
          kept = rev (dropWhile (\<lambda>(r, w). IsSpace r) (rev rest))
      in take (sum_list (map snd kept)) (drop (sum_list (map snd lead)) s))"

text \<open>
  \<open>strings.ToLower\<close>: byte by byte on ASCII, otherwise \<open>strings.Map\<close> over the runes. The Unicode case table above ASCII is the argument \<open>lower\<close>.
\<close>

definition lower_ascii :: "nat \<Rightarrow> nat" where "lower_ascii r = (if 65 \<le> r \<and> r \<le> 90 then r + 32 else r)"

definition encode_rune :: "nat \<Rightarrow> nat list" where
  "encode_rune r =
     (if r < 128 then [r]
      else if r < 2048 then [192 + r div 64, 128 + r mod 64]
      else if 55296 \<le> r \<and> r \<le> 57343 \<or> 1114111 < r then [239, 191, 189]
      else if r < 65536 then [224 + r div 4096, 128 + r div 64 mod 64, 128 + r mod 64]
      else [240 + r div 262144, 128 + r div 4096 mod 64, 128 + r div 64 mod 64, 128 + r mod 64])"

definition all_ascii :: "string \<Rightarrow> bool" where "all_ascii s \<longleftrightarrow> list_all (\<lambda>c. c < 128) (codes s)"

definition ToLower :: "(nat \<Rightarrow> nat) \<Rightarrow> string \<Rightarrow> string" where
  "ToLower lower s =
     (if all_ascii s then map (\<lambda>c. char_of (lower_ascii (of_char c))) s
      else map char_of (concat (map (\<lambda>r. encode_rune (if r < 128 then lower_ascii r else lower r)) (runes s))))"

section \<open>Widths\<close>

lemma sum_widths: "sum_list (map snd (rune_list s)) = length s"
proof (induction s rule: rune_list.induct)
  case (1 s)
  then show ?case using decode_rune_width [of s] by (auto simp: rune_list.simps [of s])
qed

lemma rune_width_pos: "(r, w) \<in> set (rune_list s) \<Longrightarrow> 1 \<le> w"
proof (induction s rule: rune_list.induct)
  case (1 s)
  then show ?case using decode_rune_width [of s] by (cases "decode_rune s") (auto simp: rune_list.simps [of s] split: if_splits)
qed

lemma length_codes [simp]: "length (codes s) = length s"
  by (simp add: codes_def)

lemma RuneCount_le: "RuneCountInString s \<le> length s"
proof -
  have "length xs \<le> sum_list (map snd xs)" if "\<forall>(r, w) \<in> set xs. 1 \<le> w" for xs :: "(nat \<times> nat) list"
    using that by (induction xs) auto
  from this [of "rune_list (codes s)"] show ?thesis
    using rune_width_pos sum_widths [of "codes s"] by (fastforce simp: RuneCountInString_def)
qed

text \<open>A string of ASCII bytes is its own list of runes.\<close>

lemma rune_list_ascii: "list_all (\<lambda>c. c < 128) s \<Longrightarrow> rune_list s = map (\<lambda>c. (c, 1)) s"
  by (induction s) (simp_all add: rune_list.simps decode_rune.simps)

lemma ValidString_ascii: "list_all (\<lambda>c. of_char c < (128 :: nat)) s \<Longrightarrow> ValidString s"
proof -
  assume "list_all (\<lambda>c. of_char c < (128 :: nat)) s"
  then have "list_all (\<lambda>c. c < 128) (codes s)" by (simp add: codes_def list_all_iff)
  then show ?thesis by (auto simp: ValidString_def rune_list_ascii list_all_iff rune_error_def)
qed

text \<open>Trimming leaves a string alone exactly when it neither starts nor ends with a white-space rune.\<close>

lemma sum_widths_zero: "\<forall>(r, w) \<in> set xs. 1 \<le> w \<Longrightarrow> sum_list (map snd xs) = (0 :: nat) \<longleftrightarrow> xs = []"
  by (cases xs) auto

lemma TrimSpace_id:
  "TrimSpace s = s \<longleftrightarrow> s = [] \<or> \<not> IsSpace (hd (runes s)) \<and> \<not> IsSpace (last (runes s))"
proof -
  define sp where "sp = (\<lambda>(r :: nat, w :: nat). IsSpace r)"
  define rs where "rs = rune_list (codes s)"
  define lead where "lead = takeWhile sp rs"
  define rest where "rest = dropWhile sp rs"
  define trail where "trail = takeWhile sp (rev rest)"
  define kept where "kept = rev (dropWhile sp (rev rest))"
  have rest: "rest = kept @ rev trail" unfolding kept_def trail_def by (metis rev_append rev_rev_ident takeWhile_dropWhile_id)
  have split: "rs = lead @ kept @ rev trail" unfolding rest [symmetric] by (simp add: lead_def rest_def)
  have len: "sum_list (map snd rs) = length s" by (simp add: rs_def sum_widths)
  have pos: "\<forall>(r, w) \<in> set rs. 1 \<le> w" using rune_width_pos by (auto simp: rs_def)
  have z: "sum_list (map snd lead) = 0 \<longleftrightarrow> lead = []" "sum_list (map snd trail) = 0 \<longleftrightarrow> trail = []"
    using pos by (intro sum_widths_zero; auto simp: split)+
  have total: "sum_list (map snd lead) + sum_list (map snd kept) + sum_list (map snd trail) = length s"
    using len split by (simp add: rev_map [symmetric] sum_list_rev)
  have t: "TrimSpace s = take (sum_list (map snd kept)) (drop (sum_list (map snd lead)) s)"
    by (simp add: TrimSpace_def Let_def lead_def kept_def rest_def rs_def sp_def)
  have "TrimSpace s = s \<longleftrightarrow> lead = [] \<and> trail = []"
  proof
    assume "TrimSpace s = s"
    then have "length s \<le> sum_list (map snd kept)" using t by (metis length_take min.cobounded2 nat_le_linear take_all_iff length_drop min_def)
    then have "sum_list (map snd lead) = 0" "sum_list (map snd trail) = 0" using total by linarith+
    then show "lead = [] \<and> trail = []" unfolding z by blast
  next
    assume "lead = [] \<and> trail = []"
    then show "TrimSpace s = s" using t total z by simp
  qed
  also have "\<dots> \<longleftrightarrow> rs = [] \<or> \<not> sp (hd rs) \<and> \<not> sp (last rs)"
  proof -
    have l: "lead = [] \<longleftrightarrow> rs = [] \<or> \<not> sp (hd rs)" by (cases rs) (auto simp: lead_def)
    have "lead = [] \<Longrightarrow> rest = rs" using split rest by simp
    moreover have "trail = [] \<longleftrightarrow> rest = [] \<or> \<not> sp (last rest)"
      by (cases rest rule: rev_cases) (auto simp: trail_def)
    ultimately show ?thesis using l by auto
  qed
  also have "\<dots> \<longleftrightarrow> s = [] \<or> \<not> IsSpace (hd (runes s)) \<and> \<not> IsSpace (last (runes s))"
  proof -
    have "rs = [] \<longleftrightarrow> s = []" by (simp add: rs_def rune_list.simps codes_def)
    then show ?thesis by (auto simp: runes_def rs_def [symmetric] sp_def hd_map last_map split_beta)
  qed
  finally show ?thesis .
qed

lemma runes_ascii: "all_ascii s \<Longrightarrow> runes s = codes s"
  by (simp add: runes_def all_ascii_def rune_list_ascii comp_def)

lemma TrimSpace_plain:
  assumes "all_ascii s" "list_all (\<lambda>c. \<not> IsSpace (of_char c)) s"
  shows "TrimSpace s = s"
proof (cases "s = []")
  case False
  then have "codes s \<noteq> []" by (simp add: codes_def)
  then have "hd (codes s) \<in> set (codes s)" "last (codes s) \<in> set (codes s)" by simp_all
  then show ?thesis using assms by (auto simp: TrimSpace_id runes_ascii codes_def list_all_iff)
qed (simp add: TrimSpace_id)

end
