(* ===== verification/Revocations.thy ===== *)
theory Revocations
  imports Relay_Server Utf8 "HOL-Library.List_Lexorder" "HOL-Library.Char_ord" "HOL-Library.Product_Lexorder"
begin

text \<open>
  Owner-signed machine revocations on the relay, \<^verbatim>\<open>go/internal/signal/revocations.go\<close>: loading, listing,
  posting, the versioned snapshot that is persisted off the broker lock, and the rollback when the
  write fails. The file system is an argument \<open>io\<close> that says which of the calls of
  \<open>writeRevocationsFile\<close> succeed; the file changes only by the final rename.

  The properties are about posts that run one after the other; \<open>Relay\<close> treats their interleavings.
\<close>

section \<open>The code\<close>

definition maxRevocationBodyBytes :: nat where "maxRevocationBodyBytes = 16 * 1024"

datatype load_error = EmptyPath | ReadFailed | DecodeFailed | FileVersion int | FileCapacity | InvalidEntry Revocation

definition rv_slot :: "Revocation \<Rightarrow> string" where
  "rv_slot r = slot_key (rvOwnerID r) (rvMachineID r)"

text \<open>The loop over the records: the first invalid one stops it; a later record of a slot wins.\<close>

fun load_records ::
  "(bytes \<Rightarrow> bytes \<Rightarrow> bytes \<Rightarrow> bool) \<Rightarrow> Revocation list \<Rightarrow> (string, Revocation) gomap \<Rightarrow>
   load_error + (string, Revocation) gomap" where
  "load_records verify [] loaded = Inr loaded"
| "load_records verify (r # rs) loaded =
     (if VerifyRevocation verify r \<noteq> None then Inl (InvalidEntry r)
      else load_records verify rs (mput loaded (rv_slot r) r))"

definition LoadRevocations :: "(bytes \<Rightarrow> bytes \<Rightarrow> bytes \<Rightarrow> bool) \<Rightarrow> string \<Rightarrow> Server \<Rightarrow> load_error + Server" where
  "LoadRevocations verify path s =
     (if TrimSpace path = [] then Inl EmptyPath
      else
        let res = (case sv_disk s of
                     Unreadable \<Rightarrow> Inl ReadFailed
                   | NoFile \<Rightarrow> Inr []
                   | Undecodable \<Rightarrow> Inl DecodeFailed
                   | RevFile v rs \<Rightarrow>
                       if v \<noteq> 1 then Inl (FileVersion v)
                       else if sv_maxRevocations s > 0 \<and> int (length rs) > sv_maxRevocations s then Inl FileCapacity
                       else load_records verify rs [])
        in case res of
             Inl e \<Rightarrow> Inl e
           | Inr loaded \<Rightarrow>
               Inr (s\<lparr>sv_revoked := loaded, sv_revocationsFile := path,
                      sv_revDurable := map (\<lambda>(slot, r). (slot, True)) loaded\<rparr>))"

definition getRevocations :: "string \<Rightarrow> Server \<Rightarrow> int + Revocation list" where
  "getRevocations owner_id s =
     (let owner = TrimSpace owner_id
      in if owner = [] then Inl 400
         else Inr (sort_key rvMachineID
                (map snd (filter (\<lambda>(slot, r). HasPrefix slot (owner @ [bar])) (sv_revoked s)))))"

definition snapshotRevocationsLocked :: "Server \<Rightarrow> Revocation list" where
  "snapshotRevocationsLocked s = sort_key (\<lambda>r. (rvOwnerID r, rvMachineID r)) (map snd (sv_revoked s))"

datatype fs_call = FMkdirAll | FCreateTemp | FWrite | FChmod | FSync | FClose | FRename

text \<open>\<open>writeRevocationsFile\<close>: the calls in order, each stopping at its failure.\<close>

definition writeRevocationsFile :: "(fs_call \<Rightarrow> bool) \<Rightarrow> Revocation list \<Rightarrow> Server \<Rightarrow> bool \<times> Server" where
  "writeRevocationsFile io rs s =
     (if \<not> io FMkdirAll then (False, s)
      else if \<not> io FCreateTemp then (False, s)
      else if \<not> io FWrite then (False, s)
      else if \<not> io FChmod then (False, s)
      else if \<not> io FSync then (False, s)
      else if \<not> io FClose then (False, s)
      else if \<not> io FRename then (False, s)
      else (True, s\<lparr>sv_disk := RevFile 1 rs\<rparr>))"

definition persistRevocations :: "(fs_call \<Rightarrow> bool) \<Rightarrow> 64 word \<Rightarrow> Revocation list \<Rightarrow> Server \<Rightarrow> bool \<times> Server" where
  "persistRevocations io version rs s =
     (if sv_revocationsFile s = [] then (True, s)
      else if version \<le> sv_revPersisted s then (True, s)
      else
        let (ok, s) = writeRevocationsFile io rs s
        in if \<not> ok then (False, s)
           else (True, s\<lparr>sv_revPersisted := version,
                        sv_revDurable := fold (\<lambda>r d. mput d (rv_slot r) True) rs (sv_revDurable s)\<rparr>))"

definition slotDurable :: "string \<Rightarrow> Server \<Rightarrow> bool" where
  "slotDurable slot s = (mget (sv_revDurable s) slot = Some True)"

definition rollbackRevocation :: "string \<Rightarrow> Revocation option \<Rightarrow> Server \<Rightarrow> Server" where
  "rollbackRevocation slot existing s =
     (case existing of
        Some r \<Rightarrow> s\<lparr>sv_revoked := mput (sv_revoked s) slot r\<rparr>
      | None \<Rightarrow> s\<lparr>sv_revoked := mdel (sv_revoked s) slot\<rparr>)"

text \<open>The body: at most 16 KiB, one JSON record and nothing after it.\<close>

definition decode_revocation :: "(bytes \<Rightarrow> Revocation option) \<Rightarrow> bytes \<Rightarrow> Revocation option" where
  "decode_revocation decode body = (if length body > maxRevocationBodyBytes then None else decode body)"

datatype post_outcome = PostStatus int | PostPersist string "64 word" "Revocation list" "Revocation option" "cid option"

text \<open>
  \<open>postRevocation\<close> after the body is decoded, up to the release of \<open>s.mu\<close>: a final status, or the version and snapshot to persist, the
  record to restore when that fails, and the agent to tear down.
\<close>

definition postRevocation_apply ::
  "(bytes \<Rightarrow> bytes \<Rightarrow> bytes \<Rightarrow> bool) \<Rightarrow> Revocation \<Rightarrow> Server \<Rightarrow> post_outcome \<times> Server" where
  "postRevocation_apply verify r s =
     (if VerifyRevocation verify r \<noteq> None then (PostStatus 401, s)
      else
        let slot = rv_slot r; existing = mget (sv_revoked s) slot
        in if existing = Some r then
             (if sv_revocationsFile s \<noteq> [] \<and> \<not> slotDurable slot s then (PostStatus 500, s) else (PostStatus 204, s))
           else if existing = None \<and> sv_maxRevocations s > 0 \<and> int (length (sv_revoked s)) \<ge> sv_maxRevocations s
           then (PostStatus 503, s)
           else
             let s = s\<lparr>sv_revoked := mput (sv_revoked s) slot r, sv_revVersion := sv_revVersion s + 1\<rparr>;
                 ac = mget (sv_agents s) slot
             in (PostPersist slot (sv_revVersion s) (snapshotRevocationsLocked s) existing ac,
                 s\<lparr>sv_agents := mdel (sv_agents s) slot\<rparr>))"

text \<open>A teardown that runs to its end without interference: each bound browser gets the error if its queue has room.\<close>

definition fail_now :: "bid \<Rightarrow> Server \<Rightarrow> Server" where
  "fail_now b s =
     (case mget (sv_browsers s) b of
        None \<Rightarrow> s
      | Some bc \<Rightarrow>
          (case fail_browser (length (bc_out bc) < chan_cap) ''machine offline'' bc of
             None \<Rightarrow> s
           | Some bc' \<Rightarrow> put_browser b bc' s))"

definition teardown_now :: "cid \<Rightarrow> Server \<Rightarrow> Server" where
  "teardown_now ac s =
     (case mget (sv_conns s) ac of
        None \<Rightarrow> s
      | Some c \<Rightarrow>
          (case teardown_collect c of
             None \<Rightarrow> s
           | Some (bound, c') \<Rightarrow> fold fail_now bound (put_conn ac (teardown_close c') s)))"

text \<open>\<open>postRevocation\<close> from its body to its status.\<close>

definition postRevocation ::
  "(bytes \<Rightarrow> bytes \<Rightarrow> bytes \<Rightarrow> bool) \<Rightarrow> (bytes \<Rightarrow> Revocation option) \<Rightarrow> (fs_call \<Rightarrow> bool) \<Rightarrow> bytes \<Rightarrow> Server \<Rightarrow> int \<times> Server" where
  "postRevocation verify decode io body s =
     (case decode_revocation decode body of
        None \<Rightarrow> (400, s)
      | Some r \<Rightarrow>
          (case postRevocation_apply verify r s of
             (PostStatus st, s) \<Rightarrow> (st, s)
           | (PostPersist slot version rs existing ac, s) \<Rightarrow>
               let s = (case ac of None \<Rightarrow> s | Some ac \<Rightarrow> teardown_now ac s);
                   (ok, s) = persistRevocations io version rs s
               in if ok then (204, s) else (500, rollbackRevocation slot existing s)))"

datatype http_method = GET | POST | OtherMethod

text \<open>\<open>handleRevocations\<close>: the dispatch on the method.\<close>

definition handleRevocations ::
  "(bytes \<Rightarrow> bytes \<Rightarrow> bytes \<Rightarrow> bool) \<Rightarrow> (bytes \<Rightarrow> Revocation option) \<Rightarrow> (fs_call \<Rightarrow> bool) \<Rightarrow> http_method \<Rightarrow>
   string \<Rightarrow> bytes \<Rightarrow> Server \<Rightarrow> (int + Revocation list) \<times> Server" where
  "handleRevocations verify decode io meth owner_id body s =
     (case meth of
        GET \<Rightarrow> (getRevocations owner_id s, s)
      | POST \<Rightarrow> let (st, s) = postRevocation verify decode io body s in (Inl st, s)
      | OtherMethod \<Rightarrow> (Inl 405, s))"

section \<open>Frames\<close>

lemma fail_now_frame: "fail_now b s = s\<lparr>sv_browsers := sv_browsers (fail_now b s)\<rparr>"
  by (simp add: fail_now_def split: option.splits)

lemma fold_fail_now_frame: "\<exists>bs. fold fail_now bound s = s\<lparr>sv_browsers := bs\<rparr>"
proof (induction bound arbitrary: s)
  case Nil
  show ?case by (rule exI [of _ "sv_browsers s"]) simp
next
  case (Cons b bound)
  obtain bs where bs: "fail_now b s = s\<lparr>sv_browsers := bs\<rparr>" using fail_now_frame by blast
  obtain bs' where "fold fail_now bound (fail_now b s) = (fail_now b s)\<lparr>sv_browsers := bs'\<rparr>" using Cons.IH by blast
  then show ?case by (auto simp: bs)
qed

lemma teardown_now_frame: "\<exists>cs bs. teardown_now ac s = s\<lparr>sv_conns := cs, sv_browsers := bs\<rparr>"
proof (cases "\<exists>c bound c'. mget (sv_conns s) ac = Some c \<and> teardown_collect c = Some (bound, c')")
  case True
  then obtain c bound c' where "mget (sv_conns s) ac = Some c" "teardown_collect c = Some (bound, c')" by blast
  then show ?thesis
    using fold_fail_now_frame [of bound "put_conn ac (teardown_close c') s"] by (auto simp: teardown_now_def)
next
  case False
  then have "teardown_now ac s = s" by (auto simp: teardown_now_def split: option.splits)
  then show ?thesis by (intro exI [of _ "sv_conns s"] exI [of _ "sv_browsers s"]) simp
qed

lemma writeRevocationsFile_cases:
  obtains "writeRevocationsFile io rs s = (False, s)"
  | "writeRevocationsFile io rs s = (True, s\<lparr>sv_disk := RevFile 1 rs\<rparr>)"
proof -
  have "writeRevocationsFile io rs s = (False, s) \<or> writeRevocationsFile io rs s = (True, s\<lparr>sv_disk := RevFile 1 rs\<rparr>)"
    by (simp add: writeRevocationsFile_def)
  then show ?thesis using that by blast
qed

lemma mget_fold_durable:
  "mget (fold (\<lambda>r d. mput d (rv_slot r) True) rs d) slot = Some True \<longleftrightarrow> slot \<in> rv_slot ` set rs \<or> mget d slot = Some True"
  by (induction rs arbitrary: d) auto

section \<open>The invariant of sequential posts\<close>

definition disk_slots :: "disk_file \<Rightarrow> string set" where
  "disk_slots d = (case d of RevFile v rs \<Rightarrow> rv_slot ` set rs | _ \<Rightarrow> {})"

abbreviation within :: "nat \<Rightarrow> int \<Rightarrow> bool" where
  "within n mx \<equiv> mx \<le> 0 \<or> int n \<le> mx"

text \<open>Every tombstone is signed and filed under its own slot.\<close>

definition records_ok :: "(bytes \<Rightarrow> bytes \<Rightarrow> bytes \<Rightarrow> bool) \<Rightarrow> (string, Revocation) gomap \<Rightarrow> bool" where
  "records_ok verify m \<longleftrightarrow> wf_gomap m \<and> (\<forall>slot r. mget m slot = Some r \<longrightarrow> rv_slot r = slot \<and> VerifyRevocation verify r = None)"

definition disk_ok :: "(bytes \<Rightarrow> bytes \<Rightarrow> bytes \<Rightarrow> bool) \<Rightarrow> int \<Rightarrow> disk_file \<Rightarrow> bool" where
  "disk_ok verify mx d \<longleftrightarrow>
     (case d of
        NoFile \<Rightarrow> True
      | RevFile v rs \<Rightarrow> v = 1 \<and> (\<forall>r \<in> set rs. VerifyRevocation verify r = None) \<and> within (length rs) mx
      | _ \<Rightarrow> False)"

definition rev_inv :: "(bytes \<Rightarrow> bytes \<Rightarrow> bytes \<Rightarrow> bool) \<Rightarrow> Server \<Rightarrow> bool" where
  "rev_inv verify s \<longleftrightarrow> records_ok verify (sv_revoked s) \<and>
     within (length (sv_revoked s)) (sv_maxRevocations s) \<and> unat (sv_revPersisted s) \<le> unat (sv_revVersion s) \<and>
     sv_revocationsFile s \<noteq> [] \<and> disk_ok verify (sv_maxRevocations s) (sv_disk s) \<and> disk_slots (sv_disk s) \<subseteq> dom (mget (sv_revoked s)) \<and>
     (\<forall>slot. slotDurable slot s \<longrightarrow> slot \<in> disk_slots (sv_disk s))"

lemma records_ok_mput: "records_ok verify m \<Longrightarrow> VerifyRevocation verify r = None \<Longrightarrow> records_ok verify (mput m (rv_slot r) r)"
  by (simp add: records_ok_def)

lemma values_of_records:
  assumes "records_ok verify m"
  shows "rv_slot ` snd ` set m = dom (mget m)" "r \<in> snd ` set m \<Longrightarrow> VerifyRevocation verify r = None"
proof -
  have "mget m slot = Some x" if "(slot, x) \<in> set m" for slot x
    using that assms by (simp add: records_ok_def mget_Some_iff)
  then show "rv_slot ` snd ` set m = dom (mget m)" "r \<in> snd ` set m \<Longrightarrow> VerifyRevocation verify r = None"
    using assms unfolding records_ok_def
    by (force simp: dom_map_of_conv_image_fst image_iff dest: map_of_SomeD)+
qed

lemma load_records_Inr:
  assumes "\<forall>r \<in> set rs. VerifyRevocation verify r = None"
  shows "\<exists>m. load_records verify rs m0 = Inr m \<and> dom (mget m) = rv_slot ` set rs \<union> dom (mget m0)"
  using assms
proof (induction rs arbitrary: m0)
  case (Cons r rs)
  then obtain m where "load_records verify rs (mput m0 (rv_slot r) r) = Inr m"
      "dom (mget m) = rv_slot ` set rs \<union> dom (mget (mput m0 (rv_slot r) r))" by fastforce
  with Cons.prems show ?case by (auto simp: update_conv')
qed simp

lemma load_records_sound:
  assumes "load_records verify rs m0 = Inr m" "records_ok verify m0"
  shows "records_ok verify m \<and> (\<forall>r \<in> set rs. VerifyRevocation verify r = None) \<and>
    dom (mget m) = rv_slot ` set rs \<union> dom (mget m0) \<and> length m \<le> length rs + length m0"
  using assms
proof (induction rs arbitrary: m0)
  case (Cons r rs)
  then have v: "VerifyRevocation verify r = None" and l: "load_records verify rs (mput m0 (rv_slot r) r) = Inr m"
    by (auto split: if_splits)
  from Cons.IH [OF l records_ok_mput [OF Cons.prems(2) v]] v length_mput_le [of "rv_slot r" r m0]
  show ?case by (auto simp: update_conv' split: if_splits)
qed simp

text \<open>Loading: either an error, or the invariant holds and the tombstones are those of the file.\<close>

lemma LoadRevocations_inv:
  assumes "LoadRevocations verify path s = Inr s'" "path \<noteq> []" "sv_revPersisted s = 0"
  shows "rev_inv verify s' \<and> dom (mget (sv_revoked s')) = disk_slots (sv_disk s) \<and> sv_agents s' = sv_agents s \<and>
    sv_revVersion s' = sv_revVersion s"
proof -
  obtain m where m: "s' = s\<lparr>sv_revoked := m, sv_revocationsFile := path, sv_revDurable := map (\<lambda>(slot, r). (slot, True)) m\<rparr>"
      "sv_disk s = NoFile \<and> m = [] \<or> (\<exists>rs. sv_disk s = RevFile 1 rs \<and> within (length rs) (sv_maxRevocations s) \<and> load_records verify rs [] = Inr m)"
    using assms(1) by (fastforce simp: LoadRevocations_def Let_def split: if_splits sum.splits disk_file.splits)
  have ok: "records_ok verify m \<and> dom (mget m) = disk_slots (sv_disk s) \<and> disk_ok verify (sv_maxRevocations s) (sv_disk s) \<and> within (length m) (sv_maxRevocations s)"
    using m(2)
  proof (elim disjE exE conjE)
    fix rs assume "sv_disk s = RevFile 1 rs" "load_records verify rs [] = Inr m" "int (length rs) \<le> sv_maxRevocations s"
    with load_records_sound [of verify rs "[]" m] show ?thesis by (auto simp: records_ok_def disk_slots_def disk_ok_def)
  next
    fix rs assume "sv_disk s = RevFile 1 rs" "load_records verify rs [] = Inr m" "sv_maxRevocations s \<le> 0"
    with load_records_sound [of verify rs "[]" m] show ?thesis by (auto simp: records_ok_def disk_slots_def disk_ok_def)
  qed (simp add: records_ok_def disk_slots_def disk_ok_def, linarith)
  have "mget (map (\<lambda>(slot, r). (slot, True)) m) slot = Some True \<Longrightarrow> slot \<in> dom (mget m)" for slot
    by (induction m) (auto split: if_splits)
  then show ?thesis
    using ok m(1) assms(2,3) by (auto simp: rev_inv_def slotDurable_def)
qed

lemma LoadRevocations_disk_ok:
  assumes "disk_ok verify (sv_maxRevocations s) (sv_disk s)" "TrimSpace path \<noteq> []"
  shows "\<exists>s'. LoadRevocations verify path s = Inr s' \<and> dom (mget (sv_revoked s')) = disk_slots (sv_disk s)"
proof (cases "sv_disk s")
  case (RevFile v rs)
  then have rs: "\<forall>r \<in> set rs. VerifyRevocation verify r = None" "v = 1" "within (length rs) (sv_maxRevocations s)"
    using assms(1) by (auto simp: disk_ok_def)
  obtain m where "load_records verify rs [] = Inr m" "dom (mget m) = rv_slot ` set rs"
    using load_records_Inr [OF rs(1), of "[]"] by auto
  then show ?thesis using rs assms(2) RevFile by (auto simp: LoadRevocations_def disk_slots_def)
qed (use assms in \<open>auto simp: LoadRevocations_def disk_slots_def disk_ok_def\<close>)

section \<open>One post\<close>

lemma postRevocation_apply_cases:
  assumes "postRevocation_apply verify r s = (out, s')"
  obtains st where "out = PostStatus st" "s' = s" "st \<in> {401, 500, 503}"
  | "out = PostStatus 204" "s' = s" "VerifyRevocation verify r = None" "mget (sv_revoked s) (rv_slot r) = Some r"
    "sv_revocationsFile s \<noteq> [] \<longrightarrow> slotDurable (rv_slot r) s"
  | s1 where "VerifyRevocation verify r = None"
    "s1 = s\<lparr>sv_revoked := mput (sv_revoked s) (rv_slot r) r, sv_revVersion := sv_revVersion s + 1\<rparr>"
    "out = PostPersist (rv_slot r) (sv_revVersion s + 1) (snapshotRevocationsLocked s1)
       (mget (sv_revoked s) (rv_slot r)) (mget (sv_agents s) (rv_slot r))"
    "s' = s1\<lparr>sv_agents := mdel (sv_agents s) (rv_slot r)\<rparr>"
    "mget (sv_revoked s) (rv_slot r) = None \<longrightarrow> sv_maxRevocations s \<le> 0 \<or> int (length (sv_revoked s)) < sv_maxRevocations s"
proof -
  let ?e = "mget (sv_revoked s) (rv_slot r)"
  let ?full = "?e = None \<and> sv_maxRevocations s > 0 \<and> int (length (sv_revoked s)) \<ge> sv_maxRevocations s"
  consider "VerifyRevocation verify r \<noteq> None" | "VerifyRevocation verify r = None" "?e = Some r"
    | "VerifyRevocation verify r = None" "?e \<noteq> Some r" ?full | "VerifyRevocation verify r = None" "?e \<noteq> Some r" "\<not> ?full"
    by blast
  then show ?thesis
  proof cases
    case 1
    then show ?thesis using that(1) [of 401] assms by (simp add: postRevocation_apply_def)
  next
    case 2
    then show ?thesis using that(1) [of 500] that(2) assms
      by (auto simp: postRevocation_apply_def Let_def split: if_splits)
  next
    case 3
    then have "postRevocation_apply verify r s = (PostStatus 503, s)" by (simp add: postRevocation_apply_def Let_def)
    then show ?thesis using that(1) [of 503] assms by simp
  next
    case 4
    then show ?thesis using assms by (intro that(3) [OF _ refl]) (auto simp: postRevocation_apply_def Let_def)
  qed
qed

lemma snapshot_props:
  assumes "records_ok verify (sv_revoked s)"
  shows "rv_slot ` set (snapshotRevocationsLocked s) = dom (mget (sv_revoked s))"
    "r \<in> set (snapshotRevocationsLocked s) \<Longrightarrow> VerifyRevocation verify r = None"
    "length (snapshotRevocationsLocked s) = length (sv_revoked s)"
  using values_of_records [OF assms] by (simp_all add: snapshotRevocationsLocked_def)

text \<open>Restoring the old value of a slot restores the map.\<close>

lemma rollback_mput:
  "mget (sv_revoked (rollbackRevocation slot (mget m slot) (s\<lparr>sv_revoked := mput m slot r\<rparr>))) = mget m"
  by (auto simp: rollbackRevocation_def split: option.splits)

lemma length_wf_gomap_eq: "wf_gomap m \<Longrightarrow> wf_gomap m' \<Longrightarrow> mget m = mget m' \<Longrightarrow> length m = length m'"
  by (metis distinct_card dom_map_of_conv_image_fst length_map list.set_map wf_gomap_def)

lemma records_ok_same:
  assumes "records_ok verify m" "wf_gomap m'" "mget m' = mget m"
  shows "records_ok verify m'"
  using assms by (simp add: records_ok_def)

text \<open>The write succeeds: the snapshot \<open>rs\<close> of the tombstones \<open>m\<close> is on disk.\<close>

lemma rev_inv_written:
  assumes "rev_inv verify s" "records_ok verify m" "within (length m) (sv_maxRevocations s)"
    and "dom (mget (sv_revoked s)) \<subseteq> dom (mget m)" "rv_slot ` set rs = dom (mget m)"
    and "\<And>r. r \<in> set rs \<Longrightarrow> VerifyRevocation verify r = None" "length rs = length m"
  shows "rev_inv verify (s\<lparr>sv_revoked := m, sv_revVersion := v, sv_agents := as, sv_conns := cs, sv_browsers := bs,
    sv_disk := RevFile 1 rs, sv_revPersisted := v, sv_revDurable := fold (\<lambda>r d. mput d (rv_slot r) True) rs (sv_revDurable s)\<rparr>)"
proof -
  have "slot \<in> rv_slot ` set rs" if "mget (sv_revDurable s) slot = Some True" for slot
    using that assms(1,4,5) unfolding rev_inv_def slotDurable_def by blast
  then show ?thesis
    using assms by (auto simp: rev_inv_def disk_ok_def disk_slots_def slotDurable_def mget_fold_durable)
qed

text \<open>The write fails: the tombstones are what they were.\<close>

lemma rev_inv_rolled_back:
  assumes "rev_inv verify s" "wf_gomap m" "mget m = mget (sv_revoked s)" "unat (sv_revVersion s) \<le> unat v"
  shows "rev_inv verify (s\<lparr>sv_revoked := m, sv_revVersion := v, sv_agents := as, sv_conns := cs, sv_browsers := bs\<rparr>)"
proof -
  have "length m = length (sv_revoked s)"
    using assms(1-3) length_wf_gomap_eq by (auto simp: rev_inv_def records_ok_def)
  then show ?thesis
    using assms records_ok_same [of verify "sv_revoked s" m] by (auto simp: rev_inv_def slotDurable_def)
qed

lemma postRevocation_persisting:
  assumes inv: "rev_inv verify s" and ver: "unat (sv_revVersion s) + 1 < 2 ^ 64"
    and r: "VerifyRevocation verify r = None"
    and room: "mget (sv_revoked s) (rv_slot r) = None \<longrightarrow> sv_maxRevocations s \<le> 0 \<or> int (length (sv_revoked s)) < sv_maxRevocations s"
  defines "m \<equiv> mput (sv_revoked s) (rv_slot r) r" and "v \<equiv> sv_revVersion s + 1"
  assumes s2: "s2 = s\<lparr>sv_revoked := m, sv_revVersion := v, sv_agents := as, sv_conns := cs, sv_browsers := bs\<rparr>"
    and rs: "rs = snapshotRevocationsLocked s2"
    and p: "persistRevocations io v rs s2 = (ok, s3)"
  shows "if ok then rev_inv verify s3 \<and> disk_slots (sv_disk s3) = dom (mget m) \<and> sv_revVersion s3 = v \<and>
      sv_maxRevocations s3 = sv_maxRevocations s
    else s3 = s2 \<and> rev_inv verify (rollbackRevocation (rv_slot r) (mget (sv_revoked s) (rv_slot r)) s2)"
proof -
  have unat_v: "unat v = unat (sv_revVersion s) + 1" using unat_tick [OF ver] by (simp add: v_def)
  have mok: "records_ok verify m" using inv r by (simp add: m_def rev_inv_def records_ok_mput)
  have len: "within (length m) (sv_maxRevocations s)"
    using inv room length_mput_new [of "sv_revoked s"] length_mput_old [of "sv_revoked s"]
    by (cases "mget (sv_revoked s) (rv_slot r)") (auto simp: rev_inv_def m_def)
  have snap: "rv_slot ` set rs = dom (mget m)" "\<And>r. r \<in> set rs \<Longrightarrow> VerifyRevocation verify r = None" "length rs = length m"
    using snapshot_props [of verify s2] mok by (simp_all add: rs s2)
  have onfile: "sv_revocationsFile s2 \<noteq> []" and newer: "\<not> v \<le> sv_revPersisted s2"
    using inv unat_v by (auto simp: s2 rev_inv_def word_le_nat_alt)
  show ?thesis
  proof (cases rule: writeRevocationsFile_cases [of io rs s2])
    case 1
    let ?rb = "rollbackRevocation (rv_slot r) (mget (sv_revoked s) (rv_slot r)) s2"
    have "wf_gomap (sv_revoked ?rb)"
      using inv by (simp add: s2 m_def rollbackRevocation_def rev_inv_def records_ok_def split: option.splits)
    moreover have "mget (sv_revoked ?rb) = mget (sv_revoked s)"
      using rollback_mput [of "rv_slot r" "sv_revoked s" r s2]
      by (simp add: s2 m_def rollbackRevocation_def split: option.splits)
    moreover have "?rb = s\<lparr>sv_revoked := sv_revoked ?rb, sv_revVersion := v, sv_agents := as, sv_conns := cs, sv_browsers := bs\<rparr>"
      by (rule Server.equality) (simp_all add: s2 rollbackRevocation_def split: option.splits)
    ultimately have "rev_inv verify ?rb"
      using rev_inv_rolled_back [OF inv, where m = "sv_revoked ?rb" and v = v and as = as and cs = cs and bs = bs] unat_v by simp
    with 1 p onfile newer show ?thesis by (auto simp: persistRevocations_def)
  next
    case 2
    have "dom (mget (sv_revoked s)) \<subseteq> dom (mget m)" by (auto simp: m_def)
    from rev_inv_written [OF inv mok len this snap, where v = v and as = as and cs = cs and bs = bs] 2 p onfile newer snap(1)
    show ?thesis by (auto simp: persistRevocations_def s2 disk_slots_def)
  qed
qed

text \<open>A post as a whole: what each status means for the tombstones and the file.\<close>

lemma postRevocation_step:
  assumes "rev_inv verify s" "unat (sv_revVersion s) + 1 < 2 ^ 64" "postRevocation verify decode io body s = (st, s')"
  shows "rev_inv verify s' \<and> unat (sv_revVersion s') \<le> unat (sv_revVersion s) + 1 \<and>
    disk_slots (sv_disk s) \<subseteq> disk_slots (sv_disk s') \<and> sv_maxRevocations s' = sv_maxRevocations s \<and>
    (if st = 204
     then \<exists>r. decode_revocation decode body = Some r \<and> VerifyRevocation verify r = None \<and>
       rv_slot r \<in> dom (mget (sv_revoked s')) \<and> rv_slot r \<in> disk_slots (sv_disk s')
     else mget (sv_revoked s') = mget (sv_revoked s) \<and> sv_disk s' = sv_disk s)"
proof (cases "decode_revocation decode body")
  case None
  then show ?thesis using assms by (auto simp: postRevocation_def)
next
  case (Some r)
  obtain out s1 where a: "postRevocation_apply verify r s = (out, s1)" by fastforce
  from a show ?thesis
  proof (cases rule: postRevocation_apply_cases)
    case (1 st0)
    then show ?thesis using assms Some a by (auto simp: postRevocation_def)
  next
    case 2
    then show ?thesis using assms Some a by (auto simp: postRevocation_def rev_inv_def)
  next
    case (3 s0)
    let ?ac = "mget (sv_agents s) (rv_slot r)"
    define s2 where "s2 = (case ?ac of None \<Rightarrow> s1 | Some ac \<Rightarrow> teardown_now ac s1)"
    obtain cs bs where s2: "s2 = s1\<lparr>sv_conns := cs, sv_browsers := bs\<rparr>"
    proof (cases ?ac)
      case None
      show ?thesis by (rule that [of "sv_browsers s1" "sv_conns s1"]) (simp add: s2_def None)
    next
      case (Some ac)
      show ?thesis using teardown_now_frame [of ac s1] that by (auto simp: s2_def Some)
    qed
    obtain ok s3 where p: "persistRevocations io (sv_revVersion s + 1) (snapshotRevocationsLocked s0) s2 = (ok, s3)" by fastforce
    have s2': "s2 = s\<lparr>sv_revoked := mput (sv_revoked s) (rv_slot r) r, sv_revVersion := sv_revVersion s + 1,
        sv_agents := mdel (sv_agents s) (rv_slot r), sv_conns := cs, sv_browsers := bs\<rparr>"
      using 3(2,4) s2 by simp
    have snap: "snapshotRevocationsLocked s0 = snapshotRevocationsLocked s2"
      using 3(2) s2' by (simp add: snapshotRevocationsLocked_def)
    note step = postRevocation_persisting [OF assms(1,2) 3(1,5) s2' refl p [unfolded snap]]
    have res: "(st, s') = (if ok then (204, s3) else (500, rollbackRevocation (rv_slot r) (mget (sv_revoked s) (rv_slot r)) s3))"
      using assms(3) Some a 3(3) p by (simp add: postRevocation_def s2_def [symmetric] del: dom_update)
    have tick: "unat (sv_revVersion s + 1) = unat (sv_revVersion s) + 1" using unat_tick [OF assms(2)] .
    show ?thesis
    proof (cases ok)
      case True
      then have s3: "st = 204" "s' = s3" "rev_inv verify s3" "sv_revVersion s3 = sv_revVersion s + 1"
          "sv_maxRevocations s3 = sv_maxRevocations s" "disk_slots (sv_disk s3) = dom (mget (mput (sv_revoked s) (rv_slot r) r))"
        using step res by auto
      have "disk_slots (sv_disk s) \<subseteq> dom (mget (sv_revoked s))" "disk_slots (sv_disk s3) \<subseteq> dom (mget (sv_revoked s3))"
        using assms(1) s3(3) by (simp_all add: rev_inv_def)
      moreover have "dom (mget (sv_revoked s)) \<subseteq> dom (mget (mput (sv_revoked s) (rv_slot r) r))"
          "rv_slot r \<in> dom (mget (mput (sv_revoked s) (rv_slot r) r))" by auto
      ultimately have "disk_slots (sv_disk s) \<subseteq> disk_slots (sv_disk s3)" "rv_slot r \<in> disk_slots (sv_disk s3)"
          "rv_slot r \<in> dom (mget (sv_revoked s3))"
        unfolding s3(6) by blast+
      then show ?thesis using s3 Some 3(1) tick by simp
    next
      case False
      then show ?thesis
        using step res tick rollback_mput [of "rv_slot r" "sv_revoked s" r s2]
        by (auto simp: s2' rollbackRevocation_def split: option.splits)
    qed
  qed
qed

section \<open>Sequences of posts\<close>

fun post_all ::
  "(bytes \<Rightarrow> bytes \<Rightarrow> bytes \<Rightarrow> bool) \<Rightarrow> (bytes \<Rightarrow> Revocation option) \<Rightarrow> ((fs_call \<Rightarrow> bool) \<times> bytes) list \<Rightarrow> Server \<Rightarrow>
   int list \<times> Server" where
  "post_all verify decode [] s = ([], s)"
| "post_all verify decode ((io, body) # ps) s =
     (let (st, s') = postRevocation verify decode io body s; (sts, s'') = post_all verify decode ps s' in (st # sts, s''))"

lemma post_all_step:
  assumes "rev_inv verify s" "unat (sv_revVersion s) + length ps < 2 ^ 64" "post_all verify decode ps s = (sts, s')"
  shows "rev_inv verify s' \<and> length sts = length ps \<and> disk_slots (sv_disk s) \<subseteq> disk_slots (sv_disk s') \<and>
    sv_maxRevocations s' = sv_maxRevocations s \<and>
    (\<forall>i < length ps. sts ! i = 204 \<longrightarrow>
      (\<exists>r. decode_revocation decode (snd (ps ! i)) = Some r \<and> VerifyRevocation verify r = None \<and> rv_slot r \<in> disk_slots (sv_disk s')))"
  using assms
proof (induction ps arbitrary: s sts)
  case (Cons p ps)
  obtain io body where p: "p = (io, body)" by fastforce
  obtain st s1 where s1: "postRevocation verify decode io body s = (st, s1)" by fastforce
  obtain sts' where rest: "post_all verify decode ps s1 = (sts', s')" "sts = st # sts'"
    using Cons.prems(3) s1 by (auto simp: p Let_def split: prod.splits)
  have step: "rev_inv verify s1" "unat (sv_revVersion s1) \<le> unat (sv_revVersion s) + 1"
      "disk_slots (sv_disk s) \<subseteq> disk_slots (sv_disk s1)" "sv_maxRevocations s1 = sv_maxRevocations s"
      "st = 204 \<Longrightarrow> \<exists>r. decode_revocation decode body = Some r \<and> VerifyRevocation verify r = None \<and> rv_slot r \<in> disk_slots (sv_disk s1)"
    using postRevocation_step [OF Cons.prems(1) _ s1] Cons.prems(2) by (auto split: if_splits)
  have IH: "rev_inv verify s'" "length sts' = length ps" "disk_slots (sv_disk s1) \<subseteq> disk_slots (sv_disk s')"
      "sv_maxRevocations s' = sv_maxRevocations s1"
      "\<forall>i < length ps. sts' ! i = 204 \<longrightarrow>
        (\<exists>r. decode_revocation decode (snd (ps ! i)) = Some r \<and> VerifyRevocation verify r = None \<and> rv_slot r \<in> disk_slots (sv_disk s'))"
    using Cons.IH [OF step(1) _ rest(1)] step(2) Cons.prems(2) by auto
  have "\<forall>i < length (p # ps). sts ! i = 204 \<longrightarrow>
      (\<exists>r. decode_revocation decode (snd ((p # ps) ! i)) = Some r \<and> VerifyRevocation verify r = None \<and> rv_slot r \<in> disk_slots (sv_disk s'))"
  proof (intro allI impI)
    fix i assume "i < length (p # ps)" "sts ! i = 204"
    then show "\<exists>r. decode_revocation decode (snd ((p # ps) ! i)) = Some r \<and> VerifyRevocation verify r = None \<and> rv_slot r \<in> disk_slots (sv_disk s')"
      using step(5) IH(3,5) rest(2) p by (cases i) auto
  qed
  then show ?case using IH(1-4) step(3,4) rest(2) by auto
qed simp

section \<open>Listing\<close>

lemma owner_records:
  assumes "records_ok verify m" "(slot, r) \<in> set m"
  shows "HasPrefix slot (owner @ [bar]) \<longleftrightarrow> rvOwnerID r = owner"
proof -
  have r: "rv_slot r = slot" "VerifyRevocation verify r = None"
    using assms by (simp_all add: records_ok_def flip: mget_Some_iff)
  then have "machineIDRe (rvMachineID r)" "key_of (rvOwnerID r) \<noteq> None"
    by (auto simp: VerifyRevocation_def VerifyAuth_def split: if_splits option.splits)
  moreover have "bar \<notin> set alphabet" by (simp add: alphabet_def)
  moreover have "\<not> is_name_char bar" by (simp add: is_name_char_def is_alnum_def)
  ultimately have "bar \<notin> set (rvOwnerID r)" "bar \<notin> set (rvMachineID r)"
    using key_of_alphabet by (auto simp: machineIDRe_def list_all_iff)
  then show ?thesis using slot_prefix [of "rvOwnerID r" "rvMachineID r" owner] r(1) by (auto simp: rv_slot_def)
qed

section \<open>Properties\<close>

text \<open>
  C12. An acknowledged revocation is permanent. Start from a relay that loaded its revocations file, let any
  posts follow one after the other, each with an arbitrary outcome of the file operations: every post answered
  with 204 carried a record with a valid owner signature, and a relay restarted on the resulting file loads it
  without error and holds the slot of that record as revoked.
\<close>

theorem acknowledged_revocation_survives_restart:
  assumes "TrimSpace path \<noteq> []" "LoadRevocations verify path (NewServer d) = Inr s0"
    and "post_all verify decode ps s0 = (sts, s1)" "length ps < 2 ^ 64" "i < length ps" "sts ! i = 204"
  shows "\<exists>r s2. decode_revocation decode (snd (ps ! i)) = Some r \<and> VerifyRevocation verify r = None \<and>
    LoadRevocations verify path (NewServer (sv_disk s1)) = Inr s2 \<and> mget (sv_revoked s2) (rv_slot r) \<noteq> None"
proof -
  have "path \<noteq> []" using assms(1) by (auto simp: TrimSpace_id)
  then have inv: "rev_inv verify s0" "sv_revVersion s0 = 0"
    using LoadRevocations_inv [OF assms(2)] by (simp_all add: NewServer_def)
  have mx: "sv_maxRevocations s0 = sv_maxRevocations (NewServer d)"
    using assms(2) by (auto simp: LoadRevocations_def Let_def split: if_splits sum.splits)
  note run = post_all_step [OF inv(1) _ assms(3)]
  from run obtain r where r: "decode_revocation decode (snd (ps ! i)) = Some r" "VerifyRevocation verify r = None"
      "rv_slot r \<in> disk_slots (sv_disk s1)" using assms(4-6) inv(2) by auto
  have "disk_ok verify (sv_maxRevocations (NewServer (sv_disk s1))) (sv_disk (NewServer (sv_disk s1)))"
    using run assms(4) inv(2) mx by (auto simp: rev_inv_def NewServer_def)
  then obtain s2 where "LoadRevocations verify path (NewServer (sv_disk s1)) = Inr s2"
      "dom (mget (sv_revoked s2)) = disk_slots (sv_disk s1)"
    using LoadRevocations_disk_ok assms(1) by (fastforce simp: NewServer_def)
  with r show ?thesis by blast
qed

text \<open>A signed tombstone and a relay with an empty file, for the witnesses.\<close>

definition demo_revocation :: Revocation where
  "demo_revocation = \<lparr>rvV = 1, rvOwnerID = demo_id, rvMachineID = ''m1'', rvTS = 5,
     rvSignature = b64_EncodeToString (replicate 64 0)\<rparr>"

definition demo_server :: Server where
  "demo_server = (NewServer NoFile)\<lparr>sv_revocationsFile := ''/r''\<rparr>"

lemma demo_revocation_verifies: "VerifyRevocation demo_verify demo_revocation = None"
proof -
  have "machineIDRe ''m1''" by (simp add: machineIDRe_def is_name_char_def is_alnum_def)
  moreover have "b64_DecodeString (rvSignature demo_revocation) = Some (replicate 64 0)"
    by (simp only: demo_revocation_def Revocation.simps b64_Decode_Encode)
  ultimately show ?thesis
    unfolding VerifyRevocation_def VerifyAuth_def
    by simp (simp add: demo_revocation_def key_of_demo demo_verify_def)
qed

lemma TrimSpace_path: "TrimSpace ''/r'' = ''/r''"
  by (simp add: TrimSpace_plain all_ascii_def codes_def IsSpace_def)

lemma demo_load: "LoadRevocations demo_verify ''/r'' (NewServer NoFile) = Inr demo_server"
  by (simp add: LoadRevocations_def NewServer_def demo_server_def TrimSpace_path)

lemma demo_inv: "rev_inv demo_verify demo_server" "sv_revVersion demo_server = 0"
  using LoadRevocations_inv [OF demo_load] by (simp_all add: NewServer_def)

lemma demo_post: "fst (postRevocation demo_verify (\<lambda>_. Some demo_revocation) (\<lambda>_. ok) [] demo_server) = (if ok then 204 else 500)"
  by (simp add: postRevocation_def decode_revocation_def maxRevocationBodyBytes_def postRevocation_apply_def
      demo_revocation_verifies demo_server_def NewServer_def defaultMaxRevocations_def Let_def
      persistRevocations_def writeRevocationsFile_def)

theorem acknowledged_revocation_survives_restart_witness:
  "\<exists>s2. LoadRevocations demo_verify ''/r'' (NewServer (sv_disk
      (snd (post_all demo_verify (\<lambda>_. Some demo_revocation) [(\<lambda>_. True, [])] demo_server)))) = Inr s2 \<and>
    mget (sv_revoked s2) (rv_slot demo_revocation) \<noteq> None"
proof -
  let ?run = "post_all demo_verify (\<lambda>_. Some demo_revocation) [(\<lambda>_. True, [])] demo_server"
  have run: "?run = (fst ?run, snd ?run)" by simp
  have st: "fst ?run ! 0 = 204" using demo_post [of True] by (simp add: split_beta Let_def)
  have path: "TrimSpace ''/r'' \<noteq> []" by (simp add: TrimSpace_path)
  show ?thesis
    using acknowledged_revocation_survives_restart [OF path demo_load run _ _ st]
    by (simp add: decode_revocation_def maxRevocationBodyBytes_def)
qed

text \<open>
  A post that is not acknowledged changes nothing: with any status other than 204, in
  particular after a failed write and its rollback, the tombstones and the file are what they were.
\<close>

theorem failed_post_changes_nothing:
  assumes "rev_inv verify s" "unat (sv_revVersion s) + 1 < 2 ^ 64"
    and "postRevocation verify decode io body s = (st, s')" "st \<noteq> 204"
  shows "mget (sv_revoked s') = mget (sv_revoked s) \<and> sv_disk s' = sv_disk s \<and> rev_inv verify s'"
  using postRevocation_step [OF assms(1-3)] assms(4) by simp

theorem failed_post_changes_nothing_witness:
  "mget (sv_revoked (snd (postRevocation demo_verify (\<lambda>_. Some demo_revocation) (\<lambda>_. False) [] demo_server))) =
   mget (sv_revoked demo_server)"
proof -
  let ?p = "postRevocation demo_verify (\<lambda>_. Some demo_revocation) (\<lambda>_. False) [] demo_server"
  have p: "?p = (fst ?p, snd ?p)" by simp
  have "fst ?p \<noteq> 204" using demo_post [of False] by simp
  from failed_post_changes_nothing [OF demo_inv(1) _ p this] demo_inv(2) show ?thesis by simp
qed

text \<open>
  The list served for an owner consists of exactly that owner's tombstones, each with a
  valid signature, sorted by machine id; no other owner's record is ever included.
\<close>

theorem getRevocations_exact:
  assumes "records_ok verify (sv_revoked s)" "TrimSpace owner = owner" "owner \<noteq> []"
  shows "\<exists>rs. getRevocations owner s = Inr rs \<and> sorted (map rvMachineID rs) \<and>
    set rs = {r. mget (sv_revoked s) (rv_slot r) = Some r \<and> rvOwnerID r = owner} \<and>
    (\<forall>r \<in> set rs. VerifyRevocation verify r = None)"
proof -
  let ?rs = "sort_key rvMachineID (map snd (filter (\<lambda>(slot, r). HasPrefix slot (owner @ [bar])) (sv_revoked s)))"
  have in_map: "(slot, r) \<in> set (sv_revoked s) \<longleftrightarrow> mget (sv_revoked s) slot = Some r" for slot r
    using assms(1) by (simp add: records_ok_def mget_Some_iff)
  have "set ?rs = {r. mget (sv_revoked s) (rv_slot r) = Some r \<and> rvOwnerID r = owner}"
  proof (intro set_eqI iffI)
    fix r assume "r \<in> set ?rs"
    then obtain slot where "(slot, r) \<in> set (sv_revoked s)" "HasPrefix slot (owner @ [bar])" by auto
    then show "r \<in> {r. mget (sv_revoked s) (rv_slot r) = Some r \<and> rvOwnerID r = owner}"
      using owner_records [OF assms(1)] in_map assms(1) by (auto simp: records_ok_def)
  next
    fix r assume "r \<in> {r. mget (sv_revoked s) (rv_slot r) = Some r \<and> rvOwnerID r = owner}"
    then have "(rv_slot r, r) \<in> set (sv_revoked s)" "rvOwnerID r = owner" using in_map by auto
    then show "r \<in> set ?rs" using owner_records [OF assms(1)] by (auto simp: image_iff)
  qed
  moreover have "\<forall>r \<in> {r. mget (sv_revoked s) (rv_slot r) = Some r \<and> rvOwnerID r = owner}. VerifyRevocation verify r = None"
    using assms(1) by (auto simp: records_ok_def)
  ultimately show ?thesis using assms(2,3) by (simp add: getRevocations_def)
qed

theorem getRevocations_exact_witness:
  "\<exists>rs. getRevocations demo_id ((NewServer NoFile)\<lparr>sv_revoked := [(rv_slot demo_revocation, demo_revocation)]\<rparr>) = Inr rs \<and>
     demo_revocation \<in> set rs"
proof -
  let ?s = "(NewServer NoFile)\<lparr>sv_revoked := [(rv_slot demo_revocation, demo_revocation)]\<rparr>"
  have "records_ok demo_verify (sv_revoked ?s)"
    by (simp add: records_ok_def wf_gomap_def demo_revocation_verifies)
  moreover have "TrimSpace demo_id = demo_id" "demo_id \<noteq> []"
    by (simp_all add: TrimSpace_plain all_ascii_def codes_def IsSpace_def demo_id_def list_all_iff)
  moreover have "rvOwnerID demo_revocation = demo_id" by (simp add: demo_revocation_def)
  ultimately show ?thesis using getRevocations_exact [of demo_verify ?s demo_id] by fastforce
qed

end
