(* ===== verification/Relay.thy ===== *)
theory Relay
  imports Revocations
begin

text \<open>
  The relay as a transition system. Every handler of \<^verbatim>\<open>server.go\<close> and \<^verbatim>\<open>revocations.go\<close> runs in its own
  goroutine; between its critical sections any other section may run. A state is the broker's state with
  the list of continuations that are pending (\<open>task\<close>): a handler that released a lock leaves the rest of its
  work as a task, and a step runs one section of a new or of a pending handler. Readers, writers, timers and disconnects may
  happen at any time. The choices of a \<open>select\<close>, the random session id, the wall clock and the outcome of
  the file operations are free.

  The invariant shows that the live table only holds registered connections under their own slot, that every one of
  them was authorised, and that sessions point back to the agent they are bound to. Revocation holds in every
  interleaving in which the file can be written; two theorems show what a failing write can do.
\<close>

section \<open>Steps\<close>

datatype task =
    TRegister string string string string
  | TTeardown cid
  | TClose cid "bid list"
  | TFail bid
  | TBind string cid
  | TNotify bid
  | TPersist string "64 word" "Revocation list" "Revocation option"
  | TRollback string "Revocation option"

type_synonym relay = "Server \<times> task list"

text \<open>The tasks a finished registration or a revocation leaves behind.\<close>

definition after_register :: "reg_outcome \<Rightarrow> task list" where
  "after_register out = (case out of Registered ac (Some prev) flapped \<Rightarrow> [TTeardown prev] | _ \<Rightarrow> [])"

definition after_bind :: "bid option \<Rightarrow> task list" where
  "after_bind res = (case res of Some b \<Rightarrow> [TNotify b] | None \<Rightarrow> [])"

definition after_post :: "post_outcome \<Rightarrow> task list" where
  "after_post out =
     (case out of
        PostStatus st \<Rightarrow> []
      | PostPersist slot v rs existing ac \<Rightarrow>
          (case ac of Some a \<Rightarrow> [TTeardown a] | None \<Rightarrow> []) @ [TPersist slot v rs existing])"

inductive relay_step ::
  "(bytes \<Rightarrow> bytes \<Rightarrow> bytes \<Rightarrow> bool) \<Rightarrow> (bytes \<Rightarrow> SignalMsg option) \<Rightarrow> relay \<Rightarrow> relay \<Rightarrow> bool"
  for verify decode where
  agent_request: "handleAgent_check verify owner machine pf auth s = (st, s') \<Longrightarrow>
     relay_step verify decode (s, ts) (s', if st = None then TRegister owner machine pf auth # ts else ts)"
| agent_register: "TRegister owner machine pf auth \<in> set ts \<Longrightarrow>
     handleAgent_register owner machine pf auth now s = (out, s') \<Longrightarrow>
     relay_step verify decode (s, ts) (s', after_register out @ remove1 (TRegister owner machine pf auth) ts)"
| agent_read: "mget (sv_conns s) ac = Some c \<Longrightarrow> agent_frame decode sel ac c data s = Some s' \<Longrightarrow>
     relay_step verify decode (s, ts) (s', ts)"
| agent_read_error: "mget (sv_conns s) ac = Some c \<Longrightarrow> relay_step verify decode (s, ts) (s, TTeardown ac # ts)"
| agent_leave: "mget (sv_conns s) ac = Some c \<Longrightarrow>
     relay_step verify decode (s, ts) (handleAgent_leave ac c s, TTeardown ac # ts)"
| teardown_again: "TTeardown ac \<in> set ts \<Longrightarrow> mget (sv_conns s) ac = Some c \<Longrightarrow> teardown_collect c = None \<Longrightarrow>
     relay_step verify decode (s, ts) (s, remove1 (TTeardown ac) ts)"
| teardown: "TTeardown ac \<in> set ts \<Longrightarrow> mget (sv_conns s) ac = Some c \<Longrightarrow> teardown_collect c = Some (bound, c') \<Longrightarrow>
     relay_step verify decode (s, ts) (put_conn ac c' s, TClose ac bound # remove1 (TTeardown ac) ts)"
| teardown_closed: "TClose ac bound \<in> set ts \<Longrightarrow> mget (sv_conns s) ac = Some c \<Longrightarrow>
     relay_step verify decode (s, ts) (put_conn ac (teardown_close c) s, map TFail bound @ remove1 (TClose ac bound) ts)"
| teardown_fails: "TFail b \<in> set ts \<Longrightarrow> mget (sv_browsers s) b = Some bc \<Longrightarrow>
     fail_browser sel ''machine offline'' bc = Some bc' \<Longrightarrow>
     relay_step verify decode (s, ts) (put_browser b bc' s, remove1 (TFail b) ts)"
| agent_write: "mget (sv_conns s) ac = Some c \<Longrightarrow> ac_out c = m # q \<Longrightarrow>
     relay_step verify decode (s, ts) (put_conn ac (c\<lparr>ac_out := q\<rparr>) s, ts)"
| attach: "handleAttach_lookup owner machine s = AttachFound ac \<Longrightarrow>
     relay_step verify decode (s, ts) (s, TBind (slot_key owner machine) ac # ts)"
| attach_bind: "TBind k ac \<in> set ts \<Longrightarrow> mget (sv_conns s) ac = Some c \<Longrightarrow>
     handleAttach_bind rnd k ac c s = (res, s') \<Longrightarrow>
     relay_step verify decode (s, ts) (s', after_bind res @ remove1 (TBind k ac) ts)"
| attach_notify: "TNotify b \<in> set ts \<Longrightarrow> mget (sv_browsers s) b = Some bc \<Longrightarrow>
     mget (sv_conns s) (bc_agent bc) = Some c \<Longrightarrow>
     handleAttach_notify sel fsel (bc_agent bc) c b bc s = Some s' \<Longrightarrow>
     relay_step verify decode (s, ts) (s', remove1 (TNotify b) ts)"
| browser_read: "mget (sv_browsers s) b = Some bc \<Longrightarrow> browser_frame decode sel fsel b bc data s = Some s' \<Longrightarrow>
     relay_step verify decode (s, ts) (s', ts)"
| browser_closed: "mget (sv_browsers s) b = Some bc \<Longrightarrow>
     relay_step verify decode (s, ts) (put_browser b (close_browser bc) s, ts)"
| browser_timeout: "mget (sv_browsers s) b = Some bc \<Longrightarrow> fail_browser sel ''offer timeout'' bc = Some bc' \<Longrightarrow>
     relay_step verify decode (s, ts) (put_browser b bc' s, ts)"
| browser_leave: "mget (sv_browsers s) b = Some bc \<Longrightarrow>
     relay_step verify decode (s, ts) (handleAttach_leave b bc s, ts)"
| browser_write: "mget (sv_browsers s) b = Some bc \<Longrightarrow> bc_out bc = m # q \<Longrightarrow>
     relay_step verify decode (s, ts) (put_browser b (bc\<lparr>bc_out := q\<rparr>) s, ts)"
| revoke: "postRevocation_apply verify r s = (out, s') \<Longrightarrow>
     relay_step verify decode (s, ts) (s', after_post out @ ts)"
| persisted: "TPersist slot v rs existing \<in> set ts \<Longrightarrow> persistRevocations io v rs s = (True, s') \<Longrightarrow>
     relay_step verify decode (s, ts) (s', remove1 (TPersist slot v rs existing) ts)"
| persist_failed: "TPersist slot v rs existing \<in> set ts \<Longrightarrow> persistRevocations io v rs s = (False, s') \<Longrightarrow>
     relay_step verify decode (s, ts) (s', TRollback slot existing # remove1 (TPersist slot v rs existing) ts)"
| rollback: "TRollback slot existing \<in> set ts \<Longrightarrow>
     relay_step verify decode (s, ts) (rollbackRevocation slot existing s, remove1 (TRollback slot existing) ts)"

text \<open>A relay starts empty, possibly with a configured cap and a loaded revocations file.\<close>

inductive reachable ::
  "(bytes \<Rightarrow> bytes \<Rightarrow> bytes \<Rightarrow> bool) \<Rightarrow> (bytes \<Rightarrow> SignalMsg option) \<Rightarrow> relay \<Rightarrow> bool"
  for verify decode where
  fresh: "reachable verify decode (SetMaxAgents n (NewServer d), [])"
| loaded: "LoadRevocations verify path (SetMaxAgents n (NewServer d)) = Inr s \<Longrightarrow> reachable verify decode (s, [])"
| step: "reachable verify decode x \<Longrightarrow> relay_step verify decode x y \<Longrightarrow> reachable verify decode y"

text \<open>Executions in which no write of the revocations file fails, so that nothing is ever rolled back.\<close>

inductive clean_run ::
  "(bytes \<Rightarrow> bytes \<Rightarrow> bytes \<Rightarrow> bool) \<Rightarrow> (bytes \<Rightarrow> SignalMsg option) \<Rightarrow> relay \<Rightarrow> relay \<Rightarrow> bool"
  for verify decode where
  none: "clean_run verify decode x x"
| more: "clean_run verify decode x y \<Longrightarrow> relay_step verify decode y z \<Longrightarrow> (\<forall>slot e. TRollback slot e \<notin> set (snd z)) \<Longrightarrow>
     clean_run verify decode x z"

section \<open>The invariant\<close>

text \<open>The immutable part of a connection: whom it was registered for, which agent a browser is bound to.\<close>

abbreviation conn_id :: "agentConn \<Rightarrow> string \<times> string \<times> string \<times> string" where
  "conn_id c \<equiv> (ac_owner c, ac_machine c, ac_proof c, ac_auth c)"

abbreviation browser_id :: "browserConn \<Rightarrow> string \<times> string \<times> cid" where
  "browser_id bc \<equiv> (bc_key bc, bc_sess bc, bc_agent bc)"

definition conn_ids :: "Server \<Rightarrow> cid \<Rightarrow> (string \<times> string \<times> string \<times> string) option" where
  "conn_ids s ac = map_option conn_id (mget (sv_conns s) ac)"

definition browser_ids :: "Server \<Rightarrow> bid \<Rightarrow> (string \<times> string \<times> cid) option" where
  "browser_ids s b = map_option browser_id (mget (sv_browsers s) b)"

definition registrable :: "(bytes \<Rightarrow> bytes \<Rightarrow> bytes \<Rightarrow> bool) \<Rightarrow> string \<Rightarrow> string \<Rightarrow> string \<Rightarrow> string \<Rightarrow> bool" where
  "registrable verify owner machine pf auth \<longleftrightarrow> owner \<noteq> [] \<and> machine \<noteq> [] \<and> bar \<notin> set owner \<and> bar \<notin> set machine \<and>
     agentRegistrationAuthorized verify owner machine pf auth"

definition conn_ok ::
  "(bytes \<Rightarrow> bytes \<Rightarrow> bytes \<Rightarrow> bool) \<Rightarrow> int \<Rightarrow> (bid \<Rightarrow> (string \<times> string \<times> cid) option) \<Rightarrow> cid \<Rightarrow> agentConn \<Rightarrow> bool" where
  "conn_ok verify mx bids ac c \<longleftrightarrow> registrable verify (ac_owner c) (ac_machine c) (ac_proof c) (ac_auth c) \<and>
     length (ac_out c) \<le> chan_cap \<and> length (ac_registry c) \<le> maxRegistryBlobBytes \<and> wf_gomap (ac_sessions c) \<and>
     within (length (ac_sessions c)) mx \<and>
     (\<forall>sess b. mget (ac_sessions c) sess = Some b \<longrightarrow>
       bids b = Some (slot_key (ac_owner c) (ac_machine c), sess, ac))"

definition browser_ok :: "(cid \<Rightarrow> (string \<times> string \<times> string \<times> string) option) \<Rightarrow> browserConn \<Rightarrow> bool" where
  "browser_ok cids bc \<longleftrightarrow> length (bc_out bc) \<le> chan_cap \<and>
     (\<exists>owner machine cr. cids (bc_agent bc) = Some (owner, machine, cr) \<and> bc_key bc = slot_key owner machine)"

fun task_ok ::
  "(bytes \<Rightarrow> bytes \<Rightarrow> bytes \<Rightarrow> bool) \<Rightarrow> (cid \<Rightarrow> (string \<times> string \<times> string \<times> string) option) \<Rightarrow> task \<Rightarrow> bool" where
  "task_ok verify cids (TRegister owner machine pf auth) = registrable verify owner machine pf auth"
| "task_ok verify cids (TBind k ac) = (\<exists>owner machine cr. cids ac = Some (owner, machine, cr) \<and> k = slot_key owner machine)"
| "task_ok verify cids _ = True"

definition maps_ok :: "Server \<Rightarrow> bool" where
  "maps_ok s \<longleftrightarrow> wf_gomap (sv_agents s) \<and> within (length (sv_agents s)) (sv_maxAgents s) \<and>
     (\<forall>ac. sv_next s \<le> ac \<longrightarrow> mget (sv_conns s) ac = None \<and> mget (sv_browsers s) ac = None) \<and>
     (\<forall>k ac. mget (sv_agents s) k = Some ac \<longrightarrow>
       (\<exists>owner machine cr. conn_ids s ac = Some (owner, machine, cr) \<and> k = slot_key owner machine))"

definition relay_inv :: "(bytes \<Rightarrow> bytes \<Rightarrow> bytes \<Rightarrow> bool) \<Rightarrow> Server \<Rightarrow> task list \<Rightarrow> bool" where
  "relay_inv verify s ts \<longleftrightarrow> maps_ok s \<and>
     (\<forall>ac c. mget (sv_conns s) ac = Some c \<longrightarrow> conn_ok verify (sv_maxAgentSessions s) (browser_ids s) ac c) \<and>
     (\<forall>b bc. mget (sv_browsers s) b = Some bc \<longrightarrow> browser_ok (conn_ids s) bc) \<and>
     (\<forall>t \<in> set ts. task_ok verify (conn_ids s) t)"

lemma relay_inv_frame:
  assumes "relay_inv verify s ts" "sv_agents s' = sv_agents s" "sv_conns s' = sv_conns s" "sv_browsers s' = sv_browsers s"
    "sv_next s' = sv_next s" "sv_maxAgents s' = sv_maxAgents s" "sv_maxAgentSessions s' = sv_maxAgentSessions s"
  shows "relay_inv verify s' ts"
proof -
  have "conn_ids s' = conn_ids s" "browser_ids s' = browser_ids s"
    by (simp_all add: fun_eq_iff conn_ids_def browser_ids_def assms)
  then show ?thesis using assms by (simp add: relay_inv_def maps_ok_def)
qed

lemma relay_inv_add: "relay_inv verify s ts \<Longrightarrow> (\<And>t. t \<in> set us \<Longrightarrow> task_ok verify (conn_ids s) t) \<Longrightarrow> relay_inv verify s (us @ ts)"
  by (auto simp: relay_inv_def)

lemma relay_inv_Cons: "relay_inv verify s ts \<Longrightarrow> task_ok verify (conn_ids s) t \<Longrightarrow> relay_inv verify s (t # ts)"
  by (auto simp: relay_inv_def)

lemma relay_inv_remove1: "relay_inv verify s ts \<Longrightarrow> relay_inv verify s (remove1 t ts)"
  using set_remove1_subset [of t ts] by (auto simp: relay_inv_def)

lemma relay_inv_task: "relay_inv verify s ts \<Longrightarrow> t \<in> set ts \<Longrightarrow> task_ok verify (conn_ids s) t"
  by (simp add: relay_inv_def)

lemma relay_inv_drop_agent:
  assumes "relay_inv verify s ts"
  shows "relay_inv verify (s\<lparr>sv_agents := mdel (sv_agents s) k\<rparr>) ts"
proof -
  let ?s = "s\<lparr>sv_agents := mdel (sv_agents s) k\<rparr>"
  have [simp]: "conn_ids ?s = conn_ids s" "browser_ids ?s = browser_ids s"
    by (simp_all add: fun_eq_iff conn_ids_def browser_ids_def)
  have "within (length (mdel (sv_agents s) k)) (sv_maxAgents s)"
    using assms length_mdel_le [of k "sv_agents s"] unfolding relay_inv_def maps_ok_def by linarith
  then have "maps_ok ?s" using assms by (auto simp: relay_inv_def maps_ok_def)
  then show ?thesis using assms by (simp add: relay_inv_def)
qed

text \<open>Rewriting a connection without touching its identity.\<close>

lemma relay_inv_put_conn:
  assumes "relay_inv verify s ts" "mget (sv_conns s) ac = Some c" "conn_id c' = conn_id c"
    and "conn_ok verify (sv_maxAgentSessions s) (browser_ids s) ac c'"
  shows "relay_inv verify (put_conn ac c' s) ts"
proof -
  have [simp]: "conn_ids (put_conn ac c' s) = conn_ids s" "browser_ids (put_conn ac c' s) = browser_ids s"
    using assms(2,3) by (auto simp: fun_eq_iff conn_ids_def browser_ids_def)
  have "maps_ok (put_conn ac c' s)" using assms(1,2) by (auto simp: relay_inv_def maps_ok_def)
  then show ?thesis using assms(1,4) by (auto simp: relay_inv_def)
qed

lemma relay_inv_put_browser:
  assumes "relay_inv verify s ts" "mget (sv_browsers s) b = Some bc" "browser_id bc' = browser_id bc"
    and "length (bc_out bc') \<le> chan_cap"
  shows "relay_inv verify (put_browser b bc' s) ts"
proof -
  have [simp]: "conn_ids (put_browser b bc' s) = conn_ids s" "browser_ids (put_browser b bc' s) = browser_ids s"
    using assms(2,3) by (auto simp: fun_eq_iff conn_ids_def browser_ids_def)
  have "maps_ok (put_browser b bc' s)" using assms(1,2) by (auto simp: relay_inv_def maps_ok_def)
  moreover have "browser_ok (conn_ids s) bc'" using assms by (auto simp: relay_inv_def browser_ok_def)
  ultimately show ?thesis using assms(1) by (auto simp: relay_inv_def)
qed

lemma relay_inv_conn:
  assumes "relay_inv verify s ts" "mget (sv_conns s) ac = Some c"
  shows "conn_ok verify (sv_maxAgentSessions s) (browser_ids s) ac c"
  using assms by (simp add: relay_inv_def)

lemma relay_inv_browser:
  assumes "relay_inv verify s ts" "mget (sv_browsers s) b = Some bc"
  shows "length (bc_out bc) \<le> chan_cap" "\<exists>c. mget (sv_conns s) (bc_agent bc) = Some c"
proof -
  have "browser_ok (conn_ids s) bc" using assms by (simp add: relay_inv_def)
  then show "length (bc_out bc) \<le> chan_cap" "\<exists>c. mget (sv_conns s) (bc_agent bc) = Some c"
    by (auto simp: browser_ok_def conn_ids_def)
qed

text \<open>Operations on one connection keep it well-formed.\<close>

lemma conn_ok_unbind: "conn_ok verify mx bids ac c \<Longrightarrow> conn_ok verify mx bids ac (unbind sess c)"
  using length_mdel_le [of sess "ac_sessions c"] by (auto simp: conn_ok_def unbind_def)

lemma conn_ok_empty: "conn_ok verify mx bids ac c \<Longrightarrow> conn_ok verify mx bids ac (c\<lparr>ac_once := True, ac_sessions := []\<rparr>)"
  by (auto simp: conn_ok_def)

lemma conn_ok_close: "conn_ok verify mx bids ac c \<Longrightarrow> conn_ok verify mx bids ac (teardown_close c)"
  by (simp add: conn_ok_def teardown_close_def)

lemma conn_ok_registry:
  "conn_ok verify mx bids ac c \<Longrightarrow> length blob \<le> maxRegistryBlobBytes \<Longrightarrow> conn_ok verify mx bids ac (setRegistry blob c)"
  by (simp add: conn_ok_def setRegistry_def)

lemma conn_ok_out: "conn_ok verify mx bids ac c \<Longrightarrow> length q \<le> chan_cap \<Longrightarrow> conn_ok verify mx bids ac (c\<lparr>ac_out := q\<rparr>)"
  by (simp add: conn_ok_def)

lemma conn_ok_mono:
  "conn_ok verify mx bids ac c \<Longrightarrow> (\<And>b i. bids b = Some i \<Longrightarrow> bids' b = Some i) \<Longrightarrow> conn_ok verify mx bids' ac c"
  by (simp add: conn_ok_def)

lemma notify_out:
  assumes "notify sel m bc = Some bc'" "length (bc_out bc) \<le> chan_cap"
  shows "length (bc_out bc') \<le> chan_cap" "browser_id bc' = browser_id bc"
  using notify_Some [OF assms(1)] assms(2) by auto

lemma fail_browser_out:
  assumes "fail_browser sel reason bc = Some bc'" "length (bc_out bc) \<le> chan_cap"
  shows "length (bc_out bc') \<le> chan_cap" "browser_id bc' = browser_id bc"
  using assms notify_out by (auto simp: fail_browser_def close_browser_def)

section \<open>Preservation\<close>

lemma inv_agent_request:
  assumes "relay_inv verify s ts" "handleAgent_check verify owner machine pf auth s = (st, s')"
  shows "relay_inv verify s' (if st = None then TRegister owner machine pf auth # ts else ts)"
proof -
  have s': "\<exists>p. s' = s\<lparr>sv_proofs := p\<rparr>" and ok: "st = None \<Longrightarrow> registrable verify owner machine pf auth"
    using assms(2)
    by (auto simp: handleAgent_check_def registrable_def Let_def split: if_splits prod.splits intro: exI [of _ "sv_proofs s"])
  from s' have "relay_inv verify s' ts" by (auto intro: relay_inv_frame [OF assms(1)])
  then show ?thesis using ok relay_inv_Cons [of verify s' ts "TRegister owner machine pf auth"] by auto
qed

lemma inv_register_new:
  assumes inv: "relay_inv verify s ts" and ok: "registrable verify owner machine pf auth"
    and room: "mget (sv_agents s) (slot_key owner machine) \<noteq> None \<or> sv_maxAgents s \<le> 0 \<or> int (length (sv_agents s)) < sv_maxAgents s"
  shows "relay_inv verify (s\<lparr>sv_agents := mput (sv_agents s) (slot_key owner machine) (sv_next s),
    sv_conns := mput (sv_conns s) (sv_next s) (newAgentConn owner machine pf auth), sv_next := Suc (sv_next s)\<rparr>) ts"
    (is "relay_inv verify ?s ts")
proof -
  let ?k = "slot_key owner machine"
  have new: "mget (sv_conns s) (sv_next s) = None" using inv by (simp add: relay_inv_def maps_ok_def)
  have cids: "conn_ids ?s = (conn_ids s)(sv_next s \<mapsto> (owner, machine, pf, auth))" "browser_ids ?s = browser_ids s"
    by (auto simp: fun_eq_iff conn_ids_def browser_ids_def newAgentConn_def)
  have old: "conn_ids s ac = Some i \<Longrightarrow> conn_ids ?s ac = Some i" for ac i
    using new by (auto simp: cids conn_ids_def)
  have len: "within (length (mput (sv_agents s) ?k (sv_next s))) (sv_maxAgents s)"
    using inv room length_mput_new [of "sv_agents s" ?k] length_mput_old [of "sv_agents s" ?k]
    by (cases "mget (sv_agents s) ?k") (auto simp: relay_inv_def maps_ok_def)
  have "\<exists>owner machine cr. conn_ids ?s ac = Some (owner, machine, cr) \<and> k = slot_key owner machine"
    if "mget (sv_agents ?s) k = Some ac" for k ac
  proof (cases "k = ?k")
    case True
    then have "ac = sv_next s" using that by simp
    then have "conn_ids ?s ac = Some (owner, machine, pf, auth)" by (simp only: cids fun_upd_same)
    then show ?thesis using True by blast
  next
    case False
    then have "mget (sv_agents s) k = Some ac" using that by simp
    then obtain owner' machine' cr where "conn_ids s ac = Some (owner', machine', cr)" "k = slot_key owner' machine'"
      using inv unfolding relay_inv_def maps_ok_def by blast
    then show ?thesis using old by blast
  qed
  then have "maps_ok ?s" using inv len unfolding relay_inv_def maps_ok_def by simp
  moreover have "conn_ok verify (sv_maxAgentSessions s) (browser_ids s) (sv_next s) (newAgentConn owner machine pf auth)"
    using ok by (auto simp: conn_ok_def newAgentConn_def)
  moreover have "browser_ok (conn_ids s) bc \<Longrightarrow> browser_ok (conn_ids ?s) bc" for bc
    using old by (auto simp: browser_ok_def)
  moreover have "task_ok verify (conn_ids s) t \<Longrightarrow> task_ok verify (conn_ids ?s) t" for t
    using old by (cases t) auto
  ultimately show ?thesis using inv by (auto simp: relay_inv_def cids(2))
qed

lemma inv_register:
  assumes inv: "relay_inv verify s ts" and ok: "registrable verify owner machine pf auth"
    and reg: "handleAgent_register owner machine pf auth now s = (out, s')"
  shows "relay_inv verify s' (after_register out @ ts)"
proof -
  let ?k = "slot_key owner machine"
  obtain p1 where p1: "snd (proof_ok ?k pf (sv_proofs s)) = p1" by simp
  let ?s1 = "s\<lparr>sv_proofs := p1\<rparr>"
  have inv1: "relay_inv verify ?s1 ts" by (rule relay_inv_frame [OF inv]) simp_all
  have "relay_inv verify s' ts"
  proof (cases "\<exists>ac prev fl. out = Registered ac prev fl")
    case False
    then have "s' = s \<or> s' = ?s1"
      using reg p1 by (auto simp: handleAgent_register_def Let_def split: if_splits prod.splits)
    then show ?thesis using inv inv1 by blast
  next
    case True
    then have room: "mget (sv_agents s) ?k \<noteq> None \<or> sv_maxAgents s \<le> 0 \<or> int (length (sv_agents s)) < sv_maxAgents s"
      using reg by (auto simp: handleAgent_register_def Let_def split: if_splits prod.splits)
    have "sv_agents s' = mput (sv_agents s) ?k (sv_next s) \<and>
        sv_conns s' = mput (sv_conns s) (sv_next s) (newAgentConn owner machine pf auth) \<and> sv_next s' = Suc (sv_next s) \<and>
        sv_browsers s' = sv_browsers s \<and> sv_maxAgents s' = sv_maxAgents s \<and> sv_maxAgentSessions s' = sv_maxAgentSessions s"
      using True reg by (auto simp: handleAgent_register_def Let_def split: if_splits prod.splits)
    then show ?thesis by (intro relay_inv_frame [OF inv_register_new [OF inv ok room]]) simp_all
  qed
  then show ?thesis
    by (rule relay_inv_add) (auto simp: after_register_def split: reg_outcome.splits option.splits)
qed

text \<open>What one inbound frame can do: nothing, publish a blob, or answer one bound session.\<close>

lemma agent_frame_cases:
  assumes "agent_frame decode sel ac c data s = Some s'"
  obtains "s' = s"
  | blob where "length blob \<le> maxRegistryBlobBytes" "s' = put_conn ac (setRegistry blob c) s"
  | m :: SignalMsg and b bc bc' where "decodeInboundSignal decode data = Some m" "smType m = TypeAnswer"
    "mget (ac_sessions c) (smSession m) = Some b" "mget (sv_browsers s) b = Some bc"
    "notify sel (msg0\<lparr>smType := TypeAnswer, smSDP := smSDP m\<rparr>) bc = Some bc'" "s' = put_browser b (close_browser bc') s"
proof (cases "decodeInboundSignal decode data")
  case None
  then show ?thesis using assms that(1) by (simp add: agent_frame_def)
next
  case (Some m)
  show ?thesis
  proof (cases "smType m = TypeRegistry")
    case True
    then show ?thesis using assms Some that(1) that(2) [of "smRegistry m"]
      by (cases "length (smRegistry m) > maxRegistryBlobBytes") (simp_all add: agent_frame_def)
  next
    case reg: False
    show ?thesis
    proof (cases "smType m = TypeAnswer \<and> session_of (smSession m) c \<noteq> None")
      case True
      then obtain b where b: "mget (ac_sessions c) (smSession m) = Some b" "session_of (smSession m) c = Some b"
        by (auto simp: session_of_def)
      with True Some reg assms obtain bc bc' where "mget (sv_browsers s) b = Some bc"
          "notify sel (msg0\<lparr>smType := TypeAnswer, smSDP := smSDP m\<rparr>) bc = Some bc'" "s' = put_browser b (close_browser bc') s"
        by (simp add: agent_frame_def split: option.splits) metis
      with Some True b(1) show ?thesis by (intro that(3) [of m b bc bc']) simp_all
    next
      case False
      then show ?thesis using assms Some reg that(1) by (auto simp: agent_frame_def split: if_splits)
    qed
  qed
qed

lemma browser_frame_cases:
  assumes "browser_frame decode sel fsel b bc data s = Some s'"
  defines "bc1 \<equiv> bc\<lparr>bc_offered := True\<rparr>"
  defines "s1 \<equiv> put_browser b bc1 s"
  obtains "s' = s"
  | bc' where "fail_browser fsel ''machine offline'' bc1 = Some bc'" "s' = put_browser b bc' s1" "\<not> bc_offered bc"
  | live c and m :: SignalMsg where "mget (sv_agents s) (bc_key bc) = Some live" "mget (sv_conns s) live = Some c" "smType m = TypeOffer"
    "smSession m = bc_sess bc" "send_or_fail sel fsel live c b bc1 m s1 = Some s'" "\<not> bc_offered bc"
proof (cases "decodeInboundSignal decode data")
  case None
  then show ?thesis using assms(1) that(1) by (simp add: browser_frame_def)
next
  case (Some m)
  show ?thesis
  proof (cases "smType m \<noteq> TypeOffer \<or> bc_offered bc")
    case True
    then show ?thesis using assms(1) that(1) Some by (auto simp: browser_frame_def)
  next
    case offer: False
    let ?m = "msg0\<lparr>smType := TypeOffer, smSession := bc_sess bc, smSDP := smSDP m, smBinding := smBinding m, smAuth := smAuth m\<rparr>"
    show ?thesis
    proof (cases "mget (sv_agents s) (bc_key bc)")
      case None
      then obtain bc' where "fail_browser fsel ''machine offline'' bc1 = Some bc'" "s' = put_browser b bc' s1"
        using assms(1) Some offer by (auto simp: browser_frame_def Let_def bc1_def s1_def)
      then show ?thesis using offer by (intro that(2)) simp_all
    next
      case live: (Some live)
      then obtain c where "mget (sv_conns s) live = Some c" "send_or_fail sel fsel live c b bc1 ?m s1 = Some s'"
        using assms(1) Some offer by (auto simp: browser_frame_def Let_def bc1_def s1_def split: option.splits)
      then show ?thesis using live offer by (intro that(3) [of live c ?m]) simp_all
    qed
  qed
qed

lemma inv_agent_frame:
  assumes inv: "relay_inv verify s ts" and c: "mget (sv_conns s) ac = Some c" and fr: "agent_frame decode sel ac c data s = Some s'"
  shows "relay_inv verify s' ts"
proof -
  note ok = relay_inv_conn [OF inv c]
  from fr show ?thesis
  proof (cases rule: agent_frame_cases)
    case 1
    then show ?thesis using inv by simp
  next
    case (2 blob)
    then show ?thesis
      using relay_inv_put_conn [OF inv c _ conn_ok_registry [OF ok 2(1)]] by (simp add: setRegistry_def)
  next
    case (3 m b bc bc')
    then show ?thesis
      using relay_inv_put_browser [OF inv 3(4), of "close_browser bc'"] notify_out [OF 3(5) relay_inv_browser(1) [OF inv 3(4)]]
      by (simp add: close_browser_def)
  qed
qed

lemma inv_send_or_fail:
  assumes inv: "relay_inv verify s ts" and c: "mget (sv_conns s) ac = Some c" and b: "mget (sv_browsers s) b = Some bc"
    and sf: "send_or_fail sel fsel ac c b bc m s = Some s'"
  shows "relay_inv verify s' ts"
proof -
  consider "length (ac_out c) < chan_cap" "s' = put_conn ac (c\<lparr>ac_out := ac_out c @ [m]\<rparr>) s"
    | bc' where "fail_browser fsel ''machine offline'' bc = Some bc'" "s' = put_browser b bc' s"
    using sf by (auto simp: send_or_fail_def agentSend_def split: option.splits if_splits)
  then show ?thesis
  proof cases
    case 1
    then show ?thesis
      using relay_inv_put_conn [OF inv c _ conn_ok_out [OF relay_inv_conn [OF inv c]], of "ac_out c @ [m]"] by simp
  next
    case 2
    then show ?thesis
      using relay_inv_put_browser [OF inv b] fail_browser_out [OF 2(1) relay_inv_browser(1) [OF inv b]] by simp
  qed
qed

lemma inv_browser_frame:
  assumes inv: "relay_inv verify s ts" and b: "mget (sv_browsers s) b = Some bc" and fr: "browser_frame decode sel fsel b bc data s = Some s'"
  shows "relay_inv verify s' ts"
proof -
  let ?bc = "bc\<lparr>bc_offered := True\<rparr>"
  let ?s = "put_browser b ?bc s"
  have inv1: "relay_inv verify ?s ts" using relay_inv_put_browser [OF inv b, of ?bc] relay_inv_browser(1) [OF inv b] by simp
  have b1: "mget (sv_browsers ?s) b = Some ?bc" by simp
  from fr show ?thesis
  proof (cases rule: browser_frame_cases)
    case 1
    then show ?thesis using inv by simp
  next
    case (2 bc')
    then show ?thesis
      using relay_inv_put_browser [OF inv1 b1] fail_browser_out [OF 2(1)] relay_inv_browser(1) [OF inv b] by simp
  next
    case (3 live c m)
    then have "mget (sv_conns ?s) live = Some c" by simp
    from inv_send_or_fail [OF inv1 this b1 3(5)] show ?thesis .
  qed
qed

lemma inv_leave_browser:
  assumes inv: "relay_inv verify s ts" and b: "mget (sv_browsers s) b = Some bc"
  shows "relay_inv verify (handleAttach_leave b bc s) ts"
proof -
  obtain c where c: "mget (sv_conns s) (bc_agent bc) = Some c" using relay_inv_browser(2) [OF inv b] by blast
  have inv1: "relay_inv verify (put_conn (bc_agent bc) (unbind (bc_sess bc) c) s) ts"
    using relay_inv_put_conn [OF inv c _ conn_ok_unbind [OF relay_inv_conn [OF inv c]]] by (simp add: unbind_def)
  show ?thesis
    using relay_inv_put_browser [OF inv1, of b bc "close_browser bc"] b relay_inv_browser(1) [OF inv b]
    by (simp add: handleAttach_leave_def c close_browser_def)
qed

lemma inv_bind_new:
  assumes inv: "relay_inv verify s ts" and c: "mget (sv_conns s) ac = Some c" and k: "k = slot_key (ac_owner c) (ac_machine c)"
    and room: "sv_maxAgentSessions s \<le> 0 \<or> int (length (ac_sessions c)) < sv_maxAgentSessions s"
  shows "relay_inv verify (put_conn ac (c\<lparr>ac_sessions := mput (ac_sessions c) sess (sv_next s)\<rparr>)
    (put_browser (sv_next s) (newBrowserConn k sess ac) (s\<lparr>sv_next := Suc (sv_next s)\<rparr>))) ts"
proof -
  define s1 where "s1 = put_browser (sv_next s) (newBrowserConn k sess ac) (s\<lparr>sv_next := Suc (sv_next s)\<rparr>)"
  define c1 where "c1 = c\<lparr>ac_sessions := mput (ac_sessions c) sess (sv_next s)\<rparr>"
  have s1: "sv_agents s1 = sv_agents s" "sv_conns s1 = sv_conns s" "sv_maxAgents s1 = sv_maxAgents s"
      "sv_maxAgentSessions s1 = sv_maxAgentSessions s" "sv_next s1 = Suc (sv_next s)"
      "sv_browsers s1 = mput (sv_browsers s) (sv_next s) (newBrowserConn k sess ac)"
    by (simp_all add: s1_def)
  have new: "mget (sv_browsers s) (sv_next s) = None" using inv by (simp add: relay_inv_def maps_ok_def)
  have ids: "conn_ids s1 = conn_ids s" "browser_ids s1 = (browser_ids s)(sv_next s \<mapsto> (k, sess, ac))"
    by (auto simp: fun_eq_iff conn_ids_def browser_ids_def newBrowserConn_def s1)
  have old: "conn_ok verify mx (browser_ids s) ac' c' \<Longrightarrow> conn_ok verify mx (browser_ids s1) ac' c'" for mx ac' c'
    using new by (elim conn_ok_mono) (auto simp: ids(2) browser_ids_def)
  have "maps_ok s1" using inv by (simp add: relay_inv_def maps_ok_def ids(1) s1)
  moreover have "browser_ok (conn_ids s) (newBrowserConn k sess ac)"
    using c k by (simp add: browser_ok_def newBrowserConn_def conn_ids_def)
  ultimately have inv1: "relay_inv verify s1 ts" using inv old by (simp add: relay_inv_def ids(1) s1)
  have len: "within (length (mput (ac_sessions c) sess (sv_next s))) (sv_maxAgentSessions s)"
    using room length_mput_le [of sess "sv_next s" "ac_sessions c"] by linarith
  have "conn_ok verify (sv_maxAgentSessions s) (browser_ids s1) ac c" using old relay_inv_conn [OF inv c] by blast
  then have "conn_ok verify (sv_maxAgentSessions s1) (browser_ids s1) ac c1"
    using len k unfolding conn_ok_def by (simp add: ids(2) s1 c1_def)
  then have "relay_inv verify (put_conn ac c1 s1) ts"
    using c by (intro relay_inv_put_conn [OF inv1, of ac c]) (simp_all add: s1 c1_def)
  then show ?thesis by (simp only: s1_def c1_def)
qed

lemma inv_attach_bind:
  assumes inv: "relay_inv verify s ts" and c: "mget (sv_conns s) ac = Some c" and t: "TBind k ac \<in> set ts"
    and b: "handleAttach_bind rnd k ac c s = (res, s')"
  shows "relay_inv verify s' (after_bind res @ ts)"
proof -
  have k: "k = slot_key (ac_owner c) (ac_machine c)" using relay_inv_task [OF inv t] c by (simp add: conn_ids_def)
  have "relay_inv verify s' ts"
  proof (cases "\<exists>sess c'. newSessionID rnd = Some sess \<and> bind_session sess (sv_next s) (sv_maxAgentSessions s) c = Inr c'")
    case True
    then obtain sess c' where sess: "newSessionID rnd = Some sess" "bind_session sess (sv_next s) (sv_maxAgentSessions s) c = Inr c'"
      by blast
    from sess(2) have c': "c' = c\<lparr>ac_sessions := mput (ac_sessions c) sess (sv_next s)\<rparr>"
        "sv_maxAgentSessions s \<le> 0 \<or> int (length (ac_sessions c)) < sv_maxAgentSessions s"
      by (auto simp: bind_session_def split: if_splits)
    have "s' = put_conn ac c' (put_browser (sv_next s) (newBrowserConn k sess ac) (s\<lparr>sv_next := Suc (sv_next s)\<rparr>))"
      using b sess by (simp add: handleAttach_bind_def)
    then show ?thesis using inv_bind_new [OF inv c k c'(2), of sess] c'(1) by simp
  next
    case False
    then have "s' = s" using b by (auto simp: handleAttach_bind_def split: option.splits sum.splits)
    then show ?thesis using inv by simp
  qed
  then show ?thesis by (rule relay_inv_add) (auto simp: after_bind_def split: option.splits)
qed

lemma inv_post:
  assumes inv: "relay_inv verify s ts" and a: "postRevocation_apply verify r s = (out, s')"
  shows "relay_inv verify s' (after_post out @ ts)"
proof -
  have "relay_inv verify s' ts"
    using a
  proof (cases rule: postRevocation_apply_cases)
    case (3 s1)
    have "relay_inv verify (s\<lparr>sv_agents := mdel (sv_agents s) (rv_slot r)\<rparr>) ts" by (rule relay_inv_drop_agent [OF inv])
    then show ?thesis by (rule relay_inv_frame) (simp_all add: 3(2,4))
  qed (use inv in simp_all)
  then show ?thesis
    by (rule relay_inv_add) (auto simp: after_post_def split: post_outcome.splits option.splits)
qed

lemma inv_persist:
  assumes "relay_inv verify s ts" "persistRevocations io v rs s = (ok, s')"
  shows "relay_inv verify s' ts"
proof (cases rule: writeRevocationsFile_cases [of io rs s])
  case 1
  then have "s' = s" using assms(2) by (auto simp: persistRevocations_def split: if_splits)
  then show ?thesis using assms(1) by simp
next
  case 2
  with assms(2) show ?thesis
    by (auto simp: persistRevocations_def split: if_splits intro: relay_inv_frame [OF assms(1)] assms(1))
qed

lemma relay_inv_step:
  assumes "relay_step verify decode x y" "relay_inv verify (fst x) (snd x)"
  shows "relay_inv verify (fst y) (snd y)"
  using assms
proof (induction rule: relay_step.induct)
  case (agent_request owner machine pf auth s st s' ts)
  then show ?case using inv_agent_request by simp
next
  case (agent_register owner machine pf auth ts now s out s')
  then have "registrable verify owner machine pf auth"
    using relay_inv_task [of verify s ts "TRegister owner machine pf auth"] by simp
  then show ?case using inv_register [OF relay_inv_remove1 _ agent_register(2)] agent_register.prems by simp
next
  case (agent_read s ac c sel data s' ts)
  then show ?case using inv_agent_frame by simp
next
  case (agent_read_error s ac c ts)
  then show ?case by (simp add: relay_inv_Cons)
next
  case (agent_leave s ac c ts)
  then show ?case
    using relay_inv_drop_agent [of verify s ts] by (auto simp: handleAgent_leave_def Let_def intro: relay_inv_Cons)
next
  case (teardown_again ac ts s c)
  then show ?case by (simp add: relay_inv_remove1)
next
  case (teardown ac ts s c bound c')
  then have c': "c' = c\<lparr>ac_once := True, ac_sessions := []\<rparr>" by (simp add: teardown_collect_def split: if_splits)
  have "relay_inv verify (put_conn ac c' s) ts"
    using teardown.prems teardown(2) relay_inv_conn [of verify s ts ac c]
    by (intro relay_inv_put_conn [of verify s ts ac c]) (auto simp: c' conn_ok_empty)
  then show ?case by (simp add: relay_inv_Cons relay_inv_remove1)
next
  case (teardown_closed ac bound ts s c)
  then have "relay_inv verify (put_conn ac (teardown_close c) s) ts"
    using relay_inv_conn [of verify s ts ac c]
    by (intro relay_inv_put_conn [of verify s ts ac c]) (auto simp: conn_ok_close, auto simp: teardown_close_def)
  then have "relay_inv verify (put_conn ac (teardown_close c) s) (map TFail bound @ remove1 (TClose ac bound) ts)"
    by (intro relay_inv_add relay_inv_remove1) auto
  then show ?case by simp
next
  case (teardown_fails b ts s bc sel bc')
  then show ?case
    using relay_inv_put_browser [of verify s ts b bc bc'] fail_browser_out [of sel "''machine offline''" bc bc']
      relay_inv_browser(1) [of verify s ts b bc] by (simp add: relay_inv_remove1)
next
  case (agent_write s ac c m q ts)
  then have "length q \<le> chan_cap" using relay_inv_conn [of verify s ts ac c] by (simp add: conn_ok_def)
  then show ?case
    using agent_write relay_inv_put_conn [of verify s ts ac c] conn_ok_out [OF relay_inv_conn [of verify s ts ac c]] by simp
next
  case (attach owner machine s ac ts)
  then have "mget (sv_agents s) (slot_key owner machine) = Some ac"
    by (auto simp: handleAttach_lookup_def split: if_splits option.splits)
  then have "task_ok verify (conn_ids s) (TBind (slot_key owner machine) ac)"
    using attach.prems by (auto simp: relay_inv_def maps_ok_def)
  then show ?case using attach.prems by (simp add: relay_inv_Cons del: task_ok.simps)
next
  case (attach_bind k ac ts s c rnd res s')
  have "relay_inv verify s' (after_bind res @ ts)" using inv_attach_bind attach_bind by simp
  then show ?case using set_remove1_subset [of "TBind k ac" ts] by (auto simp: relay_inv_def)
next
  case (attach_notify b ts s bc c sel fsel s')
  then show ?case using inv_send_or_fail by (auto simp: handleAttach_notify_def intro: relay_inv_remove1)
next
  case (browser_read s b bc sel fsel data s' ts)
  then show ?case using inv_browser_frame by simp
next
  case (browser_closed s b bc ts)
  then show ?case
    using relay_inv_put_browser [of verify s ts b bc "close_browser bc"] relay_inv_browser(1) [of verify s ts b bc]
    by (simp add: close_browser_def)
next
  case (browser_timeout s b bc sel bc' ts)
  then show ?case
    using relay_inv_put_browser [of verify s ts b bc bc'] fail_browser_out [of sel "''offer timeout''" bc bc']
      relay_inv_browser(1) [of verify s ts b bc] by simp
next
  case (browser_leave s b bc ts)
  then show ?case using inv_leave_browser by simp
next
  case (browser_write s b bc m q ts)
  then show ?case
    using relay_inv_put_browser [of verify s ts b bc "bc\<lparr>bc_out := q\<rparr>"] relay_inv_browser(1) [of verify s ts b bc] by simp
next
  case (revoke r s out s' ts)
  then show ?case using inv_post by simp
next
  case (persisted slot v rs existing ts io s s')
  then have "relay_inv verify s' ts" using inv_persist by simp
  then show ?case by (simp add: relay_inv_remove1)
next
  case (persist_failed slot v rs existing ts io s s')
  then have "relay_inv verify s' ts" using inv_persist by simp
  then show ?case by (simp add: relay_inv_Cons relay_inv_remove1)
next
  case (rollback slot existing ts s)
  then have "relay_inv verify s ts" by simp
  then have "relay_inv verify (rollbackRevocation slot existing s) ts"
    by (rule relay_inv_frame) (simp_all add: rollbackRevocation_def split: option.splits)
  then show ?case by (simp add: relay_inv_remove1)
qed

lemma NewServer_inv: "relay_inv verify (SetMaxAgents n (NewServer d)) []"
  by (auto simp: relay_inv_def maps_ok_def SetMaxAgents_def NewServer_def defaultMaxAgents_def)

lemma reachable_inv:
  assumes "reachable verify decode x"
  shows "relay_inv verify (fst x) (snd x)"
  using assms
proof (induction rule: reachable.induct)
  case (fresh n d)
  then show ?case by (simp add: NewServer_inv)
next
  case (loaded path n d s)
  then show ?case
    by (auto simp: LoadRevocations_def Let_def split: if_splits sum.splits intro!: relay_inv_frame [OF NewServer_inv [of verify n d]])
next
  case (step x y)
  then show ?case using relay_inv_step by blast
qed

section \<open>Routing\<close>

text \<open>The agent a slot leads to is registered for exactly that slot.\<close>

lemma live_conn:
  assumes "relay_inv verify s ts" "mget (sv_agents s) k = Some ac"
  obtains c where "mget (sv_conns s) ac = Some c" "k = slot_key (ac_owner c) (ac_machine c)"
    "registrable verify (ac_owner c) (ac_machine c) (ac_proof c) (ac_auth c)"
proof -
  obtain owner machine cr where "conn_ids s ac = Some (owner, machine, cr)" "k = slot_key owner machine"
    using assms unfolding relay_inv_def maps_ok_def by blast
  then obtain c where "mget (sv_conns s) ac = Some c" "k = slot_key (ac_owner c) (ac_machine c)" by (auto simp: conn_ids_def)
  moreover from this relay_inv_conn [OF assms(1)] have "registrable verify (ac_owner c) (ac_machine c) (ac_proof c) (ac_auth c)"
    by (auto simp: conn_ok_def)
  ultimately show ?thesis using that by blast
qed

lemma registry_entries_iff:
  assumes "relay_inv verify s ts"
  shows "(machine, blob) \<in> set (registry_entries owner s) \<longleftrightarrow>
    (\<exists>ac c. mget (sv_agents s) (slot_key owner machine) = Some ac \<and> mget (sv_conns s) ac = Some c \<and>
       ac_owner c = owner \<and> ac_machine c = machine \<and> mget (sv_revoked s) (slot_key owner machine) = None \<and>
       ac_registry c = blob \<and> blob \<noteq> [])"
proof
  assume "(machine, blob) \<in> set (registry_entries owner s)"
  then obtain k ac c where kac: "(k, ac) \<in> set (sv_agents s)" "HasPrefix k (owner @ [bar])" "mget (sv_revoked s) k = None"
      "mget (sv_conns s) ac = Some c" "ac_registry c = blob" "blob \<noteq> []" "machine = TrimPrefix k (owner @ [bar])"
    by (auto simp: registry_entries_def registryBlob_def Let_def split: if_splits option.splits) (metis option.inject)+
  have k: "mget (sv_agents s) k = Some ac" using assms kac(1) by (simp add: relay_inv_def maps_ok_def mget_Some_iff)
  obtain c' where c': "mget (sv_conns s) ac = Some c'" "k = slot_key (ac_owner c') (ac_machine c')"
      "registrable verify (ac_owner c') (ac_machine c') (ac_proof c') (ac_auth c')" by (rule live_conn [OF assms k])
  then have "owner = ac_owner c" using kac(2,4) slot_prefix [of "ac_owner c'" "ac_machine c'" owner] by (auto simp: registrable_def)
  then show "\<exists>ac c. mget (sv_agents s) (slot_key owner machine) = Some ac \<and> mget (sv_conns s) ac = Some c \<and>
       ac_owner c = owner \<and> ac_machine c = machine \<and> mget (sv_revoked s) (slot_key owner machine) = None \<and>
       ac_registry c = blob \<and> blob \<noteq> []"
    using k kac c' by auto
next
  assume "\<exists>ac c. mget (sv_agents s) (slot_key owner machine) = Some ac \<and> mget (sv_conns s) ac = Some c \<and>
       ac_owner c = owner \<and> ac_machine c = machine \<and> mget (sv_revoked s) (slot_key owner machine) = None \<and>
       ac_registry c = blob \<and> blob \<noteq> []"
  then obtain ac c where ac: "(slot_key owner machine, ac) \<in> set (sv_agents s)" "mget (sv_conns s) ac = Some c"
      "mget (sv_revoked s) (slot_key owner machine) = None" "ac_registry c = blob" "blob \<noteq> []"
    by (auto dest: map_of_SomeD)
  have "HasPrefix (slot_key owner machine) (owner @ [bar])"
    using HasPrefix_append [of "owner @ [bar]" machine] by (simp add: slot_key_def)
  then show "(machine, blob) \<in> set (registry_entries owner s)"
    using ac by (force simp: registry_entries_def registryBlob_def Let_def)
qed

lemma answer_target:
  assumes "relay_inv verify s ts" "mget (sv_conns s) ac = Some c" "mget (ac_sessions c) sess = Some b" "mget (sv_browsers s) b = Some bc"
  shows "bc_agent bc = ac \<and> bc_sess bc = sess \<and> bc_key bc = slot_key (ac_owner c) (ac_machine c)"
proof -
  have "browser_ids s b = Some (slot_key (ac_owner c) (ac_machine c), sess, ac)"
    using relay_inv_conn [OF assms(1,2)] assms(3) unfolding conn_ok_def by blast
  then show ?thesis using assms(4) by (simp add: browser_ids_def)
qed

lemma send_or_fail_conns:
  assumes "send_or_fail sel fsel ac c b bc m s = Some s'"
  shows "sv_conns s' = sv_conns s \<or> sv_conns s' = mput (sv_conns s) ac (c\<lparr>ac_out := ac_out c @ [m]\<rparr>)"
  using assms by (auto simp: send_or_fail_def agentSend_def split: option.splits if_splits)

section \<open>Revocation under interleaving\<close>

text \<open>One step that is not a rollback: tombstones stay, and a slot with a tombstone does not get an agent.\<close>

definition enforced :: "Server \<Rightarrow> bool" where
  "enforced s \<longleftrightarrow> (\<forall>slot. mget (sv_revoked s) slot \<noteq> None \<longrightarrow> mget (sv_agents s) slot = None)"

text \<open>The fields a step on connections leaves alone.\<close>

lemma send_or_fail_keeps:
  "send_or_fail sel fsel ac c b bc m s = Some s' \<Longrightarrow> sv_revoked s' = sv_revoked s \<and> sv_agents s' = sv_agents s"
  by (auto simp: send_or_fail_def agentSend_def split: option.splits if_splits)

lemma agent_frame_keeps:
  "agent_frame decode sel ac c data s = Some s' \<Longrightarrow> sv_revoked s' = sv_revoked s \<and> sv_agents s' = sv_agents s"
  by (erule agent_frame_cases) simp_all

lemma browser_frame_keeps:
  "browser_frame decode sel fsel b bc data s = Some s' \<Longrightarrow> sv_revoked s' = sv_revoked s \<and> sv_agents s' = sv_agents s"
  by (erule browser_frame_cases) (auto dest: send_or_fail_keeps)

lemma persist_keeps:
  "persistRevocations io v rs s = (ok, s') \<Longrightarrow> sv_revoked s' = sv_revoked s \<and> sv_agents s' = sv_agents s"
  by (cases rule: writeRevocationsFile_cases [of io rs s]) (auto simp: persistRevocations_def split: if_splits)

lemma check_keeps:
  "handleAgent_check verify owner machine pf auth s = (st, s') \<Longrightarrow> sv_revoked s' = sv_revoked s \<and> sv_agents s' = sv_agents s"
  by (auto simp: handleAgent_check_def Let_def split: if_splits prod.splits)

lemma bind_keeps:
  "handleAttach_bind rnd k ac c s = (res, s') \<Longrightarrow> sv_revoked s' = sv_revoked s \<and> sv_agents s' = sv_agents s"
  by (auto simp: handleAttach_bind_def split: option.splits sum.splits)

lemma register_enforced:
  assumes "handleAgent_register owner machine pf auth now s = (out, s')" "enforced s"
  shows "sv_revoked s' = sv_revoked s \<and> enforced s'"
proof (cases "mget (sv_revoked s) (slot_key owner machine) = None")
  case True
  have "sv_revoked s' = sv_revoked s" "sv_agents s' = sv_agents s \<or> sv_agents s' = mput (sv_agents s) (slot_key owner machine) (sv_next s)"
    using assms(1) by (auto simp: handleAgent_register_def Let_def split: if_splits prod.splits)
  then show ?thesis using assms(2) True by (auto simp: enforced_def)
next
  case False
  then show ?thesis using assms by (auto simp: handleAgent_register_def Let_def)
qed

lemma post_enforced:
  assumes "postRevocation_apply verify r s = (out, s')" "enforced s"
  shows "dom (mget (sv_revoked s)) \<subseteq> dom (mget (sv_revoked s')) \<and> enforced s'"
  using assms(1) by (cases rule: postRevocation_apply_cases) (use assms(2) in \<open>auto simp: enforced_def\<close>)

lemma step_enforced:
  assumes "relay_step verify decode x y" "\<forall>slot e. TRollback slot e \<notin> set (snd x)" "enforced (fst x)"
  shows "dom (mget (sv_revoked (fst x))) \<subseteq> dom (mget (sv_revoked (fst y))) \<and> enforced (fst y)"
  using assms
proof (induction rule: relay_step.induct)
  case (agent_register owner machine pf auth ts now s out s')
  then show ?case using register_enforced by fastforce
next
  case (agent_leave s ac c ts)
  then show ?case by (auto simp: handleAgent_leave_def enforced_def Let_def)
next
  case (revoke r s out s' ts)
  then show ?case using post_enforced by fastforce
next
  case (browser_leave s b bc ts)
  then show ?case by (auto simp: handleAttach_leave_def enforced_def Let_def split: option.splits)
qed (auto simp: enforced_def handleAttach_notify_def
    dest: agent_frame_keeps browser_frame_keeps persist_keeps check_keeps bind_keeps send_or_fail_keeps)

lemma clean_run_enforced:
  assumes "clean_run verify decode x y" "\<forall>slot e. TRollback slot e \<notin> set (snd x)" "enforced (fst x)"
  shows "dom (mget (sv_revoked (fst x))) \<subseteq> dom (mget (sv_revoked (fst y))) \<and> enforced (fst y) \<and>
    (\<forall>slot e. TRollback slot e \<notin> set (snd y))"
  using assms
proof (induction rule: clean_run.induct)
  case (more x y z)
  then show ?case using step_enforced [OF more(2)] by blast
qed simp

section \<open>Example runs\<close>

text \<open>An owner id that is not a key, and the relay after its machine registered.\<close>

definition demo_live :: Server where
  "demo_live = snd (handleAgent_register ''0'' ''m'' [] [] 0 (NewServer NoFile))"

lemma key_of_0: "key_of ''0'' = None"
  using key_of_alphabet [of "''0''"] by (cases "key_of ''0''") (auto simp: alphabet_def)

lemma demo_register:
  "handleAgent_register ''0'' ''m'' [] [] 0 (NewServer NoFile) = (Registered 0 None False, demo_live)"
  "sv_agents demo_live = [(''0|m'', 0)]" "sv_conns demo_live = [(0, newAgentConn ''0'' ''m'' [] [])]"
  "sv_revoked demo_live = []" "sv_browsers demo_live = []" "sv_next demo_live = 1" "sv_maxAgentSessions demo_live = 128"
  by (simp_all add: demo_live_def handleAgent_register_def NewServer_def slot_key_def proof_ok_def newProofStore_def
      defaultMaxAgents_def defaultMaxAgentSessions_def learn_def Let_def)

lemma fresh_reachable: "reachable verify decode (NewServer d, [])"
  using reachable.fresh [of verify decode 0 d] by (simp add: SetMaxAgents_def)

lemma demo_reachable: "reachable verify decode (demo_live, [])"
proof -
  have "handleAgent_check verify ''0'' ''m'' [] [] (NewServer NoFile) = (None, NewServer NoFile)"
    by (simp add: handleAgent_check_def agentRegistrationAuthorized_def key_of_0 NewServer_def proof_ok_def newProofStore_def)
  from relay_step.agent_request [OF this, of decode "[]"]
  have 1: "relay_step verify decode (NewServer NoFile, []) (NewServer NoFile, [TRegister ''0'' ''m'' [] []])" by simp
  have "relay_step verify decode (NewServer NoFile, [TRegister ''0'' ''m'' [] []]) (demo_live, [])"
    using relay_step.agent_register [of "''0''" "''m''" "[]" "[]" "[TRegister ''0'' ''m'' [] []]" 0, OF _ demo_register(1)]
    by (simp add: after_register_def)
  with 1 fresh_reachable show ?thesis by (blast intro: reachable.step)
qed

section \<open>Properties\<close>

text \<open>
  C2. Whatever the interleaving of requests, disconnects, revocations and write failures, every live agent of
  a reachable relay sits under exactly the slot it asked for, its identifiers contain no separator, it
  presented a valid owner authorization whenever the owner id is a key, and different slots lead to
  different connections.
\<close>

theorem live_agents_authorised:
  assumes "reachable verify decode (s, ts)" "mget (sv_agents s) k = Some ac"
  shows "\<exists>c. mget (sv_conns s) ac = Some c \<and> k = slot_key (ac_owner c) (ac_machine c) \<and>
    bar \<notin> set (ac_owner c) \<and> bar \<notin> set (ac_machine c) \<and>
    agentRegistrationAuthorized verify (ac_owner c) (ac_machine c) (ac_proof c) (ac_auth c) \<and>
    (\<forall>k'. mget (sv_agents s) k' = Some ac \<longrightarrow> k' = k)"
proof -
  have inv: "relay_inv verify s ts" using reachable_inv [OF assms(1)] by simp
  obtain c where c: "mget (sv_conns s) ac = Some c" "k = slot_key (ac_owner c) (ac_machine c)"
      "registrable verify (ac_owner c) (ac_machine c) (ac_proof c) (ac_auth c)" by (rule live_conn [OF inv assms(2)])
  have "k' = k" if "mget (sv_agents s) k' = Some ac" for k'
    using live_conn [OF inv that] c(1,2) by (metis option.inject)
  then show ?thesis using c by (auto simp: registrable_def)
qed

theorem live_agents_authorised_witness:
  "\<exists>c. mget (sv_conns demo_live) 0 = Some c \<and> ''0|m'' = slot_key (ac_owner c) (ac_machine c) \<and>
    agentRegistrationAuthorized demo_verify (ac_owner c) (ac_machine c) (ac_proof c) (ac_auth c)"
  using live_agents_authorised [OF demo_reachable, of "''0|m''" 0] by (auto simp: demo_register(2))

text \<open>
  Resource bounds in every reachable state: at most the configured number of live agents,
  at most the configured number of sessions per agent, at most 16 KiB of registry blob per
  connection and at most 32 queued messages per connection.
\<close>

theorem relay_bounded:
  assumes "reachable verify decode (s, ts)"
  shows "(0 < sv_maxAgents s \<longrightarrow> int (length (sv_agents s)) \<le> sv_maxAgents s) \<and>
    (\<forall>ac c. mget (sv_conns s) ac = Some c \<longrightarrow>
      (0 < sv_maxAgentSessions s \<longrightarrow> int (length (ac_sessions c)) \<le> sv_maxAgentSessions s) \<and>
      length (ac_registry c) \<le> 16384 \<and> length (ac_out c) \<le> 32) \<and>
    (\<forall>b bc. mget (sv_browsers s) b = Some bc \<longrightarrow> length (bc_out bc) \<le> 32)"
proof -
  have inv: "relay_inv verify s ts" using reachable_inv [OF assms] by simp
  then have "within (length (sv_agents s)) (sv_maxAgents s)" by (simp add: relay_inv_def maps_ok_def)
  then show ?thesis
    using relay_inv_conn [OF inv] relay_inv_browser(1) [OF inv]
    by (fastforce simp: conn_ok_def chan_cap_def maxRegistryBlobBytes_def)
qed

theorem relay_bounded_witness:
  "\<exists>c. mget (sv_conns demo_live) 0 = Some c \<and> length (ac_out c) \<le> 32"
proof -
  have "mget (sv_conns demo_live) 0 = Some (newAgentConn ''0'' ''m'' [] [])" by (simp add: demo_register)
  with relay_bounded [OF demo_reachable] show ?thesis by blast
qed

text \<open>
  The registry lists exactly the owner's live machines: an entry (machine, blob) is served for an
  owner if and only if an agent registered for that owner and machine is live, not revoked, and
  published that non-empty blob. No agent of another owner can place an entry there.
\<close>

theorem registry_exact:
  assumes "reachable verify decode (s, ts)" "owner \<noteq> []"
  shows "\<exists>es. handleRegistry owner wallet s = Inr es \<and> (\<forall>machine blob. (machine, blob) \<in> set es \<longleftrightarrow>
    (\<exists>ac c. mget (sv_agents s) (slot_key owner machine) = Some ac \<and> mget (sv_conns s) ac = Some c \<and>
       ac_owner c = owner \<and> ac_machine c = machine \<and> mget (sv_revoked s) (slot_key owner machine) = None \<and>
       ac_registry c = blob \<and> blob \<noteq> []))"
proof -
  have "handleRegistry owner wallet s = Inr (registry_entries owner s)" using assms(2) by (simp add: handleRegistry_def)
  moreover have "relay_inv verify s ts" using reachable_inv [OF assms(1)] by simp
  ultimately show ?thesis using registry_entries_iff by blast
qed

theorem registry_exact_witness:
  "\<exists>es. handleRegistry ''0'' [] demo_live = Inr es \<and> (''m'', []) \<notin> set es"
  using registry_exact [OF demo_reachable, of "''0''" "[]"] by fastforce


text \<open>The relay after a browser attached to the example machine.\<close>

definition demo_bound :: Server where
  "demo_bound = snd (handleAttach_bind (Some [0]) ''0|m'' 0 (newAgentConn ''0'' ''m'' [] []) demo_live)"

lemma demo_bound_fields:
  "sv_conns demo_bound = [(0, (newAgentConn ''0'' ''m'' [] [])\<lparr>ac_sessions := [(''00'', 1)]\<rparr>)]"
  "sv_browsers demo_bound = [(1, newBrowserConn ''0|m'' ''00'' 0)]"
  by (simp_all add: demo_bound_def handleAttach_bind_def newSessionID_def bind_session_def newAgentConn_def
      demo_register nibble_char_def hex_chars_def)

lemma demo_bound_reachable: "reachable verify decode (demo_bound, [TNotify 1])"
proof -
  have "handleAttach_lookup ''0'' ''m'' demo_live = AttachFound 0"
    by (simp add: handleAttach_lookup_def demo_register slot_key_def)
  from relay_step.attach [OF this, of verify decode "[]"]
  have 1: "relay_step verify decode (demo_live, []) (demo_live, [TBind ''0|m'' 0])" by (simp add: slot_key_def)
  have b: "handleAttach_bind (Some [0]) ''0|m'' 0 (newAgentConn ''0'' ''m'' [] []) demo_live = (Some 1, demo_bound)"
    unfolding demo_bound_def by (simp add: handleAttach_bind_def newSessionID_def bind_session_def newAgentConn_def demo_register)
  have "relay_step verify decode (demo_live, [TBind ''0|m'' 0]) (demo_bound, [TNotify 1])"
    using relay_step.attach_bind [OF _ _ b, of "[TBind ''0|m'' 0]" verify decode]
    by (simp add: demo_register after_bind_def)
  with 1 demo_reachable show ?thesis by (blast intro: reachable.step)
qed


text \<open>
  C5. Revocation is enforced in every interleaving without write failures. Start a relay on its
  revocations file; if a slot is revoked at some point of a run, then at every later point it still
  is, no agent is live under it, and an attach to it is refused.
\<close>

theorem revoked_stays_dead:
  assumes "LoadRevocations verify path (SetMaxAgents n (NewServer d)) = Inr s0"
    and "clean_run verify decode (s0, []) (s, ts)" "clean_run verify decode (s, ts) (s', ts')"
    and "mget (sv_revoked s) (slot_key owner machine) \<noteq> None"
  shows "mget (sv_revoked s') (slot_key owner machine) \<noteq> None \<and> mget (sv_agents s') (slot_key owner machine) = None \<and>
    handleAttach_lookup owner machine s' \<in> {AttachBad, AttachRevoked} \<and>
    fst (handleAgent_check verify owner machine pf auth s') \<noteq> None"
proof -
  have "sv_agents s0 = []"
    using assms(1) by (auto simp: LoadRevocations_def SetMaxAgents_def NewServer_def Let_def split: if_splits sum.splits)
  then have "enforced s0" by (simp add: enforced_def)
  then have s: "enforced s" "\<forall>slot e. TRollback slot e \<notin> set ts" using clean_run_enforced [OF assms(2)] by simp_all
  then have s': "dom (mget (sv_revoked s)) \<subseteq> dom (mget (sv_revoked s'))" "enforced s'"
    using clean_run_enforced [OF assms(3)] by simp_all
  then have "mget (sv_revoked s') (slot_key owner machine) \<noteq> None" using assms(4) by blast
  then show ?thesis using s'(2) by (auto simp: enforced_def handleAttach_lookup_def handleAgent_check_def)
qed

text \<open>A run in which the file is loaded, the example tombstone is posted, and its write succeeds.\<close>

definition demo_revoked :: Server where
  "demo_revoked = snd (postRevocation_apply demo_verify demo_revocation demo_server)"

lemma demo_apply:
  "postRevocation_apply demo_verify demo_revocation demo_server =
     (PostPersist (rv_slot demo_revocation) 1 [demo_revocation] None None, demo_revoked)"
  "sv_revoked demo_revoked = [(rv_slot demo_revocation, demo_revocation)]"
  by (simp_all add: demo_revoked_def postRevocation_apply_def demo_revocation_verifies demo_server_def NewServer_def
      defaultMaxRevocations_def snapshotRevocationsLocked_def Let_def)

lemma demo_clean:
  "clean_run demo_verify decode (demo_server, []) (demo_revoked, [TPersist (rv_slot demo_revocation) 1 [demo_revocation] None])"
proof (rule clean_run.more [OF clean_run.none])
  show "relay_step demo_verify decode (demo_server, []) (demo_revoked, [TPersist (rv_slot demo_revocation) 1 [demo_revocation] None])"
    using relay_step.revoke [OF demo_apply(1), of decode "[]"] by (simp add: after_post_def)
qed simp

theorem revoked_stays_dead_witness:
  "mget (sv_agents demo_revoked) (slot_key demo_id ''m1'') = None \<and>
   handleAttach_lookup demo_id ''m1'' demo_revoked \<in> {AttachBad, AttachRevoked}"
proof -
  have load: "LoadRevocations demo_verify ''/r'' (SetMaxAgents 0 (NewServer NoFile)) = Inr demo_server"
    using demo_load by (simp add: SetMaxAgents_def)
  have "rv_slot demo_revocation = slot_key demo_id ''m1''" by (simp add: rv_slot_def demo_revocation_def)
  then have "mget (sv_revoked demo_revoked) (slot_key demo_id ''m1'') \<noteq> None" by (simp add: demo_apply(2))
  from revoked_stays_dead [OF load demo_clean clean_run.none this] show ?thesis by blast
qed

section \<open>What interleavings can break\<close>

definition demo_revocation2 :: Revocation where
  "demo_revocation2 = demo_revocation\<lparr>rvTS := 6\<rparr>"

lemma demo_revocation2_facts:
  "VerifyRevocation demo_verify demo_revocation2 = None" "rv_slot demo_revocation2 = rv_slot demo_revocation"
  "demo_revocation2 \<noteq> demo_revocation"
proof -
  have "rvSignature demo_revocation2 = rvSignature demo_revocation" by (simp add: demo_revocation2_def)
  then show "VerifyRevocation demo_verify demo_revocation2 = None"
    using demo_revocation_verifies unfolding VerifyRevocation_def VerifyAuth_def demo_verify_def
    by (auto simp: demo_revocation2_def demo_revocation_def split: if_splits option.splits)
  show "rv_slot demo_revocation2 = rv_slot demo_revocation" by (simp add: demo_revocation2_def rv_slot_def)
  show "demo_revocation2 \<noteq> demo_revocation" by (simp add: demo_revocation2_def demo_revocation_def)
qed

text \<open>
  C37. A post that is acknowledged can be undone by an earlier one whose write failed. Two records for the same machine are
  posted; the write of the first fails, the write of the second succeeds and is acknowledged; then the first one's rollback deletes
  the slot. In the resulting state nothing is pending, the file and the durability table hold the
  revocation, but the relay no longer refuses the machine.
\<close>

theorem acknowledged_revocation_lost:
  "\<exists>s. reachable demo_verify decode (s, []) \<and> rv_slot demo_revocation \<in> disk_slots (sv_disk s) \<and>
     slotDurable (rv_slot demo_revocation) s \<and> mget (sv_revoked s) (rv_slot demo_revocation) = None"
proof -
  let ?slot = "rv_slot demo_revocation" and ?r1 = demo_revocation and ?r2 = demo_revocation2
  let ?p1 = "TPersist ?slot 1 [?r1] None" and ?p2 = "TPersist ?slot 2 [?r2] (Some ?r1)"
  define s1 where "s1 = demo_server\<lparr>sv_revoked := [(?slot, ?r1)], sv_revVersion := 1\<rparr>"
  define s2 where "s2 = s1\<lparr>sv_revoked := [(?slot, ?r2)], sv_revVersion := 2\<rparr>"
  define s3 where "s3 = s2\<lparr>sv_disk := RevFile 1 [?r2], sv_revPersisted := 2, sv_revDurable := [(?slot, True)]\<rparr>"
  define s4 where "s4 = s3\<lparr>sv_revoked := []\<rparr>"
  note facts = demo_revocation2_facts demo_revocation_verifies
  have r0: "reachable demo_verify decode (demo_server, [])"
    using reachable.loaded [of demo_verify "''/r''" 0 NoFile demo_server] demo_load by (simp add: SetMaxAgents_def)
  have t1: "relay_step demo_verify decode (demo_server, []) (s1, [?p1])"
  proof -
    have "postRevocation_apply demo_verify ?r1 demo_server = (PostPersist ?slot 1 [?r1] None None, s1)"
      by (simp add: postRevocation_apply_def facts s1_def demo_server_def NewServer_def defaultMaxRevocations_def
          snapshotRevocationsLocked_def Let_def)
    from relay_step.revoke [OF this, of decode "[]"] show ?thesis by (simp add: after_post_def)
  qed
  have t2: "relay_step demo_verify decode (s1, [?p1]) (s2, [?p2, ?p1])"
  proof -
    have "postRevocation_apply demo_verify ?r2 s1 = (PostPersist ?slot 2 [?r2] (Some ?r1) None, s2)"
      by (simp add: postRevocation_apply_def facts(1,2) facts(3) [symmetric] s1_def s2_def demo_server_def NewServer_def
          snapshotRevocationsLocked_def Let_def)
    from relay_step.revoke [OF this, of decode "[?p1]"] show ?thesis by (simp add: after_post_def)
  qed
  have t3: "relay_step demo_verify decode (s2, [?p2, ?p1]) (s2, [TRollback ?slot None, ?p2])"
  proof -
    have "persistRevocations (\<lambda>_. False) 1 [?r1] s2 = (False, s2)"
      by (simp add: persistRevocations_def writeRevocationsFile_def s2_def s1_def demo_server_def NewServer_def)
    from relay_step.persist_failed [OF _ this, of ?slot None "[?p2, ?p1]" demo_verify decode] show ?thesis by simp
  qed
  have t4: "relay_step demo_verify decode (s2, [TRollback ?slot None, ?p2]) (s3, [TRollback ?slot None])"
  proof -
    have "persistRevocations (\<lambda>_. True) 2 [?r2] s2 = (True, s3)"
      by (simp add: persistRevocations_def writeRevocationsFile_def s3_def s2_def s1_def demo_server_def NewServer_def facts(2))
    from relay_step.persisted [OF _ this, of ?slot "Some ?r1" "[TRollback ?slot None, ?p2]" demo_verify decode] show ?thesis by simp
  qed
  have t5: "relay_step demo_verify decode (s3, [TRollback ?slot None]) (s4, [])"
  proof -
    have "rollbackRevocation ?slot None s3 = s4" by (simp add: rollbackRevocation_def s4_def s3_def s2_def)
    then show ?thesis using relay_step.rollback [of ?slot None "[TRollback ?slot None]" demo_verify decode s3] by simp
  qed
  have "reachable demo_verify decode (s4, [])" by (rule reachable.step [OF reachable.step [OF reachable.step [OF reachable.step [OF reachable.step [OF r0 t1] t2] t3] t4] t5])
  moreover have "?slot \<in> disk_slots (sv_disk s4)" "slotDurable ?slot s4" "mget (sv_revoked s4) ?slot = None"
    by (simp_all add: s4_def s3_def disk_slots_def slotDurable_def facts(2))
  ultimately show ?thesis by blast
qed

text \<open>
  A teardown can miss a browser. The agent's sessions are collected before \<open>done\<close> is closed; a browser that binds in
  between is accepted by an agent that is already leaving. Afterwards nothing is pending, the agent is gone, but the
  browser stays bound to it and was told nothing (its own offer timer is what ends it).
\<close>

theorem teardown_misses_session:
  "\<exists>s c bc. reachable verify decode (s, []) \<and> mget (sv_conns s) 0 = Some c \<and> ac_done c \<and> mget (sv_agents s) ''0|m'' = None \<and>
     mget (ac_sessions c) ''00'' = Some 1 \<and> mget (sv_browsers s) 1 = Some bc \<and> \<not> bc_done bc \<and> bc_out bc = []"
proof -
  let ?c0 = "newAgentConn ''0'' ''m'' [] []"
  let ?bind = "TBind ''0|m'' 0" and ?bc = "newBrowserConn ''0|m'' ''00'' 0"
  define c1 where "c1 = ?c0\<lparr>ac_once := True\<rparr>"
  define c2 where "c2 = c1\<lparr>ac_sessions := [(''00'', 1)]\<rparr>"
  define c3 where "c3 = c2\<lparr>ac_done := True\<rparr>"
  define c4 where "c4 = c3\<lparr>ac_out := [msg0\<lparr>smType := TypeAttach, smSession := ''00''\<rparr>]\<rparr>"
  define s0 where "s0 = demo_live\<lparr>sv_agents := []\<rparr>"
  define s1 where "s1 = s0\<lparr>sv_conns := [(0, c1)]\<rparr>"
  define s2 where "s2 = s1\<lparr>sv_next := 2, sv_browsers := [(1, ?bc)], sv_conns := [(0, c2)]\<rparr>"
  define s3 where "s3 = s2\<lparr>sv_conns := [(0, c3)]\<rparr>"
  define s4 where "s4 = s3\<lparr>sv_conns := [(0, c4)]\<rparr>"
  note cs = c4_def c3_def c2_def c1_def newAgentConn_def
  note ss = s4_def s3_def s2_def s1_def s0_def demo_register
  have t1: "relay_step verify decode (demo_live, []) (demo_live, [?bind])"
    using relay_step.attach [of "''0''" "''m''" demo_live 0 verify decode "[]"]
    by (simp add: handleAttach_lookup_def demo_register slot_key_def)
  have t2: "relay_step verify decode (demo_live, [?bind]) (s0, [TTeardown 0, ?bind])"
    using relay_step.agent_leave [of demo_live 0 ?c0 verify decode "[?bind]"]
    by (simp add: demo_register handleAgent_leave_def slot_key_def newAgentConn_def s0_def)
  have t3: "relay_step verify decode (s0, [TTeardown 0, ?bind]) (s1, [TClose 0 [], ?bind])"
    using relay_step.teardown [of 0 "[TTeardown 0, ?bind]" s0 ?c0 "[]" c1 verify decode]
    by (simp add: ss teardown_collect_def c1_def newAgentConn_def)
  have t4: "relay_step verify decode (s1, [TClose 0 [], ?bind]) (s2, [TNotify 1, TClose 0 []])"
  proof -
    have "handleAttach_bind (Some [0]) ''0|m'' 0 c1 s1 = (Some 1, s2)"
      by (simp add: handleAttach_bind_def newSessionID_def bind_session_def cs ss nibble_char_def hex_chars_def numeral_2_eq_2)
    from relay_step.attach_bind [OF _ _ this, of "[TClose 0 [], ?bind]" verify decode] show ?thesis
      by (simp add: s1_def after_bind_def)
  qed
  have t5: "relay_step verify decode (s2, [TNotify 1, TClose 0 []]) (s3, [TNotify 1])"
    using relay_step.teardown_closed [of 0 "[]" "[TNotify 1, TClose 0 []]" s2 c2 verify decode]
    by (simp add: s2_def s3_def teardown_close_def c3_def)
  have t6: "relay_step verify decode (s3, [TNotify 1]) (s4, [])"
  proof -
    have "handleAttach_notify True True 0 c3 1 ?bc s3 = Some s4"
      by (simp add: handleAttach_notify_def send_or_fail_def agentSend_def chan_cap_def s4_def s3_def cs newBrowserConn_def)
    then show ?thesis
      using relay_step.attach_notify [of 1 "[TNotify 1]" s3 ?bc c3 True True s4 verify decode]
      by (simp add: s3_def s2_def newBrowserConn_def)
  qed
  have "reachable verify decode (s4, [])" by (rule reachable.step [OF reachable.step [OF reachable.step [OF reachable.step [OF reachable.step [OF reachable.step [OF demo_reachable t1] t2] t3] t4] t5] t6])
  moreover have "mget (sv_conns s4) 0 = Some c4" "ac_done c4" "mget (ac_sessions c4) ''00'' = Some 1" "mget (sv_agents s4) ''0|m'' = None"
      "mget (sv_browsers s4) 1 = Some ?bc" "\<not> bc_done ?bc" "bc_out ?bc = []"
    by (simp_all add: ss cs newBrowserConn_def)
  ultimately show ?thesis by blast
qed

end
