(* ===== verification/Bip39.thy ===== *)
theory Bip39
  imports Wordlist Sha256
begin

unbundle bit_operations_syntax

text \<open>
  The recovery phrase: \<^verbatim>\<open>go/internal/bip39/bip39.go\<close>, over the word list of \<open>Wordlist\<close> and the SHA-256 of \<open>Sha256\<close>.
  Go's \<open>int\<close> is a natural number here: every index and every bit count of the two functions is below 3000. A slice index out of
  range is a \<open>Panic\<close> where the code has no guard that excludes it at once.

  The lemmas relate both functions to the bit string they share, the entropy followed by its checksum, and the properties say that
  the phrase and the entropy determine each other.
\<close>

datatype bip39_error = BadEntropyLength nat | BadWordCount nat | UnknownWord string | ChecksumMismatch

section \<open>strings.Join and strings.Fields\<close>

fun join_space :: "string list \<Rightarrow> string" where
  "join_space [] = []"
| "join_space [w] = w"
| "join_space (w # v # ws) = w @ CHR '' '' # join_space (v # ws)"

text \<open>
  The length of the white-space rune a string starts with, 0 when it starts with another byte: the ASCII ones, and the UTF-8
  forms of U+0085, U+00A0, U+1680, U+2000 to U+200A, U+2028, U+2029, U+202F, U+205F and U+3000.
\<close>

definition space_len :: "string \<Rightarrow> nat" where
  "space_len s =
     (case map of_char s :: nat list of
        [] \<Rightarrow> 0
      | a # r \<Rightarrow>
          if a \<in> {9, 10, 11, 12, 13, 32} then 1
          else if a = 194 then (case r of b # _ \<Rightarrow> if b \<in> {133, 160} then 2 else 0 | _ \<Rightarrow> 0)
          else (case r of
                  b # c # _ \<Rightarrow>
                    if a = 225 \<and> b = 154 \<and> c = 128 then 3
                    else if a = 226 \<and> b = 128 \<and> (128 \<le> c \<and> c \<le> 138 \<or> c \<in> {168, 169, 175}) then 3
                    else if a = 226 \<and> b = 129 \<and> c = 159 then 3
                    else if a = 227 \<and> b = 128 \<and> c = 128 then 3 else 0
                | _ \<Rightarrow> 0))"

definition flush :: "string \<Rightarrow> string list" where
  "flush cur = (if cur = [] then [] else [cur])"

function fields_from :: "string \<Rightarrow> string \<Rightarrow> string list" where
  "fields_from cur s =
     (case s of
        [] \<Rightarrow> flush cur
      | c # r \<Rightarrow>
          if space_len s = 0 then fields_from (cur @ [c]) r
          else flush cur @ fields_from [] (drop (space_len s) s))"
  by pat_completeness auto
termination by (relation "measure (\<lambda>(cur, s). length s)") auto

declare fields_from.simps [simp del]

definition Fields :: "string \<Rightarrow> string list" where
  "Fields s = fields_from [] s"

section \<open>The two functions\<close>

text \<open>The closure \<open>bit\<close>: bit \<open>i\<close> of the entropy followed by its hash, most significant first.\<close>

definition byte_bit :: "bytes \<Rightarrow> nat \<Rightarrow> nat" where
  "byte_bit bs i = unat (drop_bit (7 - i mod 8) (bs ! (i div 8)) AND 1)"

definition entropy_bit :: "bytes \<Rightarrow> nat \<Rightarrow> nat" where
  "entropy_bit entropy i =
     (let n = length entropy
      in if i < n * 8 then byte_bit entropy i else byte_bit (sha256 entropy) (i - n * 8))"

definition word_index :: "bytes \<Rightarrow> nat \<Rightarrow> nat" where
  "word_index entropy w = foldl (\<lambda>idx b. push_bit 1 idx OR entropy_bit entropy (w * 11 + b)) 0 [0..<11]"

fun word_strings :: "nat list \<Rightarrow> (bip39_error, string list) go_result" where
  "word_strings [] = Ret []"
| "word_strings (idx # idxs) =
     (if idx < length wordlist then go_bind (word_strings idxs) (\<lambda>ws. Ret ((wordlist ! idx) # ws)) else Panic)"

definition EntropyToMnemonic :: "bytes \<Rightarrow> (bip39_error, string) go_result" where
  "EntropyToMnemonic entropy =
     (let n = length entropy
      in if n < 16 \<or> n > 32 \<or> n mod 4 \<noteq> 0 then Err (BadEntropyLength n)
         else let cs = n * 8 div 32
              in go_bind (word_strings (map (word_index entropy) [0..<(n * 8 + cs) div 11])) (\<lambda>ws. Ret (join_space ws)))"

definition wordIndexMap :: "(string, nat) gomap" where
  "wordIndexMap = foldl (\<lambda>m (i, w). mput m w i) [] (zip [0..<length wordlist] wordlist)"

text \<open>The eleven bits of an index, most significant first, and the loop over the words.\<close>

definition index_bits :: "nat \<Rightarrow> bool list" where
  "index_bits idx = map (\<lambda>b. drop_bit b idx AND 1 = 1) (rev [0..<11])"

fun word_bits :: "string list \<Rightarrow> (bip39_error, bool list) go_result" where
  "word_bits [] = Ret []"
| "word_bits (w # ws) =
     (case mget wordIndexMap w of
        None \<Rightarrow> Err (UnknownWord w)
      | Some idx \<Rightarrow> go_bind (word_bits ws) (\<lambda>bs. Ret (index_bits idx @ bs)))"

definition set_entropy_bit :: "bool list \<Rightarrow> bytes \<Rightarrow> nat \<Rightarrow> bytes" where
  "set_entropy_bit bits entropy i =
     (if bits ! i then entropy[i div 8 := entropy ! (i div 8) OR push_bit (7 - i mod 8) 1] else entropy)"

definition entropy_of_bits :: "bool list \<Rightarrow> nat \<Rightarrow> bytes" where
  "entropy_of_bits bits entBits = foldl (set_entropy_bit bits) (replicate (entBits div 8) 0) [0..<entBits]"

definition checksum_ok :: "bytes \<Rightarrow> bool list \<Rightarrow> nat \<Rightarrow> nat \<Rightarrow> bool" where
  "checksum_ok hash bits entBits csBits =
     list_all (\<lambda>i. (if bits ! (entBits + i) then 1 else 0) = byte_bit hash i) [0..<csBits]"

definition MnemonicToEntropy :: "string \<Rightarrow> (bip39_error, bytes) go_result" where
  "MnemonicToEntropy mnemonic =
     (let words = Fields mnemonic; n = length words
      in if n < 12 \<or> n > 24 \<or> n mod 3 \<noteq> 0 then Err (BadWordCount n)
         else let totalBits = n * 11; csBits = totalBits div 33; entBits = totalBits - csBits
              in go_bind (word_bits words)
                   (\<lambda>bits. let entropy = entropy_of_bits bits entBits
                           in if checksum_ok (sha256 entropy) bits entBits csBits then Ret entropy else Err ChecksumMismatch))"

section \<open>Joining and splitting\<close>

lemma char_of_digit: "digit6 c \<Longrightarrow> \<not> digit7 c \<Longrightarrow> 64 \<le> (of_char c :: nat) \<and> (of_char c :: nat) < 128"
  by (cases c) (simp add: of_char_def del: of_char_Char split: if_splits)

lemma space_len_word: "digit6 c \<Longrightarrow> \<not> digit7 c \<Longrightarrow> space_len (c # s) = 0"
  using char_of_digit [of c] by (auto simp: space_len_def split: list.splits)

lemma fields_from_word:
  "list_all (\<lambda>c. digit6 c \<and> \<not> digit7 c) w \<Longrightarrow> fields_from cur (w @ s) = fields_from (cur @ w) s"
proof (induction w arbitrary: cur)
  case (Cons c w)
  then show ?case by (simp add: fields_from.simps [of cur "c # w @ s"] space_len_word)
qed simp

lemma fields_from_space: "fields_from cur (CHR '' '' # s) = flush cur @ fields_from [] s"
  by (simp add: fields_from.simps [of cur "CHR '' '' # s"] space_len_def)

lemma fields_from_Nil: "fields_from cur [] = flush cur"
  by (simp add: fields_from.simps)

lemma Fields_join: "list_all is_word ws \<Longrightarrow> Fields (join_space ws) = ws"
proof (induction ws rule: join_space.induct)
  case (2 w)
  then show ?case using fields_from_word [of w "[]" "[]"] by (simp add: Fields_def is_word_def fields_from_Nil flush_def)
next
  case (3 w v ws)
  then show ?case by (simp add: Fields_def is_word_def fields_from_word fields_from_space flush_def)
qed (simp add: Fields_def fields_from_Nil flush_def)

section \<open>Bit strings\<close>

definition bits_value :: "bool list \<Rightarrow> nat" where
  "bits_value bs = foldl (\<lambda>a b. 2 * a + of_bool b) 0 bs"

lemma bits_value_snoc [simp]: "bits_value (bs @ [b]) = 2 * bits_value bs + of_bool b"
  by (simp add: bits_value_def)

lemma bits_value_Nil [simp]: "bits_value [] = 0"
  by (simp add: bits_value_def)

lemma bits_value_less: "bits_value bs < 2 ^ length bs"
  by (induction bs rule: rev_induct) auto

lemma bit_bits_value: "k < length bs \<Longrightarrow> bit (bits_value bs) k = rev bs ! k"
proof (induction bs arbitrary: k rule: rev_induct)
  case (snoc b bs)
  then show ?case by (cases k) (auto simp: bit_0 bit_Suc)
qed simp

lemma index_bits_bit: "index_bits idx = map (bit idx) (rev [0..<11])"
proof -
  have "(drop_bit b idx AND 1 = 1) = bit idx b" for b
    by (simp add: and_one_eq bit_iff_odd_drop_bit odd_iff_mod_2_eq_one)
  then show ?thesis by (simp add: index_bits_def)
qed

lemma length_index_bits [simp]: "length (index_bits idx) = 11"
  by (simp add: index_bits_def)

lemma nth_rev_upt: "i < n \<Longrightarrow> rev [0..<n] ! i = n - Suc i"
  by (simp add: rev_nth)

lemma index_bits_bits_value: "length bs = 11 \<Longrightarrow> index_bits (bits_value bs) = bs"
  by (rule nth_equalityI) (simp_all add: index_bits_bit nth_rev_upt bit_bits_value rev_nth)

lemma high_bit: "n < 2048 \<Longrightarrow> 11 \<le> k \<Longrightarrow> \<not> bit (n :: nat) k"
proof -
  assume n: "n < 2048" and "11 \<le> k"
  then have "(2 :: nat) ^ 11 \<le> 2 ^ k" by (simp only: power_increasing)
  with n have "n < 2 ^ k" by simp
  then show ?thesis by (simp add: bit_iff_odd)
qed

lemma bits_value_index_bits: "idx < 2048 \<Longrightarrow> bits_value (index_bits idx) = idx"
proof (rule bit_eqI)
  fix k assume "idx < 2048"
  then show "bit (bits_value (index_bits idx)) k = bit idx k"
    using bits_value_less [of "index_bits idx"]
    by (cases "k < 11") (simp_all add: bit_bits_value index_bits_bit rev_map rev_nth high_bit)
qed

text \<open>The bit string both functions share, and its words.\<close>

definition stream :: "bytes \<Rightarrow> nat \<Rightarrow> bool" where
  "stream entropy i \<longleftrightarrow> entropy_bit entropy i = 1"

lemma byte_bit_bit: "byte_bit bs i = of_bool (bit (bs ! (i div 8)) (7 - i mod 8))"
  by (simp add: byte_bit_def and_one_eq bit_iff_odd_drop_bit odd_iff_mod_2_eq_one mod2_eq_if)

lemma entropy_bit_stream: "entropy_bit entropy i = of_bool (stream entropy i)"
  by (simp add: stream_def entropy_bit_def byte_bit_bit Let_def)

lemma push_or: "push_bit 1 (a :: nat) OR of_bool b = 2 * a + of_bool b"
  by (cases b) (simp_all add: push_bit_eq_mult or_one_eq mult.commute flip: One_nat_def)

lemma word_index_value: "word_index entropy w = bits_value (map (\<lambda>b. stream entropy (11 * w + b)) [0..<11])"
  by (simp only: word_index_def bits_value_def entropy_bit_stream push_or foldl_map mult.commute)

lemma concat_blocks: "concat (map (\<lambda>w. map (\<lambda>b. f (k * w + b)) [0..<k]) [0..<m]) = map f [0..<k * m]"
proof (induction m)
  case (Suc m)
  have "map f [k * m..<k * m + k] = map (\<lambda>b. f (k * m + b)) [0..<k]"
    by (rule nth_equalityI) simp_all
  with Suc show ?case using upt_add_eq_append [of 0 "k * m" k] by (simp add: mult_Suc_right add.commute [of k "k * m"])
qed simp

lemma word_index_less: "word_index entropy w < 2048"
  using bits_value_less [of "map (\<lambda>b. stream entropy (11 * w + b)) [0..<11]"] by (simp add: word_index_value)

lemma word_strings_Ret: "list_all (\<lambda>i. i < 2048) idxs \<Longrightarrow> word_strings idxs = Ret (map ((!) wordlist) idxs)"
  by (induction idxs) simp_all

section \<open>Looking words up\<close>

lemma mget_build: "mget (foldl (\<lambda>m (i, w). mput m w i) m0 ps) k = (case map_of (rev (map prod.swap ps)) k of None \<Rightarrow> mget m0 k | Some i \<Rightarrow> Some i)"
proof (induction ps arbitrary: m0)
  case (Cons p ps)
  then show ?case by (cases p) (auto split: option.splits simp: map_add_def)
qed simp

lemma swap_zip: "map prod.swap (zip xs ys) = zip ys xs"
  by (induction xs ys rule: list_induct2') simp_all

lemma mget_wordIndexMap: "mget wordIndexMap w = Some i \<longleftrightarrow> i < 2048 \<and> wordlist ! i = w"
proof -
  have d: "distinct (map fst (zip wordlist [0..<2048]))" by (simp add: distinct_wordlist)
  have "mget wordIndexMap w = map_of (rev (zip wordlist [0..<2048])) w"
    by (simp only: wordIndexMap_def mget_build swap_zip length_wordlist) (simp split: option.splits)
  also have "\<dots> = map_of (zip wordlist [0..<2048]) w"
    using d by (simp add: map_of_rev_wf)
  finally show ?thesis using d by (auto simp: map_of_eq_Some_iff set_zip)
qed

lemma word_bits_words: "list_all (\<lambda>i. i < 2048) idxs \<Longrightarrow> word_bits (map ((!) wordlist) idxs) = Ret (concat (map index_bits idxs))"
proof (induction idxs)
  case (Cons i idxs)
  then have "mget wordIndexMap (wordlist ! i) = Some i" by (simp add: mget_wordIndexMap)
  with Cons show ?case by simp
qed simp

lemma word_bits_Ret:
  "word_bits ws = Ret bits \<Longrightarrow>
     \<exists>idxs. list_all (\<lambda>i. i < 2048) idxs \<and> ws = map ((!) wordlist) idxs \<and> bits = concat (map index_bits idxs)"
proof (induction ws arbitrary: bits)
  case (Cons w ws)
  then obtain i bs where i: "mget wordIndexMap w = Some i" and bs: "word_bits ws = Ret bs" "bits = index_bits i @ bs"
    by (auto split: option.splits simp: go_bind_eq_Ret)
  then obtain idxs where "list_all (\<lambda>i. i < 2048) idxs" "ws = map ((!) wordlist) idxs" "bs = concat (map index_bits idxs)"
    using Cons.IH by blast
  with i bs(2) show ?case by (intro exI [of _ "i # idxs"]) (simp add: mget_wordIndexMap)
qed simp

section \<open>Packing bits into bytes\<close>

lemma bytes_eqI:
  assumes "length a = length b" "\<And>i. i < 8 * length a \<Longrightarrow> bit (a ! (i div 8)) (7 - i mod 8) = bit ((b :: bytes) ! (i div 8)) (7 - i mod 8)"
  shows "a = b"
proof (rule nth_equalityI [OF assms(1)])
  fix k assume k: "k < length a"
  show "a ! k = b ! k"
  proof (rule bit_word_eqI)
    fix j assume "j < LENGTH(8)"
    then have j: "j < 8" by simp
    have "(8 * k + (7 - j)) mod 8 = (7 - j) mod 8" by (rule mod_mult_self4)
    with j have "(8 * k + (7 - j)) div 8 = k" "7 - (8 * k + (7 - j)) mod 8 = j" "8 * k + (7 - j) < 8 * length a"
      using k by (simp_all only:) (simp_all add: div_add1_eq)
    then show "bit (a ! k) j = bit (b ! k) j" using assms(2) [of "8 * k + (7 - j)"] by (simp only:)
  qed
qed

lemma bit_position: "m div 8 = i div 8 \<and> 7 - m mod 8 = 7 - i mod 8 \<longleftrightarrow> m = (i :: nat)"
proof -
  have "7 - m mod 8 = 7 - i mod 8 \<longleftrightarrow> m mod 8 = i mod 8"
    using mod_less_divisor [of 8 m] mod_less_divisor [of 8 i] by arith
  then show ?thesis by (metis div_mult_mod_eq)
qed

lemma length_set_bits [simp]: "length (foldl (set_entropy_bit bits) e is) = length e"
  by (induction "is" arbitrary: e) (simp_all add: set_entropy_bit_def)

lemma set_entropy_bit_bit:
  assumes "m div 8 < length e"
  shows "bit (set_entropy_bit bits e m ! (i div 8)) (7 - i mod 8) \<longleftrightarrow> bit (e ! (i div 8)) (7 - i mod 8) \<or> m = i \<and> bits ! m"
proof -
  have "bit (push_bit (7 - m mod 8) 1 :: byte) (7 - i mod 8) \<longleftrightarrow> 7 - m mod 8 = 7 - i mod 8"
    by (auto simp: bit_exp_iff possible_bit_word)
  then show ?thesis
    using bit_position [of m i] assms by (auto simp: set_entropy_bit_def nth_list_update bit_or_iff)
qed

lemma set_bits_prefix:
  "m \<le> 8 * k \<Longrightarrow> i < 8 * k \<Longrightarrow>
     bit (foldl (set_entropy_bit bits) (replicate k 0) [0..<m] ! (i div 8)) (7 - i mod 8) \<longleftrightarrow> i < m \<and> bits ! i"
proof (induction m)
  case (Suc m)
  then have "m div 8 < k" by (simp add: less_mult_imp_div_less mult.commute)
  with Suc show ?case by (auto simp: set_entropy_bit_bit less_Suc_eq)
qed simp

lemma entropy_of_bits_bit:
  "i < 8 * k \<Longrightarrow> bit (entropy_of_bits bits (8 * k) ! (i div 8)) (7 - i mod 8) \<longleftrightarrow> bits ! i"
  by (simp add: entropy_of_bits_def set_bits_prefix)

lemma length_entropy_of_bits [simp]: "length (entropy_of_bits bits n) = n div 8"
  by (simp add: entropy_of_bits_def)

section \<open>Phrase and entropy\<close>

lemma stream_entropy: "i < 8 * length e \<Longrightarrow> stream e i = bit (e ! (i div 8)) (7 - i mod 8)"
  by (simp add: stream_def entropy_bit_def byte_bit_bit Let_def mult.commute)

lemma stream_checksum: "stream e (8 * length e + j) \<longleftrightarrow> byte_bit (sha256 e) j = 1"
  by (simp add: stream_def entropy_bit_def Let_def mult.commute)

lemma EntropyToMnemonic_Ret:
  assumes "length e = 4 * q" "4 \<le> q" "q \<le> 8"
  shows "EntropyToMnemonic e = Ret (join_space (map (\<lambda>w. wordlist ! word_index e w) [0..<3 * q]))"
proof -
  have "list_all (\<lambda>i. i < 2048) (map (word_index e) [0..<3 * q])" by (simp add: list_all_iff word_index_less)
  from word_strings_Ret [OF this] show ?thesis using assms by (simp add: EntropyToMnemonic_def comp_def)
qed

lemma MnemonicToEntropy_words:
  assumes "Fields m = map ((!) wordlist) idxs" "list_all (\<lambda>i. i < 2048) idxs" "length idxs = 3 * q" "4 \<le> q" "q \<le> 8"
  shows "MnemonicToEntropy m =
    (let bits = concat (map index_bits idxs); e = entropy_of_bits bits (8 * (4 * q))
     in if checksum_ok (sha256 e) bits (8 * (4 * q)) q then Ret e else Err ChecksumMismatch)"
  using assms by (simp add: MnemonicToEntropy_def word_bits_words Let_def)

lemma MnemonicToEntropy_RetE:
  assumes "MnemonicToEntropy m = Ret e"
  obtains q idxs where "Fields m = map ((!) wordlist) idxs" "list_all (\<lambda>i. i < 2048) idxs" "length idxs = 3 * q" "4 \<le> q" "q \<le> 8"
proof -
  from assms have n: "12 \<le> length (Fields m)" "length (Fields m) \<le> 24" "length (Fields m) mod 3 = 0"
    by (auto simp: MnemonicToEntropy_def Let_def split: if_splits)
  with assms obtain bits where "word_bits (Fields m) = Ret bits"
    by (auto simp: MnemonicToEntropy_def Let_def go_bind_eq_Ret)
  then obtain idxs where idxs: "list_all (\<lambda>i. i < 2048) idxs" "Fields m = map ((!) wordlist) idxs"
    using word_bits_Ret by blast
  from n(3) obtain q where q: "length (Fields m) = 3 * q" by auto
  show thesis
    using that [of idxs q] idxs n q by simp
qed

lemma checksum_ok_stream:
  assumes "length e = 4 * q"
  shows "checksum_ok (sha256 e) bits (8 * (4 * q)) q \<longleftrightarrow> (\<forall>i < q. stream e (8 * (4 * q) + i) = bits ! (8 * (4 * q) + i))"
proof -
  have "((if b then 1 else 0) = byte_bit (sha256 e) i) = ((byte_bit (sha256 e) i = 1) = b)" for b i
    by (auto simp: byte_bit_bit)
  then show ?thesis using stream_checksum [of e] assms by (auto simp: checksum_ok_def list_all_iff)
qed

lemma mnemonic_inverse:
  assumes "length e = 4 * q" "4 \<le> q" "q \<le> 8" "Fields m = map (\<lambda>w. wordlist ! word_index e w) [0..<3 * q]"
  shows "MnemonicToEntropy m = Ret e"
proof -
  let ?idxs = "map (word_index e) [0..<3 * q]"
  have "index_bits (word_index e w) = map (\<lambda>b. stream e (11 * w + b)) [0..<11]" for w
    by (simp only: word_index_value) (rule index_bits_bits_value, simp)
  then have bits: "concat (map index_bits ?idxs) = map (stream e) [0..<11 * (3 * q)]"
    using concat_blocks [of "stream e" 11 "3 * q"] by (simp add: comp_def)
  have e: "entropy_of_bits (map (stream e) [0..<11 * (3 * q)]) (8 * (4 * q)) = e"
    using assms(1) entropy_of_bits_bit [where k = "4 * q"] stream_entropy [of _ e] by (intro bytes_eqI) simp_all
  have f: "Fields m = map ((!) wordlist) ?idxs" using assms(4) by (simp add: comp_def)
  have i: "list_all (\<lambda>i. i < 2048) ?idxs" by (simp add: list_all_iff word_index_less)
  have l: "length ?idxs = 3 * q" by simp
  have ok: "checksum_ok (sha256 e) (map (stream e) [0..<11 * (3 * q)]) (8 * (4 * q)) q"
    unfolding checksum_ok_stream [OF assms(1)] by simp
  show ?thesis unfolding MnemonicToEntropy_words [OF f i l assms(2,3)] Let_def bits e by (simp only: ok if_True)
qed

lemma nth_concat_blocks:
  "\<forall>x \<in> set xs. length (f x) = k \<Longrightarrow> w < length xs \<Longrightarrow> b < k \<Longrightarrow> concat (map f xs) ! (k * w + b) = f (xs ! w) ! b"
proof (induction xs arbitrary: w)
  case (Cons x xs)
  then show ?case by (cases w) (auto simp: nth_append)
qed simp

lemma entropy_inverse:
  assumes "MnemonicToEntropy m = Ret e"
  shows "EntropyToMnemonic e = Ret (join_space (Fields m))"
proof -
  from assms obtain q idxs where f: "Fields m = map ((!) wordlist) idxs" and i: "list_all (\<lambda>i. i < 2048) idxs"
    and q: "length idxs = 3 * q" "4 \<le> q" "q \<le> 8" by (rule MnemonicToEntropy_RetE)
  define bits where "bits = concat (map index_bits idxs)"
  from assms have e: "e = entropy_of_bits bits (8 * (4 * q))" and ok: "checksum_ok (sha256 e) bits (8 * (4 * q)) q"
    unfolding MnemonicToEntropy_words [OF f i q] by (simp_all add: bits_def Let_def split: if_splits)
  have len: "length e = 4 * q" by (simp add: e)
  have "stream e k = bits ! k" if k: "k < 33 * q" for k
  proof (cases "k < 8 * (4 * q)")
    case True
    then show ?thesis using stream_entropy [of k e] len entropy_of_bits_bit [of k "4 * q" bits] e by simp
  next
    case False
    then show ?thesis using ok k unfolding checksum_ok_stream [OF len] by (auto dest: spec [of _ "k - 8 * (4 * q)"])
  qed
  then have "map (\<lambda>b. stream e (11 * w + b)) [0..<11] = index_bits (idxs ! w)" if "w < 3 * q" for w
    using that q nth_concat_blocks [of idxs index_bits 11 w] by (intro nth_equalityI) (simp_all add: bits_def)
  then have "word_index e w = idxs ! w" if "w < 3 * q" for w
    using that i q by (simp add: word_index_value bits_value_index_bits list_all_length)
  then have "map (\<lambda>w. wordlist ! word_index e w) [0..<3 * q] = Fields m"
    using f q by (intro nth_equalityI) simp_all
  then show ?thesis using EntropyToMnemonic_Ret [OF len q(2,3)] by simp
qed

lemma fields_plain:
  "CHR '' '' \<notin> set cur \<Longrightarrow> w \<in> set (fields_from cur s) \<Longrightarrow> w \<noteq> [] \<and> CHR '' '' \<notin> set w"
proof (induction cur s rule: fields_from.induct)
  case (1 cur s)
  show ?case
  proof (cases s)
    case Nil
    then show ?thesis using "1.prems" by (auto simp: fields_from_Nil flush_def split: if_splits)
  next
    case (Cons c r)
    then have step: "fields_from cur s =
        (if space_len s = 0 then fields_from (cur @ [c]) r else flush cur @ fields_from [] (drop (space_len s) s))"
      using fields_from.simps [of cur s] by (simp only: list.case)
    show ?thesis
    proof (cases "space_len s = 0")
      case True
      then have "c \<noteq> CHR '' ''" using Cons by (auto simp: space_len_def)
      then show ?thesis using "1.IH"(1) [OF Cons True] "1.prems" step True by simp
    next
      case False
      then have "w \<in> set (flush cur) \<or> w \<in> set (fields_from [] (drop (space_len s) s))" using "1.prems" step by simp
      then show ?thesis using "1.IH"(2) [OF Cons False] "1.prems"(1) by (auto simp: flush_def split: if_splits)
    qed
  qed
qed

lemma join_inject:
  assumes "\<forall>w \<in> set ws. w \<noteq> [] \<and> CHR '' '' \<notin> set w" "\<forall>w \<in> set vs. w \<noteq> [] \<and> CHR '' '' \<notin> set w" "join_space ws = join_space vs"
  shows "ws = vs"
  using assms
proof (induction ws arbitrary: vs rule: join_space.induct)
  case 1
  then show ?case by (cases vs rule: join_space.cases) auto
next
  case (2 w)
  then show ?case by (cases vs rule: join_space.cases) auto
next
  case (3 w v ws)
  show ?case
  proof (cases vs rule: join_space.cases)
    case (3 w' v' vs')
    with "3.prems" have "w @ CHR '' '' # join_space (v # ws) = w' @ CHR '' '' # join_space (v' # vs')"
      "CHR '' '' \<notin> set w" "CHR '' '' \<notin> set w'" by simp_all
    then have "w = w'" "join_space (v # ws) = join_space (v' # vs')" using append_sep_inject by metis+
    with "3.IH" [of "v' # vs'"] "3.prems" 3 show ?thesis by simp
  qed (use "3.prems" in auto)
qed

lemma EntropyToMnemonic_RetE:
  assumes "EntropyToMnemonic e = Ret m"
  obtains q where "length e = 4 * q" "4 \<le> q" "q \<le> 8"
proof -
  from assms have "16 \<le> length e" "length e \<le> 32" "length e mod 4 = 0"
    by (auto simp: EntropyToMnemonic_def Let_def split: if_splits)
  then show thesis using that [of "length e div 4"] by auto
qed

lemma phrase_words: "list_all is_word (map (\<lambda>w. wordlist ! word_index e w) ws)"
  by (auto simp: list_all_iff word_index_less intro!: wordlist_is_word nth_mem)

lemma mnemonic_canonical:
  assumes "EntropyToMnemonic e = Ret (join_space (Fields m))"
  shows "MnemonicToEntropy m = Ret e"
proof -
  from assms obtain q where q: "length e = 4 * q" "4 \<le> q" "q \<le> 8" by (rule EntropyToMnemonic_RetE)
  let ?ws = "map (\<lambda>w. wordlist ! word_index e w) [0..<3 * q]"
  have ws: "Fields (join_space ?ws) = ?ws" by (rule Fields_join) (rule phrase_words)
  have "Fields m = ?ws"
  proof (rule join_inject)
    show "\<forall>w \<in> set (Fields m). w \<noteq> [] \<and> CHR '' '' \<notin> set w" using fields_plain [of "[]" _ m] by (simp add: Fields_def)
    show "\<forall>w \<in> set ?ws. w \<noteq> [] \<and> CHR '' '' \<notin> set w"
      using fields_plain [of "[]" _ "join_space ?ws"] ws by (simp add: Fields_def del: set_map)
    show "join_space (Fields m) = join_space ?ws" using assms EntropyToMnemonic_Ret [OF q] by simp
  qed
  then show ?thesis using mnemonic_inverse [OF q] by blast
qed

lemma wordIndexMap_None: "mget wordIndexMap w = None \<longleftrightarrow> w \<notin> set wordlist"
proof -
  have "mget wordIndexMap w \<noteq> None \<longleftrightarrow> (\<exists>i. i < 2048 \<and> wordlist ! i = w)" by (auto simp: mget_wordIndexMap)
  then show ?thesis by (auto simp: in_set_conv_nth)
qed

lemma word_bits_find:
  "case find (\<lambda>v. v \<notin> set wordlist) ws of Some w \<Rightarrow> word_bits ws = Err (UnknownWord w) | None \<Rightarrow> (\<exists>bs. word_bits ws = Ret bs)"
proof (induction ws)
  case (Cons w ws)
  show ?case
  proof (cases "mget wordIndexMap w")
    case None
    then show ?thesis using wordIndexMap_None [of w] by simp
  next
    case (Some i)
    then have "w \<in> set wordlist" using wordIndexMap_None [of w] by auto
    with Cons Some show ?thesis by (auto split: option.splits)
  qed
qed simp

section \<open>Properties\<close>

text \<open>
  Every entropy of 16, 20, 24, 28 or 32 bytes has a phrase of three words per four bytes, and the phrase gives the entropy
  back; every other length is rejected and no input makes the rendering index the word list out of range.
\<close>

theorem mnemonic_roundtrip:
  "if length e \<in> {16, 20, 24, 28, 32}
   then (\<exists>m. EntropyToMnemonic e = Ret m \<and> length (Fields m) = 3 * length e div 4 \<and> MnemonicToEntropy m = Ret e)
   else EntropyToMnemonic e = Err (BadEntropyLength (length e))"
proof (cases "length e \<in> {16, 20, 24, 28, 32}")
  case True
  then obtain q where q: "length e = 4 * q" "4 \<le> q" "q \<le> 8" by fastforce
  let ?ws = "map (\<lambda>w. wordlist ! word_index e w) [0..<3 * q]"
  have "Fields (join_space ?ws) = ?ws" by (rule Fields_join) (rule phrase_words)
  with q EntropyToMnemonic_Ret [OF q] mnemonic_inverse [OF q] True show ?thesis by auto
next
  case False
  then have "length e < 16 \<or> length e > 32 \<or> length e mod 4 \<noteq> 0" by simp presburger
  with False show ?thesis by (simp add: EntropyToMnemonic_def)
qed

text \<open>
  C28. \<open>MnemonicToEntropy\<close> accepts a phrase exactly when, up to white space, it is the phrase \<open>EntropyToMnemonic\<close> renders for the
  entropy it returns: there is one list of words per entropy, and no other word list with a matching checksum.
\<close>

theorem phrase_exact: "MnemonicToEntropy m = Ret e \<longleftrightarrow> EntropyToMnemonic e = Ret (join_space (Fields m))"
  using entropy_inverse mnemonic_canonical by blast

text \<open>
  Decoding a phrase never panics: it returns the entropy or an error, which is the word count when that is not
  12, 15, 18, 21 or 24, otherwise the first word that is not in the list, otherwise the checksum.
\<close>

theorem phrase_errors:
  "MnemonicToEntropy m \<noteq> Panic \<and>
   (MnemonicToEntropy m = Err (BadWordCount (length (Fields m))) \<longleftrightarrow> length (Fields m) \<notin> {12, 15, 18, 21, 24}) \<and>
   (MnemonicToEntropy m = Err (UnknownWord w) \<longleftrightarrow>
      length (Fields m) \<in> {12, 15, 18, 21, 24} \<and> find (\<lambda>v. v \<notin> set wordlist) (Fields m) = Some w)"
proof (cases "length (Fields m) \<in> {12, 15, 18, 21, 24}")
  case True
  then have "\<not> length (Fields m) < 12" "\<not> length (Fields m) > 24" "length (Fields m) mod 3 = 0" by auto
  then have m: "MnemonicToEntropy m = go_bind (word_bits (Fields m)) (\<lambda>bits.
      let entBits = length (Fields m) * 11 - length (Fields m) * 11 div 33; entropy = entropy_of_bits bits entBits
      in if checksum_ok (sha256 entropy) bits entBits (length (Fields m) * 11 div 33) then Ret entropy else Err ChecksumMismatch)"
    by (simp only: MnemonicToEntropy_def Let_def simp_thms if_False not_True_eq_False)
  show ?thesis
  proof (cases "find (\<lambda>v. v \<notin> set wordlist) (Fields m)")
    case None
    then obtain bs where "word_bits (Fields m) = Ret bs" using word_bits_find [of "Fields m"] by auto
    with None True show ?thesis unfolding m Let_def by (simp only: go_bind.simps split: if_split) simp
  next
    case (Some v)
    then have "word_bits (Fields m) = Err (UnknownWord v)" using word_bits_find [of "Fields m"] by simp
    with Some True show ?thesis unfolding m by (auto simp only: go_bind.simps) 
  qed
next
  case False
  then have "length (Fields m) < 12 \<or> length (Fields m) > 24 \<or> length (Fields m) mod 3 \<noteq> 0" by simp presburger
  with False show ?thesis by (simp add: MnemonicToEntropy_def Let_def)
qed

end
