(* ===== verification/Signer_Derive.thy ===== *)
theory Signer_Derive
  imports Identity Bip39
begin

text \<open>
  Deriving the owner identity from a passkey output or its recovery phrase: \<^verbatim>\<open>go/internal/identity/signer.go\<close>. HKDF and
  the Ed25519 key derivation are third-party code and parameters: \<open>hkdf root salt info\<close> gives the 32-byte seed or an error,
  \<open>newKey seed\<close> the private and the public key.
\<close>

definition signerSalt :: bytes where "signerSalt = bytes_of ''miranda/identity/signer/v1''"

definition signerInfo :: bytes where "signerInfo = bytes_of ''ed25519''"

datatype signer_error = PhraseError bip39_error | KDFError

fun lift_phrase :: "(bip39_error, 'a) go_result \<Rightarrow> (signer_error, 'a) go_result" where
  "lift_phrase (Ret x) = Ret x"
| "lift_phrase (Err e) = Err (PhraseError e)"
| "lift_phrase Panic = Panic"

definition DeriveSigner ::
  "(bytes \<Rightarrow> bytes \<Rightarrow> bytes \<Rightarrow> bytes option) \<Rightarrow> (bytes \<Rightarrow> bytes \<times> bytes) \<Rightarrow> bytes \<Rightarrow> (signer_error, Signer) go_result" where
  "DeriveSigner hkdf newKey root =
     go_bind (lift_phrase (EntropyToMnemonic root))
       (\<lambda>mnemonic. case hkdf root signerSalt signerInfo of
                      None \<Rightarrow> Err KDFError
                    | Some seed \<Rightarrow>
                        let (priv, pub) = newKey seed
                        in Ret \<lparr>Mnemonic = mnemonic, Priv = priv, Pub = pub, Address = encode58 pub\<rparr>)"

definition SignerFromMnemonic ::
  "(bytes \<Rightarrow> bytes \<Rightarrow> bytes \<Rightarrow> bytes option) \<Rightarrow> (bytes \<Rightarrow> bytes \<times> bytes) \<Rightarrow> string \<Rightarrow> (signer_error, Signer) go_result" where
  "SignerFromMnemonic hkdf newKey mnemonic =
     go_bind (lift_phrase (MnemonicToEntropy mnemonic)) (DeriveSigner hkdf newKey)"

lemma lift_phrase_Ret [simp]: "lift_phrase r = Ret x \<longleftrightarrow> r = Ret x"
  by (cases r) auto

lemma DeriveSigner_Mnemonic: "DeriveSigner hkdf newKey root = Ret s \<Longrightarrow> EntropyToMnemonic root = Ret (Mnemonic s)"
  by (auto simp: DeriveSigner_def go_bind_eq_Ret case_prod_beta split: option.splits)

text \<open>
  The recovery phrase shown with a derived identity restores exactly that identity, with the same keys and owner
  id; and a phrase that restores an identity is, up to white space, the one shown with it.
\<close>

theorem recovery_phrase_restores:
  "(DeriveSigner hkdf newKey root = Ret s \<longrightarrow> SignerFromMnemonic hkdf newKey (Mnemonic s) = Ret s) \<and>
   (SignerFromMnemonic hkdf newKey m = Ret s \<longrightarrow> Mnemonic s = join_space (Fields m))"
proof (intro conjI impI)
  assume d: "DeriveSigner hkdf newKey root = Ret s"
  then obtain q where q: "length root = 4 * q" "4 \<le> q" "q \<le> 8"
    using DeriveSigner_Mnemonic EntropyToMnemonic_RetE by blast
  let ?ws = "map (\<lambda>w. wordlist ! word_index root w) [0..<3 * q]"
  have "Mnemonic s = join_space ?ws" using DeriveSigner_Mnemonic [OF d] EntropyToMnemonic_Ret [OF q] by simp
  then have "Fields (Mnemonic s) = ?ws" using Fields_join [OF phrase_words] by simp
  then have "MnemonicToEntropy (Mnemonic s) = Ret root" by (rule mnemonic_inverse [OF q])
  with d show "SignerFromMnemonic hkdf newKey (Mnemonic s) = Ret s" by (simp add: SignerFromMnemonic_def)
next
  assume "SignerFromMnemonic hkdf newKey m = Ret s"
  then obtain root where "MnemonicToEntropy m = Ret root" "DeriveSigner hkdf newKey root = Ret s"
    by (auto simp: SignerFromMnemonic_def go_bind_eq_Ret)
  then show "Mnemonic s = join_space (Fields m)"
    using DeriveSigner_Mnemonic entropy_inverse by fastforce
qed

text \<open>A stand-in derivation for the witness: the seed is the root, the private key the seed, the public key the seed.\<close>

theorem recovery_phrase_restores_witness:
  "\<exists>s. DeriveSigner (\<lambda>root salt info. Some root) (\<lambda>seed. (seed, seed)) (replicate 32 7) = Ret s \<and>
       SignerFromMnemonic (\<lambda>root salt info. Some root) (\<lambda>seed. (seed, seed)) (Mnemonic s) = Ret s"
proof -
  have "EntropyToMnemonic (replicate 32 7) = Ret (join_space (map (\<lambda>w. wordlist ! word_index (replicate 32 7) w) [0..<3 * 8]))"
    by (rule EntropyToMnemonic_Ret) simp_all
  then obtain s where "DeriveSigner (\<lambda>root salt info. Some root) (\<lambda>seed. (seed, seed)) (replicate 32 7) = Ret s"
    by (auto simp: DeriveSigner_def)
  then show ?thesis using recovery_phrase_restores by blast
qed

end
