(* ===== verification/Grant_Json.thy ===== *)
theory Grant_Json
  imports Identity
begin

text \<open>
  Reading a grant record back. \<open>encoding/json\<close> is a parameter of the parsers; the stores and handlers rely on one fact
  of it, that it reads back what \<open>SignedGrant.JSON\<close> renders (\<open>reads_back\<close>). \<open>scan_grant\<close> is a reader of that one
  layout: it fulfils the fact, so the hypothesis can hold, and shows that the wire format is unambiguous.
\<close>

definition wire_grant :: "SignedGrant \<Rightarrow> wireGrant" where
  "wire_grant sg =
     (let g = sgGrant sg
      in \<lparr>wgV = gV g, wgOwner = gOwner g, wgMachine = gMachine g, wgGuest = gGuest g, wgScope = gScope g, wgMode = gMode g,
          wgNB = gNB g, wgNA = gNA g, wgGID = gGID g, wgSig = sgSig sg\<rparr>)"

definition reads_back :: "(string \<Rightarrow> wireGrant option) \<Rightarrow> bool" where
  "reads_back unmarshal \<longleftrightarrow>
     (\<forall>sg data. JSON_grant sg = Inr data \<and> set (sgSig sg) \<subseteq> set alphabet \<longrightarrow> unmarshal data = Some (wire_grant sg))"

lemma ParseSignedGrant_wire: "unmarshal data = Some (wire_grant sg) \<Longrightarrow> ParseSignedGrant unmarshal data = Inr sg"
  by (simp add: ParseSignedGrant_def wire_grant_def Let_def)

lemma reads_back_parse:
  "reads_back unmarshal \<Longrightarrow> JSON_grant sg = Inr data \<Longrightarrow> set (sgSig sg) \<subseteq> set alphabet \<Longrightarrow> ParseSignedGrant unmarshal data = Inr sg"
  by (rule ParseSignedGrant_wire) (simp add: reads_back_def)

lemma verified_sig_alphabet: "VerifyGrant verify sg = None \<Longrightarrow> set (sgSig sg) \<subseteq> set alphabet"
  using Decode_Ret by (auto simp: VerifyGrant_None sig_of_def split: go_result.splits if_splits)

section \<open>A reader of the layout\<close>

text \<open>Skip a literal; take a field up to a separator.\<close>

definition skip :: "string \<Rightarrow> string \<Rightarrow> string option" where
  "skip p s = (if HasPrefix s p then Some (drop (length p) s) else None)"

definition field :: "char \<Rightarrow> string \<Rightarrow> string \<times> string" where
  "field c s = (takeWhile (\<lambda>x. x \<noteq> c) s, tl (dropWhile (\<lambda>x. x \<noteq> c) s))"

text \<open>A literal followed by a field.\<close>

definition labelled :: "string \<Rightarrow> char \<Rightarrow> string \<Rightarrow> (string \<times> string) option" where
  "labelled p c s = map_option (field c) (skip p s)"

lemma field_append: "c \<notin> set v \<Longrightarrow> field c (v @ c # r) = (v, r)"
  by (induction v) (auto simp: field_def)

lemma labelled_append: "c \<notin> set v \<Longrightarrow> labelled p c (p @ v @ c # r) = Some (v, r)"
  by (simp add: labelled_def skip_def field_append)

fun fields :: "(string \<times> char) list \<Rightarrow> string \<Rightarrow> (string list \<times> string) option" where
  "fields [] s = Some ([], s)"
| "fields ((p, c) # ps) s =
     (case labelled p c s of
        None \<Rightarrow> None
      | Some (v, r) \<Rightarrow> map_option (\<lambda>(vs, t). (v # vs, t)) (fields ps r))"

fun render :: "(string \<times> char) list \<Rightarrow> string list \<Rightarrow> string \<Rightarrow> string" where
  "render [] vs t = t"
| "render ((p, c) # ps) (v # vs) t = p @ v @ c # render ps vs t"
| "render ((p, c) # ps) [] t = t"

lemma fields_render:
  "list_all2 (\<lambda>pc v. snd pc \<notin> set v) ps vs \<Longrightarrow> fields ps (render ps vs t) = Some (vs, t)"
  by (induction ps vs t rule: render.induct) (auto simp: labelled_append)

definition grant_layout :: "(string \<times> char) list" where
  "grant_layout =
     [(''{\"v\":'', CHR '',''), (''\"owner\":\"'', qt), ('',\"machine\":\"'', qt), ('',\"guest\":\"'', qt),
      ('',\"scope\":\"'', qt), ('',\"mode\":\"'', qt), ('',\"nb\":'', CHR '',''), (''\"na\":'', CHR '',''),
      (''\"gid\":\"'', qt), ('',\"sig\":\"'', qt)]"

definition scan_grant :: "string \<Rightarrow> wireGrant option" where
  "scan_grant data =
     (case fields grant_layout data of
        Some ([v, owner, machine, guest, scope, mode, nb, na, gid, sig], t) \<Rightarrow>
          if t = ''}''
          then Some \<lparr>wgV = atoi v, wgOwner = owner, wgMachine = machine, wgGuest = guest, wgScope = scope, wgMode = mode,
                      wgNB = atoi nb, wgNA = atoi na, wgGID = gid, wgSig = sig\<rparr>
          else None
      | _ \<Rightarrow> None)"

definition grant_values :: "SignedGrant \<Rightarrow> string list" where
  "grant_values sg =
     (let g = sgGrant sg
      in [itoa (gV g), gOwner g, gMachine g, gGuest g, gScope g, gMode g, itoa (gNB g), itoa (gNA g), gGID g, sgSig sg])"

lemma JSON_grant_render:
  "JSON_grant sg = Inr data \<Longrightarrow> validate_grant (sgGrant sg) = None \<and> data = render grant_layout (grant_values sg) ''}''"
  by (auto simp: JSON_grant_def CanonicalGrant_def canonical_grant_text_def grant_layout_def grant_values_def Let_def butlast_append
      split: option.splits sum.splits)

lemma comma_itoa: "CHR '','' \<notin> set (itoa i)"
  using set_itoa [of i] by (auto simp: digit_chars_def)

lemma qt_alphabet: "qt \<notin> set alphabet"
  by (simp add: alphabet_def)

lemma scan_grant_reads_back: "reads_back scan_grant"
  unfolding reads_back_def
proof (intro allI impI; elim conjE)
  fix sg data assume j: "JSON_grant sg = Inr data" and sig: "set (sgSig sg) \<subseteq> set alphabet"
  from j have v: "validate_grant (sgGrant sg) = None" using JSON_grant_render by blast
  then have pos: "0 \<le> gV (sgGrant sg)" "0 \<le> gNB (sgGrant sg)" "0 \<le> gNA (sgGrant sg)"
    by (auto simp: validate_grant_def split: if_splits)
  have "qt \<notin> set (sgSig sg)" using sig qt_alphabet by blast
  then have "list_all2 (\<lambda>pc v. snd pc \<notin> set v) grant_layout (grant_values sg)"
    using validate_grant_None [OF v] by (simp add: grant_layout_def grant_values_def comma_itoa Let_def)
  then have "fields grant_layout data = Some (grant_values sg, ''}'')"
    using fields_render JSON_grant_render [OF j] by simp
  then show "scan_grant data = Some (wire_grant sg)"
    using pos by (simp add: scan_grant_def wire_grant_def grant_values_def atoi_itoa Let_def)
qed

text \<open>
  The wire record of a grant is unambiguous: a strict reader recovers from \<open>SignedGrant.JSON\<close> every field of the
  grant and its signature, so two grants with base58 signatures render to the same record only when they
  are equal.
\<close>

theorem grant_record_roundtrip:
  assumes "JSON_grant sg = Inr data" "set (sgSig sg) \<subseteq> set alphabet"
  shows "ParseSignedGrant scan_grant data = Inr sg"
  using reads_back_parse [OF scan_grant_reads_back assms] .

theorem grant_record_roundtrip_witness:
  "\<exists>data. JSON_grant demo_signed_grant = Inr data \<and> ParseSignedGrant scan_grant data = Inr demo_signed_grant"
proof -
  obtain data where "JSON_grant demo_signed_grant = Inr data"
    by (simp add: JSON_grant_def CanonicalGrant_def demo_signed_grant_def validate_demo)
  moreover have "set (sgSig demo_signed_grant) \<subseteq> set alphabet"
    by (simp add: demo_signed_grant_def alphabet_def)
  ultimately show ?thesis using grant_record_roundtrip by blast
qed

end
