(* ===== verification/Runs.thy ===== *)
theory Runs
  imports Go_Prelude
begin

text \<open>
  Runs of a step relation: the contract of an invariant and of a growing set of dead keys (tombstones, denials), with what follows for whole runs. Each component
  with a step relation interprets one of them on it.
\<close>

locale step_invariant =
  fixes step :: "'s \<Rightarrow> 's \<Rightarrow> bool"
    and inv :: "'s \<Rightarrow> bool"
  assumes step_keeps: "step x y \<Longrightarrow> inv x \<Longrightarrow> inv y"
begin

lemma run_keeps: "step\<^sup>*\<^sup>* x y \<Longrightarrow> inv x \<Longrightarrow> inv y"
  by (induction rule: rtranclp_induct) (use step_keeps in blast)+

end

text \<open>Keys that a step never takes back.\<close>

locale tombstones =
  fixes step :: "'s \<Rightarrow> 's \<Rightarrow> bool"
    and dead :: "'s \<Rightarrow> 'k set"
  assumes step_grows: "step x y \<Longrightarrow> dead x \<subseteq> dead y"

sublocale tombstones \<subseteq> dead_key: step_invariant step "\<lambda>x. k \<in> dead x" for k
  by unfold_locales (use step_grows in blast)

context tombstones
begin

lemma run_grows: "step\<^sup>*\<^sup>* x y \<Longrightarrow> dead x \<subseteq> dead y"
  using dead_key.run_keeps by blast

end

end
