(* ===== verification/Grant_Store.thy ===== *)
theory Grant_Store
  imports Grant_Json Runs
begin

text \<open>
  The agent's store of guest grants: \<^verbatim>\<open>go/internal/agent/grants.go\<close>, \<^verbatim>\<open>grantstore.go\<close> and the registry of
  live guests and the revocation handler of \<^verbatim>\<open>guest.go\<close>.

  The directory \<^verbatim>\<open>grants\<close> maps file names to contents; the tombstone file \<^verbatim>\<open>revoked.json\<close> is kept apart, as the
  gids it decodes to (none when it is missing, unreadable or not decodable); a grant file that cannot be read is as if absent. \<open>os.WriteFile\<close> truncates before it writes, so a
  write succeeds, fails before touching the file, or leaves some other content behind; removing a file may fail silently.
  \<open>json.Unmarshal\<close> of a grant record is the parameter \<open>unmarshal\<close>; what the store relies on is that it reads back
  what \<open>JSON\<close> renders (\<open>reads_back\<close>). The control messages are given after decoding.
\<close>

section \<open>Files\<close>

datatype 'a write_outcome = Written | NotWritten | Torn 'a

record grant_dir =
  gd_files :: "(string, string) gomap"
  gd_revoked :: "string list option"

definition empty_dir :: grant_dir where
  "empty_dir = \<lparr>gd_files = [], gd_revoked = None\<rparr>"

text \<open>\<open>grantPath\<close>, relative to the directory.\<close>

definition grantPath :: "string \<Rightarrow> string" where
  "grantPath gid = gid @ ''.json''"

definition revoked_json :: string where "revoked_json = ''revoked.json''"

definition AddGrant :: "bool \<Rightarrow> string write_outcome \<Rightarrow> SignedGrant \<Rightarrow> grant_dir \<Rightarrow> bool \<times> grant_dir" where
  "AddGrant mkdir out sg d =
     (case JSON_grant sg of
        Inl e \<Rightarrow> (False, d)
      | Inr data \<Rightarrow>
          if \<not> mkdir then (False, d)
          else case out of
                 Written \<Rightarrow> (True, d\<lparr>gd_files := mput (gd_files d) (grantPath (gGID (sgGrant sg))) data\<rparr>)
               | NotWritten \<Rightarrow> (False, d)
               | Torn junk \<Rightarrow> (False, d\<lparr>gd_files := mput (gd_files d) (grantPath (gGID (sgGrant sg))) junk\<rparr>))"

definition loadTombstones :: "grant_dir \<Rightarrow> string list" where
  "loadTombstones d = (case gd_revoked d of None \<Rightarrow> [] | Some gids \<Rightarrow> gids)"

text \<open>The set is marshalled in some order; \<open>remove\<close> says whether the grant file could be removed.\<close>

definition TombstoneGrant :: "bool \<Rightarrow> string list option write_outcome \<Rightarrow> bool \<Rightarrow> string \<Rightarrow> grant_dir \<Rightarrow> bool \<times> grant_dir" where
  "TombstoneGrant mkdir out remove gid d =
     (let gids = List.insert gid (remdups (loadTombstones d))
      in if \<not> mkdir then (False, d)
         else case out of
                NotWritten \<Rightarrow> (False, d)
              | Torn junk \<Rightarrow> (False, d\<lparr>gd_revoked := junk\<rparr>)
              | Written \<Rightarrow>
                  (True, d\<lparr>gd_revoked := Some gids,
                           gd_files := (if remove then mdel (gd_files d) (grantPath gid) else gd_files d)\<rparr>))"

text \<open>\<open>filepath.Ext(name) == ".json"\<close>.\<close>

definition json_ext :: "string \<Rightarrow> bool" where
  "json_ext name \<longleftrightarrow> drop (length name - 5) name = ''.json''"

definition grant_file :: "string \<Rightarrow> bool" where
  "grant_file name \<longleftrightarrow> json_ext name \<and> name \<noteq> revoked_json"

text \<open>The tests of one directory entry, and the loop that returns the first entry that passes them.\<close>

definition qualifies ::
  "(bytes \<Rightarrow> bytes \<Rightarrow> bytes \<Rightarrow> bool) \<Rightarrow> (string \<Rightarrow> wireGrant option) \<Rightarrow> grant_dir \<Rightarrow> string \<Rightarrow> string \<Rightarrow> string \<Rightarrow> time \<Rightarrow>
   string \<times> string \<Rightarrow> SignedGrant option" where
  "qualifies verify unmarshal d owner machine guest now e =
     (if \<not> grant_file (fst e) then None
      else case ParseSignedGrant unmarshal (snd e) of
             Inl err \<Rightarrow> None
           | Inr sg \<Rightarrow>
               if gGuest (sgGrant sg) \<noteq> guest \<or> gOwner (sgGrant sg) \<noteq> owner \<or> gMachine (sgGrant sg) \<noteq> machine then None
               else if gGID (sgGrant sg) \<in> set (loadTombstones d) then None
               else if VerifyGrant verify sg \<noteq> None \<or> ValidAt (sgGrant sg) now \<noteq> None then None
               else Some sg)"

fun first_some :: "('a \<Rightarrow> 'b option) \<Rightarrow> 'a list \<Rightarrow> 'b option" where
  "first_some f [] = None"
| "first_some f (x # xs) = (case f x of Some y \<Rightarrow> Some y | None \<Rightarrow> first_some f xs)"

definition findValidGuestGrant ::
  "(bytes \<Rightarrow> bytes \<Rightarrow> bytes \<Rightarrow> bool) \<Rightarrow> (string \<Rightarrow> wireGrant option) \<Rightarrow> grant_dir \<Rightarrow> string \<Rightarrow> string \<Rightarrow> string \<Rightarrow> time \<Rightarrow>
   SignedGrant option" where
  "findValidGuestGrant verify unmarshal d owner machine guest now =
     first_some (qualifies verify unmarshal d owner machine guest now) (gd_files d)"

text \<open>\<open>sweepExpiredGrants\<close>; \<open>remove\<close> says of which files the removal succeeds.\<close>

definition swept :: "(string \<Rightarrow> wireGrant option) \<Rightarrow> time \<Rightarrow> string \<times> string \<Rightarrow> bool" where
  "swept unmarshal now e \<longleftrightarrow> grant_file (fst e) \<and>
     (case ParseSignedGrant unmarshal (snd e) of
        Inl err \<Rightarrow> True
      | Inr sg \<Rightarrow> gNA (sgGrant sg) < unix (now - GrantSkew))"

definition sweepExpiredGrants :: "(string \<Rightarrow> wireGrant option) \<Rightarrow> (string \<Rightarrow> bool) \<Rightarrow> time \<Rightarrow> grant_dir \<Rightarrow> grant_dir" where
  "sweepExpiredGrants unmarshal remove now d =
     d\<lparr>gd_files := filter (\<lambda>e. \<not> (swept unmarshal now e \<and> remove (fst e))) (gd_files d)\<rparr>"

definition guestGIDShape :: "string \<Rightarrow> bool" where
  "guestGIDShape gid \<longleftrightarrow> gidRe gid"

definition grantByID :: "(string \<Rightarrow> wireGrant option) \<Rightarrow> string \<Rightarrow> grant_dir \<Rightarrow> SignedGrant option" where
  "grantByID unmarshal gid d =
     (if \<not> guestGIDShape gid then None
      else case mget (gd_files d) (grantPath gid) of
             None \<Rightarrow> None
           | Some data \<Rightarrow> (case ParseSignedGrant unmarshal data of Inl e \<Rightarrow> None | Inr sg \<Rightarrow> Some sg))"

section \<open>Live guests\<close>

text \<open>A cancel function is the number of the session it cancels.\<close>

record guestRegistry =
  gr_next :: "64 word"
  gr_byID :: "(string, (64 word, nat) gomap) gomap"

definition gr_sessions :: "guestRegistry \<Rightarrow> string \<Rightarrow> (64 word, nat) gomap" where
  "gr_sessions g gid = (case mget (gr_byID g) gid of None \<Rightarrow> [] | Some m \<Rightarrow> m)"

definition guest_add :: "string \<Rightarrow> nat \<Rightarrow> guestRegistry \<Rightarrow> 64 word \<times> guestRegistry" where
  "guest_add gid cancel g =
     (gr_next g, g\<lparr>gr_next := gr_next g + 1,
                  gr_byID := mput (gr_byID g) gid (mput (gr_sessions g gid) (gr_next g) cancel)\<rparr>)"

text \<open>The function \<open>add\<close> returns.\<close>

definition guest_unregister :: "string \<Rightarrow> 64 word \<Rightarrow> guestRegistry \<Rightarrow> guestRegistry" where
  "guest_unregister gid sid g =
     (case mget (gr_byID g) gid of
        None \<Rightarrow> g
      | Some m \<Rightarrow>
          let m' = mdel m sid
          in if m' = [] then g\<lparr>gr_byID := mdel (gr_byID g) gid\<rparr> else g\<lparr>gr_byID := mput (gr_byID g) gid m'\<rparr>)"

text \<open>\<open>drop\<close>: the sessions it cancels.\<close>

definition guest_drop :: "string \<Rightarrow> guestRegistry \<Rightarrow> nat list" where
  "guest_drop gid g = map snd (gr_sessions g gid)"

section \<open>Control messages of an owner session\<close>

definition maxGrantRecordBytes :: nat where "maxGrantRecordBytes = 4096"

text \<open>What a handler answers: not its message, swallowed, an acknowledgement (beside the machine's name), or a new name.\<close>

datatype control_answer = NotHandled | Swallowed | Ack string | HelloName string

text \<open>\<open>grantHandler\<close> on the decoded message (action, record), none when it does not decode.\<close>

definition grantHandler ::
  "(bytes \<Rightarrow> bytes \<Rightarrow> bytes \<Rightarrow> bool) \<Rightarrow> (string \<Rightarrow> wireGrant option) \<Rightarrow> string \<Rightarrow> string \<Rightarrow> bool \<Rightarrow> string write_outcome \<Rightarrow> time \<Rightarrow>
   (string \<times> string) option \<Rightarrow> grant_dir \<Rightarrow> control_answer \<times> grant_dir" where
  "grantHandler verify unmarshal owner machine mkdir out now payload d =
     (case payload of
        None \<Rightarrow> (NotHandled, d)
      | Some (a, rec) \<Rightarrow>
          if a \<noteq> ''add-grant'' then (NotHandled, d)
          else if length rec = 0 \<or> length rec > maxGrantRecordBytes then (Swallowed, d)
          else case ParseSignedGrant unmarshal rec of
                 Inl e \<Rightarrow> (Swallowed, d)
               | Inr sg \<Rightarrow>
                   if VerifyGrant verify sg \<noteq> None then (Swallowed, d)
                   else if gOwner (sgGrant sg) \<noteq> owner then (Swallowed, d)
                   else if gMachine (sgGrant sg) \<noteq> machine then (Swallowed, d)
                   else if unix now > gNA (sgGrant sg) then (Swallowed, d)
                   else let (ok, d') = AddGrant mkdir out sg d
                        in if \<not> ok then (Swallowed, d') else (Ack (''add-grant:'' @ gGID (sgGrant sg)), d'))"

text \<open>\<open>revokeGrantHandler\<close> on the decoded message (action, gid): the answer, the directory and the cancelled sessions.\<close>

definition revokeGrantHandler ::
  "(string \<Rightarrow> wireGrant option) \<Rightarrow> string \<Rightarrow> string \<Rightarrow> bool \<Rightarrow> string list option write_outcome \<Rightarrow> bool \<Rightarrow>
   (string \<times> string) option \<Rightarrow> grant_dir \<Rightarrow> guestRegistry \<Rightarrow> control_answer \<times> grant_dir \<times> nat list" where
  "revokeGrantHandler unmarshal owner machine mkdir out remove payload d g =
     (case payload of
        None \<Rightarrow> (NotHandled, d, [])
      | Some (a, gid) \<Rightarrow>
          if a \<noteq> ''revoke-grant'' then (NotHandled, d, [])
          else if \<not> guestGIDShape gid then (Swallowed, d, [])
          else
            let ours = (case grantByID unmarshal gid d of
                          None \<Rightarrow> False
                        | Some sg \<Rightarrow> gOwner (sgGrant sg) = owner \<and> gMachine (sgGrant sg) = machine)
            in if \<not> ours then (Ack (''revoke-grant:'' @ gid), d, guest_drop gid g)
               else let (ok, d') = TombstoneGrant mkdir out remove gid d
                    in if \<not> ok then (Swallowed, d', [])
                       else (Ack (''revoke-grant:'' @ gid), d', guest_drop gid g))"

section \<open>Looking a grant up\<close>

lemma first_some_None: "first_some f xs = None \<longleftrightarrow> (\<forall>x \<in> set xs. f x = None)"
  by (induction xs) (auto split: option.splits)

lemma first_some_Some: "first_some f xs = Some y \<Longrightarrow> \<exists>x \<in> set xs. f x = Some y"
  by (induction xs) (auto split: option.splits)

lemma first_some_filter: "(\<And>x. \<not> P x \<Longrightarrow> f x = None) \<Longrightarrow> first_some f (filter P xs) = first_some f xs"
  by (induction xs) (auto split: option.splits)

text \<open>What the lookup promises: the tests an entry has to pass, stated of the grant it holds.\<close>

definition authorises ::
  "(bytes \<Rightarrow> bytes \<Rightarrow> bytes \<Rightarrow> bool) \<Rightarrow> grant_dir \<Rightarrow> string \<Rightarrow> string \<Rightarrow> string \<Rightarrow> time \<Rightarrow> SignedGrant \<Rightarrow> bool" where
  "authorises verify d owner machine guest now sg \<longleftrightarrow>
     gOwner (sgGrant sg) = owner \<and> gMachine (sgGrant sg) = machine \<and> gGuest (sgGrant sg) = guest \<and>
     gGID (sgGrant sg) \<notin> set (loadTombstones d) \<and> VerifyGrant verify sg = None \<and> ValidAt (sgGrant sg) now = None"

lemma qualifies_iff:
  "qualifies verify unmarshal d owner machine guest now e = Some sg \<longleftrightarrow>
     grant_file (fst e) \<and> ParseSignedGrant unmarshal (snd e) = Inr sg \<and> authorises verify d owner machine guest now sg"
  by (auto simp: qualifies_def authorises_def split: sum.splits)

lemma find_Some:
  assumes "findValidGuestGrant verify unmarshal d owner machine guest now = Some sg"
  shows "\<exists>(name, data) \<in> set (gd_files d). grant_file name \<and> ParseSignedGrant unmarshal data = Inr sg \<and>
    authorises verify d owner machine guest now sg"
  using first_some_Some [OF assms [unfolded findValidGuestGrant_def]] by (auto simp: qualifies_iff)

lemma find_None:
  "findValidGuestGrant verify unmarshal d owner machine guest now = None \<longleftrightarrow>
     (\<forall>(name, data) \<in> set (gd_files d). \<forall>sg. grant_file name \<and> ParseSignedGrant unmarshal data = Inr sg \<longrightarrow>
        \<not> authorises verify d owner machine guest now sg)"
proof -
  have "qualifies verify unmarshal d owner machine guest now e = None \<longleftrightarrow>
      (\<forall>sg. qualifies verify unmarshal d owner machine guest now e \<noteq> Some sg)" for e
    by (cases "qualifies verify unmarshal d owner machine guest now e") auto
  then show ?thesis by (auto simp: findValidGuestGrant_def first_some_None qualifies_iff split: prod.splits)
qed

lemma expired_not_valid: "gNA g < unix (now - GrantSkew) \<Longrightarrow> now - GrantSkew \<le> t \<Longrightarrow> ValidAt g t \<noteq> None"
  using unix_mono [of "now - GrantSkew" t] by (simp add: ValidAt_def Let_def)

lemma swept_not_qualified:
  assumes "swept unmarshal now e" "now - GrantSkew \<le> t"
  shows "qualifies verify unmarshal d owner machine guest t e = None"
  using assms(1) expired_not_valid [OF _ assms(2)] by (fastforce simp: swept_def qualifies_def split: sum.splits)

lemma qualifies_cong:
  "gd_revoked d = gd_revoked d' \<Longrightarrow> qualifies verify unmarshal d owner machine guest t = qualifies verify unmarshal d' owner machine guest t"
proof -
  assume "gd_revoked d = gd_revoked d'"
  then have t: "loadTombstones d = loadTombstones d'" by (simp add: loadTombstones_def)
  show ?thesis unfolding qualifies_def t ..
qed

lemma sweep_find:
  assumes "now - GrantSkew \<le> t"
  shows "findValidGuestGrant verify unmarshal (sweepExpiredGrants unmarshal remove now d) owner machine guest t =
    findValidGuestGrant verify unmarshal d owner machine guest t"
proof -
  have q: "qualifies verify unmarshal (sweepExpiredGrants unmarshal remove now d) owner machine guest t =
      qualifies verify unmarshal d owner machine guest t"
    by (rule qualifies_cong) (simp add: sweepExpiredGrants_def)
  show ?thesis
    unfolding findValidGuestGrant_def q unfolding sweepExpiredGrants_def
    by (simp, rule first_some_filter) (auto simp: swept_not_qualified [OF _ assms])
qed

section \<open>Installing a grant\<close>

lemma json_ext_grantPath: "json_ext (grantPath gid)"
  by (simp add: json_ext_def grantPath_def)

lemma grant_file_grantPath: "gidRe gid \<Longrightarrow> grant_file (grantPath gid)"
proof -
  assume "gidRe gid"
  then have "length (grantPath gid) = 21" by (simp add: gidRe_def grantPath_def)
  then have "grantPath gid \<noteq> revoked_json" by (auto simp: revoked_json_def)
  then show ?thesis by (simp add: grant_file_def json_ext_grantPath)
qed

lemma grantHandler_Ack:
  assumes "grantHandler verify unmarshal owner machine mkdir out now payload d = (Ack a, d')"
  obtains rec sg data where "payload = Some (''add-grant'', rec)" "ParseSignedGrant unmarshal rec = Inr sg"
    "VerifyGrant verify sg = None" "gOwner (sgGrant sg) = owner" "gMachine (sgGrant sg) = machine" "unix now \<le> gNA (sgGrant sg)"
    "JSON_grant sg = Inr data" "d' = d\<lparr>gd_files := mput (gd_files d) (grantPath (gGID (sgGrant sg))) data\<rparr>"
    "a = ''add-grant:'' @ gGID (sgGrant sg)"
  using assms that
  by (auto simp: grantHandler_def AddGrant_def split: option.splits if_splits sum.splits prod.splits write_outcome.splits)

lemma verified_gid: "VerifyGrant verify sg = None \<Longrightarrow> gidRe (gGID (sgGrant sg))"
  by (auto simp: VerifyGrant_None validate_grant_def split: if_splits)

lemma installed_found:
  assumes rb: "reads_back unmarshal" and "JSON_grant sg = Inr data" "VerifyGrant verify sg = None"
    and "(grantPath (gGID (sgGrant sg)), data) \<in> set (gd_files d)" "gGID (sgGrant sg) \<notin> set (loadTombstones d)"
    and "ValidAt (sgGrant sg) t = None"
  shows "\<exists>sg'. findValidGuestGrant verify unmarshal d (gOwner (sgGrant sg)) (gMachine (sgGrant sg)) (gGuest (sgGrant sg)) t = Some sg' \<and>
    authorises verify d (gOwner (sgGrant sg)) (gMachine (sgGrant sg)) (gGuest (sgGrant sg)) t sg'"
proof -
  have "ParseSignedGrant unmarshal data = Inr sg"
    using reads_back_parse [OF rb assms(2) verified_sig_alphabet [OF assms(3)]] .
  then have "findValidGuestGrant verify unmarshal d (gOwner (sgGrant sg)) (gMachine (sgGrant sg)) (gGuest (sgGrant sg)) t \<noteq> None"
    using assms(3-6) grant_file_grantPath [OF verified_gid [OF assms(3)]] unfolding find_None by (fastforce simp: authorises_def)
  then show ?thesis using find_Some by fastforce
qed

text \<open>
  The file of a gid is shared by all owners: an acknowledged add-grant of one owner replaces a grant of another owner with that gid.
\<close>

lemma gid_displaced:
  assumes "reads_back unmarshal" "ParseSignedGrant unmarshal rec = Inr sg"
    and "grantHandler verify unmarshal owner machine mkdir out now (Some (''add-grant'', rec)) d = (Ack a, d')"
  shows "grantByID unmarshal (gGID (sgGrant sg)) d' = Some sg \<and> gOwner (sgGrant sg) = owner"
proof -
  from assms(2,3) obtain data where v: "VerifyGrant verify sg = None" "gOwner (sgGrant sg) = owner" "JSON_grant sg = Inr data"
    and d': "d' = d\<lparr>gd_files := mput (gd_files d) (grantPath (gGID (sgGrant sg))) data\<rparr>"
    by (auto elim: grantHandler_Ack)
  have "ParseSignedGrant unmarshal data = Inr sg"
    using reads_back_parse [OF assms(1) v(3) verified_sig_alphabet [OF v(1)]] .
  then show ?thesis using v(2) verified_gid [OF v(1)] by (simp add: d' grantByID_def guestGIDShape_def)
qed

section \<open>The store over time\<close>

text \<open>
  One step of the store: an add-grant or a revoke-grant message of some owner session, or a sweep at a start of
  the agent. A write of the tombstone file either succeeds or leaves the file alone; every other failure is allowed.
\<close>

inductive store_step ::
  "(bytes \<Rightarrow> bytes \<Rightarrow> bytes \<Rightarrow> bool) \<Rightarrow> (string \<Rightarrow> wireGrant option) \<Rightarrow> string \<Rightarrow> grant_dir \<Rightarrow> grant_dir \<Rightarrow> bool"
  for verify unmarshal machine where
  add: "grantHandler verify unmarshal owner machine mkdir out now payload d = (a, d') \<Longrightarrow> store_step verify unmarshal machine d d'"
| revoke: "out \<in> {Written, NotWritten} \<Longrightarrow> revokeGrantHandler unmarshal owner machine mkdir out remove payload d g = (a, d', cs) \<Longrightarrow>
    store_step verify unmarshal machine d d'"
| sweep: "store_step verify unmarshal machine d (sweepExpiredGrants unmarshal removed now d)"

lemma AddGrant_tombstones: "AddGrant mkdir out sg d = (ok, d') \<Longrightarrow> loadTombstones d' = loadTombstones d"
  by (auto simp: AddGrant_def loadTombstones_def split: sum.splits if_splits write_outcome.splits)

lemma grantHandler_tombstones:
  "grantHandler verify unmarshal owner machine mkdir out now payload d = (a, d') \<Longrightarrow> loadTombstones d' = loadTombstones d"
  by (auto simp: grantHandler_def dest: AddGrant_tombstones split: option.splits if_splits sum.splits prod.splits)

lemma TombstoneGrant_tombstones:
  "out \<in> {Written, NotWritten} \<Longrightarrow> TombstoneGrant mkdir out remove gid d = (ok, d') \<Longrightarrow>
     set (loadTombstones d') = (if ok then insert gid (set (loadTombstones d)) else set (loadTombstones d))"
  by (auto simp: TombstoneGrant_def loadTombstones_def Let_def split: if_splits)

lemma revokeGrantHandler_tombstones:
  assumes "out \<in> {Written, NotWritten}" "revokeGrantHandler unmarshal owner machine mkdir out remove payload d g = (a, d', cs)"
  shows "set (loadTombstones d) \<subseteq> set (loadTombstones d')"
proof -
  have t: "TombstoneGrant mkdir out remove gid d = (ok, e) \<Longrightarrow> set (loadTombstones d) \<subseteq> set (loadTombstones e)" for gid ok e
    using TombstoneGrant_tombstones [OF assms(1)] by (cases ok) auto
  show ?thesis
    using assms(2) t by (auto simp: revokeGrantHandler_def Let_def split: option.splits if_splits prod.splits)
qed

lemma store_step_tombstones: "store_step verify unmarshal machine d d' \<Longrightarrow> set (loadTombstones d) \<subseteq> set (loadTombstones d')"
proof (induction rule: store_step.induct)
  case (add owner mkdir out now payload d a d')
  then show ?case using grantHandler_tombstones [OF add] by simp
next
  case (revoke out owner mkdir remove payload d g a d' cs)
  then show ?case using revokeGrantHandler_tombstones by blast
next
  case (sweep d removed now)
  then show ?case by (simp add: sweepExpiredGrants_def loadTombstones_def)
qed

interpretation store_runs: tombstones "store_step verify unmarshal machine" "\<lambda>d. set (loadTombstones d)" for verify unmarshal machine
  by unfold_locales (rule store_step_tombstones)

lemma store_run_tombstones:
  "(store_step verify unmarshal machine)\<^sup>*\<^sup>* d d' \<Longrightarrow> set (loadTombstones d) \<subseteq> set (loadTombstones d')"
  by (rule store_runs.run_grows)

section \<open>The registry of live guests\<close>

text \<open>The specification: the number of sessions so far and the set of live ones, each with its gid, its number and its cancel function.\<close>

datatype guest_op = GuestAdd string nat | GuestEnd string "64 word"

type_synonym guest_spec = "nat \<times> (string \<times> nat \<times> nat) set"

fun spec_step :: "guest_op \<Rightarrow> guest_spec \<Rightarrow> guest_spec" where
  "spec_step (GuestAdd gid c) (n, L) = (n + 1, insert (gid, n, c) L)"
| "spec_step (GuestEnd gid sid) (n, L) = (n, {(gid', k, c). (gid', k, c) \<in> L \<and> \<not> (gid' = gid \<and> k = unat sid)})"

fun guest_step :: "guest_op \<Rightarrow> guestRegistry \<Rightarrow> guestRegistry" where
  "guest_step (GuestAdd gid c) g = snd (guest_add gid c g)"
| "guest_step (GuestEnd gid sid) g = guest_unregister gid sid g"

definition no_guests :: guestRegistry where "no_guests = \<lparr>gr_next = 0, gr_byID = []\<rparr>"

definition guest_live :: "guestRegistry \<Rightarrow> (string \<times> nat \<times> nat) set" where
  "guest_live g = {(gid, k, c). k < 2 ^ 64 \<and> mget (gr_sessions g gid) (word_of_nat k) = Some c}"

definition guest_inv :: "guestRegistry \<Rightarrow> bool" where
  "guest_inv g \<longleftrightarrow> (\<forall>gid m. mget (gr_byID g) gid = Some m \<longrightarrow> m \<noteq> [] \<and> wf_gomap m)"

definition guest_refines :: "guestRegistry \<Rightarrow> guest_spec \<Rightarrow> bool" where
  "guest_refines g S \<longleftrightarrow> guest_inv g \<and> gr_next g = word_of_nat (fst S) \<and> guest_live g = snd S \<and> (\<forall>(gid, k, c) \<in> snd S. k < fst S)"

lemma word_of_nat_eq64: "k < 2 ^ 64 \<Longrightarrow> n < 2 ^ 64 \<Longrightarrow> (word_of_nat k :: 64 word) = word_of_nat n \<longleftrightarrow> k = n"
  by (auto dest!: arg_cong [where f = unat] simp: unsigned_of_nat take_bit_nat_eq_self)

lemma guest_sessions_add:
  "gr_sessions (snd (guest_add gid c g)) gid' = (if gid' = gid then mput (gr_sessions g gid) (gr_next g) c else gr_sessions g gid')"
  by (simp add: guest_add_def gr_sessions_def)

lemma guest_sessions_unregister:
  "gr_sessions (guest_unregister gid sid g) gid' = (if gid' = gid then mdel (gr_sessions g gid) sid else gr_sessions g gid')"
  by (auto simp: guest_unregister_def gr_sessions_def Let_def split: option.splits)

lemma guest_inv_add: "guest_inv g \<Longrightarrow> guest_inv (snd (guest_add gid c g))"
proof -
  have "mput m k v \<noteq> []" for m :: "('a, 'b) gomap" and k v by (cases m) auto
  then show "guest_inv g \<Longrightarrow> guest_inv (snd (guest_add gid c g))"
    by (auto simp: guest_inv_def guest_add_def gr_sessions_def split: option.splits)
qed

lemma guest_inv_unregister: "guest_inv g \<Longrightarrow> guest_inv (guest_unregister gid sid g)"
  by (auto simp: guest_inv_def guest_unregister_def Let_def split: option.splits)

lemma guest_live_add:
  assumes "gr_next g = word_of_nat m" "guest_live g = L" "m < 2 ^ 64" "\<And>gid k c. (gid, k, c) \<in> L \<Longrightarrow> k < m"
  shows "guest_live (snd (guest_add gid c g)) = insert (gid, m, c) L"
proof -
  have "(gid', k, c') \<in> guest_live (snd (guest_add gid c g)) \<longleftrightarrow> (gid', k, c') = (gid, m, c) \<or> (gid', k, c') \<in> L" for gid' k c'
  proof (cases "gid' = gid \<and> k = m")
    case True
    then have "(gid', k, c') \<notin> L" using assms(4) by blast
    then show ?thesis using True assms(1,3) by (auto simp: guest_live_def guest_sessions_add)
  next
    case False
    then show ?thesis
      using assms(1,3) word_of_nat_eq64 [of k m] unfolding assms(2) [symmetric] guest_live_def guest_sessions_add
      by (auto split: if_splits)
  qed
  then show ?thesis by auto
qed

lemma guest_refines_step:
  assumes r: "guest_refines g S" and n: "fst S < 2 ^ 64"
  shows "guest_refines (guest_step x g) (spec_step x S) \<and> fst (spec_step x S) \<le> Suc (fst S)"
proof -
  obtain m L where S: "S = (m, L)" by (cases S)
  with r have nxt: "gr_next g = word_of_nat m" and live: "guest_live g = L" and inv: "guest_inv g"
    and below: "\<And>gid k c. (gid, k, c) \<in> L \<Longrightarrow> k < m"
    by (auto simp: guest_refines_def)
  show ?thesis
  proof (cases x)
    case (GuestAdd gid c)
    have "guest_live (snd (guest_add gid c g)) = insert (gid, m, c) L"
      using guest_live_add [OF nxt live _ below] n S by simp
    then show ?thesis
      using GuestAdd S nxt inv below guest_inv_add [OF inv]
      by (auto simp: guest_refines_def guest_add_def less_Suc_eq)
  next
    case (GuestEnd gid sid)
    have "guest_live (guest_unregister gid sid g) = {(gid', k, c). (gid', k, c) \<in> L \<and> \<not> (gid' = gid \<and> k = unat sid)}"
      unfolding live [symmetric] guest_live_def guest_sessions_unregister
      by (auto simp: unsigned_of_nat take_bit_nat_eq_self split: if_splits)
    moreover have "gr_next (guest_unregister gid sid g) = gr_next g"
      by (auto simp: guest_unregister_def Let_def split: option.splits)
    ultimately show ?thesis
      using GuestEnd S nxt below guest_inv_unregister [OF inv] by (auto simp: guest_refines_def)
  qed
qed

lemma guest_refines_run:
  "guest_refines g S \<Longrightarrow> fst S + length ops < 2 ^ 64 \<Longrightarrow> guest_refines (fold guest_step ops g) (fold spec_step ops S)"
proof (induction ops arbitrary: g S)
  case (Cons x ops)
  then have "guest_refines (guest_step x g) (spec_step x S)" "fst (spec_step x S) \<le> Suc (fst S)"
    using guest_refines_step [of g S x] by auto
  with Cons.IH [of "guest_step x g" "spec_step x S"] Cons.prems show ?case by simp
qed simp

lemma guest_refines_init: "guest_refines no_guests (0, {})"
  by (auto simp: guest_refines_def guest_inv_def no_guests_def guest_live_def gr_sessions_def)

lemma guest_drop_live:
  assumes "guest_inv g"
  shows "set (guest_drop gid g) = {c. \<exists>k. (gid, k, c) \<in> guest_live g}"
proof -
  have "wf_gomap (gr_sessions g gid)" using assms by (auto simp: guest_inv_def gr_sessions_def split: option.splits)
  then have "c \<in> set (guest_drop gid g) \<longleftrightarrow> (\<exists>sid. mget (gr_sessions g gid) sid = Some c)" for c
    by (force simp: guest_drop_def mget_Some_iff)
  moreover have "(\<exists>sid. mget (gr_sessions g gid) sid = Some c) \<longleftrightarrow> (\<exists>k. (gid, k, c) \<in> guest_live g)" for c
  proof
    assume "\<exists>sid. mget (gr_sessions g gid) sid = Some c"
    then obtain sid where "mget (gr_sessions g gid) sid = Some c" ..
    moreover have "unat sid < 2 ^ 64" using unsigned_less [of sid] by simp
    ultimately have "(gid, unat sid, c) \<in> guest_live g" by (simp add: guest_live_def)
    then show "\<exists>k. (gid, k, c) \<in> guest_live g" ..
  qed (auto simp: guest_live_def)
  ultimately show ?thesis by auto
qed

lemma guest_key_live:
  assumes "guest_inv g"
  shows "mget (gr_byID g) gid \<noteq> None \<longleftrightarrow> guest_drop gid g \<noteq> []"
  using assms by (auto simp: guest_inv_def guest_drop_def gr_sessions_def split: option.splits)

section \<open>Properties\<close>

text \<open>
  \<open>findValidGuestGrant\<close> decides exactly: a grant it returns is held by a grant file, names the owner, the machine and the guest
  asked for, verifies, covers the time and is not revoked; and it returns none only when no grant file holds such a grant.
\<close>

theorem guest_lookup_exact:
  "case findValidGuestGrant verify unmarshal d owner machine guest now of
     Some sg \<Rightarrow> (\<exists>(name, data) \<in> set (gd_files d). grant_file name \<and> ParseSignedGrant unmarshal data = Inr sg) \<and>
       gOwner (sgGrant sg) = owner \<and> gMachine (sgGrant sg) = machine \<and> gGuest (sgGrant sg) = guest \<and>
       gGID (sgGrant sg) \<notin> set (loadTombstones d) \<and> VerifyGrant verify sg = None \<and> ValidAt (sgGrant sg) now = None
   | None \<Rightarrow> \<not> (\<exists>sg. \<exists>(name, data) \<in> set (gd_files d). grant_file name \<and> ParseSignedGrant unmarshal data = Inr sg \<and>
       gOwner (sgGrant sg) = owner \<and> gMachine (sgGrant sg) = machine \<and> gGuest (sgGrant sg) = guest \<and>
       gGID (sgGrant sg) \<notin> set (loadTombstones d) \<and> VerifyGrant verify sg = None \<and> ValidAt (sgGrant sg) now = None)"
  using find_Some [of verify unmarshal d owner machine guest now] find_None [of verify unmarshal d owner machine guest now]
  by (cases "findValidGuestGrant verify unmarshal d owner machine guest now") (auto simp: authorises_def)

text \<open>
  The sweep of expired grants is invisible: whatever removals succeed, from the moment of the sweep (and already within
  the clock skew before it) every lookup gives the same answer on the swept directory as on the original one.
\<close>

theorem sweep_invisible:
  assumes "now - GrantSkew \<le> t"
  shows "findValidGuestGrant verify unmarshal (sweepExpiredGrants unmarshal remove now d) owner machine guest t =
    findValidGuestGrant verify unmarshal d owner machine guest t"
  using sweep_find [OF assms] .

theorem sweep_invisible_witness:
  "findValidGuestGrant demo_verify scan_grant
     (sweepExpiredGrants scan_grant (\<lambda>name. True) (9000 * second) \<lparr>gd_files = [(''a.json'', ''{}'')], gd_revoked = None\<rparr>)
     demo_id ''m1'' demo_id (9000 * second) = None"
proof -
  let ?d = "\<lparr>gd_files = [(''a.json'', ''{}'')], gd_revoked = None\<rparr>"
  have "findValidGuestGrant demo_verify scan_grant ?d demo_id ''m1'' demo_id (9000 * second) = None"
    by (simp add: findValidGuestGrant_def qualifies_def ParseSignedGrant_def scan_grant_def grant_layout_def labelled_def skip_def
        HasPrefix_def)
  moreover have "9000 * second - GrantSkew \<le> 9000 * second" by (simp add: GrantSkew_def minute_def second_def)
  ultimately show ?thesis
    using sweep_invisible [of "9000 * second" "9000 * second" demo_verify scan_grant "\<lambda>name. True" ?d demo_id "''m1''" demo_id] by simp
qed

text \<open>
  An acknowledged installation works: with a JSON decoder that reads back what the agent writes, after add-grant is
  acknowledged every lookup for the grant's owner, machine and guest at a time inside its window succeeds with a grant that
  authorises it, unless the gid had been revoked before.
\<close>

theorem acknowledged_grant_usable:
  assumes "reads_back unmarshal"
    and "grantHandler verify unmarshal owner machine mkdir out now (Some (''add-grant'', rec)) d = (Ack a, d')"
    and "ParseSignedGrant unmarshal rec = Inr sg" "gGID (sgGrant sg) \<notin> set (loadTombstones d)" "ValidAt (sgGrant sg) t = None"
  shows "\<exists>sg'. findValidGuestGrant verify unmarshal d' owner machine (gGuest (sgGrant sg)) t = Some sg' \<and>
    authorises verify d' owner machine (gGuest (sgGrant sg)) t sg'"
proof -
  from assms(2) obtain data where sg: "VerifyGrant verify sg = None" "gOwner (sgGrant sg) = owner" "gMachine (sgGrant sg) = machine"
    "JSON_grant sg = Inr data" "d' = d\<lparr>gd_files := mput (gd_files d) (grantPath (gGID (sgGrant sg))) data\<rparr>"
    using assms(3) by (auto elim: grantHandler_Ack)
  then have "(grantPath (gGID (sgGrant sg)), data) \<in> set (gd_files d')"
    using map_of_SomeD [of "gd_files d'"] by simp
  moreover have "gGID (sgGrant sg) \<notin> set (loadTombstones d')" using assms(4) sg(5) by (simp add: loadTombstones_def)
  ultimately show ?thesis using installed_found [OF assms(1) sg(4,1) _ _ assms(5)] sg(2,3) by simp
qed

lemma demo_record:
  "\<exists>data. JSON_grant demo_signed_grant = Inr data \<and> length data \<noteq> 0 \<and> length data \<le> maxGrantRecordBytes"
proof -
  have "JSON_grant demo_signed_grant =
      Inr (butlast (canonical_grant_text demo_grant) @ '',\"sig\":\"'' @ replicate 64 (CHR ''1'') @ ''\"}'')"
    by (simp add: JSON_grant_def CanonicalGrant_def demo_signed_grant_def validate_demo)
  moreover have "length (canonical_grant_text demo_grant) \<le> 1000"
    by (simp add: canonical_grant_text_def demo_grant_def demo_id_def itoa_def dec_nat.simps)
  ultimately show ?thesis by (simp add: maxGrantRecordBytes_def)
qed

lemma demo_verifies: "VerifyGrant demo_verify demo_signed_grant = None"
  unfolding VerifyGrant_None demo_signed_grant_def SignedGrant.simps validate_demo sig_of_demo
  by (simp add: demo_grant_def key_of_demo demo_verify_def)

lemma demo_install:
  "\<exists>rec d'. JSON_grant demo_signed_grant = Inr rec \<and> ParseSignedGrant scan_grant rec = Inr demo_signed_grant \<and> loadTombstones d' = loadTombstones d \<and>
     grantHandler demo_verify scan_grant demo_id ''m1'' True Written (1000 * second) (Some (''add-grant'', rec)) d =
       (Ack ''add-grant:0123456789abcdef'', d')"
proof -
  obtain rec where rec: "JSON_grant demo_signed_grant = Inr rec" "length rec \<noteq> 0" "length rec \<le> maxGrantRecordBytes"
    using demo_record by blast
  have "ParseSignedGrant scan_grant rec = Inr demo_signed_grant"
    using reads_back_parse [OF scan_grant_reads_back rec(1) verified_sig_alphabet [OF demo_verifies]] .
  moreover have "gOwner (sgGrant demo_signed_grant) = demo_id" "gMachine (sgGrant demo_signed_grant) = ''m1''"
    "gGID (sgGrant demo_signed_grant) = ''0123456789abcdef''" "\<not> unix (1000 * second) > gNA (sgGrant demo_signed_grant)"
    by (simp_all add: demo_signed_grant_def demo_grant_def unix_def second_def)
  ultimately show ?thesis
    using rec demo_verifies by (auto simp: grantHandler_def AddGrant_def loadTombstones_def)
qed

theorem acknowledged_grant_usable_witness:
  "\<exists>d' sg'. findValidGuestGrant demo_verify scan_grant d' demo_id ''m1'' demo_id (1000 * second) = Some sg' \<and>
     authorises demo_verify d' demo_id ''m1'' demo_id (1000 * second) sg'"
proof -
  obtain rec d' where p: "ParseSignedGrant scan_grant rec = Inr demo_signed_grant"
    and h: "grantHandler demo_verify scan_grant demo_id ''m1'' True Written (1000 * second) (Some (''add-grant'', rec)) empty_dir =
       (Ack ''add-grant:0123456789abcdef'', d')" using demo_install by blast
  have t: "gGID (sgGrant demo_signed_grant) \<notin> set (loadTombstones empty_dir)" by (simp add: loadTombstones_def empty_dir_def)
  have v: "ValidAt (sgGrant demo_signed_grant) (1000 * second) = None"
    by (simp add: ValidAt_def demo_signed_grant_def demo_grant_def unix_def second_def)
  show ?thesis
    using acknowledged_grant_usable [OF scan_grant_reads_back h p t v] by (auto simp: demo_signed_grant_def demo_grant_def)
qed



text \<open>
  C29. The registry of live guests implements the set of live sessions: after any sequence of fewer than 2^64 additions and ends,
  its table holds exactly the sessions added and not ended, \<open>drop\<close> cancels exactly those of the gid, and a gid
  without live sessions has no entry.
\<close>

theorem guest_registry_refines:
  assumes "length ops < 2 ^ 64"
  shows "guest_live (fold guest_step ops no_guests) = snd (fold spec_step ops (0, {})) \<and>
    set (guest_drop gid (fold guest_step ops no_guests)) = {c. \<exists>k. (gid, k, c) \<in> snd (fold spec_step ops (0, {}))} \<and>
    (mget (gr_byID (fold guest_step ops no_guests)) gid = None \<longleftrightarrow> \<not> (\<exists>k c. (gid, k, c) \<in> snd (fold spec_step ops (0, {}))))"
proof -
  let ?g = "fold guest_step ops no_guests" and ?S = "fold spec_step ops (0, {})"
  have r: "guest_refines ?g ?S" using guest_refines_run [OF guest_refines_init] assms by simp
  then have "guest_inv ?g" "guest_live ?g = snd ?S" by (simp_all add: guest_refines_def)
  then have d: "set (guest_drop gid ?g) = {c. \<exists>k. (gid, k, c) \<in> snd ?S}" using guest_drop_live [of ?g gid] by simp
  have "mget (gr_byID ?g) gid = None \<longleftrightarrow> guest_drop gid ?g = []" using guest_key_live [OF \<open>guest_inv ?g\<close>] by blast
  then have "mget (gr_byID ?g) gid = None \<longleftrightarrow> {c. \<exists>k. (gid, k, c) \<in> snd ?S} = {}" unfolding d [symmetric] by simp
  with d \<open>guest_live ?g = snd ?S\<close> show ?thesis by blast
qed

theorem guest_registry_refines_witness:
  "set (guest_drop ''g'' (fold guest_step [GuestAdd ''g'' 7, GuestAdd ''g'' 8, GuestEnd ''g'' 0] no_guests)) = {8}"
proof -
  let ?ops = "[GuestAdd ''g'' 7, GuestAdd ''g'' 8, GuestEnd ''g'' 0]"
  have "snd (fold spec_step ?ops (0, {})) = {(''g'', 1, 8)}" by auto
  with guest_registry_refines [of ?ops "''g''"] show ?thesis by auto
qed

end
