(* ===== verification/Agent_Attach.thy ===== *)
theory Agent_Attach
  imports Grant_Store Signal_Conn
begin

text \<open>
  Who may attach: \<open>authorizeOffer\<close>, \<open>acceptAttachSession\<close> and \<open>ownerPubFromBinding\<close> of \<^verbatim>\<open>go/internal/agent/runtime.go\<close>. The replay
  guard is a map from principal and session to the time of the first offer; the pins are the running agent's copy of the paired
  owners; the grants are the directory of \<open>Grant_Store\<close>. The two JSON decoders and Ed25519 are arguments.
\<close>

datatype attach_error =
    AttachNotAuthorized | AttachBadBinding | AttachBadKey | AttachBadAuth | AttachReplay | AttachMissingBinding | AttachWrongOwner string
  | AttachIdentity id_error

definition ownerPubFromBinding ::
  "(bytes \<Rightarrow> bytes \<Rightarrow> bytes \<Rightarrow> bool) \<Rightarrow> (string \<Rightarrow> wireBinding option) \<Rightarrow> string \<Rightarrow> string \<Rightarrow> attach_error + bytes" where
  "ownerPubFromBinding verify unmarshal bindingJSON owner =
     (if bindingJSON = [] then Inl AttachMissingBinding
      else case ParseSignedBinding unmarshal bindingJSON of
             Inl e \<Rightarrow> Inl (AttachIdentity e)
           | Inr sb \<Rightarrow>
               if bWallet (sbBinding sb) \<noteq> owner then Inl (AttachWrongOwner (bWallet (sbBinding sb)))
               else (case VerifyBinding verify sb of
                       Some e \<Rightarrow> Inl (AttachIdentity e)
                     | None \<Rightarrow>
                         (case hex_DecodeString (bX25519 (sbBinding sb)) of None \<Rightarrow> Inl AttachBadKey | Some pub \<Rightarrow> Inr pub)))"

section \<open>The replay guard\<close>

definition replay_window :: duration where "replay_window = 5 * minute"

definition attach_key :: "string \<Rightarrow> string \<Rightarrow> string" where
  "attach_key owner session = owner @ CHR ''|'' # session"

definition acceptAttachSession ::
  "time \<Rightarrow> string \<Rightarrow> string \<Rightarrow> (string, time) gomap \<Rightarrow> bool \<times> (string, time) gomap" where
  "acceptAttachSession now owner session seen =
     (let key = attach_key owner session;
          seen = filter (\<lambda>(k, t). \<not> now - t > replay_window) seen
      in if mget seen key \<noteq> None then (False, seen) else (True, mput seen key now))"

section \<open>Authorizing an offer\<close>

record offerAuth =
  oa_pub :: bytes
  oa_grant :: "SignedGrant option"

definition ownerPinned :: "string list \<Rightarrow> string \<Rightarrow> bool" where
  "ownerPinned pins owner = list_ex (\<lambda>x. x = owner) pins"

text \<open>The owner path and the guest path, for a principal whose proof is checked.\<close>

definition admit_principal ::
  "(bytes \<Rightarrow> bytes \<Rightarrow> bytes \<Rightarrow> bool) \<Rightarrow> (string \<Rightarrow> wireGrant option) \<Rightarrow> string \<Rightarrow> string list \<Rightarrow> grant_dir \<Rightarrow> time \<Rightarrow> string \<Rightarrow> string \<Rightarrow>
   bytes \<Rightarrow> string \<Rightarrow> (string, time) gomap \<Rightarrow> (attach_error + offerAuth) \<times> (string, time) gomap" where
  "admit_principal verify unmarshalG machine pins d now owner prin pub session seen =
     (if prin = owner \<and> ownerPinned pins owner
      then let (ok, seen) = acceptAttachSession now prin session seen
           in (if ok then Inr \<lparr>oa_pub = pub, oa_grant = None\<rparr> else Inl AttachReplay, seen)
      else case findValidGuestGrant verify unmarshalG d owner machine prin now of
             None \<Rightarrow> (Inl AttachNotAuthorized, seen)
           | Some sg \<Rightarrow>
               let (ok, seen) = acceptAttachSession now prin session seen
               in (if ok then Inr \<lparr>oa_pub = pub, oa_grant = Some sg\<rparr> else Inl AttachReplay, seen))"

definition authorizeOffer ::
  "(bytes \<Rightarrow> bytes \<Rightarrow> bytes \<Rightarrow> bool) \<Rightarrow> (string \<Rightarrow> wireBinding option) \<Rightarrow> (string \<Rightarrow> wireGrant option) \<Rightarrow> string \<Rightarrow> string list \<Rightarrow>
   grant_dir \<Rightarrow> time \<Rightarrow> string \<Rightarrow> SignalMsg \<Rightarrow> (string, time) gomap \<Rightarrow> (attach_error + offerAuth) \<times> (string, time) gomap" where
  "authorizeOffer verify unmarshalB unmarshalG machine pins d now owner m seen =
     (if smSession m = [] \<or> smAuth m = [] \<or> smBinding m = [] then (Inl AttachNotAuthorized, seen)
      else case ParseSignedBinding unmarshalB (smBinding m) of
             Inl e \<Rightarrow> (Inl AttachBadBinding, seen)
           | Inr sb \<Rightarrow>
               if VerifyBinding verify sb \<noteq> None then (Inl AttachBadBinding, seen)
               else case hex_DecodeString (bX25519 (sbBinding sb)) of
                      None \<Rightarrow> (Inl AttachBadKey, seen)
                    | Some pub \<Rightarrow>
                        (case b64_DecodeString (smAuth m) of
                           None \<Rightarrow> (Inl AttachBadAuth, seen)
                         | Some sig \<Rightarrow>
                             if VerifyAuth verify (bWallet (sbBinding sb)) (AttachChallenge (smSession m) machine (smSDP m)) sig \<noteq> None
                             then (Inl AttachBadAuth, seen)
                             else admit_principal verify unmarshalG machine pins d now owner (bWallet (sbBinding sb)) pub (smSession m) seen))"

section \<open>Transport keys\<close>

lemma lower_hex_value: "is_lower_hex c \<Longrightarrow> hex_value c \<noteq> None"
  by (auto simp: is_lower_hex_def hex_value_def Let_def)

lemma lower_hex_decodes: "list_all is_lower_hex s \<Longrightarrow> even (length s) \<Longrightarrow> \<exists>b. hex_DecodeString s = Some b \<and> length s = 2 * length b"
proof (induction s rule: hex_DecodeString.induct)
  case (3 c d s)
  then obtain x y where xy: "hex_value c = Some x" "hex_value d = Some y" using lower_hex_value by fastforce
  with 3 obtain b where "hex_DecodeString s = Some b" "length s = 2 * length b" by auto
  with xy show ?case by auto
qed simp_all

lemma verified_binding_key:
  assumes "VerifyBinding verify sb = None"
  shows "\<exists>pub. hex_DecodeString (bX25519 (sbBinding sb)) = Some pub \<and> length pub = 32"
proof -
  from assms have "hex64Re (bX25519 (sbBinding sb))" by (auto simp: VerifyBinding_None validate_binding_def split: if_splits)
  then have "list_all is_lower_hex (bX25519 (sbBinding sb))" "length (bX25519 (sbBinding sb)) = 64" by (simp_all add: hex64Re_def)
  then show ?thesis using lower_hex_decodes [of "bX25519 (sbBinding sb)"] by auto
qed

section \<open>What is authorised\<close>

text \<open>The proof an offer carries: a verified binding of the principal and its signature over session, machine and SDP.\<close>

definition proves ::
  "(bytes \<Rightarrow> bytes \<Rightarrow> bytes \<Rightarrow> bool) \<Rightarrow> (string \<Rightarrow> wireBinding option) \<Rightarrow> string \<Rightarrow> SignalMsg \<Rightarrow> SignedBinding \<Rightarrow> bool" where
  "proves verify unmarshalB machine m sb \<longleftrightarrow>
     smSession m \<noteq> [] \<and> smAuth m \<noteq> [] \<and> smBinding m \<noteq> [] \<and>
     ParseSignedBinding unmarshalB (smBinding m) = Inr sb \<and> VerifyBinding verify sb = None \<and>
     (\<exists>sig. b64_DecodeString (smAuth m) = Some sig \<and>
        VerifyAuth verify (bWallet (sbBinding sb)) (AttachChallenge (smSession m) machine (smSDP m)) sig = None)"

lemma authorizeOffer_proved:
  "proves verify unmarshalB machine m sb \<Longrightarrow> hex_DecodeString (bX25519 (sbBinding sb)) = Some pub \<Longrightarrow>
   authorizeOffer verify unmarshalB unmarshalG machine pins d now owner m seen =
     admit_principal verify unmarshalG machine pins d now owner (bWallet (sbBinding sb)) pub (smSession m) seen"
  by (auto simp: authorizeOffer_def proves_def)

lemma authorizeOffer_unproved:
  assumes "\<nexists>sb. proves verify unmarshalB machine m sb"
  shows "\<exists>e. authorizeOffer verify unmarshalB unmarshalG machine pins d now owner m seen = (Inl e, seen)"
proof (cases "ParseSignedBinding unmarshalB (smBinding m)")
  case (Inl e)
  then show ?thesis by (simp add: authorizeOffer_def)
next
  case (Inr sb)
  with assms have "\<not> proves verify unmarshalB machine m sb" by blast
  then show ?thesis
    by (cases "hex_DecodeString (bX25519 (sbBinding sb))"; cases "b64_DecodeString (smAuth m)")
      (auto simp: authorizeOffer_def proves_def Inr)
qed

lemma admit_principal_Inr:
  "admit_principal verify unmarshalG machine pins d now owner prin pub session seen = (Inr a, seen') \<longleftrightarrow>
     acceptAttachSession now prin session seen = (True, seen') \<and> oa_pub a = pub \<and>
     (if prin = owner \<and> owner \<in> set pins then oa_grant a = None
      else oa_grant a \<noteq> None \<and> oa_grant a = findValidGuestGrant verify unmarshalG d owner machine prin now)"
  by (cases a; cases "acceptAttachSession now prin session seen")
    (auto simp: admit_principal_def ownerPinned_def list_ex_iff split: option.splits if_splits)

lemma authorizeOffer_Inr:
  "authorizeOffer verify unmarshalB unmarshalG machine pins d now owner m seen = (Inr a, seen') \<longleftrightarrow>
     (\<exists>sb. proves verify unmarshalB machine m sb \<and> hex_DecodeString (bX25519 (sbBinding sb)) = Some (oa_pub a) \<and>
        acceptAttachSession now (bWallet (sbBinding sb)) (smSession m) seen = (True, seen') \<and>
        (if bWallet (sbBinding sb) = owner \<and> owner \<in> set pins then oa_grant a = None
         else oa_grant a \<noteq> None \<and> oa_grant a = findValidGuestGrant verify unmarshalG d owner machine (bWallet (sbBinding sb)) now))"
  (is "?L \<longleftrightarrow> ?R")
proof
  assume l: ?L
  then obtain sb where sb: "proves verify unmarshalB machine m sb"
    using authorizeOffer_unproved [of verify unmarshalB machine m unmarshalG pins d now owner seen] by auto
  then obtain pub where pub: "hex_DecodeString (bX25519 (sbBinding sb)) = Some pub"
    using verified_binding_key by (auto simp: proves_def)
  with l sb show ?R unfolding authorizeOffer_proved [OF sb pub] admit_principal_Inr by blast
next
  assume ?R
  then show ?L by (auto simp: authorizeOffer_proved admit_principal_Inr)
qed

section \<open>The replay guard over time\<close>

text \<open>A sequence of calls: the time, the principal and the session of each.\<close>

fun accept_run :: "(time \<times> string \<times> string) list \<Rightarrow> (string, time) gomap \<Rightarrow> bool list" where
  "accept_run [] seen = []"
| "accept_run ((now, owner, session) # cs) seen =
     (let (ok, seen') = acceptAttachSession now owner session seen in ok # accept_run cs seen')"

lemma accept_wf: "wf_gomap seen \<Longrightarrow> acceptAttachSession now owner session seen = (ok, seen') \<Longrightarrow> wf_gomap seen'"
  by (auto simp: acceptAttachSession_def Let_def split: if_splits)

lemma accept_keeps:
  assumes "wf_gomap seen" "mget seen k = Some t" "now - t \<le> replay_window" "acceptAttachSession now owner session seen = (ok, seen')"
  shows "mget seen' k = Some t \<and> (attach_key owner session = k \<longrightarrow> \<not> ok)"
proof -
  have "mget (filter (\<lambda>(k, t). \<not> now - t > replay_window) seen) k = Some t"
    using assms(1-3) by (simp add: mget_filter [of seen "\<lambda>k t. \<not> now - t > replay_window"])
  with assms(4) show ?thesis by (auto simp: acceptAttachSession_def Let_def split: if_splits)
qed

lemma accept_records:
  assumes "wf_gomap seen" "acceptAttachSession now owner session seen = (True, seen')"
  shows "mget seen' (attach_key owner session) = Some now"
  using assms by (auto simp: acceptAttachSession_def Let_def split: if_splits)

lemma length_accept_run [simp]: "length (accept_run cs seen) = length cs"
  by (induction cs seen rule: accept_run.induct) (auto split: prod.splits)

lemma accept_run_recorded:
  assumes "wf_gomap seen" "mget seen (attach_key owner session) = Some t" "j < length cs"
    and "cs ! j = (now, owner, session)" "sorted (map fst cs)" "now - t \<le> replay_window"
  shows "\<not> accept_run cs seen ! j"
  using assms
proof (induction cs seen arbitrary: j rule: accept_run.induct)
  case (2 now1 owner1 session1 cs seen)
  obtain ok seen' where a: "acceptAttachSession now1 owner1 session1 seen = (ok, seen')" by fastforce
  have "(now, owner, session) \<in> set ((now1, owner1, session1) # cs)" using "2.prems"(3,4) nth_mem by metis
  then have "now1 \<le> now" using "2.prems"(5) by auto
  then have "now1 - t \<le> replay_window" using "2.prems"(6) by simp
  from accept_keeps [OF "2.prems"(1,2) this a]
  have keep: "mget seen' (attach_key owner session) = Some t" and rej: "attach_key owner1 session1 = attach_key owner session \<Longrightarrow> \<not> ok"
    by auto
  show ?case
  proof (cases j)
    case 0
    with "2.prems"(4) rej a show ?thesis by simp
  next
    case (Suc i)
    with "2.IH" [OF a [symmetric] refl accept_wf [OF "2.prems"(1) a] keep, of i] "2.prems" a show ?thesis by simp
  qed
qed simp

lemma accept_run_spaced:
  assumes "wf_gomap seen" "sorted (map fst cs)" "i < j" "j < length cs"
    and "cs ! i = (t1, owner, session)" "cs ! j = (t2, owner, session)" "accept_run cs seen ! i" "accept_run cs seen ! j"
  shows "replay_window < t2 - t1"
  using assms
proof (induction cs seen arbitrary: i j rule: accept_run.induct)
  case (2 now1 owner1 session1 cs seen)
  obtain ok seen' where a: "acceptAttachSession now1 owner1 session1 seen = (ok, seen')" by fastforce
  note wf = accept_wf [OF "2.prems"(1) a]
  obtain j' where j: "j = Suc j'" using "2.prems"(3) by (cases j) auto
  show ?case
  proof (cases i)
    case 0
    with "2.prems" a have "ok" "now1 = t1" "owner1 = owner" "session1 = session" by auto
    with accept_records [OF "2.prems"(1)] a have "mget seen' (attach_key owner session) = Some t1" by simp
    from accept_run_recorded [OF wf this, of j' cs t2] "2.prems" j a show ?thesis by fastforce
  next
    case (Suc i')
    with "2.IH" [OF a [symmetric] refl wf, of i' j'] "2.prems" j a show ?thesis by simp
  qed
qed simp

section \<open>Properties\<close>


text \<open>
  C30. The replay guard: in any sequence of attach offers with non-decreasing times, two accepted offers of the same principal for the
  same signaling session are more than five minutes apart.
\<close>

theorem attach_replay_guard:
  assumes "sorted (map fst cs)" "i < j" "j < length cs" "cs ! i = (t1, owner, session)" "cs ! j = (t2, owner, session)"
    and "accept_run cs [] ! i" "accept_run cs [] ! j"
  shows "5 * minute < t2 - t1"
  using accept_run_spaced [OF wf_gomap_Nil assms] by (simp add: replay_window_def)

theorem attach_replay_guard_witness:
  "accept_run [(0, ''o'', ''s''), (5 * minute, ''o'', ''s''), (5 * minute + 1, ''o'', ''s'')] [] = [True, False, True] \<and>
   5 * minute < 5 * minute + 1 - 0"
proof -
  let ?cs = "[(0, ''o'', ''s''), (5 * minute, ''o'', ''s''), (5 * minute + 1, ''o'', ''s'')]"
  have run: "accept_run ?cs [] = [True, False, True]"
    by (simp add: acceptAttachSession_def replay_window_def minute_def second_def attach_key_def)
  have "sorted (map fst ?cs)" by (simp add: minute_def second_def)
  with attach_replay_guard [of ?cs 0 2 0 "''o''" "''s''" "5 * minute + 1"] run show ?thesis by simp
qed

end
