(* ===== verification/Json_Text.thy ===== *)
theory Json_Text
  imports Utf8 Identity
begin

text \<open>
  Which strings \<open>encoding/json\<close> keeps: those of valid UTF-8, other bytes are replaced by U+FFFD, and what the decoder gives is always valid. The
  contract of storing a record, \<open>json_reads\<close>, and the strings the components store: hex, base58 and base64 text, names.
\<close>

definition json_reads :: "('a \<Rightarrow> bool) \<Rightarrow> ('a \<Rightarrow> 'f) \<Rightarrow> ('f \<Rightarrow> 'a option) \<Rightarrow> bool" where
  "json_reads text marshal unmarshal \<longleftrightarrow> (\<forall>x. text x \<longrightarrow> unmarshal (marshal x) = Some x) \<and> (\<forall>d x. unmarshal d = Some x \<longrightarrow> text x)"

lemma json_readsD: "json_reads text marshal unmarshal \<Longrightarrow> text x \<Longrightarrow> unmarshal (marshal x) = Some x"
  by (simp add: json_reads_def)

lemma json_reads_text: "json_reads text marshal unmarshal \<Longrightarrow> unmarshal d = Some x \<Longrightarrow> text x"
  by (auto simp: json_reads_def)

text \<open>A stand-in for witnesses: the file holds the record itself, and one that is not text does not read.\<close>

definition read_if :: "('a \<Rightarrow> bool) \<Rightarrow> 'a \<Rightarrow> 'a option" where
  "read_if text x = (if text x then Some x else None)"

lemma json_reads_read_if [simp]: "json_reads text (\<lambda>x. x) (read_if text)"
  by (auto simp: json_reads_def read_if_def split: if_splits)

lemma ValidString_hex: "ValidString (hex_EncodeToString b)"
proof (rule ValidString_ascii)
  have "\<forall>c \<in> set hex_chars. of_char c < (128 :: nat)" by (simp add: hex_chars_def)
  then show "list_all (\<lambda>c. of_char c < (128 :: nat)) (hex_EncodeToString b)"
    using set_hex_EncodeToString [of b] by (auto simp: list_all_iff)
qed

lemma ValidString_Nil [simp]: "ValidString []"
  by (simp add: ValidString_ascii)

lemma ValidString_key: "key_of w = Some k \<Longrightarrow> ValidString w"
proof (rule ValidString_ascii)
  assume "key_of w = Some k"
  moreover have "\<forall>c \<in> set alphabet. of_char c < (128 :: nat)" by (simp add: alphabet_def)
  ultimately show "list_all (\<lambda>c. of_char c < (128 :: nat)) w" using key_of_alphabet by (auto simp: list_all_iff)
qed

lemma b64_ascii: "list_all (\<lambda>c. of_char c < (128 :: nat)) (b64_EncodeToString b)"
proof -
  have "\<forall>c \<in> set b64_chars. of_char c < (128 :: nat)" by (simp add: b64_chars_def)
  then have "of_char (b64_char n) < (128 :: nat)" if "n < 64" for n using b64_char_mem [OF that] by blast
  then show ?thesis by (induction b rule: b64_EncodeToString.induct) (simp_all add: b64_group_bounds)
qed

lemma ValidString_b64: "ValidString (b64_EncodeToString b)"
  by (rule ValidString_ascii [OF b64_ascii])

lemma ValidString_name: "list_all is_name_char s \<Longrightarrow> ValidString s"
proof (rule ValidString_ascii)
  have "of_char c < (128 :: nat)" if "is_name_char c" for c using that by (auto simp: is_name_char_def is_alnum_def Let_def)
  then show "list_all is_name_char s \<Longrightarrow> list_all (\<lambda>c. of_char c < (128 :: nat)) s" by (auto simp: list_all_iff)
qed

lemma b64_value_ascii: "b64_value c = Some n \<Longrightarrow> of_char c < (128 :: nat)"
proof -
  assume "b64_value c = Some n"
  then have "c \<in> set b64_chars" unfolding b64_value_def by (meson in_set_zipE map_of_SomeD)
  moreover have "\<forall>c \<in> set b64_chars. of_char c < (128 :: nat)" by (simp add: b64_chars_def)
  ultimately show ?thesis by blast
qed

lemma b64_quanta_ascii: "b64_quanta s = Some b \<Longrightarrow> list_all (\<lambda>c. of_char c < (128 :: nat)) s"
  by (induction s arbitrary: b rule: b64_quanta.induct) (auto dest: b64_value_ascii split: option.splits if_splits)

lemma ValidString_b64_decodes:
  assumes "b64_DecodeString s = Some b"
  shows "ValidString s"
proof (rule ValidString_ascii)
  have "list_all (\<lambda>c. of_char c < (128 :: nat)) (filter (\<lambda>c. c \<noteq> CHR 0x0A \<and> c \<noteq> CHR 0x0D) s)"
    using assms by (intro b64_quanta_ascii) (simp add: b64_DecodeString_def)
  then show "list_all (\<lambda>c. of_char c < (128 :: nat)) s" by (auto simp: list_all_iff)
qed

end
