(* ===== verification/Agent_Config.thy ===== *)
theory Agent_Config
  imports Json_Text Runs
begin

text \<open>
  The agent's persisted identity: \<^verbatim>\<open>go/internal/agent/store.go\<close> and \<open>RenameMachine\<close> and \<open>ValidMachineName\<close> of
  \<^verbatim>\<open>rename.go\<close>.

  The bytes of \<^verbatim>\<open>config.json\<close> are of an arbitrary type \<open>'f\<close>; \<open>marshal\<close> and \<open>unmarshal\<close> are \<open>json.MarshalIndent\<close> and
  \<open>json.Unmarshal\<close> of a \<open>Config\<close>, parameters of which the code relies on reading back what was written (\<open>json_faithful\<close>).
  The directory holds the configuration file and the temporary file of a save in progress. Every file operation can fail; a fault says
  which one. The Go maps are HOL maps, so the order of their entries does not matter.
\<close>

record Config =
  cHostPrivHex :: string
  cHostPubHex :: string
  cMachineID :: string
  cRegistrationSecret :: string
  cMachineName :: string
  cSignalURL :: string
  cPairedOwners :: "string list"
  cOwnerRegistry :: "string \<rightharpoonup> string"
  cOwnerRegistrationAuth :: "string \<rightharpoonup> string"

definition empty_config :: Config where
  "empty_config =
     \<lparr>cHostPrivHex = [], cHostPubHex = [], cMachineID = [], cRegistrationSecret = [], cMachineName = [], cSignalURL = [],
      cPairedOwners = [], cOwnerRegistry = Map.empty, cOwnerRegistrationAuth = Map.empty\<rparr>"

definition IsOwnerPinned :: "Config \<Rightarrow> string \<Rightarrow> bool" where
  "IsOwnerPinned c owner = list_ex (\<lambda>x. x = owner) (cPairedOwners c)"

definition HostPriv :: "Config \<Rightarrow> bytes option" where "HostPriv c = hex_DecodeString (cHostPrivHex c)"

definition HostPub :: "Config \<Rightarrow> bytes option" where "HostPub c = hex_DecodeString (cHostPubHex c)"

section \<open>Saving\<close>

datatype 'f tmp_file = NoTmp | Partial | Full 'f

record 'f agent_dir =
  ad_config :: "'f option"
  ad_tmp :: "'f tmp_file"

datatype save_fault = NoFault | CreateFails | WriteFails | ChmodFails | CloseFails | RenameFails

text \<open>
  \<open>save\<close>: whether it succeeds, and every state of the directory it goes through after the initial one, the last one included. A process
  that dies leaves one of them behind. A failing write leaves a partial temporary file; the deferred \<open>os.Remove\<close> comes last.
\<close>

definition save_states :: "(Config \<Rightarrow> 'f) \<Rightarrow> save_fault \<Rightarrow> Config \<Rightarrow> 'f agent_dir \<Rightarrow> bool \<times> 'f agent_dir list" where
  "save_states marshal fault c d =
     (let created = d\<lparr>ad_tmp := Partial\<rparr>; written = d\<lparr>ad_tmp := Full (marshal c)\<rparr>; removed = d\<lparr>ad_tmp := NoTmp\<rparr>
      in case fault of
           CreateFails \<Rightarrow> (False, [d])
         | WriteFails \<Rightarrow> (False, [created, removed])
         | ChmodFails \<Rightarrow> (False, [created, written, removed])
         | CloseFails \<Rightarrow> (False, [created, written, removed])
         | RenameFails \<Rightarrow> (False, [created, written, removed])
         | NoFault \<Rightarrow> (True, [created, written, \<lparr>ad_config = Some (marshal c), ad_tmp = NoTmp\<rparr>]))"

definition save :: "(Config \<Rightarrow> 'f) \<Rightarrow> save_fault \<Rightarrow> Config \<Rightarrow> 'f agent_dir \<Rightarrow> bool \<times> 'f agent_dir" where
  "save marshal fault c d = (let (ok, ds) = save_states marshal fault c d in (ok, last ds))"

section \<open>Loading\<close>

datatype config_error = NoDir | BadConfig | CannotRead | NoKey | NoRandom | CannotSave

text \<open>\<open>os.ReadFile\<close>; \<open>readable\<close> says whether an existing file can be read.\<close>

definition read_config :: "bool \<Rightarrow> 'f agent_dir \<Rightarrow> 'f option" where
  "read_config readable d = (if readable then ad_config d else None)"

definition ReloadOwners :: "('f \<Rightarrow> Config option) \<Rightarrow> bool \<Rightarrow> 'f agent_dir \<Rightarrow> config_error + string list" where
  "ReloadOwners unmarshal readable d =
     (case read_config readable d of
        None \<Rightarrow> Inl CannotRead
      | Some data \<Rightarrow> (case unmarshal data of None \<Rightarrow> Inl BadConfig | Some c \<Rightarrow> Inr (cPairedOwners c)))"

text \<open>
  What the random sources give to a start: the host key pair of \<open>noise.GenerateStatic\<close>, 8 bytes for the machine id and 32 bytes for the
  registration secret, none where the source fails.
\<close>

record entropy =
  en_static :: "(bytes \<times> bytes) option"
  en_id :: "bytes option"
  en_secret :: "bytes option"

definition with_host_key :: "entropy \<Rightarrow> Config \<Rightarrow> config_error + Config" where
  "with_host_key en c =
     (if cHostPrivHex c \<noteq> [] then Inr c
      else case en_static en of
             None \<Rightarrow> Inl NoKey
           | Some (priv, pub) \<Rightarrow> Inr (c\<lparr>cHostPrivHex := hex_EncodeToString priv, cHostPubHex := hex_EncodeToString pub\<rparr>))"

definition with_machine_id :: "entropy \<Rightarrow> Config \<Rightarrow> config_error + Config" where
  "with_machine_id en c =
     (if cMachineID c \<noteq> [] then Inr c
      else case en_id en of None \<Rightarrow> Inl NoRandom | Some b \<Rightarrow> Inr (c\<lparr>cMachineID := hex_EncodeToString b\<rparr>))"

definition with_secret :: "entropy \<Rightarrow> Config \<Rightarrow> config_error + Config" where
  "with_secret en c =
     (if cRegistrationSecret c \<noteq> [] then Inr c
      else case en_secret en of None \<Rightarrow> Inl NoRandom | Some b \<Rightarrow> Inr (c\<lparr>cRegistrationSecret := hex_EncodeToString b\<rparr>))"

definition sum_bind :: "'e + 'a \<Rightarrow> ('a \<Rightarrow> 'e + 'b) \<Rightarrow> 'e + 'b" where
  "sum_bind r f = (case r of Inl e \<Rightarrow> Inl e | Inr x \<Rightarrow> f x)"

definition loaded_config :: "('f \<Rightarrow> Config option) \<Rightarrow> bool \<Rightarrow> 'f agent_dir \<Rightarrow> config_error + Config" where
  "loaded_config unmarshal readable d =
     (case read_config readable d of
        None \<Rightarrow> Inr empty_config
      | Some data \<Rightarrow> (case unmarshal data of None \<Rightarrow> Inl BadConfig | Some c \<Rightarrow> Inr c))"

text \<open>\<open>LoadOrInit\<close>; \<open>mkdir\<close> says whether \<open>MkdirAll\<close> and \<open>Chmod\<close> succeed.\<close>

definition LoadOrInit ::
  "(Config \<Rightarrow> 'f) \<Rightarrow> ('f \<Rightarrow> Config option) \<Rightarrow> bool \<Rightarrow> bool \<Rightarrow> entropy \<Rightarrow> save_fault \<Rightarrow> string \<Rightarrow> string \<Rightarrow> 'f agent_dir \<Rightarrow>
   (config_error + Config) \<times> 'f agent_dir" where
  "LoadOrInit marshal unmarshal mkdir readable en fault machineName signalURL d =
     (if \<not> mkdir then (Inl NoDir, d)
      else case sum_bind (loaded_config unmarshal readable d)
                  (\<lambda>c. sum_bind (with_host_key en c) (\<lambda>c. sum_bind (with_machine_id en c) (with_secret en))) of
             Inl e \<Rightarrow> (Inl e, d)
           | Inr c \<Rightarrow>
               let c' = c\<lparr>cMachineName := machineName, cSignalURL := signalURL\<rparr>;
                   (ok, d') = save marshal fault c' d
               in (if ok then Inr c' else Inl CannotSave, d'))"

section \<open>Updating\<close>

text \<open>\<open>ProvisionOwner\<close> and \<open>RenameMachine\<close> read the file, change the configuration and save it.\<close>

definition provision :: "string \<Rightarrow> string \<Rightarrow> string \<Rightarrow> Config \<Rightarrow> Config" where
  "provision owner blob auth c =
     c\<lparr>cPairedOwners := (if IsOwnerPinned c owner then cPairedOwners c else cPairedOwners c @ [owner]),
       cOwnerRegistry := (if blob \<noteq> [] then (cOwnerRegistry c)(owner \<mapsto> blob) else cOwnerRegistry c),
       cOwnerRegistrationAuth := (if auth \<noteq> [] then (cOwnerRegistrationAuth c)(owner \<mapsto> auth) else cOwnerRegistrationAuth c)\<rparr>"

definition renamed :: "string \<Rightarrow> string \<Rightarrow> string \<Rightarrow> Config \<Rightarrow> Config" where
  "renamed owner name blob c = c\<lparr>cMachineName := name, cOwnerRegistry := (cOwnerRegistry c)(owner \<mapsto> blob)\<rparr>"

definition update_config ::
  "(Config \<Rightarrow> 'f) \<Rightarrow> ('f \<Rightarrow> Config option) \<Rightarrow> bool \<Rightarrow> save_fault \<Rightarrow> (Config \<Rightarrow> Config) \<Rightarrow> 'f agent_dir \<Rightarrow>
   config_error option \<times> 'f agent_dir" where
  "update_config marshal unmarshal readable fault f d =
     (case read_config readable d of
        None \<Rightarrow> (Some CannotRead, d)
      | Some data \<Rightarrow>
          (case unmarshal data of
             None \<Rightarrow> (Some BadConfig, d)
           | Some c \<Rightarrow> let (ok, d') = save marshal fault (f c) d in (if ok then None else Some CannotSave, d')))"

definition ProvisionOwner ::
  "(Config \<Rightarrow> 'f) \<Rightarrow> ('f \<Rightarrow> Config option) \<Rightarrow> bool \<Rightarrow> save_fault \<Rightarrow> string \<Rightarrow> string \<Rightarrow> string \<Rightarrow> 'f agent_dir \<Rightarrow>
   config_error option \<times> 'f agent_dir" where
  "ProvisionOwner marshal unmarshal readable fault owner blob auth d =
     update_config marshal unmarshal readable fault (provision owner blob auth) d"

definition PinOwner ::
  "(Config \<Rightarrow> 'f) \<Rightarrow> ('f \<Rightarrow> Config option) \<Rightarrow> bool \<Rightarrow> save_fault \<Rightarrow> string \<Rightarrow> 'f agent_dir \<Rightarrow> config_error option \<times> 'f agent_dir" where
  "PinOwner marshal unmarshal readable fault owner d = ProvisionOwner marshal unmarshal readable fault owner [] [] d"

definition RenameMachine ::
  "(Config \<Rightarrow> 'f) \<Rightarrow> ('f \<Rightarrow> Config option) \<Rightarrow> bool \<Rightarrow> save_fault \<Rightarrow> string \<Rightarrow> string \<Rightarrow> string \<Rightarrow> 'f agent_dir \<Rightarrow>
   config_error option \<times> 'f agent_dir" where
  "RenameMachine marshal unmarshal readable fault owner name blob d =
     update_config marshal unmarshal readable fault (renamed owner name blob) d"

section \<open>Reading single values\<close>

definition RegistryForOwner :: "('f \<Rightarrow> Config option) \<Rightarrow> bool \<Rightarrow> 'f agent_dir \<Rightarrow> string \<Rightarrow> string" where
  "RegistryForOwner unmarshal readable d owner =
     (case read_config readable d of
        None \<Rightarrow> []
      | Some data \<Rightarrow>
          (case unmarshal data of
             None \<Rightarrow> []
           | Some c \<Rightarrow> (case cOwnerRegistry c owner of None \<Rightarrow> [] | Some blob \<Rightarrow> blob)))"

definition RegistrationAuthForOwner :: "('f \<Rightarrow> Config option) \<Rightarrow> bool \<Rightarrow> 'f agent_dir \<Rightarrow> string \<Rightarrow> string" where
  "RegistrationAuthForOwner unmarshal readable d owner =
     (case read_config readable d of
        None \<Rightarrow> []
      | Some data \<Rightarrow>
          (case unmarshal data of
             None \<Rightarrow> []
           | Some c \<Rightarrow> (case cOwnerRegistrationAuth c owner of None \<Rightarrow> [] | Some auth \<Rightarrow> auth)))"

definition RegistrationCommitment :: "Config \<Rightarrow> string option" where
  "RegistrationCommitment c =
     (case hex_DecodeString (cRegistrationSecret c) of
        None \<Rightarrow> None
      | Some secret \<Rightarrow> if length secret \<noteq> 32 then None else Some (hex_EncodeToString (sha256 secret)))"

text \<open>\<open>ValidMachineName\<close> of \<^verbatim>\<open>rename.go\<close>.\<close>

definition ValidMachineName :: "string \<Rightarrow> bool" where
  "ValidMachineName name \<longleftrightarrow>
     name \<noteq> [] \<and> name = TrimSpace name \<and> RuneCountInString name \<le> 64 \<and>
     list_all (\<lambda>r. \<not> (IsControl r \<or> r = rune_error)) (runes name)"

section \<open>What JSON promises\<close>

text \<open>\<open>encoding/json\<close> keeps strings of valid UTF-8; other bytes would be replaced.\<close>

definition map_text :: "(string \<rightharpoonup> string) \<Rightarrow> bool" where
  "map_text m \<longleftrightarrow> (\<forall>k v. m k = Some v \<longrightarrow> ValidString k \<and> ValidString v)"

definition config_text :: "Config \<Rightarrow> bool" where
  "config_text c \<longleftrightarrow>
     ValidString (cHostPrivHex c) \<and> ValidString (cHostPubHex c) \<and> ValidString (cMachineID c) \<and>
     ValidString (cRegistrationSecret c) \<and> ValidString (cMachineName c) \<and> ValidString (cSignalURL c) \<and>
     list_all ValidString (cPairedOwners c) \<and> map_text (cOwnerRegistry c) \<and> map_text (cOwnerRegistrationAuth c)"

definition json_faithful :: "(Config \<Rightarrow> 'f) \<Rightarrow> ('f \<Rightarrow> Config option) \<Rightarrow> bool" where
  "json_faithful marshal unmarshal \<longleftrightarrow> (\<forall>c. config_text c \<longrightarrow> unmarshal (marshal c) = Some c)"

text \<open>The directory holds a configuration.\<close>

definition holds :: "('f \<Rightarrow> Config option) \<Rightarrow> 'f agent_dir \<Rightarrow> Config \<Rightarrow> bool" where
  "holds unmarshal d c \<longleftrightarrow> (case ad_config d of None \<Rightarrow> False | Some data \<Rightarrow> unmarshal data = Some c)"

lemma map_text_upd: "map_text m \<Longrightarrow> ValidString k \<Longrightarrow> ValidString v \<Longrightarrow> map_text (m(k \<mapsto> v))"
  by (auto simp: map_text_def)

section \<open>What a change keeps\<close>

text \<open>Host key, machine id and secret stay once they are set, and owners are only added.\<close>

definition set_once :: "string \<Rightarrow> string \<Rightarrow> bool" where
  "set_once a b \<longleftrightarrow> a \<noteq> [] \<longrightarrow> b = a"

definition extends :: "Config \<Rightarrow> Config \<Rightarrow> bool" where
  "extends c c' \<longleftrightarrow>
     (cHostPrivHex c \<noteq> [] \<longrightarrow> cHostPrivHex c' = cHostPrivHex c \<and> cHostPubHex c' = cHostPubHex c) \<and>
     set_once (cMachineID c) (cMachineID c') \<and> set_once (cRegistrationSecret c) (cRegistrationSecret c') \<and>
     (\<exists>xs. cPairedOwners c' = cPairedOwners c @ xs)"

lemma extends_refl [simp]: "extends c c"
  by (simp add: extends_def set_once_def)

lemma extends_trans: "extends a b \<Longrightarrow> extends b c \<Longrightarrow> extends a c"
  by (auto simp: extends_def set_once_def)

lemma provision_extends: "extends c (provision owner blob auth c)"
  by (auto simp: extends_def set_once_def provision_def)

lemma renamed_extends: "extends c (renamed owner name blob c)"
  by (simp add: extends_def set_once_def renamed_def)

lemma provision_text:
  "config_text c \<Longrightarrow> ValidString owner \<Longrightarrow> ValidString blob \<Longrightarrow> ValidString auth \<Longrightarrow> config_text (provision owner blob auth c)"
  by (auto simp: config_text_def provision_def intro: map_text_upd)

lemma renamed_text:
  "config_text c \<Longrightarrow> ValidString owner \<Longrightarrow> ValidString name \<Longrightarrow> ValidString blob \<Longrightarrow> config_text (renamed owner name blob c)"
  by (auto simp: config_text_def renamed_def intro: map_text_upd)

text \<open>The three steps that complete a configuration at a start.\<close>

definition completed :: "entropy \<Rightarrow> Config \<Rightarrow> config_error + Config" where
  "completed en c = sum_bind (with_host_key en c) (\<lambda>c. sum_bind (with_machine_id en c) (with_secret en))"

lemma sum_bind_Inr: "sum_bind r f = Inr y \<longleftrightarrow> (\<exists>x. r = Inr x \<and> f x = Inr y)"
  by (auto simp: sum_bind_def split: sum.splits)

lemma with_host_key_extends: "with_host_key en c = Inr c' \<Longrightarrow> extends c c' \<and> (config_text c \<longrightarrow> config_text c')"
  by (auto simp: with_host_key_def extends_def set_once_def config_text_def ValidString_hex split: if_splits option.splits)

lemma with_machine_id_extends: "with_machine_id en c = Inr c' \<Longrightarrow> extends c c' \<and> (config_text c \<longrightarrow> config_text c')"
  by (auto simp: with_machine_id_def extends_def set_once_def config_text_def ValidString_hex split: if_splits option.splits)

lemma with_secret_extends: "with_secret en c = Inr c' \<Longrightarrow> extends c c' \<and> (config_text c \<longrightarrow> config_text c')"
  by (auto simp: with_secret_def extends_def set_once_def config_text_def ValidString_hex split: if_splits option.splits)

lemma completed_extends: "completed en c = Inr c' \<Longrightarrow> extends c c' \<and> (config_text c \<longrightarrow> config_text c')"
proof -
  assume "completed en c = Inr c'"
  then obtain c1 c2 where "with_host_key en c = Inr c1" "with_machine_id en c1 = Inr c2" "with_secret en c2 = Inr c'"
    unfolding completed_def sum_bind_Inr by blast
  then show ?thesis
    using with_host_key_extends [of en c c1] with_machine_id_extends [of en c1 c2] with_secret_extends [of en c2 c'] extends_trans by blast
qed

lemma completed_set:
  assumes "completed en c = Inr c'" "en_static en = Some (priv, pub)" "en_id en = Some i" "en_secret en = Some s"
    and "priv \<noteq> []" "i \<noteq> []" "s \<noteq> []"
  shows "cHostPrivHex c' \<noteq> [] \<and> cMachineID c' \<noteq> [] \<and> cRegistrationSecret c' \<noteq> []"
proof -
  have "hex_EncodeToString b \<noteq> []" if "b \<noteq> []" for b using that by (cases b) simp_all
  with assms show ?thesis
    by (auto simp: completed_def sum_bind_Inr with_host_key_def with_machine_id_def with_secret_def split: if_splits)
qed

lemma LoadOrInit_completed:
  "LoadOrInit marshal unmarshal mkdir readable en fault machineName signalURL d =
     (if \<not> mkdir then (Inl NoDir, d)
      else case sum_bind (loaded_config unmarshal readable d) (completed en) of
             Inl e \<Rightarrow> (Inl e, d)
           | Inr c \<Rightarrow>
               let c' = c\<lparr>cMachineName := machineName, cSignalURL := signalURL\<rparr>; (ok, d') = save marshal fault c' d
               in (if ok then Inr c' else Inl CannotSave, d'))"
  by (simp add: LoadOrInit_def completed_def [abs_def])

lemma save_result:
  "save marshal fault c d = (ok, d') \<Longrightarrow>
     ok = (fault = NoFault) \<and> ad_config d' = (if ok then Some (marshal c) else ad_config d)"
  by (cases fault) (auto simp: save_def save_states_def Let_def)

lemma save_states_config: "e \<in> set (snd (save_states marshal fault c d)) \<Longrightarrow> ad_config e \<in> {ad_config d, Some (marshal c)}"
  by (cases fault) (auto simp: save_states_def Let_def)

section \<open>Runs of the agent's directory\<close>

text \<open>
  A change of the directory writes a configuration obtained from the one it holds, by a start, a pairing or a rename, with any fault; the
  process may also die at any point of the save.
\<close>

inductive config_change :: "Config \<Rightarrow> Config \<Rightarrow> bool" where
  start: "completed en c = Inr c1 \<Longrightarrow> ValidString name \<Longrightarrow> ValidString url \<Longrightarrow>
    config_change c (c1\<lparr>cMachineName := name, cSignalURL := url\<rparr>)"
| pair: "ValidString owner \<Longrightarrow> ValidString blob \<Longrightarrow> ValidString auth \<Longrightarrow> config_change c (provision owner blob auth c)"
| rename: "ValidString owner \<Longrightarrow> ValidString name \<Longrightarrow> ValidString blob \<Longrightarrow> config_change c (renamed owner name blob c)"

inductive config_step :: "(Config \<Rightarrow> 'f) \<Rightarrow> ('f \<Rightarrow> Config option) \<Rightarrow> 'f agent_dir \<Rightarrow> 'f agent_dir \<Rightarrow> bool" for marshal unmarshal where
  loaded: "ValidString name \<Longrightarrow> ValidString url \<Longrightarrow> LoadOrInit marshal unmarshal mkdir True en fault name url d = (r, d') \<Longrightarrow>
    config_step marshal unmarshal d d'"
| provisioned: "ValidString owner \<Longrightarrow> ValidString blob \<Longrightarrow> ValidString auth \<Longrightarrow>
    ProvisionOwner marshal unmarshal readable fault owner blob auth d = (e, d') \<Longrightarrow> config_step marshal unmarshal d d'"
| named: "ValidString owner \<Longrightarrow> ValidString name \<Longrightarrow> ValidString blob \<Longrightarrow>
    RenameMachine marshal unmarshal readable fault owner name blob d = (e, d') \<Longrightarrow> config_step marshal unmarshal d d'"
| died: "holds unmarshal d c \<Longrightarrow> config_change c c' \<Longrightarrow> d' \<in> set (snd (save_states marshal fault c' d)) \<Longrightarrow>
    config_step marshal unmarshal d d'"

lemma config_change_extends:
  "config_change c c' \<Longrightarrow> extends c c' \<and> (config_text c \<longrightarrow> config_text c')"
proof (induction rule: config_change.induct)
  case (start en c c1 name url)
  then have "extends c c1 \<and> (config_text c \<longrightarrow> config_text c1)" by (simp add: completed_extends)
  with start show ?case by (simp add: extends_def config_text_def)
next
  case (pair owner blob auth c)
  then show ?case using provision_extends provision_text by blast
next
  case (rename owner name blob c)
  then show ?case using renamed_extends renamed_text by blast
qed

text \<open>What every step writes: nothing, or a change of the configuration the directory holds.\<close>

lemma update_config_step:
  assumes "update_config marshal unmarshal readable fault f d = (e, d')" "holds unmarshal d c"
  shows "ad_config d' \<in> {ad_config d, Some (marshal (f c))}"
proof -
  from assms(2) obtain data where data: "ad_config d = Some data" "unmarshal data = Some c"
    by (auto simp: holds_def split: option.splits)
  with assms(1) show ?thesis
    by (cases "save marshal fault (f c) d")
      (auto simp: update_config_def read_config_def dest!: save_result split: if_splits)
qed

lemma config_step_change:
  assumes "config_step marshal unmarshal d d'" "holds unmarshal d c"
  shows "ad_config d' = ad_config d \<or> (\<exists>c'. config_change c c' \<and> ad_config d' = Some (marshal c'))"
  using assms
proof (induction rule: config_step.induct)
  case (loaded name url mkdir en fault d r d')
  then have lc: "loaded_config unmarshal True d = Inr c"
    by (auto simp: holds_def loaded_config_def read_config_def split: option.splits)
  show ?case
  proof (cases "mkdir \<and> (\<exists>c1. completed en c = Inr c1)")
    case True
    then obtain c1 where c1: "completed en c = Inr c1" by blast
    obtain ok d1 where s: "save marshal fault (c1\<lparr>cMachineName := name, cSignalURL := url\<rparr>) d = (ok, d1)" by fastforce
    with loaded.hyps(3) True c1 lc have "d' = d1" by (simp add: LoadOrInit_completed sum_bind_def)
    then show ?thesis using save_result [OF s] config_change.start [OF c1 loaded.hyps(1,2)] by auto
  next
    case False
    then have "d' = d" using loaded.hyps(3) lc
      by (cases "completed en c") (auto simp: LoadOrInit_completed sum_bind_def split: if_splits)
    then show ?thesis by simp
  qed
next
  case (provisioned owner blob auth readable fault d e d')
  then show ?case
    using update_config_step [of marshal unmarshal readable fault "provision owner blob auth" d e d' c] config_change.pair
    by (fastforce simp: ProvisionOwner_def)
next
  case (named owner name blob readable fault d e d')
  then show ?case
    using update_config_step [of marshal unmarshal readable fault "renamed owner name blob" d e d' c] config_change.rename
    by (fastforce simp: RenameMachine_def)
next
  case (died d c0 c' d' fault)
  then have "c0 = c" by (auto simp: holds_def split: option.splits)
  with died show ?case using save_states_config by fastforce
qed

lemma config_step_extends:
  assumes "json_faithful marshal unmarshal" "config_step marshal unmarshal d d'" "holds unmarshal d c" "config_text c"
  shows "\<exists>c'. holds unmarshal d' c' \<and> config_text c' \<and> extends c c'"
  using config_step_change [OF assms(2,3)]
proof
  assume "ad_config d' = ad_config d"
  then show ?thesis using assms(3,4) extends_refl by (auto simp: holds_def)
next
  assume "\<exists>c'. config_change c c' \<and> ad_config d' = Some (marshal c')"
  then obtain c' where "config_change c c'" "ad_config d' = Some (marshal c')" by blast
  then show ?thesis using config_change_extends [of c c'] assms(1,4) by (auto simp: holds_def json_faithful_def)
qed

text \<open>The directory holds a configuration that extends a given one, as long as JSON is faithful.\<close>

definition holds_extension :: "(Config \<Rightarrow> 'f) \<Rightarrow> ('f \<Rightarrow> Config option) \<Rightarrow> Config \<Rightarrow> 'f agent_dir \<Rightarrow> bool" where
  "holds_extension marshal unmarshal c d \<longleftrightarrow>
     (json_faithful marshal unmarshal \<longrightarrow> (\<exists>c'. holds unmarshal d c' \<and> config_text c' \<and> extends c c'))"

interpretation config_runs: step_invariant "config_step marshal unmarshal" "holds_extension marshal unmarshal c" for marshal unmarshal c
  by unfold_locales (unfold holds_extension_def, blast dest: config_step_extends extends_trans)

lemma config_run_extends:
  assumes "json_faithful marshal unmarshal" "(config_step marshal unmarshal)\<^sup>*\<^sup>* d d'" "holds unmarshal d c" "config_text c"
  shows "\<exists>c'. holds unmarshal d' c' \<and> config_text c' \<and> extends c c'"
  using config_runs.run_keeps [OF assms(2), of c] assms(1,3,4) extends_refl unfolding holds_extension_def by blast

lemma ValidMachineName_text: "ValidMachineName name \<Longrightarrow> ValidString name"
  by (auto simp: ValidMachineName_def ValidString_def runes_def list_all_iff)

section \<open>Properties\<close>


definition demo_config :: Config where
  "demo_config = empty_config\<lparr>cHostPrivHex := ''aa'', cHostPubHex := ''bb'', cMachineID := ''m1'', cRegistrationSecret := ''cc''\<rparr>"

lemma demo_config_text: "config_text demo_config"
  by (simp add: config_text_def demo_config_def empty_config_def map_text_def ValidString_ascii)

lemma json_faithful_id: "json_faithful (\<lambda>c. c) Some"
  by (simp add: json_faithful_def)


text \<open>
  A successful pairing is in force at once and touches nothing else: the owner is among the owners the running agent reloads,
  with the registry record and the authorization it brought (the stored ones when it brought none), the other owners keep their pins,
  records and authorizations, and pairing the same owner again with the same data changes nothing.
\<close>

theorem pairing_in_force:
  assumes "json_faithful marshal unmarshal" "holds unmarshal d c" "config_text c"
    and "ValidString owner" "ValidString blob" "ValidString auth"
    and "ProvisionOwner marshal unmarshal True fault owner blob auth d = (None, d')"
  shows "(\<exists>owners. ReloadOwners unmarshal True d' = Inr owners \<and> set owners = insert owner (set (cPairedOwners c)) \<and>
            (distinct owners \<longleftrightarrow> distinct (cPairedOwners c))) \<and>
    (\<forall>o'. RegistryForOwner unmarshal True d' o' = (if o' = owner \<and> blob \<noteq> [] then blob else RegistryForOwner unmarshal True d o')) \<and>
    (\<forall>o'. RegistrationAuthForOwner unmarshal True d' o' =
            (if o' = owner \<and> auth \<noteq> [] then auth else RegistrationAuthForOwner unmarshal True d o')) \<and>
    ad_config (snd (ProvisionOwner marshal unmarshal True NoFault owner blob auth d')) = ad_config d'"
proof -
  let ?c' = "provision owner blob auth c"
  from assms(2) obtain data where data: "ad_config d = Some data" "unmarshal data = Some c"
    by (auto simp: holds_def split: option.splits)
  obtain ok d1 where s: "save marshal fault ?c' d = (ok, d1)" by fastforce
  with assms(7) data have "ok" "d' = d1"
    by (auto simp: ProvisionOwner_def update_config_def read_config_def split: if_splits)
  then have d': "ad_config d' = Some (marshal ?c')" using save_result [OF s] by simp
  have u: "unmarshal (marshal ?c') = Some ?c'" using assms(1) provision_text [OF assms(3-6)] by (simp add: json_faithful_def)
  have idem: "provision owner blob auth ?c' = ?c'"
    by (auto simp: provision_def IsOwnerPinned_def list_ex_iff)
  have "ad_config (snd (ProvisionOwner marshal unmarshal True NoFault owner blob auth d')) = ad_config d'"
    using d' u idem by (simp add: ProvisionOwner_def update_config_def read_config_def save_def save_states_def)
  moreover have "ReloadOwners unmarshal True d' = Inr (cPairedOwners ?c')"
    by (simp add: ReloadOwners_def read_config_def d' u)
  moreover have "set (cPairedOwners ?c') = insert owner (set (cPairedOwners c))" "distinct (cPairedOwners ?c') \<longleftrightarrow> distinct (cPairedOwners c)"
    by (auto simp: provision_def IsOwnerPinned_def list_ex_iff)
  ultimately show ?thesis
    using data d' u by (auto simp: RegistryForOwner_def RegistrationAuthForOwner_def read_config_def provision_def)
qed

theorem pairing_in_force_witness:
  "\<exists>d'. ProvisionOwner (\<lambda>c. c) Some True NoFault ''o'' ''b'' ''a'' \<lparr>ad_config = Some demo_config, ad_tmp = NoTmp\<rparr> = (None, d') \<and>
     RegistrationAuthForOwner Some True d' ''o'' = ''a''"
proof -
  let ?d = "\<lparr>ad_config = Some demo_config, ad_tmp = NoTmp\<rparr>"
  have h: "holds Some ?d demo_config" by (simp add: holds_def)
  have v: "ValidString ''o''" "ValidString ''b''" "ValidString ''a''" by (simp_all add: ValidString_ascii)
  obtain d' where p: "ProvisionOwner (\<lambda>c. c) Some True NoFault ''o'' ''b'' ''a'' ?d = (None, d')"
    by (simp add: ProvisionOwner_def update_config_def read_config_def save_def save_states_def)
  have "RegistrationAuthForOwner Some True d' ''o'' = ''a''"
    using pairing_in_force [OF json_faithful_id h demo_config_text v p] by simp
  with p show ?thesis by blast
qed

text \<open>
  A name persisted by a rename does not survive the next start: \<open>LoadOrInit\<close> writes the name of its argument (the host name, unless a
  flag gives another) over the stored one.
\<close>

lemma rename_lost_at_restart:
  assumes "LoadOrInit marshal unmarshal True readable en fault name url d = (Inr c, d')"
  shows "cMachineName c = name \<and> ad_config d' = Some (marshal c)"
proof -
  from assms obtain c0 where c0: "sum_bind (loaded_config unmarshal readable d) (completed en) = Inr c0"
    by (auto simp: LoadOrInit_completed split: sum.splits)
  obtain ok d1 where s: "save marshal fault (c0\<lparr>cMachineName := name, cSignalURL := url\<rparr>) d = (ok, d1)" by fastforce
  with assms c0 have "ok" "c = c0\<lparr>cMachineName := name, cSignalURL := url\<rparr>" "d' = d1"
    by (auto simp: LoadOrInit_completed split: if_splits)
  then show ?thesis using save_result [OF s] by simp
qed

text \<open>
  A configuration file that exists but cannot be read is taken for a first start: the agent gets a new host key, machine id and
  secret, no owner is pinned any more, and the file is replaced.
\<close>

lemma unreadable_config_replaced:
  assumes "en_static en = Some (priv, pub)" "en_id en = Some i" "en_secret en = Some sec"
  shows "LoadOrInit marshal unmarshal True False en NoFault name url d =
    (let c = empty_config\<lparr>cHostPrivHex := hex_EncodeToString priv, cHostPubHex := hex_EncodeToString pub,
                          cMachineID := hex_EncodeToString i, cRegistrationSecret := hex_EncodeToString sec,
                          cMachineName := name, cSignalURL := url\<rparr>
     in (Inr c, \<lparr>ad_config = Some (marshal c), ad_tmp = NoTmp\<rparr>))"
  using assms
  by (simp add: LoadOrInit_def loaded_config_def read_config_def sum_bind_def with_host_key_def with_machine_id_def with_secret_def
      empty_config_def save_def save_states_def Let_def)

end
