(* ===== verification/Frames.thy ===== *)
theory Frames
  imports Go_Prelude
begin

text \<open>
  The frames inside the Noise channel: \<^verbatim>\<open>go/internal/noise/frame.go\<close>. A frame is a tag byte and a payload; the terminal size travels as two
  big-endian 16-bit numbers.
\<close>

definition FrameData :: byte where "FrameData = 1"
definition FrameResize :: byte where "FrameResize = 2"
definition FrameHello :: byte where "FrameHello = 3"
definition FrameWindows :: byte where "FrameWindows = 4"
definition FrameControl :: byte where "FrameControl = 5"

lemmas Frame_defs = FrameData_def FrameResize_def FrameHello_def FrameWindows_def FrameControl_def

definition EncodeData :: "bytes \<Rightarrow> bytes" where "EncodeData b = FrameData # b"

text \<open>\<open>binary.BigEndian.PutUint16\<close> and \<open>Uint16\<close>.\<close>

definition put16 :: "16 word \<Rightarrow> bytes" where
  "put16 v = [ucast (drop_bit 8 v), ucast v]"

definition uint16 :: "byte \<Rightarrow> byte \<Rightarrow> 16 word" where
  "uint16 hi lo = or (ucast lo) (push_bit 8 (ucast hi))"

definition EncodeResize :: "16 word \<Rightarrow> 16 word \<Rightarrow> bytes" where
  "EncodeResize cols rows = FrameResize # put16 cols @ put16 rows"

definition EncodeHello :: "bytes \<Rightarrow> bytes" where "EncodeHello b = FrameHello # b"
definition EncodeWindows :: "bytes \<Rightarrow> bytes" where "EncodeWindows b = FrameWindows # b"
definition EncodeControl :: "bytes \<Rightarrow> bytes" where "EncodeControl b = FrameControl # b"

fun DecodeFrame :: "bytes \<Rightarrow> (byte \<times> bytes) option" where
  "DecodeFrame [] = None"
| "DecodeFrame (t # b) = Some (t, b)"

fun DecodeResize :: "bytes \<Rightarrow> (16 word \<times> 16 word) option" where
  "DecodeResize [a, b, c, d] = Some (uint16 a b, uint16 c d)"
| "DecodeResize p = None"

lemma uint16_put16: "uint16 (ucast (drop_bit 8 (v :: 16 word))) (ucast v) = v"
  by (rule bit_word_eqI) (auto simp: uint16_def bit_or_iff bit_push_bit_iff bit_ucast_iff bit_drop_bit_eq)

lemma put16_uint16: "put16 (uint16 a b) = [a, b]"
proof -
  have "\<not> bit b (8 + n)" for n using bit_imp_le_length [of b "8 + n"] by auto
  then show ?thesis
    by (auto simp: put16_def uint16_def bit_or_iff bit_push_bit_iff bit_ucast_iff bit_drop_bit_eq intro!: bit_word_eqI)
qed

lemma DecodeResize_Some: "DecodeResize p = Some (cols, rows) \<Longrightarrow> p = put16 cols @ put16 rows"
  by (cases p rule: DecodeResize.cases) (auto simp: put16_uint16)

text \<open>
  Frames decode to what was encoded: every encoder's frame splits into its own tag and its payload, a resize payload gives back both
  sizes at full 16-bit width, and no payload other than the encoding of a size is read as that size.
\<close>

theorem frame_roundtrip:
  "DecodeFrame (EncodeData b) = Some (FrameData, b) \<and> DecodeFrame (EncodeHello b) = Some (FrameHello, b) \<and>
   DecodeFrame (EncodeWindows b) = Some (FrameWindows, b) \<and> DecodeFrame (EncodeControl b) = Some (FrameControl, b) \<and>
   DecodeFrame (EncodeResize cols rows) = Some (FrameResize, tl (EncodeResize cols rows)) \<and>
   distinct [FrameData, FrameResize, FrameHello, FrameWindows, FrameControl] \<and>
   (DecodeResize p = Some (cols, rows) \<longleftrightarrow> p = tl (EncodeResize cols rows))"
proof -
  have "DecodeResize p = Some (cols, rows) \<longleftrightarrow> p = put16 cols @ put16 rows"
    using DecodeResize_Some by (auto simp: put16_def uint16_put16)
  then show ?thesis
    by (simp add: EncodeData_def EncodeHello_def EncodeWindows_def EncodeControl_def EncodeResize_def Frame_defs)
qed

end
