(* ===== verification/Agent_Control.thy ===== *)
theory Agent_Control
  imports Agent_Config Agent_Attach Frames
begin

text \<open>
  What a session may do to the agent: the rename handler and the live name of \<^verbatim>\<open>go/internal/agent/rename.go\<close>, \<open>chainControl\<close> of
  \<^verbatim>\<open>grants.go\<close>, the frame loops of \<^verbatim>\<open>session.go\<close> and \<^verbatim>\<open>guest.go\<close>, and the composition of the handlers in \<open>serveAuthenticated\<close>.

  The state gathers what the handlers of an owner session touch. A signaling connection is a number, and what is written to it is
  recorded. The JSON decoders of the three control messages are parameters \<open>decR\<close>, \<open>decG\<close> and \<open>decV\<close> that give the fields they read.
\<close>

record 'f agent_state =
  as_config :: "'f agent_dir"
  as_grants :: grant_dir
  as_guests :: guestRegistry
  as_cancelled :: "nat list"
  as_name :: string
  as_writers :: "(string, nat) gomap"
  as_written :: "(nat \<times> SignalMsg) list"

text \<open>The failures one message can meet, and the time.\<close>

record world =
  w_readable :: bool
  w_save :: save_fault
  w_mkdir :: bool
  w_grant :: "string write_outcome"
  w_tomb :: "string list option write_outcome"
  w_remove :: bool
  w_now :: time

section \<open>The live name\<close>

definition machineName :: "string \<Rightarrow> 'f agent_state \<Rightarrow> string" where
  "machineName boot st = (if as_name st \<noteq> [] then as_name st else boot)"

definition setMachineName :: "string \<Rightarrow> 'f agent_state \<Rightarrow> 'f agent_state" where
  "setMachineName name st = st\<lparr>as_name := name\<rparr>"

definition registerSignaling :: "string \<Rightarrow> nat \<Rightarrow> 'f agent_state \<Rightarrow> 'f agent_state" where
  "registerSignaling owner conn st = st\<lparr>as_writers := mput (as_writers st) owner conn\<rparr>"

text \<open>The function \<open>registerSignaling\<close> returns.\<close>

definition unregisterSignaling :: "string \<Rightarrow> nat \<Rightarrow> 'f agent_state \<Rightarrow> 'f agent_state" where
  "unregisterSignaling owner conn st =
     (if mget (as_writers st) owner = Some conn then st\<lparr>as_writers := mdel (as_writers st) owner\<rparr> else st)"

definition republishRegistry :: "('f \<Rightarrow> Config option) \<Rightarrow> bool \<Rightarrow> string \<Rightarrow> 'f agent_state \<Rightarrow> 'f agent_state" where
  "republishRegistry unmarshal readable owner st =
     (case mget (as_writers st) owner of
        None \<Rightarrow> st
      | Some conn \<Rightarrow>
          let blob = RegistryForOwner unmarshal readable (as_config st) owner
          in if blob = [] then st
             else st\<lparr>as_written := as_written st @ [(conn, msg0\<lparr>smType := TypeRegistry, smRegistry := blob\<rparr>)]\<rparr>)"

section \<open>Control handlers\<close>

definition maxRenameBlobBytes :: nat where "maxRenameBlobBytes = 16 * 1024"

definition renameHandler ::
  "(Config \<Rightarrow> 'f) \<Rightarrow> ('f \<Rightarrow> Config option) \<Rightarrow> (bytes \<Rightarrow> (string \<times> string \<times> string) option) \<Rightarrow> world \<Rightarrow> string \<Rightarrow> bytes \<Rightarrow>
   'f agent_state \<Rightarrow> control_answer \<times> 'f agent_state" where
  "renameHandler marshal unmarshal decR w owner payload st =
     (case decR payload of
        None \<Rightarrow> (NotHandled, st)
      | Some (a, name, blob) \<Rightarrow>
          if a \<noteq> ''rename-machine'' then (NotHandled, st)
          else if \<not> ValidMachineName name \<or> blob = [] then (Swallowed, st)
          else case b64_DecodeString blob of
                 None \<Rightarrow> (Swallowed, st)
               | Some raw \<Rightarrow>
                   if length raw = 0 \<or> length raw > maxRenameBlobBytes then (Swallowed, st)
                   else
                     let (e, d) = RenameMachine marshal unmarshal (w_readable w) (w_save w) owner name blob (as_config st);
                         st = st\<lparr>as_config := d\<rparr>
                     in if e \<noteq> None then (Swallowed, st)
                        else (HelloName name, republishRegistry unmarshal (w_readable w) owner (setMachineName name st)))"

definition addGrantControl ::
  "(bytes \<Rightarrow> bytes \<Rightarrow> bytes \<Rightarrow> bool) \<Rightarrow> (string \<Rightarrow> wireGrant option) \<Rightarrow> (bytes \<Rightarrow> (string \<times> string) option) \<Rightarrow> string \<Rightarrow> world \<Rightarrow> string \<Rightarrow>
   bytes \<Rightarrow> 'f agent_state \<Rightarrow> control_answer \<times> 'f agent_state" where
  "addGrantControl verify unmarshalG decG machine w owner payload st =
     (let (a, d) = grantHandler verify unmarshalG owner machine (w_mkdir w) (w_grant w) (w_now w) (decG payload) (as_grants st)
      in (a, st\<lparr>as_grants := d\<rparr>))"

definition revokeGrantControl ::
  "(string \<Rightarrow> wireGrant option) \<Rightarrow> (bytes \<Rightarrow> (string \<times> string) option) \<Rightarrow> string \<Rightarrow> world \<Rightarrow> string \<Rightarrow> bytes \<Rightarrow> 'f agent_state \<Rightarrow>
   control_answer \<times> 'f agent_state" where
  "revokeGrantControl unmarshalG decV machine w owner payload st =
     (let (a, d, cs) = revokeGrantHandler unmarshalG owner machine (w_mkdir w) (w_tomb w) (w_remove w) (decV payload)
                         (as_grants st) (as_guests st)
      in (a, st\<lparr>as_grants := d, as_cancelled := as_cancelled st @ cs\<rparr>))"

text \<open>\<open>chainControl\<close>: the first handler that claims the payload wins.\<close>

fun chainControl :: "(bytes \<Rightarrow> 's \<Rightarrow> control_answer \<times> 's) list \<Rightarrow> bytes \<Rightarrow> 's \<Rightarrow> control_answer \<times> 's" where
  "chainControl [] payload st = (NotHandled, st)"
| "chainControl (h # hs) payload st =
     (let (a, st') = h payload st in if a \<noteq> NotHandled then (a, st') else chainControl hs payload st')"

section \<open>Frames of a session\<close>

datatype effect = ShellWrite bytes | ShellResize "16 word" "16 word" | SendHello control_answer | TmuxControl bytes

text \<open>
  One decrypted frame of the loop from peer to shell in \<open>RunAgentSession\<close>; \<open>control\<close> is none for a guest, and \<open>tmuxPid\<close> is 0 when there is
  no tmux client to control.
\<close>

definition session_frame ::
  "(bytes \<Rightarrow> 's \<Rightarrow> control_answer \<times> 's) option \<Rightarrow> nat \<Rightarrow> bytes \<Rightarrow> 's \<Rightarrow> effect list \<times> 's" where
  "session_frame control tmuxPid pt st =
     (case DecodeFrame pt of
        None \<Rightarrow> ([], st)
      | Some (typ, payload) \<Rightarrow>
          if typ = FrameData then ([ShellWrite payload], st)
          else if typ = FrameResize then
            (case DecodeResize payload of None \<Rightarrow> ([], st) | Some (cols, rows) \<Rightarrow> ([ShellResize cols rows], st))
          else if typ = FrameControl then
            (let (a, st') = (case control of None \<Rightarrow> (NotHandled, st) | Some h \<Rightarrow> h payload st)
             in case a of
                  NotHandled \<Rightarrow> (if tmuxPid > 0 then [TmuxControl payload] else [], st')
                | Swallowed \<Rightarrow> ([], st')
                | _ \<Rightarrow> ([SendHello a], st'))
          else ([], st))"

fun session_frames ::
  "(bytes \<Rightarrow> 's \<Rightarrow> control_answer \<times> 's) option \<Rightarrow> nat \<Rightarrow> bytes list \<Rightarrow> 's \<Rightarrow> effect list \<times> 's" where
  "session_frames control tmuxPid [] st = ([], st)"
| "session_frames control tmuxPid (pt # pts) st =
     (let (es, st1) = session_frame control tmuxPid pt st; (es', st2) = session_frames control tmuxPid pts st1 in (es @ es', st2))"

text \<open>The receive loop of \<open>serveGuestRO\<close>: it counts the data frames and does nothing else.\<close>

fun guest_ro_frames :: "bytes list \<Rightarrow> nat \<Rightarrow> nat" where
  "guest_ro_frames [] dropped = dropped"
| "guest_ro_frames (pt # pts) dropped =
     guest_ro_frames pts (case DecodeFrame pt of Some (typ, p) \<Rightarrow> if typ = FrameData then dropped + 1 else dropped | None \<Rightarrow> dropped)"

text \<open>Who is served how, in \<open>serveAuthenticated\<close>, \<open>serveGuest\<close> and \<open>serveGuestRW\<close>: the effects of a session's frames.\<close>

definition owner_control ::
  "(Config \<Rightarrow> 'f) \<Rightarrow> ('f \<Rightarrow> Config option) \<Rightarrow> (bytes \<Rightarrow> bytes \<Rightarrow> bytes \<Rightarrow> bool) \<Rightarrow> (string \<Rightarrow> wireGrant option) \<Rightarrow>
   (bytes \<Rightarrow> (string \<times> string \<times> string) option) \<Rightarrow> (bytes \<Rightarrow> (string \<times> string) option) \<Rightarrow> (bytes \<Rightarrow> (string \<times> string) option) \<Rightarrow>
   string \<Rightarrow> world \<Rightarrow> string \<Rightarrow> bytes \<Rightarrow> 'f agent_state \<Rightarrow> control_answer \<times> 'f agent_state" where
  "owner_control marshal unmarshal verify unmarshalG decR decG decV machine w owner =
     chainControl [renameHandler marshal unmarshal decR w owner, addGrantControl verify unmarshalG decG machine w owner,
                   revokeGrantControl unmarshalG decV machine w owner]"

definition serve_frames ::
  "(bytes \<Rightarrow> 's \<Rightarrow> control_answer \<times> 's) \<Rightarrow> nat \<Rightarrow> bool \<Rightarrow> SignedGrant option \<Rightarrow> bytes list \<Rightarrow> 's \<Rightarrow> effect list \<times> 's" where
  "serve_frames control tmuxPid defaultTmux grant pts st =
     (case grant of
        None \<Rightarrow> session_frames (Some control) tmuxPid pts st
      | Some sg \<Rightarrow>
          if gMode (sgGrant sg) = ''rw'' then
            (if \<not> defaultTmux then ([], st) else session_frames None 0 pts st)
          else ([], st))"

section \<open>Confinement\<close>

definition terminal_only :: "effect \<Rightarrow> bool" where
  "terminal_only e = (case e of ShellWrite b \<Rightarrow> True | ShellResize c r \<Rightarrow> True | _ \<Rightarrow> False)"

lemma session_frame_plain: "session_frame None 0 pt st = (es, st') \<Longrightarrow> st' = st \<and> list_all terminal_only es"
  by (auto simp: session_frame_def terminal_only_def Let_def split: option.splits if_splits)

lemma session_frames_plain: "session_frames None 0 pts st = (es, st') \<Longrightarrow> st' = st \<and> list_all terminal_only es"
proof (induction pts arbitrary: es st')
  case (Cons pt pts)
  obtain es1 st1 where 1: "session_frame None 0 pt st = (es1, st1)" by fastforce
  with session_frame_plain [OF 1] obtain es2 where "session_frames None 0 pts st = (es2, st')" "es = es1 @ es2"
    using Cons.prems by (auto split: prod.splits)
  with Cons.IH session_frame_plain [OF 1] show ?case by simp
qed simp

section \<open>What control messages change\<close>

text \<open>A configuration that differs at most in the name and in one owner's record.\<close>

definition same_but_owner :: "string \<Rightarrow> Config \<Rightarrow> Config \<Rightarrow> bool" where
  "same_but_owner owner c c' \<longleftrightarrow>
     (\<exists>name reg. c' = c\<lparr>cMachineName := name, cOwnerRegistry := reg\<rparr> \<and> (\<forall>x. x \<noteq> owner \<longrightarrow> reg x = cOwnerRegistry c x))"

lemma same_but_owner_refl: "same_but_owner owner c c"
  unfolding same_but_owner_def by (rule exI [of _ "cMachineName c"], rule exI [of _ "cOwnerRegistry c"]) simp

lemma same_but_owner_renamed: "same_but_owner owner c (renamed owner name blob c)"
  unfolding same_but_owner_def renamed_def by (rule exI [of _ name], rule exI [of _ "(cOwnerRegistry c)(owner \<mapsto> blob)"]) simp

lemma RenameMachine_holds:
  assumes "json_faithful marshal unmarshal" "holds unmarshal d c" "config_text c" "ValidString owner" "ValidString name" "ValidString blob"
    and "RenameMachine marshal unmarshal readable fault owner name blob d = (e, d')"
  shows "holds unmarshal d' (if e = None then renamed owner name blob c else c)"
proof -
  from assms(2) obtain data where data: "ad_config d = Some data" "unmarshal data = Some c"
    by (auto simp: holds_def split: option.splits)
  obtain ok d1 where s: "save marshal fault (renamed owner name blob c) d = (ok, d1)" by fastforce
  have "unmarshal (marshal (renamed owner name blob c)) = Some (renamed owner name blob c)"
    using assms(1) renamed_text [OF assms(3-6)] by (simp add: json_faithful_def)
  with data assms(7) s save_result [OF s] show ?thesis
    by (auto simp: RenameMachine_def update_config_def read_config_def holds_def split: if_splits)
qed

text \<open>A decodable base64 string is ASCII, so JSON keeps it.\<close>

lemma b64_value_mem: "b64_value c = Some n \<Longrightarrow> c \<in> set b64_chars"
  by (auto simp: b64_value_def dest: map_of_SomeD set_zip_leftD)

lemma b64_quanta_chars: "b64_quanta s = Some bs \<Longrightarrow> set s \<subseteq> insert (CHR ''='') (set b64_chars)"
proof (induction s arbitrary: bs rule: b64_quanta.induct)
  case (2 a b c d r)
  then obtain x y where xy: "b64_value a = Some x" "b64_value b = Some y" by (auto split: option.splits)
  show ?case
  proof (cases "c = CHR ''='' \<or> d = CHR ''=''")
    case True
    with "2.prems" xy show ?thesis by (auto dest!: b64_value_mem split: option.splits if_splits)
  next
    case False
    with "2.prems" xy obtain z v t where "b64_value c = Some z" "b64_value d = Some v" "b64_quanta r = Some t"
      by (auto split: option.splits)
    with "2.IH" [OF refl xy] False xy show ?thesis by (simp add: b64_value_mem)
  qed
qed auto

lemma b64_text: "b64_DecodeString s = Some bs \<Longrightarrow> ValidString s"
proof (rule ValidString_ascii, unfold list_all_iff, rule ballI)
  fix c assume "b64_DecodeString s = Some bs" "c \<in> set s"
  then have "c \<in> insert (CHR ''='') (set b64_chars) \<union> {CHR 0x0A, CHR 0x0D}"
    using b64_quanta_chars unfolding b64_DecodeString_def by fastforce
  then show "of_char c < (128 :: nat)" by (auto simp: b64_chars_def)
qed

text \<open>The rename handler: unchanged, or a rename with a checked name and blob.\<close>

lemma renameHandler_cases:
  assumes "renameHandler marshal unmarshal decR w owner payload st = (a, st')"
  obtains "st' = st" "a \<in> {NotHandled, Swallowed}"
  | name blob raw e d where "decR payload = Some (''rename-machine'', name, blob)" "ValidMachineName name"
      "b64_DecodeString blob = Some raw" "0 < length raw" "length raw \<le> maxRenameBlobBytes" "blob \<noteq> []"
      "RenameMachine marshal unmarshal (w_readable w) (w_save w) owner name blob (as_config st) = (e, d)"
      "if e = None then a = HelloName name \<and> st' = republishRegistry unmarshal (w_readable w) owner (setMachineName name (st\<lparr>as_config := d\<rparr>))
       else a = Swallowed \<and> st' = st\<lparr>as_config := d\<rparr>"
  using assms
  by (cases "decR payload")
    (auto simp: renameHandler_def Let_def split: if_splits option.splits prod.splits)

lemma republish_frame [simp]:
  "as_config (republishRegistry unmarshal readable owner st) = as_config st"
  "as_grants (republishRegistry unmarshal readable owner st) = as_grants st"
  "as_guests (republishRegistry unmarshal readable owner st) = as_guests st"
  "as_name (republishRegistry unmarshal readable owner st) = as_name st"
  "as_cancelled (republishRegistry unmarshal readable owner st) = as_cancelled st"
  by (auto simp: republishRegistry_def Let_def split: option.splits)

lemma renameHandler_config:
  assumes "json_faithful marshal unmarshal" "holds unmarshal (as_config st) c" "config_text c" "ValidString owner"
    and "renameHandler marshal unmarshal decR w owner payload st = (a, st')"
  shows "as_grants st' = as_grants st \<and> (\<exists>c'. holds unmarshal (as_config st') c' \<and> same_but_owner owner c c')"
  using assms(5)
proof (cases rule: renameHandler_cases)
  case 1
  then show ?thesis using assms(2) same_but_owner_refl by blast
next
  case (2 name blob raw e d)
  have "holds unmarshal d (if e = None then renamed owner name blob c else c)"
    using RenameMachine_holds [OF assms(1-4) ValidMachineName_text b64_text] 2 by blast
  moreover have "as_config st' = d" "as_grants st' = as_grants st" using 2(8) by (auto simp: setMachineName_def split: if_splits)
  ultimately show ?thesis using same_but_owner_refl same_but_owner_renamed by (cases e) auto
qed

text \<open>The two grant handlers on the grant directory.\<close>

lemma set_mput: "set (mput m k v) \<subseteq> insert (k, v) (set m)"
  by (induction m) auto

lemma grantHandler_new_files:
  assumes "grantHandler verify unmarshal owner machine mkdir out now payload d = (a, d')" "out \<in> {Written, NotWritten}"
    and "(name, data) \<in> set (gd_files d') - set (gd_files d)"
  shows "\<exists>sg. JSON_grant sg = Inr data \<and> VerifyGrant verify sg = None \<and> gOwner (sgGrant sg) = owner \<and> gMachine (sgGrant sg) = machine \<and>
    name = grantPath (gGID (sgGrant sg)) \<and> unix now \<le> gNA (sgGrant sg)"
  using assms set_mput
  by (fastforce simp: grantHandler_def AddGrant_def split: option.splits if_splits sum.splits prod.splits write_outcome.splits)

lemma set_mdel: "set (mdel m k) \<subseteq> set m"
  by (auto simp: AList.delete_eq)

lemma revokeGrantHandler_files:
  assumes "revokeGrantHandler unmarshal owner machine mkdir out remove payload d g = (a, d', cs)"
  shows "set (gd_files d') \<subseteq> set (gd_files d)"
  using assms set_mdel
  by (fastforce simp: revokeGrantHandler_def TombstoneGrant_def Let_def split: option.splits if_splits prod.splits write_outcome.splits)

lemma revokeGrantHandler_new_tombstones:
  assumes "revokeGrantHandler unmarshal owner machine mkdir out remove payload d g = (a, d', cs)" "out \<in> {Written, NotWritten}"
    and "gid \<in> set (loadTombstones d') - set (loadTombstones d)"
  shows "\<exists>sg. grantByID unmarshal gid d = Some sg \<and> gOwner (sgGrant sg) = owner \<and> gMachine (sgGrant sg) = machine"
proof -
  obtain x where p: "payload = Some (''revoke-grant'', x)" "guestGIDShape x"
    using assms(1,3) by (auto simp: revokeGrantHandler_def split: option.splits if_splits)
  obtain sg where sg: "grantByID unmarshal x d = Some sg" "gOwner (sgGrant sg) = owner" "gMachine (sgGrant sg) = machine"
    using assms(1,3) p by (auto simp: revokeGrantHandler_def Let_def split: option.splits if_splits)
  obtain ok e where t: "TombstoneGrant mkdir out remove x d = (ok, e)" by fastforce
  with assms(1) p sg have "d' = e" by (auto simp: revokeGrantHandler_def Let_def split: if_splits)
  then have "gid = x" using TombstoneGrant_tombstones [OF assms(2) t] assms(3) by (auto split: if_splits)
  with sg show ?thesis by blast
qed

lemma owner_control_cases:
  assumes "owner_control marshal unmarshal verify unmarshalG decR decG decV machine w owner payload st = (a, st')"
  obtains "renameHandler marshal unmarshal decR w owner payload st = (a, st')"
  | "addGrantControl verify unmarshalG decG machine w owner payload st = (a, st')"
  | "revokeGrantControl unmarshalG decV machine w owner payload st = (a, st')"
proof -
  obtain a1 st1 where 1: "renameHandler marshal unmarshal decR w owner payload st = (a1, st1)" by fastforce
  have s1: "a1 = NotHandled \<Longrightarrow> st1 = st" using 1 by (cases rule: renameHandler_cases) (auto split: if_splits)
  obtain a2 st2 where 2: "addGrantControl verify unmarshalG decG machine w owner payload st = (a2, st2)" by fastforce
  have s2: "a2 = NotHandled \<Longrightarrow> st2 = st"
    using 2 by (auto simp: addGrantControl_def grantHandler_def split: option.splits if_splits sum.splits prod.splits)
  show thesis
  proof (cases "a1 = NotHandled")
    case False
    then have "(a, st') = (a1, st1)" using assms 1 by (simp add: owner_control_def)
    then show thesis using 1 that(1) by simp
  next
    case True
    note s1 = s1 [OF True]
    show thesis
    proof (cases "a2 = NotHandled")
      case False
      then have "(a, st') = (a2, st2)" using assms 1 2 True s1 by (simp add: owner_control_def)
      then show thesis using 2 that(2) by simp
    next
      case a2: True
      then have "revokeGrantControl unmarshalG decV machine w owner payload st = (a, st')"
        using assms 1 2 True s1 s2 [OF a2] by (simp add: owner_control_def case_prod_unfold Let_def prod_eq_iff split: if_splits)
      then show thesis by (rule that(3))
    qed
  qed
qed

section \<open>Properties\<close>


definition demo_state :: "Config agent_state" where
  "demo_state = \<lparr>as_config = \<lparr>ad_config = Some demo_config, ad_tmp = NoTmp\<rparr>, as_grants = empty_dir, as_guests = no_guests,
     as_cancelled = [], as_name = [], as_writers = [(''o'', 5)], as_written = []\<rparr>"

definition demo_world :: world where
  "demo_world = \<lparr>w_readable = True, w_save = NoFault, w_mkdir = True, w_grant = Written, w_tomb = Written, w_remove = True, w_now = 0\<rparr>"

definition demo_rename_msg :: "bytes \<Rightarrow> (string \<times> string \<times> string) option" where
  "demo_rename_msg p = Some (''rename-machine'', ''box'', ''AAAA'')"

lemma demo_state_holds: "holds Some (as_config demo_state) demo_config"
  by (simp add: holds_def demo_state_def)

lemma demo_name: "ValidMachineName ''box''"
proof -
  have r: "rune_list (codes ''box'') = [(98, 1), (111, 1), (120, 1)]"
    by (simp add: codes_def rune_list_ascii)
  then have "TrimSpace ''box'' = ''box''" by (simp add: TrimSpace_id runes_def IsSpace_def)
  with r show ?thesis by (simp add: ValidMachineName_def RuneCountInString_def runes_def IsControl_def rune_error_def)
qed

lemma demo_rename:
  "\<exists>st'. renameHandler (\<lambda>c. c) Some demo_rename_msg demo_world ''o'' [] demo_state = (HelloName ''box'', st')"
proof -
  have b: "b64_DecodeString ''AAAA'' = Some [0, 0, 0]" by code_simp
  show ?thesis
    by (simp add: renameHandler_def demo_rename_msg_def demo_name b maxRenameBlobBytes_def RenameMachine_def update_config_def
        read_config_def demo_state_def demo_world_def save_def save_states_def)
qed



text \<open>
  An acknowledged rename has happened everywhere: the name was acceptable, it is the machine's name from then on, the owner's record in
  the configuration is the one sent, the other fields are as before, and the record went out on that owner's live signaling
  connection if there is one.
\<close>

theorem acknowledged_rename_effective:
  assumes "json_faithful marshal unmarshal" "holds unmarshal (as_config st) c" "config_text c" "ValidString owner" "w_readable w"
    and "renameHandler marshal unmarshal decR w owner payload st = (HelloName name, st')"
  shows "\<exists>blob. decR payload = Some (''rename-machine'', name, blob) \<and> ValidMachineName name \<and>
    holds unmarshal (as_config st') (c\<lparr>cMachineName := name, cOwnerRegistry := (cOwnerRegistry c)(owner \<mapsto> blob)\<rparr>) \<and>
    machineName boot st' = name \<and>
    as_written st' = as_written st @
      (case mget (as_writers st) owner of None \<Rightarrow> [] | Some conn \<Rightarrow> [(conn, msg0\<lparr>smType := TypeRegistry, smRegistry := blob\<rparr>)])"
  using assms(6)
proof (cases rule: renameHandler_cases)
  case (2 name' blob raw e d)
  then have e: "e = None" "name' = name"
    and st': "st' = republishRegistry unmarshal (w_readable w) owner (setMachineName name (st\<lparr>as_config := d\<rparr>))"
    by (auto split: if_splits)
  have h: "holds unmarshal d (renamed owner name blob c)"
    using RenameMachine_holds [OF assms(1-4) ValidMachineName_text b64_text] 2 e by force
  then have "RegistryForOwner unmarshal (w_readable w) d owner = blob"
    using assms(5) by (auto simp: holds_def RegistryForOwner_def read_config_def renamed_def split: option.splits)
  moreover have "name \<noteq> []" using 2(2) e by (simp add: ValidMachineName_def)
  ultimately show ?thesis
    using h 2 e st'
    by (auto simp: renamed_def machineName_def setMachineName_def republishRegistry_def Let_def split: option.splits)
qed auto

theorem acknowledged_rename_effective_witness:
  "\<exists>st'. renameHandler (\<lambda>c. c) Some demo_rename_msg demo_world ''o'' [] demo_state = (HelloName ''box'', st') \<and>
     machineName ''host'' st' = ''box'' \<and> as_written st' = [(5, msg0\<lparr>smType := TypeRegistry, smRegistry := ''AAAA''\<rparr>)]"
proof -
  obtain st' where r: "renameHandler (\<lambda>c. c) Some demo_rename_msg demo_world ''o'' [] demo_state = (HelloName ''box'', st')"
    using demo_rename by blast
  have v: "ValidString ''o''" by (simp add: ValidString_ascii)
  have w: "w_readable demo_world" by (simp add: demo_world_def)
  from acknowledged_rename_effective [OF json_faithful_id demo_state_holds demo_config_text v w r, of "''host''"] r show ?thesis
    by (auto simp: demo_rename_msg_def demo_state_def)
qed

end
