(* ===== verification/Agent_Owners.thy ===== *)
theory Agent_Owners
  imports Agent_Config
begin

text \<open>
  Keeping the agent registered for every paired owner: \<open>Up\<close>, \<open>reconcileOwners\<close>, \<open>nextBackoff\<close>, \<open>jitter\<close>, \<open>serveOwner\<close> and
  \<open>closeCodeReason\<close> of \<^verbatim>\<open>go/internal/agent/runtime.go\<close>. A cancel function is the number of the \<open>serveOwner\<close> loop it stops; the
  effects of a reconciliation are the loops it stops and the loops it starts. Durations are Go \<open>int64\<close>, whose doubling wraps.
\<close>

section \<open>Pins and loops\<close>

record owner_loops =
  ol_pins :: "string list"
  ol_run :: "(string, nat) gomap"
  ol_next :: nat

text \<open>\<open>want\<close>: the set of non-empty owners, as a list in the order of the map's iteration.\<close>

definition wanted :: "string list \<Rightarrow> string list" where
  "wanted owners = remdups (filter (\<lambda>x. x \<noteq> []) owners)"

definition replacePins :: "string list \<Rightarrow> owner_loops \<Rightarrow> owner_loops" where
  "replacePins owners rt = rt\<lparr>ol_pins := owners\<rparr>"

definition stop_unwanted :: "string list \<Rightarrow> owner_loops \<Rightarrow> nat list \<times> owner_loops" where
  "stop_unwanted want rt =
     (map snd (filter (\<lambda>(x, stop). x \<notin> set want) (ol_run rt)),
      rt\<lparr>ol_run := filter (\<lambda>(x, stop). x \<in> set want) (ol_run rt)\<rparr>)"

fun start_wanted :: "string list \<Rightarrow> owner_loops \<Rightarrow> (nat \<times> string) list \<times> owner_loops" where
  "start_wanted [] rt = ([], rt)"
| "start_wanted (x # want) rt =
     (if mget (ol_run rt) x \<noteq> None then start_wanted want rt
      else let (started, rt') = start_wanted want (rt\<lparr>ol_run := mput (ol_run rt) x (ol_next rt), ol_next := ol_next rt + 1\<rparr>)
           in ((ol_next rt, x) # started, rt'))"

definition reconcileOwners :: "string list \<Rightarrow> owner_loops \<Rightarrow> nat list \<times> (nat \<times> string) list \<times> owner_loops" where
  "reconcileOwners owners rt =
     (let want = wanted owners;
          (stopped, rt1) = stop_unwanted want (replacePins owners rt);
          (started, rt2) = start_wanted want rt1
      in (stopped, started, rt2))"

text \<open>\<open>Up\<close>: the first reconciliation, then one per tick of the ticker for which the configuration could be reloaded.\<close>

fun up_ticks :: "(config_error + string list) list \<Rightarrow> owner_loops \<Rightarrow> owner_loops" where
  "up_ticks [] rt = rt"
| "up_ticks (Inl e # ts) rt = up_ticks ts rt"
| "up_ticks (Inr owners # ts) rt = up_ticks ts (snd (snd (reconcileOwners owners rt)))"

definition Up :: "(config_error + string list) list \<Rightarrow> owner_loops \<Rightarrow> owner_loops option" where
  "Up ticks rt = (if ol_pins rt = [] then None else Some (up_ticks ticks (snd (snd (reconcileOwners (ol_pins rt) rt)))))"

section \<open>Backoff\<close>

definition wrap64 :: "int \<Rightarrow> int" where
  "wrap64 x = (x + 2 ^ 63) mod 2 ^ 64 - 2 ^ 63"

definition minHealthyUptime :: duration where "minHealthyUptime = 10 * second"

definition baseBackoff :: duration where "baseBackoff = second"

definition maxBackoff :: duration where "maxBackoff = 30 * second"

definition nextBackoff :: "duration \<Rightarrow> duration \<Rightarrow> duration \<Rightarrow> bool \<Rightarrow> duration \<Rightarrow> duration" where
  "nextBackoff prev base max_d dialed uptime =
     (if dialed \<and> uptime \<ge> minHealthyUptime then base
      else let n1 = wrap64 (prev * 2);
               n2 = (if n1 < base then base else n1)
           in if n2 > max_d then max_d else n2)"

text \<open>\<open>jitter\<close>; \<open>rnd n\<close> is \<open>rand.Int63n(n)\<close>.\<close>

definition jitter :: "(int \<Rightarrow> int) \<Rightarrow> duration \<Rightarrow> duration" where
  "jitter rnd d = (if d \<le> 0 then 0 else rnd (d + 1))"

text \<open>
  The outcome of one \<open>serveOnce\<close>: whether it dialled, how long it was up, and its error; and whether the context is done when it
  returns or during the sleep that follows.
\<close>

datatype serve_error = ServeRevoked | ServeClosed int string | ServeFailed string

record attempt =
  at_dialed :: bool
  at_uptime :: duration
  at_err :: serve_error
  at_done :: bool
  at_done_sleep :: bool

definition closeCodeReason :: "serve_error option \<Rightarrow> int \<times> string" where
  "closeCodeReason err =
     (case err of
        None \<Rightarrow> (-1, [])
      | Some (ServeClosed code reason) \<Rightarrow> (code, reason)
      | Some (ServeFailed msg) \<Rightarrow> (-1, msg)
      | Some ServeRevoked \<Rightarrow> (-1, ''machine revoked by owner''))"

text \<open>The loop of \<open>serveOwner\<close> over the attempts it makes: the ceilings of its sleeps and whether it returned.\<close>

fun serve_loop :: "duration \<Rightarrow> attempt list \<Rightarrow> duration list \<times> bool" where
  "serve_loop backoff [] = ([], False)"
| "serve_loop backoff (a # as) =
     (if at_done a then ([], True)
      else if at_err a = ServeRevoked then ([], True)
      else let b = nextBackoff backoff baseBackoff maxBackoff (at_dialed a) (at_uptime a)
           in if at_done_sleep a then ([b], True)
              else let (bs, r) = serve_loop b as in (b # bs, r))"

definition serveOwner :: "attempt list \<Rightarrow> duration list \<times> bool" where
  "serveOwner as = serve_loop baseBackoff as"

section \<open>Reconciliation\<close>

lemma set_wanted: "set (wanted owners) = set owners - {[]}"
  by (auto simp: wanted_def)

lemma start_wanted_run:
  "start_wanted want rt = (started, rt') \<Longrightarrow>
     ol_pins rt' = ol_pins rt \<and>
     (\<forall>x. mget (ol_run rt') x \<noteq> None \<longleftrightarrow> x \<in> set want \<or> mget (ol_run rt) x \<noteq> None) \<and>
     (\<forall>x n. mget (ol_run rt) x = Some n \<longrightarrow> mget (ol_run rt') x = Some n) \<and>
     (wf_gomap (ol_run rt) \<longrightarrow> wf_gomap (ol_run rt')) \<and> ol_next rt \<le> ol_next rt'"
proof (induction want rt arbitrary: started rt' rule: start_wanted.induct)
  case (2 x want rt)
  show ?case
  proof (cases "mget (ol_run rt) x")
    case None
    let ?rt = "rt\<lparr>ol_run := mput (ol_run rt) x (ol_next rt), ol_next := ol_next rt + 1\<rparr>"
    obtain st where st: "start_wanted want ?rt = (st, rt')" using "2.prems" None by (auto split: prod.splits)
    from "2.IH"(2) [OF _ st] None show ?thesis by (auto split: if_splits) (metis option.distinct(1))+
  next
    case (Some n)
    with "2.prems" "2.IH"(1) show ?thesis by auto
  qed
qed auto

lemma start_wanted_started:
  "start_wanted want rt = (started, rt') \<Longrightarrow> distinct want \<Longrightarrow>
     set (map snd started) = {x \<in> set want. mget (ol_run rt) x = None} \<and> distinct (map snd started) \<and>
     (\<forall>(n, x) \<in> set started. mget (ol_run rt') x = Some n \<and> ol_next rt \<le> n \<and> n < ol_next rt')"
proof (induction want rt arbitrary: started rt' rule: start_wanted.induct)
  case (2 x want rt)
  show ?case
  proof (cases "mget (ol_run rt) x")
    case None
    let ?rt = "rt\<lparr>ol_run := mput (ol_run rt) x (ol_next rt), ol_next := ol_next rt + 1\<rparr>"
    obtain st where st: "start_wanted want ?rt = (st, rt')" and s: "started = (ol_next rt, x) # st"
      using "2.prems"(1) None by (auto split: prod.splits)
    have run: "mget (ol_run rt') x = Some (ol_next rt)" "ol_next rt < ol_next rt'" using start_wanted_run [OF st] by auto
    from "2.IH"(2) [OF _ st] None "2.prems"(2)
    have ih: "set (map snd st) = {y \<in> set want. mget (ol_run ?rt) y = None}" "distinct (map snd st)"
      "\<forall>(n, y) \<in> set st. mget (ol_run rt') y = Some n \<and> ol_next rt + 1 \<le> n \<and> n < ol_next rt'"
      by auto
    have "x \<notin> set (map snd st)" unfolding ih(1) by simp
    moreover have "set (map snd st) = {y \<in> set want. mget (ol_run rt) y = None}"
      unfolding ih(1) using "2.prems"(2) by auto
    ultimately show ?thesis using ih(2,3) run None unfolding s by (auto simp del: set_map)
  next
    case (Some n)
    with "2.prems" "2.IH"(1) show ?thesis by auto
  qed
qed auto

definition loops_inv :: "owner_loops \<Rightarrow> bool" where
  "loops_inv rt \<longleftrightarrow> wf_gomap (ol_run rt) \<and> (\<forall>(x, n) \<in> set (ol_run rt). n < ol_next rt)"

lemma stop_unwanted_run:
  assumes "loops_inv rt" "stop_unwanted want rt = (stopped, rt1)"
  shows "set stopped = {n. \<exists>x. mget (ol_run rt) x = Some n \<and> x \<notin> set want} \<and>
    (\<forall>x. mget (ol_run rt1) x = (if x \<in> set want then mget (ol_run rt) x else None)) \<and>
    ol_pins rt1 = ol_pins rt \<and> ol_next rt1 = ol_next rt \<and> loops_inv rt1"
proof -
  have wf: "wf_gomap (ol_run rt)" using assms(1) by (simp add: loops_inv_def)
  have "mget (filter (\<lambda>(x, stop). x \<in> set want) (ol_run rt)) x = (if x \<in> set want then mget (ol_run rt) x else None)" for x
    using mget_filter [OF wf, of "\<lambda>x n. x \<in> set want" x] by (simp split: option.splits)
  moreover have "set stopped = {n. \<exists>x. mget (ol_run rt) x = Some n \<and> x \<notin> set want}"
    using assms(2) by (force simp: stop_unwanted_def mget_Some_iff [OF wf])
  ultimately show ?thesis using assms by (auto simp: stop_unwanted_def loops_inv_def)
qed

lemma start_wanted_inv:
  "start_wanted want rt = (started, rt') \<Longrightarrow> loops_inv rt \<Longrightarrow> loops_inv rt'"
proof (induction want rt arbitrary: started rt' rule: start_wanted.induct)
  case (2 x want rt)
  show ?case
  proof (cases "mget (ol_run rt) x")
    case None
    let ?rt = "rt\<lparr>ol_run := mput (ol_run rt) x (ol_next rt), ol_next := ol_next rt + 1\<rparr>"
    have wf: "wf_gomap (mput (ol_run rt) x (ol_next rt))" using "2.prems"(2) by (simp add: loops_inv_def)
    have "loops_inv ?rt"
      using "2.prems"(2) wf
      by (auto simp: loops_inv_def mget_Some_iff [OF wf, symmetric] mget_Some_iff [symmetric] less_Suc_eq split: if_splits)
    then show ?thesis using "2.IH"(2) "2.prems"(1) None by (auto split: prod.splits)
  next
    case (Some n)
    with 2 show ?thesis by auto
  qed
qed auto

section \<open>Ceilings\<close>

definition healthy :: "attempt \<Rightarrow> bool" where
  "healthy a \<longleftrightarrow> at_dialed a \<and> at_uptime a \<ge> minHealthyUptime"

text \<open>The number of attempts since the last healthy one, and the ceiling it stands for.\<close>

definition streak :: "nat \<Rightarrow> attempt list \<Rightarrow> nat" where
  "streak n as = foldl (\<lambda>n a. if healthy a then 0 else n + 1) n as"

definition ceiling_for :: "nat \<Rightarrow> duration" where
  "ceiling_for n = min maxBackoff (2 ^ n * baseBackoff)"

lemma nextBackoff_ceiling:
  "nextBackoff (ceiling_for n) baseBackoff maxBackoff (at_dialed a) (at_uptime a) = ceiling_for (if healthy a then 0 else n + 1)"
proof (cases "healthy a")
  case True
  then show ?thesis by (simp add: nextBackoff_def healthy_def ceiling_for_def baseBackoff_def maxBackoff_def second_def)
next
  case False
  have c: "second \<le> ceiling_for n" "ceiling_for n \<le> 30 * second"
    by (simp_all add: ceiling_for_def maxBackoff_def baseBackoff_def second_def)
  then have w: "wrap64 (ceiling_for n * 2) = ceiling_for n * 2" by (simp add: wrap64_def second_def)
  have "min (30 * second) (ceiling_for n * 2) = ceiling_for (n + 1)"
    by (auto simp: ceiling_for_def maxBackoff_def baseBackoff_def second_def min_def)
  then show ?thesis using False c
    by (auto simp: nextBackoff_def healthy_def w baseBackoff_def maxBackoff_def second_def min_def split: if_splits)
qed

lemma serve_loop_ceiling:
  "i < length (fst (serve_loop (ceiling_for n) as)) \<Longrightarrow>
     fst (serve_loop (ceiling_for n) as) ! i = ceiling_for (streak n (take (Suc i) as))"
proof (induction as arbitrary: i n)
  case (Cons a as)
  obtain bs r where l: "serve_loop (ceiling_for (if healthy a then 0 else n + 1)) as = (bs, r)" by fastforce
  from Cons.prems have "\<not> at_done a" "at_err a \<noteq> ServeRevoked" by (auto split: if_splits)
  moreover have "bs ! k = ceiling_for (streak (if healthy a then 0 else n + 1) (take (Suc k) as))" if "k < length bs" for k
    using Cons.IH [of k "if healthy a then 0 else n + 1"] l that by simp
  ultimately show ?case
    using Cons.prems l by (cases i) (auto simp: nextBackoff_ceiling streak_def Let_def split: if_splits)
qed simp

text \<open>An attempt that ends the loop: the context is done, or the relay says that the machine is revoked.\<close>

definition ends :: "attempt \<Rightarrow> bool" where
  "ends a \<longleftrightarrow> at_done a \<or> at_err a = ServeRevoked \<or> at_done_sleep a"

lemma serve_loop_end:
  "snd (serve_loop b as) = list_ex ends as \<and> length (fst (serve_loop b as)) \<le> length (takeWhile (\<lambda>a. \<not> ends a) as) + 1 \<and>
   length (takeWhile (\<lambda>a. \<not> ends a) as) \<le> length (fst (serve_loop b as))"
proof (induction as arbitrary: b)
  case (Cons a as)
  then show ?case by (auto simp: ends_def Let_def split: prod.splits) (metis fst_conv snd_conv Suc_eq_plus1)+
qed simp

section \<open>Properties\<close>

text \<open>
  Reconciliation makes the running loops exactly the paired owners: afterwards there is one loop per non-empty owner of the new list
  and none else, a loop whose owner stays is neither stopped nor restarted, exactly the loops of owners that left are stopped, and
  exactly the owners without a loop get a new one, with a number no earlier loop had.
\<close>

theorem reconcile_exact:
  assumes "loops_inv rt" "reconcileOwners owners rt = (stopped, started, rt')"
  shows "ol_pins rt' = owners \<and> {x. mget (ol_run rt') x \<noteq> None} = set owners - {[]} \<and>
    set stopped = {n. \<exists>x. mget (ol_run rt) x = Some n \<and> x \<notin> set owners - {[]}} \<and>
    {x. \<exists>n. (n, x) \<in> set started} = {x \<in> set owners - {[]}. mget (ol_run rt) x = None} \<and>
    (\<forall>x n. mget (ol_run rt') x = Some n \<longleftrightarrow> mget (ol_run rt) x = Some n \<and> x \<in> set owners - {[]} \<or> (n, x) \<in> set started) \<and>
    (\<forall>(n, x) \<in> set started. ol_next rt \<le> n) \<and> loops_inv rt'"
proof -
  let ?want = "wanted owners" and ?rt0 = "replacePins owners rt"
  obtain rt1 where s1: "stop_unwanted ?want ?rt0 = (stopped, rt1)" and s2: "start_wanted ?want rt1 = (started, rt')"
    using assms(2) by (auto simp: reconcileOwners_def Let_def split: prod.splits)
  have inv0: "loops_inv ?rt0" using assms(1) by (simp add: loops_inv_def replacePins_def)
  have eq0: "ol_run ?rt0 = ol_run rt" "ol_next ?rt0 = ol_next rt" "ol_pins ?rt0 = owners" by (simp_all add: replacePins_def)
  note st = stop_unwanted_run [OF inv0 s1, unfolded eq0 set_wanted]
  have d: "distinct ?want" by (simp add: wanted_def)
  note sr = start_wanted_run [OF s2, unfolded set_wanted] and ss = start_wanted_started [OF s2 d, unfolded set_wanted]
  have dom1: "mget (ol_run rt1) x = (if x \<in> set owners - {[]} then mget (ol_run rt) x else None)" for x using st by blast
  have dom: "mget (ol_run rt') x \<noteq> None \<longleftrightarrow> x \<in> set owners - {[]}" for x using sr dom1 [of x] by auto
  have started: "(\<exists>n. (n, x) \<in> set started) \<longleftrightarrow> x \<in> set owners - {[]} \<and> mget (ol_run rt) x = None" for x
  proof -
    have "(\<exists>n. (n, x) \<in> set started) \<longleftrightarrow> x \<in> set (map snd started)" by force
    also have "\<dots> \<longleftrightarrow> x \<in> set owners - {[]} \<and> mget (ol_run rt1) x = None" using ss by simp
    finally show ?thesis using dom1 [of x] by auto
  qed
  have val: "mget (ol_run rt') x = Some n \<longleftrightarrow> mget (ol_run rt) x = Some n \<and> x \<in> set owners - {[]} \<or> (n, x) \<in> set started" for x n
  proof (cases "mget (ol_run rt1) x")
    case None
    then show ?thesis using ss started [of x] dom [of x] dom1 [of x] by (auto split: if_splits)
  next
    case (Some k)
    then have "mget (ol_run rt') x = Some k" "\<not> (\<exists>n. (n, x) \<in> set started)"
      using sr started [of x] dom1 [of x] by (auto split: if_splits)
    then show ?thesis using Some dom1 [of x] by (auto split: if_splits)
  qed
  have "loops_inv rt'" using start_wanted_inv [OF s2] st by blast
  moreover have "\<forall>(n, x) \<in> set started. ol_next rt \<le> n" using ss st by auto
  ultimately show ?thesis using st sr started val dom by auto
qed

theorem reconcile_exact_witness:
  "\<exists>rt'. reconcileOwners [''a'', [], ''c'', ''a''] \<lparr>ol_pins = [''a'', ''b''], ol_run = [(''a'', 0), (''b'', 1)], ol_next = 2\<rparr> =
     ([1], [(2, ''c'')], rt') \<and> mget (ol_run rt') ''a'' = Some 0"
proof -
  let ?rt = "\<lparr>ol_pins = [''a'', ''b''], ol_run = [(''a'', 0), (''b'', 1)], ol_next = 2\<rparr>"
  have inv: "loops_inv ?rt" by (simp add: loops_inv_def wf_gomap_def)
  obtain rt' where r: "reconcileOwners [''a'', [], ''c'', ''a''] ?rt = ([1], [(2, ''c'')], rt')"
    by (simp add: reconcileOwners_def wanted_def stop_unwanted_def replacePins_def)
  from reconcile_exact [OF inv r] have "mget (ol_run rt') ''a'' = Some 0" by simp
  with r show ?thesis by blast
qed

text \<open>
  Reconnecting backs off and stops: the ceiling of every sleep of \<open>serveOwner\<close> is 2^n seconds but at most thirty, where n is the number
  of attempts since the last one that was up for ten seconds (so one second after a healthy session); and the loop returns exactly when
  some attempt finds the context done or the machine revoked, with no sleep after a revocation.
\<close>

theorem reconnect_backoff:
  "(\<forall>i < length (fst (serveOwner as)). fst (serveOwner as) ! i = min (30 * second) (2 ^ streak 0 (take (Suc i) as) * second)) \<and>
   (snd (serveOwner as) \<longleftrightarrow> (\<exists>a \<in> set as. ends a)) \<and>
   (\<forall>i < length as. at_err (as ! i) = ServeRevoked \<longrightarrow> length (fst (serveOwner as)) \<le> i \<and> snd (serveOwner as))"
proof -
  have s: "serveOwner as = serve_loop (ceiling_for 0) as"
    by (simp add: serveOwner_def ceiling_for_def baseBackoff_def maxBackoff_def second_def)
  have "length (fst (serve_loop b as)) \<le> i \<and> snd (serve_loop b as)" if "i < length as" "at_err (as ! i) = ServeRevoked" for i b
    using that
  proof (induction as arbitrary: i b)
    case (Cons a as)
    obtain bs r where l: "serve_loop (nextBackoff b baseBackoff maxBackoff (at_dialed a) (at_uptime a)) as = (bs, r)" by fastforce
    show ?case
    proof (cases i)
      case 0
      with Cons.prems show ?thesis by simp
    next
      case (Suc k)
      with Cons.IH [of k "nextBackoff b baseBackoff maxBackoff (at_dialed a) (at_uptime a)"] Cons.prems l show ?thesis by (simp add: Let_def)
    qed
  qed simp
  then show ?thesis
    using serve_loop_ceiling [of _ 0 as] serve_loop_end [of "ceiling_for 0" as]
    unfolding s by (auto simp: ceiling_for_def maxBackoff_def baseBackoff_def list_ex_iff)
qed

theorem reconnect_backoff_witness:
  "serveOwner [\<lparr>at_dialed = False, at_uptime = 0, at_err = ServeFailed [], at_done = False, at_done_sleep = False\<rparr>,
               \<lparr>at_dialed = True, at_uptime = 0, at_err = ServeRevoked, at_done = False, at_done_sleep = False\<rparr>] = ([2 * second], True)"
proof -
  let ?as = "[\<lparr>at_dialed = False, at_uptime = 0, at_err = ServeFailed [], at_done = False, at_done_sleep = False\<rparr>,
              \<lparr>at_dialed = True, at_uptime = 0, at_err = ServeRevoked, at_done = False, at_done_sleep = False\<rparr>]"
  have len: "length (fst (serveOwner ?as)) = 1" by (simp add: serveOwner_def Let_def)
  from reconnect_backoff [of ?as] len have "fst (serveOwner ?as) ! 0 = min (30 * second) (2 ^ streak 0 (take 1 ?as) * second)"
    "snd (serveOwner ?as)" by (auto dest: spec [of _ 1])
  then have "fst (serveOwner ?as) ! 0 = 2 * second" "snd (serveOwner ?as)" by (simp_all add: streak_def healthy_def second_def)
  with len show ?thesis by (cases "serveOwner ?as"; cases "fst (serveOwner ?as)") auto
qed

end
