(* ===== verification/Agent_Slots.thy ===== *)
theory Agent_Slots
  imports Runs
begin

text \<open>
  The bound on attach handshakes: \<open>admit\<close>, \<open>release\<close>, the session counter and the bracket of \<open>handleOffer\<close> and \<open>serveAuthenticated\<close> in
  \<^verbatim>\<open>go/internal/agent/runtime.go\<close>. The semaphore is a channel with a buffer of sixteen; receiving from an empty one blocks, which is the
  value none here. Every authorised offer runs in a goroutine of its own, and the goroutines interleave in any order.
\<close>

definition defaultMaxConcurrentAttaches :: nat where "defaultMaxConcurrentAttaches = 16"

text \<open>The variable \<open>held\<close> of one \<open>handleOffer\<close>, and whether its session was counted.\<close>

record offer =
  of_held :: bool
  of_counted :: bool

record slots =
  sl_sem :: nat
  sl_active :: int
  sl_offers :: "(nat, offer) gomap"
  sl_next :: nat

definition NewSlots :: slots where
  "NewSlots = \<lparr>sl_sem = 0, sl_active = 0, sl_offers = [], sl_next = 0\<rparr>"

definition admit :: "slots \<Rightarrow> bool \<times> slots" where
  "admit s = (if sl_sem s < defaultMaxConcurrentAttaches then (True, s\<lparr>sl_sem := sl_sem s + 1\<rparr>) else (False, s))"

definition release :: "slots \<Rightarrow> slots option" where
  "release s = (if sl_sem s = 0 then None else Some (s\<lparr>sl_sem := sl_sem s - 1\<rparr>))"

definition sessionStarted :: "slots \<Rightarrow> slots" where "sessionStarted s = s\<lparr>sl_active := sl_active s + 1\<rparr>"

definition sessionEnded :: "slots \<Rightarrow> slots" where "sessionEnded s = s\<lparr>sl_active := sl_active s - 1\<rparr>"

definition ActiveSessions :: "slots \<Rightarrow> int" where "ActiveSessions s = sl_active s"

text \<open>The closure \<open>releaseHS\<close>: it releases at most once.\<close>

definition releaseHS :: "nat \<Rightarrow> slots \<Rightarrow> slots option" where
  "releaseHS i s =
     (case mget (sl_offers s) i of
        None \<Rightarrow> None
      | Some o1 \<Rightarrow>
          if of_held o1 then map_option (\<lambda>s. s\<lparr>sl_offers := mput (sl_offers s) i (o1\<lparr>of_held := False\<rparr>)\<rparr>) (release s)
          else Some s)"

text \<open>
  The points at which \<open>handleOffer\<close> touches the counters: the start of an authorised offer; the end of the handshake, after which
  the session counts as active; and the return, on an error of any stage or at the end of the session.
\<close>

definition offer_start :: "slots \<Rightarrow> slots" where
  "offer_start s =
     (let (ok, s) = admit s
      in if \<not> ok then s
         else s\<lparr>sl_offers := mput (sl_offers s) (sl_next s) \<lparr>of_held = True, of_counted = False\<rparr>, sl_next := sl_next s + 1\<rparr>)"

definition offer_authenticated :: "nat \<Rightarrow> slots \<Rightarrow> slots option" where
  "offer_authenticated i s =
     (case mget (sl_offers s) i of
        None \<Rightarrow> None
      | Some o1 \<Rightarrow>
          if of_counted o1 then None
          else map_option (\<lambda>s. sessionStarted (s\<lparr>sl_offers := mput (sl_offers s) i \<lparr>of_held = False, of_counted = True\<rparr>\<rparr>)) (releaseHS i s))"

definition offer_return :: "nat \<Rightarrow> slots \<Rightarrow> slots option" where
  "offer_return i s =
     (case mget (sl_offers s) i of
        None \<Rightarrow> None
      | Some o1 \<Rightarrow>
          map_option (\<lambda>s. s\<lparr>sl_offers := mdel (sl_offers s) i\<rparr>) (releaseHS i (if of_counted o1 then sessionEnded s else s)))"

inductive slot_step :: "slots \<Rightarrow> slots \<Rightarrow> bool" where
  arrives: "slot_step s (offer_start s)"
| authenticated: "offer_authenticated i s = Some s' \<Longrightarrow> slot_step s s'"
| returned: "offer_return i s = Some s' \<Longrightarrow> slot_step s s'"

section \<open>The invariant\<close>

definition held_count :: "slots \<Rightarrow> nat" where
  "held_count s = length (filter (\<lambda>(i, o1). of_held o1) (sl_offers s))"

definition counted :: "slots \<Rightarrow> nat" where
  "counted s = length (filter (\<lambda>(i, o1). of_counted o1) (sl_offers s))"

definition slots_inv :: "slots \<Rightarrow> bool" where
  "slots_inv s \<longleftrightarrow>
     wf_gomap (sl_offers s) \<and> sl_sem s = held_count s \<and> sl_sem s \<le> defaultMaxConcurrentAttaches \<and> sl_active s = int (counted s) \<and>
     (\<forall>(i, o1) \<in> set (sl_offers s). i < sl_next s \<and> of_held o1 = (\<not> of_counted o1))"

lemma count_mput_new:
  "mget m k = None \<Longrightarrow> length (filter (\<lambda>(i, x). P x) (mput m k v)) = length (filter (\<lambda>(i, x). P x) m) + (if P v then 1 else 0)"
  by (induction m) (auto split: if_splits)

lemma count_mput_old:
  "wf_gomap m \<Longrightarrow> mget m k = Some u \<Longrightarrow>
     length (filter (\<lambda>(i, x). P x) (mput m k v)) + (if P u then 1 else 0) = length (filter (\<lambda>(i, x). P x) m) + (if P v then 1 else 0)"
proof (induction m)
  case (Cons a m)
  then show ?case by (cases a) (auto simp: wf_gomap_def split: if_splits)
qed simp

lemma count_mdel:
  "wf_gomap m \<Longrightarrow> mget m k = Some u \<Longrightarrow>
     length (filter (\<lambda>(i, x). P x) (mdel m k)) + (if P u then 1 else 0) = length (filter (\<lambda>(i, x). P x) m)"
proof (induction m)
  case (Cons a m)
  show ?case
  proof (cases "fst a = k")
    case True
    with Cons.prems(1) have "k \<notin> fst ` set m" by (auto simp: wf_gomap_def)
    then have "mdel m k = m" by (simp add: delete_id)
    with True Cons.prems show ?thesis by (cases a) auto
  next
    case False
    with Cons show ?thesis by (cases a) (auto simp: wf_gomap_def)
  qed
qed simp

lemma slots_inv_offer:
  "slots_inv s \<Longrightarrow> mget (sl_offers s) i = Some o1 \<Longrightarrow> i < sl_next s \<and> of_held o1 = (\<not> of_counted o1) \<and> (of_held o1 \<longrightarrow> sl_sem s \<noteq> 0)"
  using count_mdel [of "sl_offers s" i o1 of_held] by (auto simp: slots_inv_def held_count_def dest!: map_of_SomeD split: if_splits)

lemma all_mput:
  "wf_gomap m \<Longrightarrow> (\<forall>(i, x) \<in> set m. P i x) \<Longrightarrow> P k v \<Longrightarrow> \<forall>(i, x) \<in> set (mput m k v). P i x"
  by (induction m) (auto simp: wf_gomap_def split: if_splits)

lemma offer_start_inv: "slots_inv s \<Longrightarrow> slots_inv (offer_start s)"
proof -
  assume inv: "slots_inv s"
  then have "mget (sl_offers s) (sl_next s) = None" by (auto simp: slots_inv_def map_of_eq_None_iff)
  note new = count_mput_new [OF this]
  have "\<forall>(i, o1) \<in> set (mput (sl_offers s) (sl_next s) \<lparr>of_held = True, of_counted = False\<rparr>). i < Suc (sl_next s) \<and> of_held o1 = (\<not> of_counted o1)"
    by (rule all_mput) (use inv in \<open>auto simp: slots_inv_def\<close>)
  with inv new [of of_held "\<lparr>of_held = True, of_counted = False\<rparr>"] new [of of_counted "\<lparr>of_held = True, of_counted = False\<rparr>"]
  show ?thesis by (auto simp: offer_start_def admit_def slots_inv_def held_count_def counted_def)
qed

lemma offer_authenticated_inv:
  assumes inv: "slots_inv s" and "mget (sl_offers s) i = Some o1" "\<not> of_counted o1"
  shows "\<exists>s'. offer_authenticated i s = Some s' \<and> slots_inv s'"
proof -
  have o1: "of_held o1" "sl_sem s \<noteq> 0" "i < sl_next s" using slots_inv_offer [OF assms(1,2)] assms(3) by auto
  have wf: "wf_gomap (sl_offers s)" using inv by (simp add: slots_inv_def)
  let ?v = "\<lparr>of_held = False, of_counted = True\<rparr>"
  have "mput (mput (sl_offers s) i (o1\<lparr>of_held := False\<rparr>)) i ?v = mput (sl_offers s) i ?v" by (simp add: update_last)
  moreover have "\<forall>(j, x) \<in> set (mput (sl_offers s) i ?v). j < sl_next s \<and> of_held x = (\<not> of_counted x)"
    by (rule all_mput [OF wf]) (use inv o1 in \<open>auto simp: slots_inv_def\<close>)
  ultimately show ?thesis
    using o1 assms(2,3) inv count_mput_old [OF wf assms(2), of of_held ?v] count_mput_old [OF wf assms(2), of of_counted ?v]
    by (auto simp: offer_authenticated_def releaseHS_def release_def sessionStarted_def slots_inv_def held_count_def counted_def)
qed

lemma offer_return_inv:
  assumes inv: "slots_inv s" and "mget (sl_offers s) i = Some o1"
  shows "\<exists>s'. offer_return i s = Some s' \<and> slots_inv s' \<and> mget (sl_offers s') i = None"
proof -
  have o1: "of_held o1 = (\<not> of_counted o1)" "of_held o1 \<longrightarrow> sl_sem s \<noteq> 0" using slots_inv_offer [OF assms] by auto
  have wf: "wf_gomap (sl_offers s)" using inv by (simp add: slots_inv_def)
  have del: "mdel (mput (sl_offers s) i v) i = mdel (sl_offers s) i" for v by (simp add: delete_update_same)
  have "set (mdel (sl_offers s) i) \<subseteq> set (sl_offers s)" by (auto simp: AList.delete_eq)
  then show ?thesis
    using o1 assms(2) inv count_mdel [OF wf assms(2), of of_held] count_mdel [OF wf assms(2), of of_counted]
    by (cases "of_held o1")
      (auto simp: offer_return_def releaseHS_def release_def sessionEnded_def slots_inv_def held_count_def counted_def del)
qed

lemma slot_step_inv: "slot_step s s' \<Longrightarrow> slots_inv s \<Longrightarrow> slots_inv s'"
proof (induction rule: slot_step.induct)
  case (arrives s)
  then show ?case by (rule offer_start_inv)
next
  case (authenticated i s s')
  then obtain o1 where "mget (sl_offers s) i = Some o1" "\<not> of_counted o1"
    by (auto simp: offer_authenticated_def split: option.splits if_splits)
  then show ?case using offer_authenticated_inv authenticated by fastforce
next
  case (returned i s s')
  then obtain o1 where "mget (sl_offers s) i = Some o1" by (auto simp: offer_return_def split: option.splits)
  then show ?case using offer_return_inv returned by fastforce
qed

interpretation slot_runs: step_invariant slot_step slots_inv
  by unfold_locales (rule slot_step_inv)

lemma slot_run_inv: "slot_step\<^sup>*\<^sup>* NewSlots s \<Longrightarrow> slots_inv s"
  by (erule slot_runs.run_keeps) (simp add: slots_inv_def NewSlots_def held_count_def counted_def)



end
