(* ===== verification/Pair_Rooms.thy ===== *)
theory Pair_Rooms
  imports Runs
begin

text \<open>
  The blind bridge for pairing: \<^verbatim>\<open>go/internal/signal/pair.go\<close>. Every \<open>/pair\<close> request runs \<open>handlePair\<close> in a goroutine; the first one in a room
  waits, the second one hands itself over, and the first one drives the bridge. A handler is a number, which also stands for its
  connection and, when it waits, for its \<open>pairWaiter\<close>. Its phase says where it is; the steps are the critical sections and channel
  operations, and the goroutines interleave in any order. Closing the channel \<open>done\<close> twice is a run-time panic, kept as a flag.
\<close>

definition defaultMaxPairRooms :: int where "defaultMaxPairRooms = 1024"
definition defaultMaxPairBridges :: int where "defaultMaxPairBridges = 64"
definition defaultPairBridgeBytes :: int where "defaultPairBridgeBytes = 64 * 1024"
definition maxPairRoomIDLen :: nat where "maxPairRoomIDLen = 64"

section \<open>State\<close>

datatype pair_phase =
    PIdle | PWaiting | PMustRecv | PClaim nat | PWaitDone nat | PDrive nat | PBridge nat | PClosing | PEnded

record pair_state =
  pr_waiting :: "(string, nat) gomap"
  pr_active :: nat
  pr_phase :: "nat \<Rightarrow> pair_phase"
  pr_room :: "nat \<Rightarrow> string"
  pr_partner :: "nat \<Rightarrow> nat option"
  pr_done :: "nat \<Rightarrow> bool"
  pr_panic :: bool
  pr_next :: nat

definition newPairRooms :: pair_state where
  "newPairRooms =
     \<lparr>pr_waiting = [], pr_active = 0, pr_phase = (\<lambda>h. PIdle), pr_room = (\<lambda>h. []), pr_partner = (\<lambda>h. None), pr_done = (\<lambda>h. False),
      pr_panic = False, pr_next = 0\<rparr>"

definition beginBridge :: "int \<Rightarrow> pair_state \<Rightarrow> bool \<times> pair_state" where
  "beginBridge max_b s =
     (if max_b > 0 \<and> int (pr_active s) \<ge> max_b then (False, s) else (True, s\<lparr>pr_active := pr_active s + 1\<rparr>))"

definition endBridge :: "pair_state \<Rightarrow> pair_state" where
  "endBridge s = (if pr_active s > 0 then s\<lparr>pr_active := pr_active s - 1\<rparr> else s)"

definition set_phase :: "nat \<Rightarrow> pair_phase \<Rightarrow> pair_state \<Rightarrow> pair_state" where
  "set_phase h p s = s\<lparr>pr_phase := (pr_phase s)(h := p)\<rparr>"

definition close_done :: "nat \<Rightarrow> pair_state \<Rightarrow> pair_state" where
  "close_done h s = s\<lparr>pr_panic := pr_panic s \<or> pr_done s h, pr_done := (pr_done s)(h := True)\<rparr>"

section \<open>Steps of the handlers\<close>

text \<open>
  \<open>handlePair\<close> up to the first critical section of \<open>rendezvous\<close>: a room name that is missing or too long ends the request, a waiting
  partner is claimed, a full table refuses, otherwise the handler waits.
\<close>

definition pair_arrive :: "int \<Rightarrow> string \<Rightarrow> pair_state \<Rightarrow> pair_state" where
  "pair_arrive maxRooms room s =
     (if room = [] \<or> length room > maxPairRoomIDLen then s
      else
        let h = pr_next s; s = s\<lparr>pr_next := h + 1, pr_room := (pr_room s)(h := room)\<rparr>
        in case mget (pr_waiting s) room of
             Some w \<Rightarrow> set_phase h (PClaim w) (s\<lparr>pr_waiting := mdel (pr_waiting s) room\<rparr>)
           | None \<Rightarrow>
               if maxRooms > 0 \<and> int (length (pr_waiting s)) \<ge> maxRooms then set_phase h PEnded s
               else set_phase h PWaiting (s\<lparr>pr_waiting := mput (pr_waiting s) room h\<rparr>))"

text \<open>\<open>w.partner <- c\<close>; the buffer holds one connection, so a send to a full one waits.\<close>

definition pair_send :: "nat \<Rightarrow> pair_state \<Rightarrow> pair_state option" where
  "pair_send h s =
     (case pr_phase s h of
        PClaim w \<Rightarrow>
          if pr_partner s w \<noteq> None then None
          else Some (set_phase h (PWaitDone w) (s\<lparr>pr_partner := (pr_partner s)(w := Some h)\<rparr>))
      | _ \<Rightarrow> None)"

text \<open>The receive of the waiting handler, in the select or after a timer that lost the race.\<close>

definition pair_recv :: "nat \<Rightarrow> pair_state \<Rightarrow> pair_state option" where
  "pair_recv h s =
     (if pr_phase s h \<in> {PWaiting, PMustRecv}
      then map_option (\<lambda>c. set_phase h (PDrive c) (s\<lparr>pr_partner := (pr_partner s)(h := None)\<rparr>)) (pr_partner s h)
      else None)"

definition pair_timeout :: "nat \<Rightarrow> pair_state \<Rightarrow> pair_state option" where
  "pair_timeout h s =
     (if pr_phase s h = PWaiting
      then Some (if mget (pr_waiting s) (pr_room s h) = Some h
                 then set_phase h PEnded (s\<lparr>pr_waiting := mdel (pr_waiting s) (pr_room s h)\<rparr>)
                 else set_phase h PMustRecv s)
      else None)"

text \<open>
  The driver's part of \<open>handlePair\<close>: take a bridge or refuse both parties; and its deferred calls, which first release the partner and then
  give the bridge back.
\<close>

definition pair_begin :: "int \<Rightarrow> nat \<Rightarrow> pair_state \<Rightarrow> pair_state option" where
  "pair_begin max_b h s =
     (case pr_phase s h of
        PDrive c \<Rightarrow>
          let (ok, s) = beginBridge max_b s
          in Some (if ok then set_phase h (PBridge c) s else set_phase h PEnded (close_done h s))
      | _ \<Rightarrow> None)"

definition pair_finish :: "nat \<Rightarrow> pair_state \<Rightarrow> pair_state option" where
  "pair_finish h s =
     (case pr_phase s h of PBridge c \<Rightarrow> Some (set_phase h PClosing (close_done h s)) | _ \<Rightarrow> None)"

definition pair_end :: "nat \<Rightarrow> pair_state \<Rightarrow> pair_state option" where
  "pair_end h s = (if pr_phase s h = PClosing then Some (set_phase h PEnded (endBridge s)) else None)"

text \<open>\<open><-done\<close> of the handler that does not drive.\<close>

definition pair_released :: "nat \<Rightarrow> pair_state \<Rightarrow> pair_state option" where
  "pair_released h s =
     (case pr_phase s h of PWaitDone w \<Rightarrow> if pr_done s w then Some (set_phase h PEnded s) else None | _ \<Rightarrow> None)"

inductive pair_step :: "int \<Rightarrow> int \<Rightarrow> pair_state \<Rightarrow> pair_state \<Rightarrow> bool" for maxRooms max_b where
  arrive: "pair_step maxRooms max_b s (pair_arrive maxRooms room s)"
| send: "pair_send h s = Some s' \<Longrightarrow> pair_step maxRooms max_b s s'"
| recv: "pair_recv h s = Some s' \<Longrightarrow> pair_step maxRooms max_b s s'"
| timeout: "pair_timeout h s = Some s' \<Longrightarrow> pair_step maxRooms max_b s s'"
| begin_bridge: "pair_begin max_b h s = Some s' \<Longrightarrow> pair_step maxRooms max_b s s'"
| finish: "pair_finish h s = Some s' \<Longrightarrow> pair_step maxRooms max_b s s'"
| ended: "pair_end h s = Some s' \<Longrightarrow> pair_step maxRooms max_b s s'"
| released: "pair_released h s = Some s' \<Longrightarrow> pair_step maxRooms max_b s s'"

section \<open>Copying frames\<close>

text \<open>
  Two \<open>pairCopy\<close> loops share the counter \<open>used\<close>: each frame read is added before it is forwarded, and a loop that exceeds the budget
  stops. A read is a direction and its data; the reads interleave in any order, and a stopped loop reads no more.
\<close>

fun pair_copies :: "int \<Rightarrow> int \<Rightarrow> (bool \<Rightarrow> bool) \<Rightarrow> (bool \<times> bytes) list \<Rightarrow> (bool \<times> bytes) list" where
  "pair_copies budget used stopped [] = []"
| "pair_copies budget used stopped ((d, data) # reads) =
     (if stopped d then pair_copies budget used stopped reads
      else
        let used = used + int (length data)
        in if budget > 0 \<and> used > budget then pair_copies budget used (stopped(d := True)) reads
           else (d, data) # pair_copies budget used stopped reads)"

section \<open>The invariant\<close>

text \<open>A handler whose partner has not been received, and one that has not closed its channel.\<close>

definition awaits :: "pair_state \<Rightarrow> nat \<Rightarrow> bool" where
  "awaits s h \<longleftrightarrow> pr_phase s h = PWaiting \<or> pr_phase s h = PMustRecv"

definition table_inv :: "pair_state \<Rightarrow> bool" where
  "table_inv s \<longleftrightarrow> wf_gomap (pr_waiting s) \<and>
     (\<forall>r h. mget (pr_waiting s) r = Some h \<longrightarrow>
        pr_phase s h = PWaiting \<and> pr_room s h = r \<and> pr_partner s h = None \<and> (\<forall>c. pr_phase s c \<noteq> PClaim h))"

text \<open>A waiting handler is in the table, is being claimed, or has its partner's connection in the buffer.\<close>

definition wait_inv :: "pair_state \<Rightarrow> bool" where
  "wait_inv s \<longleftrightarrow>
     (\<forall>h. awaits s h \<longrightarrow>
        pr_phase s h = PWaiting \<and> mget (pr_waiting s) (pr_room s h) = Some h \<or> (\<exists>c. pr_phase s c = PClaim h) \<or> (\<exists>c. pr_partner s h = Some c))"

definition claim_inv :: "pair_state \<Rightarrow> bool" where
  "claim_inv s \<longleftrightarrow>
     (\<forall>c h. pr_phase s c = PClaim h \<longrightarrow>
        awaits s h \<and> pr_partner s h = None \<and> pr_room s c = pr_room s h \<and> (\<forall>c'. pr_phase s c' = PClaim h \<longrightarrow> c' = c))"

definition partner_inv :: "pair_state \<Rightarrow> bool" where
  "partner_inv s \<longleftrightarrow> (\<forall>h c. pr_partner s h = Some c \<longrightarrow> awaits s h \<and> pr_phase s c = PWaitDone h)"

definition done_inv :: "pair_state \<Rightarrow> bool" where
  "done_inv s \<longleftrightarrow>
     (\<forall>h. pr_done s h \<longrightarrow> pr_phase s h = PClosing \<or> pr_phase s h = PEnded) \<and>
     (\<forall>c h. pr_phase s c = PWaitDone h \<longrightarrow>
        pr_room s c = pr_room s h \<and> (pr_done s h \<or> pr_partner s h = Some c \<or> pr_phase s h = PDrive c \<or> pr_phase s h = PBridge c)) \<and>
     (\<forall>h c. pr_phase s h = PDrive c \<or> pr_phase s h = PBridge c \<longrightarrow> pr_phase s c = PWaitDone h)"

text \<open>The handlers that hold a bridge.\<close>

definition bridging :: "pair_state \<Rightarrow> nat set" where
  "bridging s = {h. pr_phase s h = PClosing \<or> (\<exists>c. pr_phase s h = PBridge c)}"

definition count_inv :: "int \<Rightarrow> int \<Rightarrow> pair_state \<Rightarrow> bool" where
  "count_inv maxRooms max_b s \<longleftrightarrow>
     finite (bridging s) \<and> pr_active s = card (bridging s) \<and> (max_b > 0 \<longrightarrow> int (pr_active s) \<le> max_b) \<and>
     (maxRooms > 0 \<longrightarrow> int (length (pr_waiting s)) \<le> maxRooms) \<and> (\<forall>h. pr_next s \<le> h \<longrightarrow> pr_phase s h = PIdle) \<and> \<not> pr_panic s"

definition pair_inv :: "int \<Rightarrow> int \<Rightarrow> pair_state \<Rightarrow> bool" where
  "pair_inv maxRooms max_b s \<longleftrightarrow>
     table_inv s \<and> wait_inv s \<and> claim_inv s \<and> partner_inv s \<and> done_inv s \<and> count_inv maxRooms max_b s"

lemmas pair_inv_defs = pair_inv_def table_inv_def wait_inv_def claim_inv_def partner_inv_def done_inv_def

lemma pair_inv_init: "pair_inv maxRooms max_b newPairRooms"
  by (auto simp: pair_inv_defs count_inv_def newPairRooms_def awaits_def bridging_def)

lemma set_phase_sel [simp]:
  "pr_phase (set_phase h p s) k = (if k = h then p else pr_phase s k)"
  "pr_waiting (set_phase h p s) = pr_waiting s" "pr_room (set_phase h p s) = pr_room s" "pr_partner (set_phase h p s) = pr_partner s"
  "pr_done (set_phase h p s) = pr_done s" "pr_active (set_phase h p s) = pr_active s" "pr_next (set_phase h p s) = pr_next s"
  "pr_panic (set_phase h p s) = pr_panic s"
  by (simp_all add: set_phase_def)

lemma close_done_sel [simp]:
  "pr_phase (close_done h s) = pr_phase s" "pr_waiting (close_done h s) = pr_waiting s" "pr_room (close_done h s) = pr_room s"
  "pr_partner (close_done h s) = pr_partner s" "pr_done (close_done h s) k = (k = h \<or> pr_done s k)" "pr_active (close_done h s) = pr_active s"
  "pr_next (close_done h s) = pr_next s" "pr_panic (close_done h s) = (pr_panic s \<or> pr_done s h)"
  by (simp_all add: close_done_def)

lemma endBridge_sel [simp]:
  "pr_phase (endBridge s) = pr_phase s" "pr_waiting (endBridge s) = pr_waiting s" "pr_room (endBridge s) = pr_room s"
  "pr_partner (endBridge s) = pr_partner s" "pr_done (endBridge s) = pr_done s" "pr_active (endBridge s) = pr_active s - 1"
  "pr_next (endBridge s) = pr_next s" "pr_panic (endBridge s) = pr_panic s"
  by (simp_all add: endBridge_def)

lemma bridging_set_phase:
  "bridging (set_phase h p s) = (if p = PClosing \<or> (\<exists>c. p = PBridge c) then insert h (bridging s) else bridging s - {h})"
  by (auto simp: bridging_def split: if_splits)

lemma not_bridging: "pr_phase s h \<noteq> PClosing \<Longrightarrow> \<forall>c. pr_phase s h \<noteq> PBridge c \<Longrightarrow> bridging s - {h} = bridging s"
  by (auto simp: bridging_def)

lemma bridging_frame [simp]:
  "bridging (s\<lparr>pr_partner := x\<rparr>) = bridging s" "bridging (s\<lparr>pr_waiting := w\<rparr>) = bridging s" "bridging (s\<lparr>pr_active := n\<rparr>) = bridging s"
  "bridging (s\<lparr>pr_next := n, pr_room := r\<rparr>) = bridging s" "bridging (close_done h s) = bridging s" "bridging (endBridge s) = bridging s"
  by (simp_all add: bridging_def)

lemma count_inv_phase:
  assumes "count_inv mr mb s" "\<forall>c. pr_phase s h \<noteq> PBridge c" "\<forall>c. p \<noteq> PBridge c" "pr_phase s h \<noteq> PIdle"
    and "pr_phase s h \<noteq> PClosing" "p \<noteq> PClosing"
  shows "count_inv mr mb (set_phase h p s)"
  using assms not_bridging [OF assms(5,2)] by (auto simp: count_inv_def bridging_set_phase)

lemma inv_table:
  "pair_inv mr mb s \<Longrightarrow> mget (pr_waiting s) r = Some h \<Longrightarrow>
     pr_phase s h = PWaiting \<and> pr_room s h = r \<and> pr_partner s h = None \<and> (\<forall>c. pr_phase s c \<noteq> PClaim h)"
  unfolding pair_inv_def table_inv_def by blast

lemma inv_wait:
  "pair_inv mr mb s \<Longrightarrow> awaits s h \<Longrightarrow>
     pr_phase s h = PWaiting \<and> mget (pr_waiting s) (pr_room s h) = Some h \<or> (\<exists>c. pr_phase s c = PClaim h) \<or> (\<exists>c. pr_partner s h = Some c)"
  unfolding pair_inv_def wait_inv_def by blast

lemma inv_claim:
  "pair_inv mr mb s \<Longrightarrow> pr_phase s c = PClaim h \<Longrightarrow> awaits s h \<and> pr_partner s h = None \<and> pr_room s c = pr_room s h"
  unfolding pair_inv_def claim_inv_def by blast

lemma inv_claim_unique: "pair_inv mr mb s \<Longrightarrow> pr_phase s c = PClaim h \<Longrightarrow> pr_phase s c' = PClaim h \<Longrightarrow> c' = c"
  unfolding pair_inv_def claim_inv_def by blast

lemma inv_partner: "pair_inv mr mb s \<Longrightarrow> pr_partner s h = Some c \<Longrightarrow> awaits s h \<and> pr_phase s c = PWaitDone h"
  unfolding pair_inv_def partner_inv_def by blast

lemma inv_done: "pair_inv mr mb s \<Longrightarrow> pr_done s h \<Longrightarrow> pr_phase s h = PClosing \<or> pr_phase s h = PEnded"
  unfolding pair_inv_def done_inv_def by blast

lemma inv_waitdone:
  "pair_inv mr mb s \<Longrightarrow> pr_phase s c = PWaitDone h \<Longrightarrow>
     pr_room s c = pr_room s h \<and> (pr_done s h \<or> pr_partner s h = Some c \<or> pr_phase s h = PDrive c \<or> pr_phase s h = PBridge c)"
  unfolding pair_inv_def done_inv_def by blast

lemma inv_drive: "pair_inv mr mb s \<Longrightarrow> pr_phase s h = PDrive c \<or> pr_phase s h = PBridge c \<Longrightarrow> pr_phase s c = PWaitDone h"
  unfolding pair_inv_def done_inv_def by blast

lemma inv_count: "pair_inv mr mb s \<Longrightarrow> count_inv mr mb s" and inv_wf: "pair_inv mr mb s \<Longrightarrow> wf_gomap (pr_waiting s)"
  by (simp_all add: pair_inv_def table_inv_def)

lemma pair_invI:
  assumes "wf_gomap (pr_waiting s)" "count_inv mr mb s"
    and "\<And>r h. mget (pr_waiting s) r = Some h \<Longrightarrow>
      pr_phase s h = PWaiting \<and> pr_room s h = r \<and> pr_partner s h = None \<and> (\<forall>c. pr_phase s c \<noteq> PClaim h)"
    and "\<And>h. awaits s h \<Longrightarrow>
      pr_phase s h = PWaiting \<and> mget (pr_waiting s) (pr_room s h) = Some h \<or> (\<exists>c. pr_phase s c = PClaim h) \<or> (\<exists>c. pr_partner s h = Some c)"
    and "\<And>c h. pr_phase s c = PClaim h \<Longrightarrow> awaits s h \<and> pr_partner s h = None \<and> pr_room s c = pr_room s h"
    and "\<And>c c' h. pr_phase s c = PClaim h \<Longrightarrow> pr_phase s c' = PClaim h \<Longrightarrow> c' = c"
    and "\<And>h c. pr_partner s h = Some c \<Longrightarrow> awaits s h \<and> pr_phase s c = PWaitDone h"
    and "\<And>h. pr_done s h \<Longrightarrow> pr_phase s h = PClosing \<or> pr_phase s h = PEnded"
    and "\<And>c h. pr_phase s c = PWaitDone h \<Longrightarrow>
      pr_room s c = pr_room s h \<and> (pr_done s h \<or> pr_partner s h = Some c \<or> pr_phase s h = PDrive c \<or> pr_phase s h = PBridge c)"
    and "\<And>h c. pr_phase s h = PDrive c \<or> pr_phase s h = PBridge c \<Longrightarrow> pr_phase s c = PWaitDone h"
  shows "pair_inv mr mb s"
  unfolding pair_inv_defs using assms by blast

lemma wait_keep:
  assumes "pr_phase s h = PWaiting \<and> mget (pr_waiting s) (pr_room s h) = Some h \<or> (\<exists>c. pr_phase s c = PClaim h) \<or> (\<exists>c. pr_partner s h = Some c)"
    and "pr_phase s h = PWaiting \<and> mget (pr_waiting s) (pr_room s h) = Some h \<Longrightarrow> pr_phase s' h = PWaiting \<and> mget (pr_waiting s') (pr_room s' h) = Some h"
    and "\<And>c. pr_phase s c = PClaim h \<Longrightarrow> pr_phase s' c = PClaim h" "pr_partner s' h = pr_partner s h"
  shows "pr_phase s' h = PWaiting \<and> mget (pr_waiting s') (pr_room s' h) = Some h \<or> (\<exists>c. pr_phase s' c = PClaim h) \<or> (\<exists>c. pr_partner s' h = Some c)"
  using assms by metis

subsection \<open>A partner is handed over\<close>

lemma pair_send_inv:
  assumes inv: "pair_inv maxRooms max_b s" and step: "pair_send h s = Some s'"
  shows "pair_inv maxRooms max_b s'"
proof -
  obtain w where w: "pr_phase s h = PClaim w" "pr_partner s w = None"
    and s': "s' = set_phase h (PWaitDone w) (s\<lparr>pr_partner := (pr_partner s)(w := Some h)\<rparr>)"
    using step by (auto simp: pair_send_def split: pair_phase.splits if_splits)
  have aw: "awaits s w" "pr_room s h = pr_room s w" "\<And>c. pr_phase s c = PClaim w \<Longrightarrow> c = h"
    using inv_claim [OF inv w(1)] inv_claim_unique [OF inv w(1)] by auto
  have hw: "h \<noteq> w" using aw(1) w(1) by (auto simp: awaits_def)
  have aweq: "awaits s' k \<longleftrightarrow> awaits s k" for k using w(1) by (auto simp: s' awaits_def)
  show ?thesis
  proof (rule pair_invI)
    show "wf_gomap (pr_waiting s')" using inv_wf [OF inv] by (simp add: s')
    show "count_inv maxRooms max_b s'"
      unfolding s' using inv_count [OF inv] w(1) by (intro count_inv_phase) (auto simp: count_inv_def)
  next
    fix r k assume "mget (pr_waiting s') r = Some k"
    with inv_table [OF inv, of r k] w show "pr_phase s' k = PWaiting \<and> pr_room s' k = r \<and> pr_partner s' k = None \<and> (\<forall>c. pr_phase s' c \<noteq> PClaim k)"
      by (auto simp: s')
  next
    fix k assume "awaits s' k"
    then have k: "awaits s k" by (simp add: aweq)
    show "pr_phase s' k = PWaiting \<and> mget (pr_waiting s') (pr_room s' k) = Some k \<or>
        (\<exists>c. pr_phase s' c = PClaim k) \<or> (\<exists>c. pr_partner s' k = Some c)"
    proof (cases "k = w")
      case False
      show ?thesis using False w(1) by (intro wait_keep [OF inv_wait [OF inv k]]) (auto simp: s')
    qed (simp add: s')
  next
    fix c k assume "pr_phase s' c = PClaim k"
    then have "c \<noteq> h" "pr_phase s c = PClaim k" by (auto simp: s' split: if_splits)
    moreover from this have "k \<noteq> w" using aw(3) [of c] by blast
    ultimately show "awaits s' k \<and> pr_partner s' k = None \<and> pr_room s' c = pr_room s' k"
      using inv_claim [OF inv, of c k] unfolding aweq by (simp add: s')
    fix c' assume "pr_phase s' c' = PClaim k"
    then show "c' = c" using inv_claim_unique [OF inv \<open>pr_phase s c = PClaim k\<close>] by (auto simp: s' split: if_splits)
  next
    fix k c assume "pr_partner s' k = Some c"
    with inv_partner [OF inv, of k c] aw(1) w show "awaits s' k \<and> pr_phase s' c = PWaitDone k"
      unfolding aweq by (auto simp: s' split: if_splits)
  next
    fix k assume "pr_done s' k"
    with inv_done [OF inv, of k] w show "pr_phase s' k = PClosing \<or> pr_phase s' k = PEnded" by (auto simp: s')
  next
    fix c k assume a: "pr_phase s' c = PWaitDone k"
    show "pr_room s' c = pr_room s' k \<and> (pr_done s' k \<or> pr_partner s' k = Some c \<or> pr_phase s' k = PDrive c \<or> pr_phase s' k = PBridge c)"
    proof (cases "c = h")
      case True
      with a aw(2) show ?thesis by (simp add: s')
    next
      case False
      with a inv_waitdone [OF inv, of c k] w aw(1) show ?thesis by (auto simp: s' awaits_def)
    qed
  next
    fix k c assume "pr_phase s' k = PDrive c \<or> pr_phase s' k = PBridge c"
    then have "pr_phase s c = PWaitDone k" using inv_drive [OF inv, of k c] by (auto simp: s' split: if_splits)
    then show "pr_phase s' c = PWaitDone k" using w by (auto simp: s')
  qed
qed

lemma pair_recv_inv:
  assumes inv: "pair_inv maxRooms max_b s" and step: "pair_recv h s = Some s'"
  shows "pair_inv maxRooms max_b s'"
proof -
  obtain c where aw: "awaits s h" and c: "pr_partner s h = Some c"
    and s': "s' = set_phase h (PDrive c) (s\<lparr>pr_partner := (pr_partner s)(h := None)\<rparr>)"
    using step by (auto simp: pair_recv_def awaits_def split: if_splits)
  have pc: "pr_phase s c = PWaitDone h" using inv_partner [OF inv c] by blast
  have hc: "h \<noteq> c" using aw pc by (auto simp: awaits_def)
  have nd: "\<not> pr_done s h" using inv_done [OF inv, of h] aw by (auto simp: awaits_def)
  have nt: "mget (pr_waiting s) r \<noteq> Some h" for r using inv_table [OF inv, of r h] c by auto
  have nc: "pr_phase s k \<noteq> PClaim h" for k using inv_claim [OF inv, of k h] c by auto
  have aweq: "awaits s' k \<longleftrightarrow> awaits s k \<and> k \<noteq> h" for k by (auto simp: s' awaits_def)
  have nh: "pr_phase s h \<noteq> PIdle" "\<forall>k. pr_phase s h \<noteq> PBridge k" "pr_phase s h \<noteq> PWaitDone k" "pr_phase s h \<noteq> PClosing" for k using aw by (auto simp: awaits_def)
  show ?thesis
  proof (rule pair_invI)
    show "wf_gomap (pr_waiting s')" using inv_wf [OF inv] by (simp add: s')
    show "count_inv maxRooms max_b s'"
      unfolding s' using inv_count [OF inv] nh by (intro count_inv_phase) (auto simp: count_inv_def)
  next
    fix r k assume "mget (pr_waiting s') r = Some k"
    with inv_table [OF inv, of r k] nt show "pr_phase s' k = PWaiting \<and> pr_room s' k = r \<and> pr_partner s' k = None \<and> (\<forall>c. pr_phase s' c \<noteq> PClaim k)"
      by (auto simp: s')
  next
    fix k assume "awaits s' k"
    then have k: "awaits s k" "k \<noteq> h" by (simp_all add: aweq)
    show "pr_phase s' k = PWaiting \<and> mget (pr_waiting s') (pr_room s' k) = Some k \<or>
        (\<exists>c. pr_phase s' c = PClaim k) \<or> (\<exists>c. pr_partner s' k = Some c)"
      by (rule wait_keep [OF inv_wait [OF inv k(1)]]) (use k(2) aw in \<open>auto simp: s' awaits_def\<close>)
  next
    fix a k assume "pr_phase s' a = PClaim k"
    then have "a \<noteq> h" "pr_phase s a = PClaim k" "k \<noteq> h" using nc by (auto simp: s' split: if_splits)
    with inv_claim [OF inv, of a k] show "awaits s' k \<and> pr_partner s' k = None \<and> pr_room s' a = pr_room s' k"
      unfolding aweq by (simp add: s')
    fix c' assume "pr_phase s' c' = PClaim k"
    then show "c' = a" using inv_claim_unique [OF inv \<open>pr_phase s a = PClaim k\<close>] by (auto simp: s' split: if_splits)
  next
    fix k a assume "pr_partner s' k = Some a"
    then have "k \<noteq> h" "pr_partner s k = Some a" by (auto simp: s' split: if_splits)
    with inv_partner [OF inv, of k a] nh show "awaits s' k \<and> pr_phase s' a = PWaitDone k" unfolding aweq by (auto simp: s')
  next
    fix k assume "pr_done s' k"
    with inv_done [OF inv, of k] nd show "pr_phase s' k = PClosing \<or> pr_phase s' k = PEnded" by (auto simp: s')
  next
    fix a k assume "pr_phase s' a = PWaitDone k"
    then have "a \<noteq> h" "pr_phase s a = PWaitDone k" by (auto simp: s' split: if_splits)
    with inv_waitdone [OF inv, of a k] c nd aw
    show "pr_room s' a = pr_room s' k \<and> (pr_done s' k \<or> pr_partner s' k = Some a \<or> pr_phase s' k = PDrive a \<or> pr_phase s' k = PBridge a)"
      by (auto simp: s' awaits_def)
  next
    fix k a assume "pr_phase s' k = PDrive a \<or> pr_phase s' k = PBridge a"
    then have "pr_phase s a = PWaitDone k" using inv_drive [OF inv, of k a] pc by (auto simp: s' split: if_splits)
    then show "pr_phase s' a = PWaitDone k" using nh by (auto simp: s')
  qed
qed

subsection \<open>One handler moves on\<close>

text \<open>A step that changes the phase of one handler, and perhaps closes its channel.\<close>

lemma phase_change_inv:
  assumes inv: "pair_inv mr mb s"
    and frame: "pr_waiting s' = pr_waiting s" "pr_room s' = pr_room s" "pr_partner s' = pr_partner s" "count_inv mr mb s'"
    and phase: "\<And>k. pr_phase s' k = (if k = h then p else pr_phase s k)"
    and dn: "\<And>k. pr_done s' k \<longleftrightarrow> pr_done s k \<or> k = h \<and> closed" "closed \<Longrightarrow> p = PClosing \<or> p = PEnded" "pr_done s h \<Longrightarrow> p = PClosing \<or> p = PEnded"
    and new: "\<And>c. p \<noteq> PClaim c" "\<And>c. p \<noteq> PWaitDone c" "p \<noteq> PWaiting"
      "\<And>c. p = PDrive c \<or> p = PBridge c \<Longrightarrow> pr_phase s h = PDrive c \<or> pr_phase s h = PBridge c"
    and old: "\<And>c. pr_phase s h \<noteq> PClaim c" "pr_phase s h \<noteq> PEnded" "\<And>w. pr_phase s h = PWaitDone w \<Longrightarrow> pr_done s w"
      "\<And>r. mget (pr_waiting s) r \<noteq> Some h" "awaits s h \<longleftrightarrow> p = PMustRecv"
      "\<And>c. pr_phase s h = PDrive c \<or> pr_phase s h = PBridge c \<Longrightarrow> p = PBridge c \<or> closed"
  shows "pair_inv mr mb s'"
proof -
  have aweq: "awaits s' k \<longleftrightarrow> awaits s k" for k using new(3) old(5) by (auto simp: awaits_def phase)
  have nw: "pr_phase s h = PWaitDone w \<Longrightarrow> pr_partner s w \<noteq> Some h \<and> pr_phase s w \<noteq> PDrive h \<and> pr_phase s w \<noteq> PBridge h" for w
    using old(3) [of w] inv_done [OF inv, of w] inv_partner [OF inv, of w h] by (auto simp: awaits_def)
  show ?thesis
  proof (rule pair_invI)
    show "wf_gomap (pr_waiting s')" using inv_wf [OF inv] by (simp add: frame)
    show "count_inv mr mb s'" by (rule frame(4))
  next
    fix r k assume "mget (pr_waiting s') r = Some k"
    then have "mget (pr_waiting s) r = Some k" "k \<noteq> h" using old(4) by (auto simp: frame)
    with inv_table [OF inv, of r k] new(1) show "pr_phase s' k = PWaiting \<and> pr_room s' k = r \<and> pr_partner s' k = None \<and> (\<forall>c. pr_phase s' c \<noteq> PClaim k)"
      by (auto simp: frame phase)
  next
    fix k assume "awaits s' k"
    then have k: "awaits s k" by (simp add: aweq)
    show "pr_phase s' k = PWaiting \<and> mget (pr_waiting s') (pr_room s' k) = Some k \<or>
        (\<exists>c. pr_phase s' c = PClaim k) \<or> (\<exists>c. pr_partner s' k = Some c)"
      by (rule wait_keep [OF inv_wait [OF inv k]]) (use old(1,4) in \<open>auto simp: frame phase\<close>)
  next
    fix c k assume "pr_phase s' c = PClaim k"
    then have ck: "c \<noteq> h" "pr_phase s c = PClaim k" using new(1) by (auto simp: phase split: if_splits)
    then show "awaits s' k \<and> pr_partner s' k = None \<and> pr_room s' c = pr_room s' k"
      using inv_claim [OF inv, of c k] by (simp add: aweq frame)
    fix c' assume "pr_phase s' c' = PClaim k"
    then show "c' = c" using inv_claim_unique [OF inv ck(2)] new(1) by (auto simp: phase split: if_splits)
  next
    fix k c assume "pr_partner s' k = Some c"
    then have kc: "awaits s k" "pr_phase s c = PWaitDone k" using inv_partner [OF inv, of k c] by (auto simp: frame)
    then have "c \<noteq> h" using nw [of k] \<open>pr_partner s' k = Some c\<close> by (auto simp: frame)
    with kc show "awaits s' k \<and> pr_phase s' c = PWaitDone k" by (simp add: aweq phase)
  next
    fix k assume "pr_done s' k"
    then show "pr_phase s' k = PClosing \<or> pr_phase s' k = PEnded" using inv_done [OF inv, of k] dn old(2) by (auto simp: phase)
  next
    fix c k assume "pr_phase s' c = PWaitDone k"
    then have "pr_phase s c = PWaitDone k" using new(2) by (auto simp: phase split: if_splits)
    with inv_waitdone [OF inv, of c k] dn(1) old(6) [of c]
    show "pr_room s' c = pr_room s' k \<and> (pr_done s' k \<or> pr_partner s' k = Some c \<or> pr_phase s' k = PDrive c \<or> pr_phase s' k = PBridge c)"
      by (auto simp: frame phase)
  next
    fix k c assume a: "pr_phase s' k = PDrive c \<or> pr_phase s' k = PBridge c"
    then have "pr_phase s k = PDrive c \<or> pr_phase s k = PBridge c" using new(4) by (auto simp: phase split: if_splits)
    then have "pr_phase s c = PWaitDone k" "c \<noteq> h" using inv_drive [OF inv, of k c] nw [of k] by auto
    then show "pr_phase s' c = PWaitDone k" by (simp add: phase)
  qed
qed

lemma driver_facts:
  assumes inv: "pair_inv mr mb s" and d: "pr_phase s h = PDrive c \<or> pr_phase s h = PBridge c"
  shows "mget (pr_waiting s) r \<noteq> Some h" "\<not> pr_done s h" "\<not> awaits s h" "pr_phase s h \<noteq> PIdle"
  using d inv_table [OF inv, of r h] inv_done [OF inv, of h] by (auto simp: awaits_def)

lemma pair_begin_inv:
  assumes inv: "pair_inv mr mb s" and step: "pair_begin mb h s = Some s'"
  shows "pair_inv mr mb s'"
proof -
  obtain c where c: "pr_phase s h = PDrive c" using step by (auto simp: pair_begin_def split: pair_phase.splits)
  note f = driver_facts [OF inv disjI1, OF c]
  have cnt: "count_inv mr mb s" by (rule inv_count [OF inv])
  have nb: "h \<notin> bridging s" using c by (auto simp: bridging_def)
  show ?thesis
  proof (cases "mb > 0 \<and> int (pr_active s) \<ge> mb")
    case True
    then have s': "s' = set_phase h PEnded (close_done h s)" using step c by (auto simp: pair_begin_def beginBridge_def)
    have "count_inv mr mb s'"
      unfolding s' using cnt f(2) c by (intro count_inv_phase) (auto simp: count_inv_def)
    then show ?thesis
      by (rule phase_change_inv [OF inv, where h = h and p = PEnded and closed = True, rotated 3]) (use c f in \<open>auto simp: s'\<close>)
  next
    case False
    then have s': "s' = set_phase h (PBridge c) (s\<lparr>pr_active := pr_active s + 1\<rparr>)" using step c by (auto simp: pair_begin_def beginBridge_def)
    have "count_inv mr mb s'" using cnt False nb c by (auto simp: count_inv_def s' bridging_set_phase)
    then show ?thesis
      by (rule phase_change_inv [OF inv, where h = h and p = "PBridge c" and closed = False, rotated 3]) (use c f in \<open>auto simp: s'\<close>)
  qed
qed

lemma pair_finish_inv:
  assumes inv: "pair_inv mr mb s" and step: "pair_finish h s = Some s'"
  shows "pair_inv mr mb s'"
proof -
  obtain c where c: "pr_phase s h = PBridge c" and s': "s' = set_phase h PClosing (close_done h s)"
    using step by (auto simp: pair_finish_def split: pair_phase.splits)
  note f = driver_facts [OF inv disjI2, OF c]
  have "h \<in> bridging s" using c by (auto simp: bridging_def)
  then have "count_inv mr mb s'" using inv_count [OF inv] f(2) c by (auto simp: count_inv_def s' bridging_set_phase insert_absorb)
  then show ?thesis
    by (rule phase_change_inv [OF inv, where h = h and p = PClosing and closed = True, rotated 3]) (use c f in \<open>auto simp: s'\<close>)
qed

lemma pair_end_inv:
  assumes inv: "pair_inv mr mb s" and step: "pair_end h s = Some s'"
  shows "pair_inv mr mb s'"
proof -
  have c: "pr_phase s h = PClosing" and s': "s' = set_phase h PEnded (endBridge s)"
    using step by (auto simp: pair_end_def split: if_splits)
  have nt: "mget (pr_waiting s) r \<noteq> Some h" for r using inv_table [OF inv, of r h] c by auto
  have "h \<in> bridging s" using c by (auto simp: bridging_def)
  then have "count_inv mr mb s'" using inv_count [OF inv] c by (auto simp: count_inv_def s' bridging_set_phase card_Diff_singleton)
  then show ?thesis
    by (rule phase_change_inv [OF inv, where h = h and p = PEnded and closed = False, rotated 3]) (use c nt in \<open>auto simp: s' awaits_def\<close>)
qed

lemma pair_released_inv:
  assumes inv: "pair_inv mr mb s" and step: "pair_released h s = Some s'"
  shows "pair_inv mr mb s'"
proof -
  obtain w where w: "pr_phase s h = PWaitDone w" "pr_done s w" and s': "s' = set_phase h PEnded s"
    using step by (auto simp: pair_released_def split: pair_phase.splits if_splits)
  have nt: "mget (pr_waiting s) r \<noteq> Some h" for r using inv_table [OF inv, of r h] w by auto
  have "count_inv mr mb s'" unfolding s' using inv_count [OF inv] w by (intro count_inv_phase) auto
  then show ?thesis
    by (rule phase_change_inv [OF inv, where h = h and p = PEnded and closed = False, rotated 3]) (use w nt in \<open>auto simp: s' awaits_def\<close>)
qed

subsection \<open>The table changes\<close>

lemma pair_timeout_inv:
  assumes inv: "pair_inv mr mb s" and step: "pair_timeout h s = Some s'"
  shows "pair_inv mr mb s'"
proof (cases "mget (pr_waiting s) (pr_room s h) = Some h")
  case False
  then have w: "pr_phase s h = PWaiting" and s': "s' = set_phase h PMustRecv s" using step by (auto simp: pair_timeout_def split: if_splits)
  have nt: "mget (pr_waiting s) r \<noteq> Some h" for r using inv_table [OF inv, of r h] False by auto
  have "count_inv mr mb s'" unfolding s' using inv_count [OF inv] w by (intro count_inv_phase) auto
  then show ?thesis
    by (rule phase_change_inv [OF inv, where h = h and p = PMustRecv and closed = False, rotated 3]) (use w nt inv_done [OF inv, of h] in \<open>auto simp: s' awaits_def\<close>)
next
  case True
  then have w: "pr_phase s h = PWaiting" and s': "s' = set_phase h PEnded (s\<lparr>pr_waiting := mdel (pr_waiting s) (pr_room s h)\<rparr>)"
    using step by (auto simp: pair_timeout_def split: if_splits)
  note t = inv_table [OF inv True]
  have aweq: "awaits s' k \<longleftrightarrow> awaits s k \<and> k \<noteq> h" for k by (auto simp: s' awaits_def)
  show ?thesis
  proof (rule pair_invI)
    show "wf_gomap (pr_waiting s')" using inv_wf [OF inv] by (simp add: s')
    have "length (mdel (pr_waiting s) (pr_room s h)) \<le> length (pr_waiting s)" by (rule length_mdel_le)
    then show "count_inv mr mb s'" unfolding s' using inv_count [OF inv] w by (intro count_inv_phase) (auto simp: count_inv_def)
  next
    fix r k assume "mget (pr_waiting s') r = Some k"
    then have "mget (pr_waiting s) r = Some k" "r \<noteq> pr_room s h" by (auto simp: s' split: if_splits)
    with inv_table [OF inv, of r k] show "pr_phase s' k = PWaiting \<and> pr_room s' k = r \<and> pr_partner s' k = None \<and> (\<forall>c. pr_phase s' c \<noteq> PClaim k)"
      by (auto simp: s')
  next
    fix k assume "awaits s' k"
    then have k: "awaits s k" "k \<noteq> h" by (simp_all add: aweq)
    show "pr_phase s' k = PWaiting \<and> mget (pr_waiting s') (pr_room s' k) = Some k \<or>
        (\<exists>c. pr_phase s' c = PClaim k) \<or> (\<exists>c. pr_partner s' k = Some c)"
      by (rule wait_keep [OF inv_wait [OF inv k(1)]]) (use k(2) w True in \<open>auto simp: s'\<close>)
  next
    fix c k assume "pr_phase s' c = PClaim k"
    then have ck: "pr_phase s c = PClaim k" "k \<noteq> h" using t by (auto simp: s' split: if_splits)
    then show "awaits s' k \<and> pr_partner s' k = None \<and> pr_room s' c = pr_room s' k"
      using inv_claim [OF inv, of c k] unfolding aweq by (simp add: s')
    fix c' assume "pr_phase s' c' = PClaim k"
    then show "c' = c" using inv_claim_unique [OF inv ck(1)] by (auto simp: s' split: if_splits)
  next
    fix k c assume "pr_partner s' k = Some c"
    then have "pr_partner s k = Some c" "k \<noteq> h" using t by (auto simp: s')
    with inv_partner [OF inv, of k c] w show "awaits s' k \<and> pr_phase s' c = PWaitDone k" unfolding aweq by (auto simp: s')
  next
    fix k assume "pr_done s' k"
    with inv_done [OF inv, of k] show "pr_phase s' k = PClosing \<or> pr_phase s' k = PEnded" by (auto simp: s')
  next
    fix c k assume "pr_phase s' c = PWaitDone k"
    then have "pr_phase s c = PWaitDone k" by (auto simp: s' split: if_splits)
    with inv_waitdone [OF inv, of c k] w
    show "pr_room s' c = pr_room s' k \<and> (pr_done s' k \<or> pr_partner s' k = Some c \<or> pr_phase s' k = PDrive c \<or> pr_phase s' k = PBridge c)"
      by (auto simp: s')
  next
    fix k c assume "pr_phase s' k = PDrive c \<or> pr_phase s' k = PBridge c"
    then have "pr_phase s c = PWaitDone k" using inv_drive [OF inv, of k c] by (auto simp: s' split: if_splits)
    then show "pr_phase s' c = PWaitDone k" using w by (auto simp: s')
  qed
qed

text \<open>A handler nobody knows yet.\<close>

lemma fresh_unknown:
  assumes inv: "pair_inv mr mb s" and idle: "pr_phase s h = PIdle"
  shows "mget (pr_waiting s) r \<noteq> Some h" "pr_phase s c \<noteq> PClaim h" "pr_partner s k \<noteq> Some h" "pr_partner s h = None" "\<not> pr_done s h"
    "pr_phase s c \<noteq> PWaitDone h" "pr_phase s k \<noteq> PDrive h" "pr_phase s k \<noteq> PBridge h" "\<not> awaits s h"
proof -
  show aw: "\<not> awaits s h" and nd: "\<not> pr_done s h" using idle inv_done [OF inv, of h] by (auto simp: awaits_def)
  show "mget (pr_waiting s) r \<noteq> Some h" "pr_phase s c \<noteq> PClaim h" using idle aw inv_table [OF inv, of r h] inv_claim [OF inv, of c h] by auto
  show "pr_partner s k \<noteq> Some h" "pr_phase s k \<noteq> PDrive h" "pr_phase s k \<noteq> PBridge h"
    using idle inv_partner [OF inv, of k h] inv_drive [OF inv, of k h] by auto
  show pn: "pr_partner s h = None" using aw inv_partner [OF inv, of h] by (cases "pr_partner s h") auto
  show "pr_phase s c \<noteq> PWaitDone h" using idle nd pn inv_waitdone [OF inv, of c h] by auto
qed

lemma fresh_room_inv:
  assumes inv: "pair_inv mr mb s"
  shows "pair_inv mr mb (s\<lparr>pr_next := pr_next s + 1, pr_room := (pr_room s)(pr_next s := room)\<rparr>)" (is "pair_inv mr mb ?s")
proof -
  have idle: "pr_phase s (pr_next s) = PIdle" using inv_count [OF inv] by (simp add: count_inv_def)
  note f = fresh_unknown [OF inv idle]
  have aweq: "awaits ?s k \<longleftrightarrow> awaits s k" for k by (simp add: awaits_def)
  have rm: "k \<noteq> pr_next s \<Longrightarrow> pr_room ?s k = pr_room s k" for k by simp
  show ?thesis
  proof (rule pair_invI)
    show "wf_gomap (pr_waiting ?s)" using inv_wf [OF inv] by simp
    show "count_inv mr mb ?s" using inv_count [OF inv] by (auto simp: count_inv_def)
  next
    fix r k assume "mget (pr_waiting ?s) r = Some k"
    then show "pr_phase ?s k = PWaiting \<and> pr_room ?s k = r \<and> pr_partner ?s k = None \<and> (\<forall>c. pr_phase ?s c \<noteq> PClaim k)"
      using inv_table [OF inv, of r k] idle by auto
  next
    fix k assume "awaits ?s k"
    then have "awaits s k" unfolding aweq .
    then have k: "awaits s k" "k \<noteq> pr_next s" using f(9) by auto
    show "pr_phase ?s k = PWaiting \<and> mget (pr_waiting ?s) (pr_room ?s k) = Some k \<or>
        (\<exists>c. pr_phase ?s c = PClaim k) \<or> (\<exists>c. pr_partner ?s k = Some c)"
      by (rule wait_keep [OF inv_wait [OF inv k(1)]]) (use k(2) in auto)
  next
    fix c k assume "pr_phase ?s c = PClaim k"
    then have ck: "pr_phase s c = PClaim k" "c \<noteq> pr_next s" using idle by auto
    with inv_claim [OF inv, of c k] f(9) show "awaits ?s k \<and> pr_partner ?s k = None \<and> pr_room ?s c = pr_room ?s k"
      unfolding aweq by auto
    fix c' assume "pr_phase ?s c' = PClaim k"
    then show "c' = c" using inv_claim_unique [OF inv ck(1)] by simp
  next
    fix k c assume "pr_partner ?s k = Some c"
    with inv_partner [OF inv, of k c] show "awaits ?s k \<and> pr_phase ?s c = PWaitDone k" unfolding aweq by simp
  next
    fix k assume "pr_done ?s k"
    with inv_done [OF inv, of k] show "pr_phase ?s k = PClosing \<or> pr_phase ?s k = PEnded" by simp
  next
    fix c k assume "pr_phase ?s c = PWaitDone k"
    then have "pr_phase s c = PWaitDone k" "c \<noteq> pr_next s" "k \<noteq> pr_next s" using idle f(6) by auto
    with inv_waitdone [OF inv, of c k]
    show "pr_room ?s c = pr_room ?s k \<and> (pr_done ?s k \<or> pr_partner ?s k = Some c \<or> pr_phase ?s k = PDrive c \<or> pr_phase ?s k = PBridge c)"
      by simp
  next
    fix k c assume "pr_phase ?s k = PDrive c \<or> pr_phase ?s k = PBridge c"
    then show "pr_phase ?s c = PWaitDone k" using inv_drive [OF inv, of k c] by simp
  qed
qed

lemma count_inv_arrive:
  assumes "count_inv mr mb s" "pr_phase s h = PIdle" "h < pr_next s" "\<forall>c. p \<noteq> PBridge c" "p \<noteq> PClosing"
    and "mr > 0 \<longrightarrow> int (length w) \<le> mr"
  shows "count_inv mr mb (set_phase h p (s\<lparr>pr_waiting := w\<rparr>))"
  using assms not_bridging [of s h] by (auto simp: count_inv_def bridging_set_phase)

lemma claim_inv_step:
  assumes inv: "pair_inv mr mb s" and idle: "pr_phase s h = PIdle" "h < pr_next s" and w: "mget (pr_waiting s) (pr_room s h) = Some w"
  shows "pair_inv mr mb (set_phase h (PClaim w) (s\<lparr>pr_waiting := mdel (pr_waiting s) (pr_room s h)\<rparr>))" (is "pair_inv mr mb ?s")
proof -
  note f = fresh_unknown [OF inv idle(1)] and t = inv_table [OF inv w]
  have aweq: "awaits ?s k \<longleftrightarrow> awaits s k" for k using idle(1) by (auto simp: awaits_def)
  show ?thesis
  proof (rule pair_invI)
    show "wf_gomap (pr_waiting ?s)" using inv_wf [OF inv] by simp
    have "length (mdel (pr_waiting s) (pr_room s h)) \<le> length (pr_waiting s)" by (rule length_mdel_le)
    then show "count_inv mr mb ?s"
      using inv_count [OF inv] idle by (intro count_inv_arrive) (auto simp: count_inv_def)
  next
    fix r k assume "mget (pr_waiting ?s) r = Some k"
    then have rk: "mget (pr_waiting s) r = Some k" "r \<noteq> pr_room s h" by (auto split: if_splits)
    then have "k \<noteq> w" "k \<noteq> h" using inv_table [OF inv rk(1)] t f(1) by auto
    with inv_table [OF inv rk(1)] show "pr_phase ?s k = PWaiting \<and> pr_room ?s k = r \<and> pr_partner ?s k = None \<and> (\<forall>c. pr_phase ?s c \<noteq> PClaim k)"
      by auto
  next
    fix k assume "awaits ?s k"
    then have k: "awaits s k" by (simp add: aweq)
    show "pr_phase ?s k = PWaiting \<and> mget (pr_waiting ?s) (pr_room ?s k) = Some k \<or>
        (\<exists>c. pr_phase ?s c = PClaim k) \<or> (\<exists>c. pr_partner ?s k = Some c)"
    proof (cases "k = w")
      case True
      then show ?thesis by auto
    next
      case False
      show ?thesis by (rule wait_keep [OF inv_wait [OF inv k]]) (use False w t idle in auto)
    qed
  next
    fix c k assume ck: "pr_phase ?s c = PClaim k"
    show "awaits ?s k \<and> pr_partner ?s k = None \<and> pr_room ?s c = pr_room ?s k"
    proof (cases "c = h")
      case True
      with ck t show ?thesis unfolding aweq by (auto simp: awaits_def)
    next
      case False
      with ck inv_claim [OF inv, of c k] show ?thesis unfolding aweq by simp
    qed
    fix c' assume "pr_phase ?s c' = PClaim k"
    then show "c' = c" using ck inv_claim_unique [OF inv, of c k c'] t by (auto split: if_splits)
  next
    fix k c assume "pr_partner ?s k = Some c"
    with inv_partner [OF inv, of k c] f show "awaits ?s k \<and> pr_phase ?s c = PWaitDone k" unfolding aweq by auto
  next
    fix k assume "pr_done ?s k"
    with inv_done [OF inv, of k] f(5) show "pr_phase ?s k = PClosing \<or> pr_phase ?s k = PEnded" by auto
  next
    fix c k assume "pr_phase ?s c = PWaitDone k"
    then have "pr_phase s c = PWaitDone k" "k \<noteq> h" using f(6) by (auto split: if_splits)
    with inv_waitdone [OF inv, of c k]
    show "pr_room ?s c = pr_room ?s k \<and> (pr_done ?s k \<or> pr_partner ?s k = Some c \<or> pr_phase ?s k = PDrive c \<or> pr_phase ?s k = PBridge c)"
      by simp
  next
    fix k c assume "pr_phase ?s k = PDrive c \<or> pr_phase ?s k = PBridge c"
    then have "pr_phase s k = PDrive c \<or> pr_phase s k = PBridge c" by (auto split: if_splits)
    with inv_drive [OF inv, of k c] idle(1) show "pr_phase ?s c = PWaitDone k" by auto
  qed
qed

lemma wait_inv_step:
  assumes inv: "pair_inv mr mb s" and idle: "pr_phase s h = PIdle" "h < pr_next s" and w: "mget (pr_waiting s) (pr_room s h) = None"
    and cap: "\<not> (mr > 0 \<and> int (length (pr_waiting s)) \<ge> mr)"
  shows "pair_inv mr mb (set_phase h PWaiting (s\<lparr>pr_waiting := mput (pr_waiting s) (pr_room s h) h\<rparr>))" (is "pair_inv mr mb ?s")
proof -
  note f = fresh_unknown [OF inv idle(1)]
  have aweq: "awaits ?s k \<longleftrightarrow> awaits s k \<or> k = h" for k by (auto simp: awaits_def)
  show ?thesis
  proof (rule pair_invI)
    show "wf_gomap (pr_waiting ?s)" using inv_wf [OF inv] by simp
    show "count_inv mr mb ?s"
      using inv_count [OF inv] idle cap length_mput_new [OF w, of h] by (intro count_inv_arrive) auto
  next
    fix r k assume "mget (pr_waiting ?s) r = Some k"
    then show "pr_phase ?s k = PWaiting \<and> pr_room ?s k = r \<and> pr_partner ?s k = None \<and> (\<forall>c. pr_phase ?s c \<noteq> PClaim k)"
      using inv_table [OF inv, of r k] f by (auto split: if_splits)
  next
    fix k assume "awaits ?s k"
    show "pr_phase ?s k = PWaiting \<and> mget (pr_waiting ?s) (pr_room ?s k) = Some k \<or>
        (\<exists>c. pr_phase ?s c = PClaim k) \<or> (\<exists>c. pr_partner ?s k = Some c)"
    proof (cases "k = h")
      case False
      then have k: "awaits s k" using \<open>awaits ?s k\<close> unfolding aweq by simp
      show ?thesis by (rule wait_keep [OF inv_wait [OF inv k]]) (use False w idle in auto)
    qed simp
  next
    fix c k assume "pr_phase ?s c = PClaim k"
    then have ck: "pr_phase s c = PClaim k" by (auto split: if_splits)
    with inv_claim [OF inv, of c k] show "awaits ?s k \<and> pr_partner ?s k = None \<and> pr_room ?s c = pr_room ?s k"
      unfolding aweq by simp
    fix c' assume "pr_phase ?s c' = PClaim k"
    then show "c' = c" using inv_claim_unique [OF inv ck] by (auto split: if_splits)
  next
    fix k c assume "pr_partner ?s k = Some c"
    with inv_partner [OF inv, of k c] f show "awaits ?s k \<and> pr_phase ?s c = PWaitDone k" unfolding aweq by auto
  next
    fix k assume "pr_done ?s k"
    with inv_done [OF inv, of k] f(5) show "pr_phase ?s k = PClosing \<or> pr_phase ?s k = PEnded" by auto
  next
    fix c k assume "pr_phase ?s c = PWaitDone k"
    then have "pr_phase s c = PWaitDone k" "k \<noteq> h" using f(6) by (auto split: if_splits)
    with inv_waitdone [OF inv, of c k]
    show "pr_room ?s c = pr_room ?s k \<and> (pr_done ?s k \<or> pr_partner ?s k = Some c \<or> pr_phase ?s k = PDrive c \<or> pr_phase ?s k = PBridge c)"
      by simp
  next
    fix k c assume "pr_phase ?s k = PDrive c \<or> pr_phase ?s k = PBridge c"
    then have "pr_phase s k = PDrive c \<or> pr_phase s k = PBridge c" by (auto split: if_splits)
    with inv_drive [OF inv, of k c] idle(1) show "pr_phase ?s c = PWaitDone k" by auto
  qed
qed

lemma pair_arrive_inv:
  assumes inv: "pair_inv mr mb s"
  shows "pair_inv mr mb (pair_arrive mr room s)"
proof (cases "room = [] \<or> length room > maxPairRoomIDLen")
  case True
  then show ?thesis using inv by (auto simp: pair_arrive_def)
next
  case False
  let ?h = "pr_next s"
  define s1 where "s1 = s\<lparr>pr_next := ?h + 1, pr_room := (pr_room s)(?h := room)\<rparr>"
  have inv1: "pair_inv mr mb s1" unfolding s1_def by (rule fresh_room_inv [OF inv])
  have h: "pr_phase s1 ?h = PIdle" "?h < pr_next s1" "pr_room s1 ?h = room"
    using inv_count [OF inv] by (simp_all add: s1_def count_inv_def)
  have arr: "pair_arrive mr room s =
      (case mget (pr_waiting s1) room of
         Some w \<Rightarrow> set_phase ?h (PClaim w) (s1\<lparr>pr_waiting := mdel (pr_waiting s1) room\<rparr>)
       | None \<Rightarrow>
           if mr > 0 \<and> int (length (pr_waiting s1)) \<ge> mr then set_phase ?h PEnded s1
           else set_phase ?h PWaiting (s1\<lparr>pr_waiting := mput (pr_waiting s1) room ?h\<rparr>))"
    by (simp only: pair_arrive_def Let_def s1_def False if_False)
  show ?thesis
  proof (cases "mget (pr_waiting s1) room")
    case (Some w)
    then show ?thesis using claim_inv_step [OF inv1 h(1,2), of w] unfolding arr by (simp add: h(3))
  next
    case None
    have refuse: "pair_inv mr mb (set_phase ?h PEnded s1)"
    proof (rule phase_change_inv [OF inv1, where h = ?h and p = PEnded and closed = False])
      have "int (length (pr_waiting s1)) \<le> mr" if "mr > 0" using inv_count [OF inv1] that by (simp add: count_inv_def)
      then show "count_inv mr mb (set_phase ?h PEnded s1)"
        using count_inv_arrive [OF inv_count [OF inv1] h(1,2), of PEnded "pr_waiting s1"] by simp
    qed (use h fresh_unknown [OF inv1 h(1)] in auto)
    show ?thesis
    proof (cases "mr > 0 \<and> int (length (pr_waiting s1)) \<ge> mr")
      case True
      then show ?thesis using refuse None unfolding arr by simp
    next
      case False
      then show ?thesis using wait_inv_step [OF inv1 h(1,2) _ False] None unfolding arr by (simp only: h(3) option.case if_False)
    qed
  qed
qed

lemma pair_step_inv: "pair_step mr mb s s' \<Longrightarrow> pair_inv mr mb s \<Longrightarrow> pair_inv mr mb s'"
  by (induction rule: pair_step.induct)
    (auto intro: pair_arrive_inv pair_send_inv pair_recv_inv pair_timeout_inv pair_begin_inv pair_finish_inv pair_end_inv pair_released_inv)

interpretation pair_runs: step_invariant "pair_step mr mb" "pair_inv mr mb" for mr mb
  by unfold_locales (rule pair_step_inv)

lemma pair_run_inv: "(pair_step mr mb)\<^sup>*\<^sup>* newPairRooms s \<Longrightarrow> pair_inv mr mb s"
  using pair_runs.run_keeps pair_inv_init by blast

section \<open>Every handler returns\<close>

text \<open>A step of a handler that has arrived.\<close>

inductive pair_move :: "int \<Rightarrow> pair_state \<Rightarrow> pair_state \<Rightarrow> bool" for max_b where
  msend: "pair_send h s = Some s' \<Longrightarrow> pair_move max_b s s'"
| mrecv: "pair_recv h s = Some s' \<Longrightarrow> pair_move max_b s s'"
| mtimeout: "pair_timeout h s = Some s' \<Longrightarrow> pair_move max_b s s'"
| mbegin: "pair_begin max_b h s = Some s' \<Longrightarrow> pair_move max_b s s'"
| mfinish: "pair_finish h s = Some s' \<Longrightarrow> pair_move max_b s s'"
| mended: "pair_end h s = Some s' \<Longrightarrow> pair_move max_b s s'"
| mreleased: "pair_released h s = Some s' \<Longrightarrow> pair_move max_b s s'"

fun rank :: "pair_phase \<Rightarrow> nat" where
  "rank PIdle = 0" | "rank PEnded = 0" | "rank (PWaitDone w) = 1" | "rank PClosing = 1" | "rank (PBridge c) = 2" | "rank (PClaim w) = 2" | "rank (PDrive c) = 3"
| "rank PMustRecv = 4" | "rank PWaiting = 5"

definition ranks :: "pair_state \<Rightarrow> nat" where
  "ranks s = (\<Sum>h < pr_next s. rank (pr_phase s h))"

lemma pair_move_step: "pair_move max_b s s' \<Longrightarrow> pair_step maxRooms max_b s s'"
  by (induction rule: pair_move.induct) (auto intro: pair_step.intros)

text \<open>One handler goes down in rank.\<close>

definition lowers :: "nat \<Rightarrow> pair_state \<Rightarrow> pair_state \<Rightarrow> bool" where
  "lowers h s s' \<longleftrightarrow> pr_next s' = pr_next s \<and> (\<forall>k. k \<noteq> h \<longrightarrow> pr_phase s' k = pr_phase s k) \<and> rank (pr_phase s' h) < rank (pr_phase s h)"

lemma pair_move_lowers: "pair_move max_b s s' \<Longrightarrow> \<exists>h. lowers h s s'"
proof (induction rule: pair_move.induct)
  case (msend h s s')
  then have "lowers h s s'" by (auto simp: lowers_def pair_send_def split: pair_phase.splits if_splits)
  then show ?case ..
next
  case (mrecv h s s')
  then have "lowers h s s'" by (auto simp: lowers_def pair_recv_def split: if_splits)
  then show ?case ..
next
  case (mtimeout h s s')
  then have "lowers h s s'" by (auto simp: lowers_def pair_timeout_def split: if_splits)
  then show ?case ..
next
  case (mbegin h s s')
  then have "lowers h s s'" by (auto simp: lowers_def pair_begin_def beginBridge_def split: pair_phase.splits if_splits)
  then show ?case ..
next
  case (mfinish h s s')
  then have "lowers h s s'" by (auto simp: lowers_def pair_finish_def split: pair_phase.splits)
  then show ?case ..
next
  case (mended h s s')
  then have "lowers h s s'" by (auto simp: lowers_def pair_end_def split: if_splits)
  then show ?case ..
next
  case (mreleased h s s')
  then have "lowers h s s'" by (auto simp: lowers_def pair_released_def split: pair_phase.splits if_splits)
  then show ?case ..
qed

lemma ranks_decrease:
  assumes "pair_inv mr mb s" "pair_move mb s s'"
  shows "ranks s' < ranks s"
proof -
  obtain h where h: "lowers h s s'" using pair_move_lowers [OF assms(2)] by blast
  then have rk: "rank (pr_phase s' h) < rank (pr_phase s h)" by (simp add: lowers_def)
  have "h < pr_next s"
  proof (rule ccontr)
    assume "\<not> h < pr_next s"
    then have "pr_phase s h = PIdle" using inv_count [OF assms(1)] by (simp add: count_inv_def)
    with rk show False by simp
  qed
  moreover have "rank (pr_phase s' k) \<le> rank (pr_phase s k)" for k using h by (cases "k = h") (auto simp: lowers_def)
  ultimately show ?thesis
    using h unfolding ranks_def by (auto simp: lowers_def intro!: sum_strict_mono_ex1)
qed

text \<open>A handler that has not returned can move, or another one can that it waits for.\<close>

lemma pair_progress:
  assumes inv: "pair_inv mr mb s" and h: "pr_phase s h \<notin> {PIdle, PEnded}"
  shows "\<exists>s'. pair_move mb s s'"
proof -
  have drive: "\<exists>s'. pair_move mb s s'" if d: "pr_phase s k = PDrive c \<or> pr_phase s k = PBridge c" for k c
    using d
  proof
    assume "pr_phase s k = PDrive c"
    then obtain s' where "pair_begin mb k s = Some s'" by (auto simp: pair_begin_def case_prod_unfold Let_def)
    then show ?thesis by (blast intro: mbegin)
  next
    assume "pr_phase s k = PBridge c"
    then obtain s' where "pair_finish k s = Some s'" by (auto simp: pair_finish_def)
    then show ?thesis by (blast intro: mfinish)
  qed
  have claim: "\<exists>s'. pair_move mb s s'" if c: "pr_phase s c = PClaim k" for c k
  proof -
    obtain s' where "pair_send c s = Some s'" using c inv_claim [OF inv c] by (simp add: pair_send_def)
    then show ?thesis by (blast intro: msend)
  qed
  have recv: "\<exists>s'. pair_move mb s s'" if a: "awaits s k" "pr_partner s k = Some c" for k c
  proof -
    have "pair_recv k s \<noteq> None" using a by (auto simp: pair_recv_def awaits_def)
    then show ?thesis by (blast intro: mrecv)
  qed
  have await: "\<exists>s'. pair_move mb s s'" if k: "awaits s k" for k
  proof (cases "pr_phase s k = PWaiting")
    case True
    then obtain s' where "pair_timeout k s = Some s'" by (simp add: pair_timeout_def)
    then show ?thesis by (blast intro: mtimeout)
  next
    case False
    then show ?thesis using inv_wait [OF inv k] claim recv [OF k] by auto
  qed
  have closing: "\<exists>s'. pair_move mb s s'" if c: "pr_phase s k = PClosing" for k
  proof -
    obtain s' where "pair_end k s = Some s'" using c by (simp add: pair_end_def)
    then show ?thesis by (blast intro: mended)
  qed
  show ?thesis
  proof (cases "pr_phase s h")
    case (PWaitDone w)
    from inv_waitdone [OF inv PWaitDone]
    consider "pr_done s w" | "pr_partner s w = Some h" | "pr_phase s w = PDrive h \<or> pr_phase s w = PBridge h" by blast
    then show ?thesis
    proof cases
      case 1
      with PWaitDone obtain s' where "pair_released h s = Some s'" by (simp add: pair_released_def)
      then show ?thesis by (blast intro: mreleased)
    next
      case 2
      then show ?thesis using recv inv_partner [OF inv 2] by blast
    next
      case 3
      then show ?thesis by (rule drive)
    qed
  qed (use h await [of h] claim [of h] drive [of h] closing [of h] in \<open>auto simp: awaits_def\<close>)
qed

section \<open>Properties\<close>

text \<open>
  C24. In every interleaving of pairing requests the bridge is safe: no completion channel is closed twice, at most \<open>maxRooms\<close> parties wait
  and at most \<open>maxBridges\<close> bridges run, exactly as many as are counted; a bridge joins two different requests for the same room, and a
  request takes part in no second one.
\<close>

theorem pair_bridge_safe:
  assumes "(pair_step maxRooms max_b)\<^sup>*\<^sup>* newPairRooms s"
  shows "\<not> pr_panic s \<and> pr_active s = card (bridging s) \<and>
    (max_b > 0 \<longrightarrow> int (card (bridging s)) \<le> max_b) \<and> (maxRooms > 0 \<longrightarrow> int (length (pr_waiting s)) \<le> maxRooms) \<and>
    (\<forall>h c. pr_phase s h = PBridge c \<longrightarrow> c \<noteq> h \<and> pr_room s c = pr_room s h \<and> pr_phase s c = PWaitDone h \<and>
       (\<forall>h'. pr_phase s h' = PBridge c \<longrightarrow> h' = h))"
proof -
  have inv: "pair_inv maxRooms max_b s" using pair_run_inv [OF assms] .
  have "c \<noteq> h \<and> pr_room s c = pr_room s h \<and> pr_phase s c = PWaitDone h \<and> (\<forall>h'. pr_phase s h' = PBridge c \<longrightarrow> h' = h)"
    if "pr_phase s h = PBridge c" for h c
  proof -
    have pc: "pr_phase s c = PWaitDone h" using inv_drive [OF inv, of h c] that by blast
    moreover have "h' = h" if "pr_phase s h' = PBridge c" for h' using inv_drive [OF inv, of h' c] that pc by simp
    moreover have "pr_room s c = pr_room s h" using inv_waitdone [OF inv pc] by blast
    moreover have "c \<noteq> h" using pc that by auto
    ultimately show ?thesis by blast
  qed
  moreover have "\<not> pr_panic s" "pr_active s = card (bridging s)" "max_b > 0 \<longrightarrow> int (card (bridging s)) \<le> max_b"
    "maxRooms > 0 \<longrightarrow> int (length (pr_waiting s)) \<le> maxRooms" using inv_count [OF inv] by (auto simp: count_inv_def)
  ultimately show ?thesis by blast
qed

theorem pair_bridge_safe_witness:
  "\<not> pr_panic (pair_arrive 1 ''r'' newPairRooms) \<and> int (length (pr_waiting (pair_arrive 1 ''r'' newPairRooms))) \<le> 1"
proof -
  have "pair_step 1 1 newPairRooms (pair_arrive 1 ''r'' newPairRooms)" by (rule pair_step.arrive)
  from pair_bridge_safe [OF r_into_rtranclp, OF this] show ?thesis by simp
qed

text \<open>
  C25. No pairing request is orphaned: from every reachable state, whichever way the handlers that have arrived are scheduled, they come to rest
  after finitely many steps, and when none of them can move all of them have returned.
\<close>

theorem pair_handlers_return:
  assumes "(pair_step maxRooms max_b)\<^sup>*\<^sup>* newPairRooms s"
  shows "\<not> (\<exists>run. run 0 = s \<and> (\<forall>i. pair_move max_b (run i) (run (Suc i)))) \<and>
    ((\<exists>s'. pair_move max_b s s') \<or> (\<forall>h. pr_phase s h \<in> {PIdle, PEnded}))"
proof (intro conjI notI)
  assume "\<exists>run. run 0 = s \<and> (\<forall>i. pair_move max_b (run i) (run (Suc i)))"
  then obtain run where r0: "run 0 = s" and r: "\<And>i. pair_move max_b (run i) (run (Suc i))" by blast
  have inv: "pair_inv maxRooms max_b (run i)" for i
  proof (induction i)
    case 0
    then show ?case using pair_run_inv [OF assms] r0 by simp
  next
    case (Suc i)
    then show ?case using pair_step_inv [OF pair_move_step [OF r]] by blast
  qed
  have "ranks (run i) + i \<le> ranks s" for i
  proof (induction i)
    case (Suc i)
    then show ?case using ranks_decrease [OF inv r, of i] by simp
  qed (simp add: r0)
  from this [of "Suc (ranks s)"] show False by simp
next
  show "(\<exists>s'. pair_move max_b s s') \<or> (\<forall>h. pr_phase s h \<in> {PIdle, PEnded})"
    using pair_progress [OF pair_run_inv [OF assms]] by blast
qed

theorem pair_handlers_return_witness:
  "\<exists>s'. pair_move 1 (pair_arrive 1 ''r'' newPairRooms) s'"
proof -
  have "pair_step 1 1 newPairRooms (pair_arrive 1 ''r'' newPairRooms)" by (rule pair_step.arrive)
  from pair_handlers_return [OF r_into_rtranclp, OF this]
  have "(\<exists>s'. pair_move 1 (pair_arrive 1 ''r'' newPairRooms) s') \<or> pr_phase (pair_arrive 1 ''r'' newPairRooms) 0 \<in> {PIdle, PEnded}" by blast
  then show ?thesis by (simp add: pair_arrive_def newPairRooms_def maxPairRoomIDLen_def)
qed

text \<open>The frames that pass a bridge.\<close>

definition copied :: "(bool \<times> bytes) list \<Rightarrow> int" where
  "copied fs = int (sum_list (map (length \<circ> snd) fs))"

lemma copied_simps [simp]: "copied [] = 0" "copied ((d, data) # fs) = int (length data) + copied fs"
  by (simp_all add: copied_def)

lemma pair_copies_budget: "budget > 0 \<Longrightarrow> copied (pair_copies budget used stopped reads) \<le> max 0 (budget - used)"
proof (induction budget used stopped reads rule: pair_copies.induct)
  case (2 budget used stopped d data reads)
  consider "stopped d" | "\<not> stopped d" "used + int (length data) > budget" | "\<not> stopped d" "\<not> used + int (length data) > budget" by blast
  then show ?case
  proof cases
    case 1
    then show ?thesis using 2 by simp
  next
    case 2
    then show ?thesis using "2.IH"(2) [OF 2(1) refl] "2.prems" by (simp add: Let_def fun_upd_def)
  next
    case 3
    then show ?thesis using "2.IH"(3) [OF 3(1) refl] "2.prems" by (simp add: Let_def)
  qed
qed simp

lemma pair_copies_prefix:
  "\<exists>rest. filter (\<lambda>f. fst f = e) reads = filter (\<lambda>f. fst f = e) (pair_copies budget used stopped reads) @ rest \<and>
     (stopped e \<longrightarrow> filter (\<lambda>f. fst f = e) (pair_copies budget used stopped reads) = [])"
proof (induction budget used stopped reads rule: pair_copies.induct)
  case (2 budget used stopped d data reads)
  consider "stopped d" | "\<not> stopped d" "budget > 0 \<and> used + int (length data) > budget"
    | "\<not> stopped d" "\<not> (budget > 0 \<and> used + int (length data) > budget)" by blast
  then show ?case
  proof cases
    case 1
    then show ?thesis using "2.IH"(1) by (cases "e = d") auto
  next
    case 2
    then show ?thesis using "2.IH"(2) [OF 2(1) refl] by (cases "e = d") (auto simp: Let_def fun_upd_def)
  next
    case 3
    then show ?thesis using "2.IH"(3) [OF 3(1) refl] by (cases "e = d") (auto simp: Let_def)
  qed
qed simp

text \<open>
  However the two copying loops of a bridge interleave, the frames they forward add up to at most the byte budget, and in each direction
  they are the first frames read, in order and unchanged.
\<close>

theorem pair_copies_bounded:
  "copied (pair_copies (int (Suc n)) 0 (\<lambda>d. False) reads) \<le> int (Suc n) \<and>
   (\<exists>rest. filter (\<lambda>f. fst f = e) reads = filter (\<lambda>f. fst f = e) (pair_copies (int (Suc n)) 0 (\<lambda>d. False) reads) @ rest)"
  using pair_copies_budget [of "int (Suc n)" 0 "\<lambda>d. False" reads] pair_copies_prefix [of e reads "int (Suc n)" 0 "\<lambda>d. False"] by auto

end
