(* ===== verification/Pairing.thy ===== *)
theory Pairing
  imports Json_Text
begin

text \<open>
  Pairing an owner with a machine: the code of \<^verbatim>\<open>go/internal/pairing\<close> (the pairing code, the token's derivations, the three-message
  handshake) and the safety number of \<^verbatim>\<open>go/internal/sas\<close>.

  The Noise library is third-party code and a parameter \<open>nz\<close>: creating an NNpsk0 handshake from fresh randomness, writing and reading its
  messages, its channel binding. JSON of the three payloads is a parameter \<open>js\<close>, that of the pairing code a pair of functions, and
  \<open>url.Parse\<close> a function giving the scheme and the host name. What the code relies on of them is in \<open>noise_agrees\<close>, \<open>pair_json_faithful\<close> and
  the hypotheses of the code's round trip. A network that may drop, replace or invent messages is an argument of each protocol function: what
  \<open>Send\<close> and \<open>Recv\<close> give.
\<close>

section \<open>The pairing code: code.go\<close>

record codePayload =
  cpS :: string
  cpT :: string

text \<open>\<open>base64.RawURLEncoding\<close>: the URL alphabet and no padding; the decoder skips line breaks.\<close>

definition to_url_char :: "char \<Rightarrow> char" where
  "to_url_char c = (if c = CHR ''+'' then CHR ''-'' else if c = CHR ''/'' then CHR ''_'' else c)"

definition of_url_char :: "char \<Rightarrow> char" where
  "of_url_char c = (if c = CHR ''-'' then CHR ''+'' else if c = CHR ''_'' then CHR ''/'' else c)"

definition rawurl_EncodeToString :: "bytes \<Rightarrow> string" where
  "rawurl_EncodeToString b = map to_url_char (filter (\<lambda>c. c \<noteq> CHR ''='') (b64_EncodeToString b))"

definition pad4 :: "string \<Rightarrow> string" where
  "pad4 s = s @ replicate ((4 - length s mod 4) mod 4) (CHR ''='')"

definition rawurl_DecodeString :: "string \<Rightarrow> bytes option" where
  "rawurl_DecodeString s =
     (let t = filter (\<lambda>c. c \<noteq> CHR 0x0A \<and> c \<noteq> CHR 0x0D) s
      in if list_ex (\<lambda>c. c \<in> {CHR ''+'', CHR ''/'', CHR ''=''}) t \<or> length t mod 4 = 1 then None
         else b64_quanta (pad4 (map of_url_char t)))"

definition EncodeCode :: "(codePayload \<Rightarrow> bytes) \<Rightarrow> string \<Rightarrow> bytes \<Rightarrow> string" where
  "EncodeCode marshal signalURL token =
     rawurl_EncodeToString (marshal \<lparr>cpS = signalURL, cpT = hex_EncodeToString token\<rparr>)"

definition validSignalURL :: "(string \<Rightarrow> (string \<times> string) option) \<Rightarrow> string \<Rightarrow> bool" where
  "validSignalURL parse s =
     (case parse s of
        None \<Rightarrow> False
      | Some (scheme, host) \<Rightarrow>
          if host = [] then False
          else if scheme = ''https'' then True
          else if scheme = ''http'' then host = ''localhost'' \<or> host = ''127.0.0.1''
          else False)"

datatype code_error = BadCode | BadCodeToken | BadCodeURL

definition DecodeCode ::
  "(string \<Rightarrow> (string \<times> string) option) \<Rightarrow> (bytes \<Rightarrow> codePayload option) \<Rightarrow> string \<Rightarrow> code_error + string \<times> bytes" where
  "DecodeCode parse unmarshal code =
     (case rawurl_DecodeString code of
        None \<Rightarrow> Inl BadCode
      | Some data \<Rightarrow>
          (case unmarshal data of
             None \<Rightarrow> Inl BadCode
           | Some p \<Rightarrow>
               (case hex_DecodeString (cpT p) of
                  None \<Rightarrow> Inl BadCodeToken
                | Some token \<Rightarrow>
                    if length token \<noteq> 16 then Inl BadCodeToken
                    else if \<not> validSignalURL parse (cpS p) then Inl BadCodeURL
                    else Inr (cpS p, token))))"

definition pskFromToken :: "bytes \<Rightarrow> bytes" where
  "pskFromToken token = sha256 (bytes_of ''terminal-relay/pair/psk'' @ token)"

definition RoomID :: "bytes \<Rightarrow> string" where
  "RoomID token = hex_EncodeToString (take 16 (sha256 (bytes_of ''terminal-relay/pair/room'' @ token)))"

text \<open>\<open>toWS\<close> of \<^verbatim>\<open>wsconn.go\<close>, and the address \<open>DialPair\<close> dials.\<close>

definition toWS :: "string \<Rightarrow> string" where
  "toWS base = (if 4 \<le> length base \<and> take 4 base = ''http'' then ''ws'' @ drop 4 base else base)"

definition DialPair_url :: "string \<Rightarrow> string \<Rightarrow> string" where
  "DialPair_url signalURL roomID = toWS signalURL @ ''/pair?room='' @ roomID"

section \<open>The safety number: sas.go\<close>

definition sas_group :: "bytes \<Rightarrow> nat \<Rightarrow> string" where
  "sas_group h i = hex_EncodeToString [h ! (2 * i), h ! (2 * i + 1)]"

definition FromBinding :: "bytes \<Rightarrow> string" where
  "FromBinding binding =
     (let h = sha256 (bytes_of ''miranda/sas/v2'' @ binding)
      in sas_group h 0 @ ''-'' @ sas_group h 1 @ ''-'' @ sas_group h 2 @ ''-'' @
         sas_group h 3 @ ''-'' @ sas_group h 4 @ ''-'' @ sas_group h 5)"

section \<open>The handshake: pairing.go\<close>

record AgentInfo =
  aiHostPubHex :: string
  aiMachineID :: string
  aiName :: string
  aiRegistrationCommitment :: string

record PairProof =
  ppSignature :: string
  ppRegistry :: string
  ppRegistrationAuth :: string

record Provision =
  pvRegistry :: string
  pvRegistrationAuth :: string

record 'h noise_nn =
  nn_new :: "bytes \<Rightarrow> bool \<Rightarrow> bytes \<Rightarrow> 'h option"
  nn_write :: "'h \<Rightarrow> bytes \<Rightarrow> (bytes \<times> 'h) option"
  nn_read :: "'h \<Rightarrow> bytes \<Rightarrow> (bytes \<times> 'h) option"
  nn_binding :: "'h \<Rightarrow> bytes"

record pair_json =
  pj_claim :: "string \<Rightarrow> bytes"
  pj_unclaim :: "bytes \<Rightarrow> string option"
  pj_info :: "AgentInfo \<Rightarrow> bytes"
  pj_uninfo :: "bytes \<Rightarrow> AgentInfo option"
  pj_proof :: "PairProof \<Rightarrow> bytes"
  pj_unproof :: "bytes \<Rightarrow> PairProof option"

datatype pair_error =
    NoHandshake | CannotWrite | SendFailed | RecvFailed | HandshakeFailed | BadClaim | BadOwnerID | BadInfo
  | CannotProvision | BadProof | BadProofEncoding | OwnerAuthFailed | BadRegistrationAuth

text \<open>What sending a message and then receiving the next one gives.\<close>

datatype net_reply = NotSent | NoReply | Reply bytes

definition newHandshake :: "'h noise_nn \<Rightarrow> bytes \<Rightarrow> bool \<Rightarrow> bytes \<Rightarrow> 'h option" where
  "newHandshake nz rnd initiator token = nn_new nz rnd initiator (pskFromToken token)"

record StartedInitiator =
  siInfo :: AgentInfo
  siBinding :: bytes
  siSigner :: Signer

definition StartInitiator_msg1 ::
  "'h noise_nn \<Rightarrow> pair_json \<Rightarrow> bytes \<Rightarrow> bytes \<Rightarrow> Signer \<Rightarrow> pair_error + bytes \<times> 'h" where
  "StartInitiator_msg1 nz js rnd token signer =
     (case newHandshake nz rnd True token of
        None \<Rightarrow> Inl NoHandshake
      | Some hs \<Rightarrow> (case nn_write nz hs (pj_claim js (Address signer)) of None \<Rightarrow> Inl CannotWrite | Some r \<Rightarrow> Inr r))"

definition StartInitiator ::
  "'h noise_nn \<Rightarrow> pair_json \<Rightarrow> bytes \<Rightarrow> (bytes \<Rightarrow> net_reply) \<Rightarrow> bytes \<Rightarrow> Signer \<Rightarrow> pair_error + StartedInitiator" where
  "StartInitiator nz js rnd net token signer =
     (case StartInitiator_msg1 nz js rnd token signer of
        Inl e \<Rightarrow> Inl e
      | Inr (msg1, hs) \<Rightarrow>
          (case net msg1 of
             NotSent \<Rightarrow> Inl SendFailed
           | NoReply \<Rightarrow> Inl RecvFailed
           | Reply msg2 \<Rightarrow>
               (case nn_read nz hs msg2 of
                  None \<Rightarrow> Inl HandshakeFailed
                | Some (payload, hs) \<Rightarrow>
                    (case pj_uninfo js payload of
                       None \<Rightarrow> Inl BadInfo
                     | Some info \<Rightarrow> Inr \<lparr>siInfo = info, siBinding = nn_binding nz hs, siSigner = signer\<rparr>))))"

text \<open>
  \<open>StartedInitiator.Finish\<close>: the third message. \<open>provision\<close> is the provisioner, if there is one: it gives the sealed record or fails.
\<close>

definition registration_auth :: "(bytes \<Rightarrow> bytes \<Rightarrow> bytes) \<Rightarrow> Signer \<Rightarrow> AgentInfo \<Rightarrow> string" where
  "registration_auth sign signer info =
     (if aiRegistrationCommitment info \<noteq> []
      then b64_EncodeToString (SignAuth sign signer (RegistrationChallenge (aiMachineID info) (aiRegistrationCommitment info)))
      else [])"

definition Initiator_Finish ::
  "(bytes \<Rightarrow> bytes \<Rightarrow> bytes) \<Rightarrow> pair_json \<Rightarrow> (AgentInfo \<Rightarrow> string option) option \<Rightarrow> StartedInitiator \<Rightarrow> pair_error + bytes" where
  "Initiator_Finish sign js provision s =
     (let sig = SignAuth sign (siSigner s) (siBinding s)
      in case provision of
           None \<Rightarrow> Inr sig
         | Some f \<Rightarrow>
             (case f (siInfo s) of
                None \<Rightarrow> Inl CannotProvision
              | Some registry \<Rightarrow>
                  Inr (pj_proof js \<lparr>ppSignature = b64_EncodeToString sig, ppRegistry = registry,
                                    ppRegistrationAuth = registration_auth sign (siSigner s) (siInfo s)\<rparr>)))"

text \<open>\<open>runInitiator\<close>: \<open>sent\<close> says whether the third message goes out.\<close>

definition runInitiator ::
  "(bytes \<Rightarrow> bytes \<Rightarrow> bytes) \<Rightarrow> 'h noise_nn \<Rightarrow> pair_json \<Rightarrow> bytes \<Rightarrow> (bytes \<Rightarrow> net_reply) \<Rightarrow> (bytes \<Rightarrow> bool) \<Rightarrow> bytes \<Rightarrow> Signer \<Rightarrow>
   (AgentInfo \<Rightarrow> string option) option \<Rightarrow> pair_error + AgentInfo \<times> bytes" where
  "runInitiator sign nz js rnd net sent token signer provision =
     (case StartInitiator nz js rnd net token signer of
        Inl e \<Rightarrow> Inl e
      | Inr s \<Rightarrow>
          (case Initiator_Finish sign js provision s of
             Inl e \<Rightarrow> Inl e
           | Inr msg3 \<Rightarrow> if sent msg3 then Inr (siInfo s, siBinding s) else Inl SendFailed))"

record StartedResponder =
  srBinding :: bytes
  srClaim :: string
  srInfo :: AgentInfo

text \<open>\<open>StartResponder\<close>: \<open>msg1\<close> is what \<open>Recv\<close> gives; the result carries the second message, which is then sent.\<close>

definition StartResponder ::
  "'h noise_nn \<Rightarrow> pair_json \<Rightarrow> bytes \<Rightarrow> bytes option \<Rightarrow> (bytes \<Rightarrow> bool) \<Rightarrow> bytes \<Rightarrow> AgentInfo \<Rightarrow> pair_error + bytes \<times> StartedResponder" where
  "StartResponder nz js rnd msg1 sent token info =
     (case newHandshake nz rnd False token of
        None \<Rightarrow> Inl NoHandshake
      | Some hs \<Rightarrow>
          (case msg1 of
             None \<Rightarrow> Inl RecvFailed
           | Some m1 \<Rightarrow>
               (case nn_read nz hs m1 of
                  None \<Rightarrow> Inl HandshakeFailed
                | Some (payload, hs) \<Rightarrow>
                    (case pj_unclaim js payload of
                       None \<Rightarrow> Inl BadClaim
                     | Some wallet \<Rightarrow>
                         if key_of wallet = None then Inl BadOwnerID
                         else (case nn_write nz hs (pj_info js info) of
                                 None \<Rightarrow> Inl CannotWrite
                               | Some (m2, hs) \<Rightarrow>
                                   if \<not> sent m2 then Inl SendFailed
                                   else Inr (m2, \<lparr>srBinding = nn_binding nz hs, srClaim = wallet, srInfo = info\<rparr>))))))"

text \<open>\<open>StartedResponder.Finish\<close> on what \<open>Recv\<close> gives for the third message.\<close>

definition proof_parts :: "pair_json \<Rightarrow> bytes \<Rightarrow> pair_error + bytes \<times> Provision" where
  "proof_parts js m3 =
     (if length m3 = 64 then Inr (m3, \<lparr>pvRegistry = [], pvRegistrationAuth = []\<rparr>)
      else case pj_unproof js m3 of
             None \<Rightarrow> Inl BadProof
           | Some p \<Rightarrow>
               (case b64_DecodeString (ppSignature p) of
                  None \<Rightarrow> Inl BadProofEncoding
                | Some sig \<Rightarrow> Inr (sig, \<lparr>pvRegistry = ppRegistry p, pvRegistrationAuth = ppRegistrationAuth p\<rparr>)))"

definition Responder_Finish ::
  "(bytes \<Rightarrow> bytes \<Rightarrow> bytes \<Rightarrow> bool) \<Rightarrow> pair_json \<Rightarrow> bytes option \<Rightarrow> StartedResponder \<Rightarrow> pair_error + string \<times> Provision" where
  "Responder_Finish verify js msg3 s =
     (case msg3 of
        None \<Rightarrow> Inl RecvFailed
      | Some m3 \<Rightarrow>
          (case proof_parts js m3 of
             Inl e \<Rightarrow> Inl e
           | Inr (sig, pv) \<Rightarrow>
               if VerifyAuth verify (srClaim s) (srBinding s) sig \<noteq> None then Inl OwnerAuthFailed
               else if aiRegistrationCommitment (srInfo s) \<noteq> [] \<and>
                       (case b64_DecodeString (pvRegistrationAuth pv) of
                          None \<Rightarrow> True
                        | Some rsig \<Rightarrow>
                            VerifyAuth verify (srClaim s)
                              (RegistrationChallenge (aiMachineID (srInfo s)) (aiRegistrationCommitment (srInfo s))) rsig \<noteq> None)
               then Inl BadRegistrationAuth
               else Inr (srClaim s, pv)))"

definition runResponder ::
  "(bytes \<Rightarrow> bytes \<Rightarrow> bytes \<Rightarrow> bool) \<Rightarrow> 'h noise_nn \<Rightarrow> pair_json \<Rightarrow> bytes \<Rightarrow> bytes option \<Rightarrow> (bytes \<Rightarrow> net_reply) \<Rightarrow> bytes \<Rightarrow> AgentInfo \<Rightarrow>
   pair_error + string \<times> Provision \<times> bytes" where
  "runResponder verify nz js rnd msg1 net token info =
     (case StartResponder nz js rnd msg1 (\<lambda>m2. net m2 \<noteq> NotSent) token info of
        Inl e \<Rightarrow> Inl e
      | Inr (m2, s) \<Rightarrow>
          (case Responder_Finish verify js (case net m2 of Reply m3 \<Rightarrow> Some m3 | _ \<Rightarrow> None) s of
             Inl e \<Rightarrow> Inl e
           | Inr (owner, pv) \<Rightarrow> Inr (owner, pv, srBinding s)))"

section \<open>The pairing code reads back\<close>

lemma pad4_4: "pad4 (a # b # c # d # s) = a # b # c # d # pad4 s"
  by (simp add: pad4_def)

lemma url_char_b64: "n < 64 \<Longrightarrow> of_url_char (to_url_char (b64_char n)) = b64_char n"
  using b64_char_mem [of n] by (auto simp: b64_chars_def of_url_char_def to_url_char_def)

lemma url_char_plain:
  assumes "n < 64"
  shows "to_url_char (b64_char n) \<noteq> CHR ''+''" "to_url_char (b64_char n) \<noteq> CHR ''/''" "to_url_char (b64_char n) \<noteq> CHR ''=''"
    "to_url_char (b64_char n) \<noteq> CHR 0x0A" "to_url_char (b64_char n) \<noteq> CHR 0x0D"
  using b64_char_mem [OF assms] by (auto simp: b64_chars_def to_url_char_def)

lemmas rawurl_simps = rawurl_EncodeToString_def b64_group_bounds b64_char_plain url_char_plain url_char_b64 pad4_4

lemma rawurl_pad: "pad4 (map of_url_char (rawurl_EncodeToString b)) = b64_EncodeToString b"
  by (induction b rule: b64_EncodeToString.induct) (simp_all add: rawurl_simps, simp_all add: pad4_def numeral_2_eq_2)

lemma rawurl_plain:
  "filter (\<lambda>c. c \<noteq> CHR 0x0A \<and> c \<noteq> CHR 0x0D) (rawurl_EncodeToString b) = rawurl_EncodeToString b"
  "\<not> list_ex (\<lambda>c. c \<in> {CHR ''+'', CHR ''/'', CHR ''=''}) (rawurl_EncodeToString b)"
  "length (rawurl_EncodeToString b) mod 4 \<noteq> 1"
  by (induction b rule: b64_EncodeToString.induct) (simp_all add: rawurl_simps)

lemma rawurl_Decode_Encode [simp]: "rawurl_DecodeString (rawurl_EncodeToString b) = Some b"
  unfolding rawurl_DecodeString_def Let_def rawurl_plain(1) rawurl_pad
  using rawurl_plain(2,3) [of b] b64_quanta_Encode [of b] by auto

interpretation rawurl_codec: codec rawurl_EncodeToString rawurl_DecodeString
  by unfold_locales (rule rawurl_Decode_Encode)

lemma DecodeCode_Inr:
  "DecodeCode parse unmarshal code = Inr (url, token) \<longleftrightarrow>
     (\<exists>data p. rawurl_DecodeString code = Some data \<and> unmarshal data = Some p \<and> cpS p = url \<and>
        hex_DecodeString (cpT p) = Some token \<and> length token = 16 \<and> validSignalURL parse url)"
  by (auto simp: DecodeCode_def split: option.splits if_splits)

lemma code_roundtrip:
  assumes "unmarshal (marshal \<lparr>cpS = url, cpT = hex_EncodeToString token\<rparr>) = Some \<lparr>cpS = url, cpT = hex_EncodeToString token\<rparr>"
    and "length token = 16" "validSignalURL parse url"
  shows "DecodeCode parse unmarshal (EncodeCode marshal url token) = Inr (url, token)"
  using assms by (simp add: DecodeCode_Inr EncodeCode_def)

section \<open>The safety number\<close>

lemma list_12: "length h = 32 \<Longrightarrow> take 12 h = [h ! 0, h ! 1, h ! 2, h ! 3, h ! 4, h ! 5, h ! 6, h ! 7, h ! 8, h ! 9, h ! 10, h ! 11]"
  by (rule nth_equalityI) (auto simp: less_Suc_eq numeral_eq_Suc)

lemma hex_pair_inject: "hex_EncodeToString [a, b] @ s = hex_EncodeToString [c, d] @ t \<longleftrightarrow> a = c \<and> b = d \<and> s = t"
  by (subst append_eq_append_conv) (simp_all del: hex_EncodeToString.simps)

text \<open>Two bindings show the same number exactly when the first 96 bits of their hashes agree.\<close>

lemma FromBinding_eq:
  "FromBinding b = FromBinding b' \<longleftrightarrow>
     take 12 (sha256 (bytes_of ''miranda/sas/v2'' @ b)) = take 12 (sha256 (bytes_of ''miranda/sas/v2'' @ b'))"
proof -
  define h h' where "h = sha256 (bytes_of ''miranda/sas/v2'' @ b)" and "h' = sha256 (bytes_of ''miranda/sas/v2'' @ b')"
  have l: "length h = 32" "length h' = 32" by (simp_all add: h_def h'_def)
  have "FromBinding b = FromBinding b' \<longleftrightarrow> list_all (\<lambda>i. h ! i = h' ! i) [0, 1, 2, 3, 4, 5, 6, 7, 8, 9, 10, 11]"
    unfolding FromBinding_def Let_def sas_group_def h_def [symmetric] h'_def [symmetric]
    by (simp add: hex_pair_inject del: hex_EncodeToString.simps)
  also have "\<dots> \<longleftrightarrow> take 12 h = take 12 h'" unfolding list_12 [OF l(1)] list_12 [OF l(2)] by simp
  finally show ?thesis by (simp add: h_def h'_def)
qed

section \<open>Two honest parties agree\<close>

text \<open>
  What the code relies on of Noise: with the same pre-shared key, and payloads that fit a message, each party reads what the other
  wrote, and both end with the same channel binding.
\<close>

definition noise_room :: nat where "noise_room = 65535 - 48"

definition noise_agrees :: "'h noise_nn \<Rightarrow> bool" where
  "noise_agrees nz \<longleftrightarrow>
     (\<forall>ri rr psk p1 p2. length p1 \<le> noise_room \<longrightarrow> length p2 \<le> noise_room \<longrightarrow>
        (\<exists>hi hr m1 hi1 hr1 m2 hr2 hi2.
           nn_new nz ri True psk = Some hi \<and> nn_new nz rr False psk = Some hr \<and>
           nn_write nz hi p1 = Some (m1, hi1) \<and> nn_read nz hr m1 = Some (p1, hr1) \<and>
           nn_write nz hr1 p2 = Some (m2, hr2) \<and> nn_read nz hi1 m2 = Some (p2, hi2) \<and>
           nn_binding nz hi2 = nn_binding nz hr2))"

text \<open>What it relies on of JSON: strings of valid UTF-8 read back, and the text of a proof is longer than its signature field.\<close>

definition info_text :: "AgentInfo \<Rightarrow> bool" where
  "info_text i \<longleftrightarrow>
     ValidString (aiHostPubHex i) \<and> ValidString (aiMachineID i) \<and> ValidString (aiName i) \<and> ValidString (aiRegistrationCommitment i)"

definition proof_text :: "PairProof \<Rightarrow> bool" where
  "proof_text p \<longleftrightarrow> ValidString (ppSignature p) \<and> ValidString (ppRegistry p) \<and> ValidString (ppRegistrationAuth p)"

definition pair_json_faithful :: "pair_json \<Rightarrow> bool" where
  "pair_json_faithful js \<longleftrightarrow>
     (\<forall>w. ValidString w \<longrightarrow> pj_unclaim js (pj_claim js w) = Some w) \<and>
     (\<forall>i. info_text i \<longrightarrow> pj_uninfo js (pj_info js i) = Some i) \<and>
     (\<forall>p. proof_text p \<longrightarrow> pj_unproof js (pj_proof js p) = Some p \<and> length (ppSignature p) < length (pj_proof js p))"

lemma length_b64: "length (b64_EncodeToString b) = 4 * ((length b + 2) div 3)"
  by (induction b rule: b64_EncodeToString.induct) (simp_all, presburger)

lemma VerifyAuth_empty: "VerifyAuth verify owner c [] \<noteq> None"
  by (simp add: VerifyAuth_None)

text \<open>What a responder ends with has been proved to it, whoever sent the messages.\<close>

lemma Responder_Finish_Inr:
  assumes "Responder_Finish verify js msg3 s = Inr (owner, pv)"
  shows "owner = srClaim s" "\<exists>sig. VerifyAuth verify owner (srBinding s) sig = None"
    "aiRegistrationCommitment (srInfo s) \<noteq> [] \<Longrightarrow>
       \<exists>rsig. b64_DecodeString (pvRegistrationAuth pv) = Some rsig \<and>
         VerifyAuth verify owner (RegistrationChallenge (aiMachineID (srInfo s)) (aiRegistrationCommitment (srInfo s))) rsig = None"
  using assms by (auto simp: Responder_Finish_def split: option.splits sum.splits if_splits)

lemma StartResponder_Inr:
  assumes "StartResponder nz js rnd msg1 sent token info = Inr (m2, s)"
  shows "srInfo s = info" "\<exists>pub. key_of (srClaim s) = Some pub"
  using assms by (auto simp: StartResponder_def split: option.splits prod.splits if_splits)

text \<open>Without a provisioner a machine that asks for a registration authorization refuses the pairing.\<close>

lemma unprovisioned_refused:
  assumes "Initiator_Finish sign js None si = Inr msg3" "signs_for sign verify (siSigner si)"
    and "aiRegistrationCommitment (srInfo s) \<noteq> []"
  shows "\<exists>e. Responder_Finish verify js (Some msg3) s = Inl e"
proof -
  have "length msg3 = 64" using assms(1,2) by (auto simp: Initiator_Finish_def SignAuth_def signs_for_def)
  moreover have "b64_DecodeString [] = Some []" by (simp add: b64_DecodeString_def)
  ultimately show ?thesis
    using assms(3) VerifyAuth_empty by (auto simp: Responder_Finish_def proof_parts_def)
qed

lemma pairing_agrees:
  assumes nz: "noise_agrees nz" and js: "pair_json_faithful js" and sg: "signs_for sign verify signer"
    and info: "info_text info" and reg: "provision info = Some registry" "ValidString registry"
    and room: "length (pj_claim js (Address signer)) \<le> noise_room" "length (pj_info js info) \<le> noise_room"
  shows "\<exists>msg1 hi m2 s si msg3.
    StartInitiator_msg1 nz js ri token signer = Inr (msg1, hi) \<and>
    StartResponder nz js rr (Some msg1) (\<lambda>m. True) token info = Inr (m2, s) \<and>
    StartInitiator nz js ri (\<lambda>m. Reply m2) token signer = Inr si \<and> siInfo si = info \<and> siBinding si = srBinding s \<and>
    Initiator_Finish sign js (Some provision) si = Inr msg3 \<and>
    Responder_Finish verify js (Some msg3) s =
      Inr (Address signer, \<lparr>pvRegistry = registry, pvRegistrationAuth = registration_auth sign signer info\<rparr>)"
proof -
  let ?p1 = "pj_claim js (Address signer)" and ?p2 = "pj_info js info" and ?psk = "pskFromToken token"
  obtain hi hr m1 hi1 hr1 m2 hr2 hi2 where
    h: "nn_new nz ri True ?psk = Some hi" "nn_new nz rr False ?psk = Some hr"
      "nn_write nz hi ?p1 = Some (m1, hi1)" "nn_read nz hr m1 = Some (?p1, hr1)"
      "nn_write nz hr1 ?p2 = Some (m2, hr2)" "nn_read nz hi1 m2 = Some (?p2, hi2)"
      "nn_binding nz hi2 = nn_binding nz hr2"
    using nz room unfolding noise_agrees_def by (metis (no_types, opaque_lifting))
  have key: "key_of (Address signer) = Some (Pub signer)" by (rule signs_for_key [OF sg])
  have claim: "pj_unclaim js ?p1 = Some (Address signer)" and uninfo: "pj_uninfo js ?p2 = Some info"
    using js ValidString_key [OF key] info by (auto simp: pair_json_faithful_def)
  define b where "b = nn_binding nz hr2"
  define s where "s = \<lparr>srBinding = b, srClaim = Address signer, srInfo = info\<rparr>"
  define si where "si = \<lparr>siInfo = info, siBinding = b, siSigner = signer\<rparr>"
  define pp where "pp = \<lparr>ppSignature = b64_EncodeToString (SignAuth sign signer b), ppRegistry = registry,
    ppRegistrationAuth = registration_auth sign signer info\<rparr>"
  have 1: "StartInitiator_msg1 nz js ri token signer = Inr (m1, hi1)"
    by (simp add: StartInitiator_msg1_def newHandshake_def h)
  have 2: "StartResponder nz js rr (Some m1) (\<lambda>m. True) token info = Inr (m2, s)"
    by (simp add: StartResponder_def newHandshake_def h claim key s_def b_def)
  have 3: "StartInitiator nz js ri (\<lambda>m. Reply m2) token signer = Inr si"
    by (simp add: StartInitiator_def 1 h uninfo si_def b_def)
  have 4: "Initiator_Finish sign js (Some provision) si = Inr (pj_proof js pp)"
    by (simp add: Initiator_Finish_def si_def pp_def reg)
  have "proof_text pp" using reg(2) by (simp add: proof_text_def pp_def ValidString_b64 registration_auth_def ValidString_ascii)
  then have pj: "pj_unproof js (pj_proof js pp) = Some pp" "length (ppSignature pp) < length (pj_proof js pp)"
    using js by (simp_all add: pair_json_faithful_def)
  moreover have "length (SignAuth sign signer b) = 64" using sg by (simp add: signs_for_def SignAuth_def)
  ultimately have "length (pj_proof js pp) \<noteq> 64" by (simp add: pp_def length_b64)
  with pj have "proof_parts js (pj_proof js pp) =
      Inr (SignAuth sign signer b, \<lparr>pvRegistry = registry, pvRegistrationAuth = registration_auth sign signer info\<rparr>)"
    by (simp add: proof_parts_def pp_def)
  then have 5: "Responder_Finish verify js (Some (pj_proof js pp)) s =
      Inr (Address signer, \<lparr>pvRegistry = registry, pvRegistrationAuth = registration_auth sign signer info\<rparr>)"
    by (simp add: Responder_Finish_def s_def VerifyAuth_SignAuth [OF sg] registration_auth_def)
  have "siInfo si = info" "siBinding si = srBinding s" by (simp_all add: si_def s_def)
  with 1 2 3 4 5 show ?thesis by blast
qed

end
