(* ===== verification/Atomic_File.thy ===== *)
theory Atomic_File
  imports Go_Prelude
begin

text \<open>
  Replacing a file by writing a temporary one and renaming it: the sequence of system calls that \<open>writeMachines\<close>, \<open>RecordRevocation\<close>,
  \<open>writeCacheEnvelope\<close> and \<open>SaveIdentity\<close> of the client share. Each call can fail, which ends the sequence with an error; a
  process can die between any two of them. The temporary file has a name no reader uses, so only the content of the target counts.

  Reading a file that exists can fail too: \<open>readable\<close> says so.
\<close>

datatype file_call = OpMkdir | OpChmodDir | OpCreateTemp | OpWrite | OpChmod | OpSync | OpClose | OpRename

fun run_calls :: "file_call list \<Rightarrow> (file_call \<Rightarrow> bool) \<Rightarrow> 'f \<Rightarrow> 'f option \<Rightarrow> bool \<times> 'f option" where
  "run_calls [] io data old = (True, old)"
| "run_calls (c # cs) io data old =
     (if \<not> io c then (False, old) else run_calls cs io data (if c = OpRename then Some data else old))"

definition write_temp_rename :: "file_call list" where
  "write_temp_rename = [OpCreateTemp, OpWrite, OpChmod, OpClose, OpRename]"

lemma run_calls_content: "snd (run_calls cs io data old) \<in> {old, Some data}"
  by (induction cs arbitrary: old) (simp_all, metis insertE singletonD)

lemma run_calls_ok:
  "run_calls (cs @ [OpRename]) io data old = (ok, new) \<Longrightarrow> OpRename \<notin> set cs \<Longrightarrow> new = (if ok then Some data else old)"
  by (induction cs) (auto split: if_splits)

lemma write_temp_rename_ok:
  "run_calls write_temp_rename io data old = (ok, new) \<Longrightarrow> new = (if ok then Some data else old)"
  by (auto simp: write_temp_rename_def split: if_splits)

lemma run_calls_all: "list_all io cs \<Longrightarrow> fst (run_calls cs io data old)"
  by (induction cs arbitrary: old) simp_all

text \<open>What a process that dies after the first calls leaves behind.\<close>

definition dies_after :: "nat \<Rightarrow> file_call list \<Rightarrow> 'f \<Rightarrow> 'f option \<Rightarrow> 'f option" where
  "dies_after n cs data old = snd (run_calls (take n cs) (\<lambda>c. True) data old)"

lemma dies_after_content: "dies_after n cs data old \<in> {old, Some data}"
  unfolding dies_after_def by (rule run_calls_content)

end
