(* ===== verification/Client_Machines.thy ===== *)
theory Client_Machines
  imports Atomic_File Json_Text
begin

text \<open>
  The client's list of known machines: \<^verbatim>\<open>machines.json\<close> of \<^verbatim>\<open>go/internal/client/store.go\<close>, the merge with the machines discovered in
  the registry, the resolution of a name and the list of machines already seen of \<^verbatim>\<open>registry.go\<close>, and \<^verbatim>\<open>lastused.go\<close>.

  The contents of the files are of arbitrary types with parameters \<open>marshal\<close> and \<open>unmarshal\<close> for their JSON; \<open>mkdir\<close>, \<open>readable\<close> and \<open>io\<close>
  say which file operations succeed.
\<close>

record Machine =
  mName :: string
  mMachineID :: string
  mHostPubHex :: string
  mSignalURL :: string
  mNameTS :: int
  mOwner :: string

datatype store_error = NoStoreDir | StoreUnreadable | StoreCorrupt | StoreNotWritten | UnknownMachine string

section \<open>The file: store.go\<close>

definition ListMachines :: "('f \<Rightarrow> Machine list option) \<Rightarrow> bool \<Rightarrow> 'f option \<Rightarrow> store_error + Machine list" where
  "ListMachines unmarshal readable f =
     (case f of
        None \<Rightarrow> Inr []
      | Some data \<Rightarrow>
          if \<not> readable then Inl StoreUnreadable
          else (case unmarshal data of None \<Rightarrow> Inl StoreCorrupt | Some list \<Rightarrow> Inr list))"

definition writeMachines ::
  "(Machine list \<Rightarrow> 'f) \<Rightarrow> (file_call \<Rightarrow> bool) \<Rightarrow> Machine list \<Rightarrow> 'f option \<Rightarrow> store_error option \<times> 'f option" where
  "writeMachines marshal io list f =
     (let (ok, f') = run_calls write_temp_rename io (marshal list) f in (if ok then None else Some StoreNotWritten, f'))"

text \<open>The loops that change the first entry with a property, or append when there is none.\<close>

fun change_first :: "('a \<Rightarrow> bool) \<Rightarrow> ('a \<Rightarrow> 'a) \<Rightarrow> 'a list \<Rightarrow> 'a list option" where
  "change_first P g [] = None"
| "change_first P g (x # xs) = (if P x then Some (g x # xs) else map_option ((#) x) (change_first P g xs))"

definition upsert :: "('a \<Rightarrow> bool) \<Rightarrow> ('a \<Rightarrow> 'a) \<Rightarrow> 'a \<Rightarrow> 'a list \<Rightarrow> 'a list" where
  "upsert P g x xs = (case change_first P g xs of None \<Rightarrow> xs @ [x] | Some ys \<Rightarrow> ys)"

definition with_machines ::
  "(Machine list \<Rightarrow> 'f) \<Rightarrow> ('f \<Rightarrow> Machine list option) \<Rightarrow> bool \<Rightarrow> (file_call \<Rightarrow> bool) \<Rightarrow> (Machine list \<Rightarrow> Machine list) \<Rightarrow> 'f option \<Rightarrow>
   store_error option \<times> 'f option" where
  "with_machines marshal unmarshal readable io change f =
     (case ListMachines unmarshal readable f of
        Inl e \<Rightarrow> (Some e, f)
      | Inr list \<Rightarrow> writeMachines marshal io (change list) f)"

definition AddMachine ::
  "(Machine list \<Rightarrow> 'f) \<Rightarrow> ('f \<Rightarrow> Machine list option) \<Rightarrow> bool \<Rightarrow> bool \<Rightarrow> (file_call \<Rightarrow> bool) \<Rightarrow> Machine \<Rightarrow> 'f option \<Rightarrow>
   store_error option \<times> 'f option" where
  "AddMachine marshal unmarshal mkdir readable io m f =
     (if \<not> mkdir then (Some NoStoreDir, f)
      else with_machines marshal unmarshal readable io (upsert (\<lambda>x. mName x = mName m) (\<lambda>x. m) m) f)"

definition RemoveMachine ::
  "(Machine list \<Rightarrow> 'f) \<Rightarrow> ('f \<Rightarrow> Machine list option) \<Rightarrow> bool \<Rightarrow> (file_call \<Rightarrow> bool) \<Rightarrow> string \<Rightarrow> 'f option \<Rightarrow> store_error option \<times> 'f option" where
  "RemoveMachine marshal unmarshal readable io machineID f =
     with_machines marshal unmarshal readable io (filter (\<lambda>m. mMachineID m \<noteq> machineID)) f"

definition RenameLocalMachine ::
  "(Machine list \<Rightarrow> 'f) \<Rightarrow> ('f \<Rightarrow> Machine list option) \<Rightarrow> bool \<Rightarrow> bool \<Rightarrow> (file_call \<Rightarrow> bool) \<Rightarrow> Machine \<Rightarrow> string \<Rightarrow> int \<Rightarrow> 'f option \<Rightarrow>
   store_error option \<times> 'f option" where
  "RenameLocalMachine marshal unmarshal mkdir readable io m name ts f =
     (if \<not> mkdir then (Some NoStoreDir, f)
      else with_machines marshal unmarshal readable io
             (upsert (\<lambda>x. mMachineID x = mMachineID m) (\<lambda>x. x\<lparr>mName := name, mNameTS := ts\<rparr>) (m\<lparr>mName := name, mNameTS := ts\<rparr>)) f)"

definition GetMachine :: "('f \<Rightarrow> Machine list option) \<Rightarrow> bool \<Rightarrow> string \<Rightarrow> 'f option \<Rightarrow> store_error + Machine" where
  "GetMachine unmarshal readable name f =
     (case ListMachines unmarshal readable f of
        Inl e \<Rightarrow> Inl e
      | Inr list \<Rightarrow> (case find (\<lambda>m. mName m = name) list of None \<Rightarrow> Inl (UnknownMachine name) | Some m \<Rightarrow> Inr m))"

section \<open>Merging with the registry: registry.go\<close>

text \<open>The map \<open>byID\<close> and the slice \<open>order\<close>.\<close>

type_synonym merge_state = "(string, Machine) gomap \<times> string list"

definition merge_local :: "Machine \<Rightarrow> merge_state \<Rightarrow> merge_state" where
  "merge_local m st =
     (case st of (byID, order) \<Rightarrow>
        if mMachineID m = [] then st
        else (mput byID (mMachineID m) m, if mget byID (mMachineID m) = None then order @ [mMachineID m] else order))"

definition absorb :: "Machine \<Rightarrow> Machine \<Rightarrow> Machine" where
  "absorb m prev =
     (let p1 = (if mHostPubHex m \<noteq> [] then prev\<lparr>mHostPubHex := mHostPubHex m\<rparr> else prev);
          p2 = (if mSignalURL m \<noteq> [] then p1\<lparr>mSignalURL := mSignalURL m\<rparr> else p1)
      in if mName m \<noteq> [] \<and> (mName p2 = [] \<or> mNameTS m \<ge> mNameTS p2)
         then p2\<lparr>mName := mName m, mNameTS := mNameTS m\<rparr> else p2)"

definition merge_discovered :: "Machine \<Rightarrow> merge_state \<Rightarrow> merge_state" where
  "merge_discovered m st =
     (case st of (byID, order) \<Rightarrow>
        if mMachineID m = [] then st
        else case mget byID (mMachineID m) of
               None \<Rightarrow> (mput byID (mMachineID m) m, order @ [mMachineID m])
             | Some prev \<Rightarrow> (mput byID (mMachineID m) (absorb m prev), order))"

definition merge_state :: "Machine list \<Rightarrow> Machine list \<Rightarrow> merge_state" where
  "merge_state local discovered = fold merge_discovered discovered (fold merge_local local ([], []))"

definition MergeMachines :: "Machine list \<Rightarrow> Machine list \<Rightarrow> Machine list" where
  "MergeMachines local discovered =
     (case merge_state local discovered of (byID, order) \<Rightarrow> map (\<lambda>i. the (mget byID i)) order)"

definition ResolveMachine :: "Machine list \<Rightarrow> Machine list \<Rightarrow> string \<Rightarrow> (Machine \<times> bool) option" where
  "ResolveMachine local discovered name =
     (let fromLocal = list_ex (\<lambda>m. mName m = name) local
      in map_option (\<lambda>m. (m, \<not> fromLocal)) (find (\<lambda>m. mName m = name) (MergeMachines local discovered)))"

section \<open>Machines seen before\<close>

definition loadSeen :: "('f \<Rightarrow> string list) \<Rightarrow> bool \<Rightarrow> 'f option \<Rightarrow> string list" where
  "loadSeen unmarshal readable f = (case f of None \<Rightarrow> [] | Some data \<Rightarrow> if readable then unmarshal data else [])"

text \<open>The loop of \<open>NotifyNewDevices\<close>: the ids recorded so far and the names announced.\<close>

fun notify_loop :: "Machine list \<Rightarrow> string list \<Rightarrow> string list \<times> string list" where
  "notify_loop [] seen = (seen, [])"
| "notify_loop (m # ms) seen =
     (if mMachineID m = [] \<or> mMachineID m \<in> set seen then notify_loop ms seen
      else let (seen', names) = notify_loop ms (seen @ [mMachineID m]) in (seen', mName m # names))"

text \<open>
  \<open>NotifyNewDevices\<close>: the announcements, whether it reports success, and the file; when \<open>saveSeen\<close> does not succeed (\<open>written\<close> is false) the
  file is whatever the write \<open>left\<close>.
\<close>

definition NotifyNewDevices ::
  "(string list \<Rightarrow> 'f) \<Rightarrow> ('f \<Rightarrow> string list) \<Rightarrow> bool \<Rightarrow> bool \<Rightarrow> 'f option \<Rightarrow> Machine list \<Rightarrow> 'f option \<Rightarrow>
   string list \<times> bool \<times> 'f option" where
  "NotifyNewDevices marshal unmarshal readable written left machines f =
     (let seen = loadSeen unmarshal readable f; (seen', names) = notify_loop machines seen
      in if names = [] then (names, True, f)
         else if written then (names, True, Some (marshal seen')) else (names, False, left))"

definition UnseenMachines :: "('f \<Rightarrow> string list) \<Rightarrow> bool \<Rightarrow> Machine list \<Rightarrow> 'f option \<Rightarrow> string set" where
  "UnseenMachines unmarshal readable machines f =
     set (filter (\<lambda>i. i \<noteq> [] \<and> i \<notin> set (loadSeen unmarshal readable f)) (map mMachineID machines))"

section \<open>The machine used last: lastused.go\<close>

definition SaveLastUsed :: "(string \<Rightarrow> 'f) \<Rightarrow> bool \<Rightarrow> string \<Rightarrow> 'f option \<Rightarrow> 'f option" where
  "SaveLastUsed marshal written name f = (if name = [] \<or> \<not> written then f else Some (marshal name))"

definition LastUsed :: "('f \<Rightarrow> string option) \<Rightarrow> bool \<Rightarrow> 'f option \<Rightarrow> string" where
  "LastUsed unmarshal readable f =
     (case f of None \<Rightarrow> [] | Some data \<Rightarrow> if \<not> readable then [] else (case unmarshal data of None \<Rightarrow> [] | Some name \<Rightarrow> name))"

section \<open>The list of pins\<close>

lemma change_first_None: "change_first P g xs = None \<longleftrightarrow> \<not> list_ex P xs"
  by (induction xs) auto

lemma change_first_Some:
  "change_first P g xs = Some ys \<Longrightarrow> \<exists>as x bs. xs = as @ x # bs \<and> ys = as @ g x # bs \<and> P x \<and> \<not> list_ex P as"
proof (induction xs arbitrary: ys)
  case Nil
  then show ?case by simp
next
  case (Cons x xs)
  show ?case
  proof (cases "P x")
    case True
    with Cons.prems show ?thesis by (intro exI [of _ "[]"]) auto
  next
    case False
    with Cons.prems obtain zs where z: "change_first P g xs = Some zs" "ys = x # zs" by auto
    then obtain as y bs where "xs = as @ y # bs" "zs = as @ g y # bs" "P y" "\<not> list_ex P as" using Cons.IH by blast
    with z False show ?thesis by (intro exI [of _ "x # as"]) auto
  qed
qed

lemma upsert_cases:
  obtains (appended) "\<not> list_ex P xs" "upsert P g x xs = xs @ [x]"
    | (changed) as y bs where "xs = as @ y # bs" "upsert P g x xs = as @ g y # bs" "P y" "\<not> list_ex P as"
proof (cases "change_first P g xs")
  case None
  then have "\<not> list_ex P xs" by (simp add: change_first_None)
  with None show thesis by (intro appended) (simp_all add: upsert_def)
next
  case (Some ys)
  from change_first_Some [OF this] obtain as y bs where "xs = as @ y # bs" "ys = as @ g y # bs" "P y" "\<not> list_ex P as" by blast
  with Some show thesis using changed by (simp add: upsert_def)
qed

lemma upsert_others: "y \<in> set xs \<Longrightarrow> \<not> P y \<Longrightarrow> y \<in> set (upsert P g x xs)"
  by (rule upsert_cases [of P xs g x]) auto

lemma find_upsert:
  assumes "\<And>y. P y \<Longrightarrow> P (g y)" "P x"
  shows "find P (upsert P g x xs) = (case find P xs of None \<Rightarrow> Some x | Some y \<Rightarrow> Some (g y))"
proof (rule upsert_cases [of P xs g x])
  assume "\<not> list_ex P xs" "upsert P g x xs = xs @ [x]"
  moreover have "\<not> list_ex P xs \<Longrightarrow> find P xs = None" "\<not> list_ex P xs \<Longrightarrow> find P (xs @ [x]) = Some x" for xs
    using assms(2) by (induction xs) auto
  ultimately show ?thesis by simp
next
  fix as y bs assume a: "xs = as @ y # bs" "upsert P g x xs = as @ g y # bs" "P y" "\<not> list_ex P as"
  have "\<not> list_ex P as \<Longrightarrow> P z \<Longrightarrow> find P (as @ z # bs) = Some z" for as z by (induction as) auto
  with a assms(1) show ?thesis by simp
qed

lemma with_machines_result:
  assumes "with_machines marshal unmarshal readable io change f = (e, f')"
  shows "(e = None \<longrightarrow> (\<exists>list. ListMachines unmarshal readable f = Inr list \<and> f' = Some (marshal (change list)))) \<and> (e \<noteq> None \<longrightarrow> f' = f)"
  using assms by (auto simp: with_machines_def writeMachines_def split: sum.splits prod.splits if_splits dest!: write_temp_rename_ok)

text \<open>What JSON keeps of a machine list.\<close>

definition machine_text :: "Machine \<Rightarrow> bool" where
  "machine_text m \<longleftrightarrow>
     ValidString (mName m) \<and> ValidString (mMachineID m) \<and> ValidString (mHostPubHex m) \<and> ValidString (mSignalURL m) \<and> ValidString (mOwner m)"

lemma ListMachines_written:
  "json_reads (list_all machine_text) marshal unmarshal \<Longrightarrow> list_all machine_text ms \<Longrightarrow> ListMachines unmarshal True (Some (marshal ms)) = Inr ms"
  by (simp add: ListMachines_def json_readsD)

lemma ListMachines_text:
  "json_reads (list_all machine_text) marshal unmarshal \<Longrightarrow> ListMachines unmarshal readable f = Inr ms \<Longrightarrow> list_all machine_text ms"
  by (auto simp: ListMachines_def split: option.splits if_splits dest: json_reads_text)

lemma upsert_text: "list_all P xs \<Longrightarrow> P x \<Longrightarrow> (\<And>y. P y \<Longrightarrow> P (g y)) \<Longrightarrow> list_all P (upsert Q g x xs)"
  by (rule upsert_cases [of Q xs g x]) auto

section \<open>The merge\<close>

text \<open>The entry of one id: its last local entry, then every record discovered for it in turn.\<close>

definition absorb_option :: "Machine \<Rightarrow> Machine option \<Rightarrow> Machine option" where
  "absorb_option m acc = (case acc of None \<Rightarrow> Some m | Some p \<Rightarrow> Some (absorb m p))"

definition merge_one :: "string \<Rightarrow> Machine list \<Rightarrow> Machine list \<Rightarrow> Machine option" where
  "merge_one i local discovered =
     fold absorb_option (filter (\<lambda>m. mMachineID m = i) discovered) (fold (\<lambda>m acc. Some m) (filter (\<lambda>m. mMachineID m = i) local) None)"

definition merge_inv :: "merge_state \<Rightarrow> bool" where
  "merge_inv st \<longleftrightarrow> distinct (snd st) \<and> [] \<notin> set (snd st) \<and> (\<forall>i. i \<in> set (snd st) \<longleftrightarrow> mget (fst st) i \<noteq> None) \<and>
     (\<forall>i m. mget (fst st) i = Some m \<longrightarrow> mMachineID m = i)"

lemma absorb_id [simp]: "mMachineID (absorb m p) = mMachineID p" "mOwner (absorb m p) = mOwner p"
  by (simp_all add: absorb_def Let_def)

lemma absorb_idem: "absorb m (absorb m p) = absorb m p"
  by (auto simp: absorb_def Let_def)

lemma merge_local_inv: "merge_inv st \<Longrightarrow> merge_inv (merge_local m st)"
  by (cases st) (auto simp: merge_inv_def merge_local_def)

lemma merge_discovered_inv: "merge_inv st \<Longrightarrow> merge_inv (merge_discovered m st)"
  by (cases st) (auto simp: merge_inv_def merge_discovered_def split: option.splits)

lemma merge_local_get: "i \<noteq> [] \<Longrightarrow> mget (fst (merge_local m st)) i = (if mMachineID m = i then Some m else mget (fst st) i)"
  by (cases st) (auto simp: merge_local_def)

lemma merge_discovered_get:
  "i \<noteq> [] \<Longrightarrow> mget (fst (merge_discovered m st)) i = (if mMachineID m = i then absorb_option m (mget (fst st) i) else mget (fst st) i)"
  by (cases st) (auto simp: merge_discovered_def absorb_option_def split: option.splits)

lemma fold_local_get:
  "i \<noteq> [] \<Longrightarrow> mget (fst (fold merge_local ms st)) i = fold (\<lambda>m acc. Some m) (filter (\<lambda>m. mMachineID m = i) ms) (mget (fst st) i)"
  by (induction ms arbitrary: st) (simp_all add: merge_local_get)

lemma fold_discovered_get:
  "i \<noteq> [] \<Longrightarrow> mget (fst (fold merge_discovered ms st)) i = fold absorb_option (filter (\<lambda>m. mMachineID m = i) ms) (mget (fst st) i)"
  by (induction ms arbitrary: st) (simp_all add: merge_discovered_get)

lemma fold_merge_inv: "merge_inv st \<Longrightarrow> merge_inv (fold merge_local ms st)" "merge_inv st \<Longrightarrow> merge_inv (fold merge_discovered ms st)"
  by (induction ms arbitrary: st) (simp_all add: merge_local_inv merge_discovered_inv)

lemma merge_state_inv: "merge_inv (merge_state local discovered)"
  unfolding merge_state_def by (intro fold_merge_inv) (simp add: merge_inv_def)

lemma merge_state_get: "i \<noteq> [] \<Longrightarrow> mget (fst (merge_state local discovered)) i = merge_one i local discovered"
  by (simp add: merge_state_def merge_one_def fold_local_get fold_discovered_get)

lemma MergeMachines_mem:
  "m \<in> set (MergeMachines local discovered) \<longleftrightarrow> mMachineID m \<noteq> [] \<and> merge_one (mMachineID m) local discovered = Some m"
proof -
  obtain byID order where st: "merge_state local discovered = (byID, order)" by fastforce
  have inv: "distinct order" "[] \<notin> set order" "\<And>i. i \<in> set order \<longleftrightarrow> mget byID i \<noteq> None" "\<And>i m. mget byID i = Some m \<Longrightarrow> mMachineID m = i"
    using merge_state_inv [of local discovered] by (auto simp: merge_inv_def st)
  have "m \<in> set (MergeMachines local discovered) \<longleftrightarrow> (\<exists>i \<in> set order. the (mget byID i) = m)"
    by (auto simp: MergeMachines_def st)
  also have "\<dots> \<longleftrightarrow> (\<exists>i \<in> set order. mget byID i = Some m)" using inv(3) by (metis option.collapse option.sel)
  also have "\<dots> \<longleftrightarrow> mMachineID m \<noteq> [] \<and> mget byID (mMachineID m) = Some m" using inv by auto
  finally show ?thesis using merge_state_get [of "mMachineID m" local discovered] by (auto simp: st)
qed

lemma MergeMachines_ids: "map mMachineID (MergeMachines local discovered) = snd (merge_state local discovered)"
proof -
  obtain byID order where st: "merge_state local discovered = (byID, order)" by fastforce
  have "mMachineID (the (mget byID i)) = i" if "i \<in> set order" for i
    using merge_state_inv [of local discovered] that by (fastforce simp: merge_inv_def st)
  then show ?thesis by (simp add: MergeMachines_def st map_idI)
qed

lemma MergeMachines_map:
  "MergeMachines local discovered = map (\<lambda>i. the (merge_one i local discovered)) (snd (merge_state local discovered))"
proof -
  obtain byID order where st: "merge_state local discovered = (byID, order)" by fastforce
  have "[] \<notin> set order" using merge_state_inv [of local discovered] by (auto simp: merge_inv_def st)
  then have "mget byID i = merge_one i local discovered" if "i \<in> set order" for i
    using merge_state_get [of i local discovered] that by (auto simp: st)
  then show ?thesis by (simp add: MergeMachines_def st)
qed

lemma merge_ids_set: "set (snd (merge_state local discovered)) = (mMachineID ` (set local \<union> set discovered)) - {[]}"
proof -
  have "snd (merge_local m st) = snd st \<or> snd (merge_local m st) = snd st @ [mMachineID m]" for m st
    by (cases st) (simp add: merge_local_def)
  have some: "fold absorb_option ms (Some x) \<noteq> None" for ms x
    by (induction ms arbitrary: x) (simp_all add: absorb_option_def)
  have disc: "fold absorb_option ms None = None \<longleftrightarrow> ms = []" for ms
    using some by (cases ms) (simp_all add: absorb_option_def)
  have loc: "fold (\<lambda>m acc. Some m) ms (Some x) \<noteq> None" for ms and x :: Machine by (induction ms arbitrary: x) simp_all
  then have loc': "fold (\<lambda>m acc. Some m) ms None = None \<longleftrightarrow> ms = []" for ms :: "Machine list" by (cases ms) simp_all
  have one: "merge_one i local discovered = None \<longleftrightarrow> i \<notin> mMachineID ` (set local \<union> set discovered)" for i
  proof (cases "fold (\<lambda>m acc. Some m) (filter (\<lambda>m. mMachineID m = i) local) None")
    case None
    then have "filter (\<lambda>m. mMachineID m = i) local = []" by (simp only: loc')
    then show ?thesis by (auto simp: merge_one_def disc filter_empty_conv)
  next
    case (Some x)
    then have "filter (\<lambda>m. mMachineID m = i) local \<noteq> []" by auto
    then have "i \<in> mMachineID ` (set local \<union> set discovered)" by (fastforce simp: filter_empty_conv)
    with Some some show ?thesis by (simp add: merge_one_def)
  qed
  have "i \<in> set (snd (merge_state local discovered)) \<longleftrightarrow> i \<noteq> [] \<and> merge_one i local discovered \<noteq> None" for i
    using merge_state_inv [of local discovered] merge_state_get [of i local discovered] by (cases "i = []") (auto simp: merge_inv_def)
  with one show ?thesis by auto
qed

lemma filter_id_distinct:
  assumes "distinct (map mMachineID ms)" "m \<in> set ms"
  shows "filter (\<lambda>x. mMachineID x = mMachineID m) ms = [m]"
  using assms
proof (induction ms)
  case (Cons a ms)
  then show ?case by (cases "a = m") (auto simp: filter_empty_conv image_iff)
qed simp

lemma merge_one_distinct:
  assumes "distinct (map mMachineID local)" "distinct (map mMachineID discovered)"
  shows "l \<in> set local \<Longrightarrow> d \<in> set discovered \<Longrightarrow> mMachineID d = mMachineID l \<Longrightarrow> merge_one (mMachineID l) local discovered = Some (absorb d l)"
    "l \<in> set local \<Longrightarrow> mMachineID l \<notin> mMachineID ` set discovered \<Longrightarrow> merge_one (mMachineID l) local discovered = Some l"
    "d \<in> set discovered \<Longrightarrow> mMachineID d \<notin> mMachineID ` set local \<Longrightarrow> merge_one (mMachineID d) local discovered = Some d"
proof -
  assume l: "l \<in> set local" "d \<in> set discovered" "mMachineID d = mMachineID l"
  show "merge_one (mMachineID l) local discovered = Some (absorb d l)"
    using filter_id_distinct [OF assms(1) l(1)] filter_id_distinct [OF assms(2) l(2)] l(3)
    by (simp add: merge_one_def absorb_option_def)
next
  assume l: "l \<in> set local" "mMachineID l \<notin> mMachineID ` set discovered"
  then have "filter (\<lambda>m. mMachineID m = mMachineID l) discovered = []" unfolding filter_empty_conv by (metis imageI)
  with filter_id_distinct [OF assms(1) l(1)] show "merge_one (mMachineID l) local discovered = Some l"
    by (simp add: merge_one_def)
next
  assume d: "d \<in> set discovered" "mMachineID d \<notin> mMachineID ` set local"
  then have "filter (\<lambda>m. mMachineID m = mMachineID d) local = []" unfolding filter_empty_conv by (metis imageI)
  with filter_id_distinct [OF assms(2) d(1)] show "merge_one (mMachineID d) local discovered = Some d"
    by (simp add: merge_one_def absorb_option_def)
qed

lemma merge_order_local: "distinct (map mMachineID ms) \<Longrightarrow> [] \<notin> mMachineID ` set ms \<Longrightarrow> snd (fold merge_local ms ([], [])) = map mMachineID ms"
proof (induction ms rule: rev_induct)
  case (snoc m ms)
  then have IH: "snd (fold merge_local ms ([], [])) = map mMachineID ms" and new: "mMachineID m \<notin> set (map mMachineID ms)" by auto
  have "merge_inv (fold merge_local ms ([], []))" by (rule fold_merge_inv) (simp add: merge_inv_def)
  with IH new have "mget (fst (fold merge_local ms ([], []))) (mMachineID m) = None" by (auto simp: merge_inv_def)
  moreover obtain a where a: "fold merge_local ms ([], []) = (a, map mMachineID ms)"
    using IH by (cases "fold merge_local ms ([], [])") simp
  ultimately show ?case using snoc.prems by (auto simp: a merge_local_def [of m "(a, map mMachineID ms)"])
qed simp

lemma merge_order_known:
  "(\<And>m. m \<in> set ms \<Longrightarrow> mMachineID m = [] \<or> mget (fst st) (mMachineID m) \<noteq> None) \<Longrightarrow> snd (fold merge_discovered ms st) = snd st"
proof (induction ms arbitrary: st)
  case (Cons m ms)
  have "snd (merge_discovered m st) = snd st"
    using Cons.prems [of m] by (cases st) (auto simp: merge_discovered_def split: option.splits)
  moreover have "mget (fst (merge_discovered m st)) (mMachineID x) \<noteq> None" if "x \<in> set ms" "mMachineID x \<noteq> []" for x
    using Cons.prems [of x] that merge_discovered_get [of "mMachineID x" m st] by (auto simp: absorb_option_def split: option.splits)
  ultimately show ?case using Cons.IH [of "merge_discovered m st"] by auto
qed simp

lemma merge_idem:
  assumes "distinct (map mMachineID discovered)"
  shows "MergeMachines (MergeMachines local discovered) discovered = MergeMachines local discovered"
proof -
  let ?R = "MergeMachines local discovered"
  have ids: "map mMachineID ?R = snd (merge_state local discovered)" by (rule MergeMachines_ids)
  have inv: "distinct (map mMachineID ?R)" "[] \<notin> set (map mMachineID ?R)"
    using merge_state_inv [of local discovered] unfolding ids by (auto simp: merge_inv_def)
  have o1: "snd (fold merge_local ?R ([], [])) = map mMachineID ?R" using inv by (intro merge_order_local) auto
  have "merge_inv (fold merge_local ?R ([], []))" by (rule fold_merge_inv) (simp add: merge_inv_def)
  then have "mget (fst (fold merge_local ?R ([], []))) i \<noteq> None" if "i \<in> set (map mMachineID ?R)" for i
    using that unfolding o1 [symmetric] by (simp add: merge_inv_def)
  moreover have "mMachineID m = [] \<or> mMachineID m \<in> set (map mMachineID ?R)" if "m \<in> set discovered" for m
    unfolding ids merge_ids_set using that by auto
  ultimately have "snd (fold merge_discovered discovered (fold merge_local ?R ([], []))) = snd (fold merge_local ?R ([], []))"
    by (intro merge_order_known) blast
  then have order: "snd (merge_state ?R discovered) = map mMachineID ?R" unfolding merge_state_def o1 .
  have "merge_one (mMachineID m) ?R discovered = Some m" if m: "m \<in> set ?R" for m
  proof (cases "mMachineID m \<in> mMachineID ` set discovered")
    case False
    then show ?thesis using merge_one_distinct(2) [OF inv(1) assms m] by simp
  next
    case True
    then obtain d where d: "d \<in> set discovered" "mMachineID d = mMachineID m" by auto
    define base where "base = fold (\<lambda>m acc. Some m) (filter (\<lambda>x. mMachineID x = mMachineID m) local) None"
    have "absorb_option d base = Some m"
      using m filter_id_distinct [OF assms d(1)] d(2) by (simp add: MergeMachines_mem merge_one_def base_def)
    moreover have "absorb d d = d" by (simp add: absorb_def Let_def)
    ultimately have "absorb d m = m" by (cases base) (auto simp: absorb_option_def absorb_idem)
    then show ?thesis using merge_one_distinct(1) [OF inv(1) assms m d] by simp
  qed
  then show ?thesis unfolding MergeMachines_map [of ?R] order by (simp add: map_idI)
qed

section \<open>Announcements\<close>

lemma notify_loop_result:
  "notify_loop ms seen = (seen', names) \<Longrightarrow>
     set seen' = set seen \<union> (mMachineID ` set ms - {[]}) \<and> (names = [] \<longleftrightarrow> mMachineID ` set ms - {[]} \<subseteq> set seen) \<and>
     length names = card (mMachineID ` set ms - {[]} - set seen)"
proof (induction ms arbitrary: seen seen' names)
  case Nil
  then show ?case by simp
next
  case (Cons m ms)
  show ?case
  proof (cases "mMachineID m = [] \<or> mMachineID m \<in> set seen")
    case True
    then have "notify_loop ms seen = (seen', names)" using Cons.prems by simp
    moreover have "mMachineID ` set (m # ms) - {[]} - set seen = mMachineID ` set ms - {[]} - set seen" using True by auto
    moreover have "set seen \<union> (mMachineID ` set (m # ms) - {[]}) = set seen \<union> (mMachineID ` set ms - {[]})" using True by auto
    ultimately show ?thesis using Cons.IH [of seen seen' names] by (metis Diff_eq_empty_iff)
  next
    case False
    then obtain names1 where n: "notify_loop ms (seen @ [mMachineID m]) = (seen', names1)" "names = mName m # names1"
      using Cons.prems by (auto split: prod.splits)
    let ?new = "mMachineID ` set ms - {[]} - set (seen @ [mMachineID m])"
    have "mMachineID ` set (m # ms) - {[]} - set seen = insert (mMachineID m) ?new" using False by auto
    moreover have "mMachineID m \<notin> ?new" by simp
    ultimately have c: "card (mMachineID ` set (m # ms) - {[]} - set seen) = Suc (card ?new)" by simp
    have IH: "set seen' = set (seen @ [mMachineID m]) \<union> (mMachineID ` set ms - {[]})" "length names1 = card ?new"
      using Cons.IH [OF n(1)] by simp_all
    have "set seen' = set seen \<union> (mMachineID ` set (m # ms) - {[]})" unfolding IH(1) using False by auto
    moreover have "\<not> mMachineID ` set (m # ms) - {[]} \<subseteq> set seen" using False by auto
    ultimately show ?thesis using c IH(2) n(2) by simp
  qed
qed

text \<open>Each machine is announced once: once the list was saved, announcing the same machines again says nothing.\<close>

lemma notify_once:
  assumes "\<And>seen. unmarshal (marshal seen) = seen"
    and "NotifyNewDevices marshal unmarshal True True left machines f = (names, ok, f')"
  shows "fst (NotifyNewDevices marshal unmarshal True written left' machines f') = []"
proof -
  obtain seen' names1 where n: "notify_loop machines (loadSeen unmarshal True f) = (seen', names1)" by fastforce
  from notify_loop_result [OF n] have s: "mMachineID ` set machines - {[]} \<subseteq> set seen'"
    and e: "names1 = [] \<longleftrightarrow> mMachineID ` set machines - {[]} \<subseteq> set (loadSeen unmarshal True f)" by auto
  have "mMachineID ` set machines - {[]} \<subseteq> set (loadSeen unmarshal True f')"
    using assms(2) n s e by (auto simp: NotifyNewDevices_def loadSeen_def assms(1) split: if_splits)
  then show ?thesis
    using notify_loop_result [of machines "loadSeen unmarshal True f'"] by (auto simp: NotifyNewDevices_def split: prod.splits)
qed

section \<open>Properties\<close>

text \<open>
  The list the client works with is the union of what it pinned and what the owner's registry holds, with one entry per machine and
  its own machines first: a machine known on one side only appears as it is; for one known on both, a host key and a relay address in
  the owner-sealed record replace the local ones, and the name is that of the later writer; and merging the same records again changes nothing.
\<close>

theorem merge_exact:
  assumes "distinct (map mMachineID local)" "distinct (map mMachineID discovered)"
  shows "distinct (map mMachineID (MergeMachines local discovered)) \<and>
    (m \<in> set (MergeMachines local discovered) \<longleftrightarrow> mMachineID m \<noteq> [] \<and>
       (m \<in> set local \<and> mMachineID m \<notin> mMachineID ` set discovered \<or> m \<in> set discovered \<and> mMachineID m \<notin> mMachineID ` set local \<or>
        (\<exists>l \<in> set local. \<exists>d \<in> set discovered. mMachineID d = mMachineID l \<and>
           m = l\<lparr>mHostPubHex := if mHostPubHex d \<noteq> [] then mHostPubHex d else mHostPubHex l,
                 mSignalURL := if mSignalURL d \<noteq> [] then mSignalURL d else mSignalURL l,
                 mName := if mName d \<noteq> [] \<and> (mName l = [] \<or> mNameTS l \<le> mNameTS d) then mName d else mName l,
                 mNameTS := if mName d \<noteq> [] \<and> (mName l = [] \<or> mNameTS l \<le> mNameTS d) then mNameTS d else mNameTS l\<rparr>))) \<and>
    MergeMachines (MergeMachines local discovered) discovered = MergeMachines local discovered"
proof -
  have a: "absorb d l = l\<lparr>mHostPubHex := if mHostPubHex d \<noteq> [] then mHostPubHex d else mHostPubHex l,
                 mSignalURL := if mSignalURL d \<noteq> [] then mSignalURL d else mSignalURL l,
                 mName := if mName d \<noteq> [] \<and> (mName l = [] \<or> mNameTS l \<le> mNameTS d) then mName d else mName l,
                 mNameTS := if mName d \<noteq> [] \<and> (mName l = [] \<or> mNameTS l \<le> mNameTS d) then mNameTS d else mNameTS l\<rparr>" for d l
    by (simp add: absorb_def Let_def)
  note one = merge_one_distinct [OF assms]
  define joined where "joined \<longleftrightarrow> (\<exists>l \<in> set local. \<exists>d \<in> set discovered. mMachineID d = mMachineID l \<and> m = absorb d l)"
  have j: "mMachineID m \<in> mMachineID ` set local" "mMachineID m \<in> mMachineID ` set discovered"
      "merge_one (mMachineID m) local discovered = Some m" if joined
  proof -
    from that obtain l d where ld: "l \<in> set local" "d \<in> set discovered" "mMachineID d = mMachineID l" "m = absorb d l"
      unfolding joined_def by blast
    then show "mMachineID m \<in> mMachineID ` set local" "mMachineID m \<in> mMachineID ` set discovered"
        "merge_one (mMachineID m) local discovered = Some m"
      using one(1) [OF ld(1-3)] by (metis absorb_id(1) imageI)+
  qed
  have "merge_one (mMachineID m) local discovered = Some m \<longleftrightarrow>
      m \<in> set local \<and> mMachineID m \<notin> mMachineID ` set discovered \<or> m \<in> set discovered \<and> mMachineID m \<notin> mMachineID ` set local \<or> joined"
    if "mMachineID m \<noteq> []"
  proof (cases "mMachineID m \<in> mMachineID ` set local"; cases "mMachineID m \<in> mMachineID ` set discovered")
    assume both: "mMachineID m \<in> mMachineID ` set local" "mMachineID m \<in> mMachineID ` set discovered"
    then obtain l d where ld: "l \<in> set local" "mMachineID l = mMachineID m" "d \<in> set discovered" "mMachineID d = mMachineID m" by auto
    then have "merge_one (mMachineID m) local discovered = Some (absorb d l)" using one(1) [of l d] by simp
    moreover have "absorb d l = m \<Longrightarrow> joined" using ld unfolding joined_def by metis
    ultimately have "merge_one (mMachineID m) local discovered = Some m \<longleftrightarrow> joined" using j(3) by (metis option.inject)
    then show ?thesis using both by blast
  next
    assume n: "mMachineID m \<in> mMachineID ` set local" "mMachineID m \<notin> mMachineID ` set discovered"
    then obtain l where l: "l \<in> set local" "mMachineID l = mMachineID m" by auto
    then have "merge_one (mMachineID m) local discovered = Some l" using one(2) [of l] n by simp
    then show ?thesis using one(2) [of m] n l j(2) by auto
  next
    assume n: "mMachineID m \<notin> mMachineID ` set local" "mMachineID m \<in> mMachineID ` set discovered"
    then obtain d where d: "d \<in> set discovered" "mMachineID d = mMachineID m" by auto
    then have "merge_one (mMachineID m) local discovered = Some d" using one(3) [of d] n by simp
    then show ?thesis using one(3) [of m] n d j(1) by auto
  next
    assume n: "mMachineID m \<notin> mMachineID ` set local" "mMachineID m \<notin> mMachineID ` set discovered"
    then have "filter (\<lambda>x. mMachineID x = mMachineID m) local = []" "filter (\<lambda>x. mMachineID x = mMachineID m) discovered = []"
      unfolding filter_empty_conv by (metis imageI)+
    then have "merge_one (mMachineID m) local discovered = None" by (simp add: merge_one_def)
    with n j(1) show ?thesis by auto
  qed
  moreover have "distinct (map mMachineID (MergeMachines local discovered))"
    unfolding MergeMachines_ids using merge_state_inv [of local discovered] by (simp add: merge_inv_def)
  ultimately show ?thesis using merge_idem [OF assms(2), of local] unfolding a [symmetric] joined_def MergeMachines_mem by blast
qed

definition demo_machine :: Machine where
  "demo_machine = \<lparr>mName = ''box'', mMachineID = ''m1'', mHostPubHex = ''aa'', mSignalURL = ''https://r'', mNameTS = 5, mOwner = []\<rparr>"

theorem merge_exact_witness:
  "demo_machine\<lparr>mName := ''new'', mNameTS := 7, mHostPubHex := ''bb''\<rparr> \<in>
     set (MergeMachines [demo_machine] [demo_machine\<lparr>mName := ''new'', mNameTS := 7, mHostPubHex := ''bb'', mSignalURL := []\<rparr>]) \<and>
   distinct (map mMachineID (MergeMachines [demo_machine] [demo_machine\<lparr>mName := ''new''\<rparr>]))"
  using merge_exact [of "[demo_machine]" "[demo_machine\<lparr>mName := ''new'', mNameTS := 7, mHostPubHex := ''bb'', mSignalURL := []\<rparr>]"
      "demo_machine\<lparr>mName := ''new'', mNameTS := 7, mHostPubHex := ''bb''\<rparr>"]
    merge_exact [of "[demo_machine]" "[demo_machine\<lparr>mName := ''new''\<rparr>]" demo_machine]
  by (simp add: demo_machine_def)

text \<open>
  The pins of the client are never lost by accident: whatever file operations fail and wherever a process dies while a machine is added,
  renamed or removed, the file keeps the list it had or holds the new one, an error means it is unchanged, and after a success a machine that was
  added is found under its name with its host key, while every machine that the operation does not name keeps its entry.
\<close>

theorem pins_kept:
  assumes "json_reads (list_all machine_text) marshal unmarshal" "ListMachines unmarshal True f = Inr old" "machine_text m" "ValidString name"
  shows "(case AddMachine marshal unmarshal mkdir True io m f of (e, f') \<Rightarrow>
      (e \<noteq> None \<longrightarrow> f' = f) \<and> (e = None \<longrightarrow> GetMachine unmarshal True (mName m) f' = Inr m \<and>
         (\<forall>x \<in> set old. mName x \<noteq> mName m \<longrightarrow> (\<exists>new. ListMachines unmarshal True f' = Inr new \<and> x \<in> set new)))) \<and>
    (case RenameLocalMachine marshal unmarshal mkdir True io m name ts f of (e, f') \<Rightarrow>
      (e \<noteq> None \<longrightarrow> f' = f) \<and> (e = None \<longrightarrow> (\<forall>x \<in> set old. \<exists>new. ListMachines unmarshal True f' = Inr new \<and>
         (x \<in> set new \<or> mMachineID x = mMachineID m \<and> x\<lparr>mName := name, mNameTS := ts\<rparr> \<in> set new)))) \<and>
    (case RemoveMachine marshal unmarshal True io machineID f of (e, f') \<Rightarrow>
      (e \<noteq> None \<longrightarrow> f' = f) \<and> (e = None \<longrightarrow> ListMachines unmarshal True f' = Inr (filter (\<lambda>x. mMachineID x \<noteq> machineID) old))) \<and>
    dies_after n write_temp_rename (marshal (change old)) f \<in> {f, Some (marshal (change old))}"
proof -
  note old_text = ListMachines_text [OF assms(1,2)] and listed = ListMachines_written [OF assms(1)]
  have add_text: "list_all machine_text (upsert Q (\<lambda>x. m) m old)" for Q by (rule upsert_text [OF old_text assms(3)]) (rule assms(3))
  have ren_text: "list_all machine_text (upsert Q (\<lambda>x. x\<lparr>mName := name, mNameTS := ts\<rparr>) (m\<lparr>mName := name, mNameTS := ts\<rparr>) old)" for Q
    using assms(3,4) by (intro upsert_text [OF old_text]) (simp_all add: machine_text_def)
  have del_text: "list_all machine_text (filter Q old)" for Q using old_text by (auto simp: list_all_iff)
  have ren: "x \<in> set (upsert P g y old) \<or> P x \<and> g x \<in> set (upsert P g y old)" if "x \<in> set old" for x P g y
    using that by (rule_tac upsert_cases [of P old g y]) auto
  have add: "find (\<lambda>x. mName x = mName m) (upsert (\<lambda>x. mName x = mName m) (\<lambda>x. m) m old) = Some m"
    using find_upsert [of "\<lambda>x. mName x = mName m" "\<lambda>x. m" m old] by (simp split: option.splits)
  note result = with_machines_result
  have 1: "case AddMachine marshal unmarshal mkdir True io m f of (e, f') \<Rightarrow>
      (e \<noteq> None \<longrightarrow> f' = f) \<and> (e = None \<longrightarrow> GetMachine unmarshal True (mName m) f' = Inr m \<and>
         (\<forall>x \<in> set old. mName x \<noteq> mName m \<longrightarrow> (\<exists>new. ListMachines unmarshal True f' = Inr new \<and> x \<in> set new)))"
    using result [of marshal unmarshal True io "upsert (\<lambda>x. mName x = mName m) (\<lambda>x. m) m" f] assms(2) add
    by (auto simp: AddMachine_def GetMachine_def listed [OF add_text] intro: upsert_others split: prod.splits)
  have 2: "case RenameLocalMachine marshal unmarshal mkdir True io m name ts f of (e, f') \<Rightarrow>
      (e \<noteq> None \<longrightarrow> f' = f) \<and> (e = None \<longrightarrow> (\<forall>x \<in> set old. \<exists>new. ListMachines unmarshal True f' = Inr new \<and>
         (x \<in> set new \<or> mMachineID x = mMachineID m \<and> x\<lparr>mName := name, mNameTS := ts\<rparr> \<in> set new)))"
    using result [of marshal unmarshal True io "upsert (\<lambda>x. mMachineID x = mMachineID m) (\<lambda>x. x\<lparr>mName := name, mNameTS := ts\<rparr>)
        (m\<lparr>mName := name, mNameTS := ts\<rparr>)" f] assms(2)
    by (auto simp: RenameLocalMachine_def listed [OF ren_text] dest: ren split: prod.splits)
  have 3: "case RemoveMachine marshal unmarshal True io machineID f of (e, f') \<Rightarrow>
      (e \<noteq> None \<longrightarrow> f' = f) \<and> (e = None \<longrightarrow> ListMachines unmarshal True f' = Inr (filter (\<lambda>x. mMachineID x \<noteq> machineID) old))"
    using result [of marshal unmarshal True io "filter (\<lambda>x. mMachineID x \<noteq> machineID)" f] assms(2)
    by (auto simp: RemoveMachine_def listed [OF del_text] split: prod.splits)
  show ?thesis by (intro conjI; (rule 1 2 3 dies_after_content)?)
qed

lemma demo_machine_text: "machine_text demo_machine" "machine_text (demo_machine\<lparr>mName := ''old''\<rparr>)"
  by (simp_all add: machine_text_def demo_machine_def ValidString_ascii)

theorem pins_kept_witness:
  "case AddMachine (\<lambda>x. x) (read_if (list_all machine_text)) True True (\<lambda>c. True) demo_machine (Some [demo_machine\<lparr>mName := ''old''\<rparr>]) of
     (e, f') \<Rightarrow> e = None \<and> GetMachine (read_if (list_all machine_text)) True ''box'' f' = Inr demo_machine"
proof -
  let ?old = "[demo_machine\<lparr>mName := ''old''\<rparr>]" and ?un = "read_if (list_all machine_text)"
  have l: "ListMachines ?un True (Some ?old) = Inr ?old" using demo_machine_text by (simp add: ListMachines_def read_if_def)
  have "AddMachine (\<lambda>x. x) ?un True True (\<lambda>c. True) demo_machine (Some ?old) = (None, Some [demo_machine\<lparr>mName := ''old''\<rparr>, demo_machine])"
    by (simp add: AddMachine_def with_machines_def l writeMachines_def write_temp_rename_def upsert_def)
      (simp add: demo_machine_def)
  then show ?thesis
    using pins_kept [OF json_reads_read_if l demo_machine_text(1) ValidString_Nil, where mkdir = True and io = "\<lambda>c. True"]
    by (simp add: demo_machine_def)
qed

text \<open>
  Renaming changes the first entry with the id, the merge takes the last one. When a machine was paired twice under different names, a rename is
  not visible in the merged list until the registry carries it.
\<close>

lemma rename_shadowed:
  "case RenameLocalMachine Some id True True (\<lambda>c. True) demo_machine ''new'' 9 (Some (Some [demo_machine, demo_machine\<lparr>mName := ''twin''\<rparr>])) of
     (e, f') \<Rightarrow> e = None \<and> (\<exists>list. ListMachines id True f' = Inr list \<and> map mName (MergeMachines list []) = [''twin''])"
  by (simp add: RenameLocalMachine_def with_machines_def ListMachines_def writeMachines_def write_temp_rename_def upsert_def
      MergeMachines_def merge_state_def merge_local_def demo_machine_def)

end
