(* ===== verification/Client_Registry.thy ===== *)
theory Client_Registry
  imports Client_Machines Signer_Derive
begin

text \<open>
  The owner-sealed records of the registry: \<^verbatim>\<open>go/internal/identity/registry.go\<close> and \<^verbatim>\<open>owner.go\<close>, and the sealing, fetching and opening of
  \<^verbatim>\<open>go/internal/client/registry.go\<close>. The ChaCha20-Poly1305 AEAD, HKDF, X25519 and the JSON of a record are parameters; the answer of the relay is an
  argument of the functions that fetch, so a relay may send anything.
\<close>

section \<open>Keys and records: identity\<close>

datatype registry_error = NoRoot | NoRegistryKey | BadAEADKey | BadNonce | ShortBlob | CannotOpen | NoNonce | RelayError

record aead =
  ae_seal :: "bytes \<Rightarrow> bytes \<Rightarrow> bytes \<Rightarrow> bytes \<Rightarrow> bytes"
  ae_open :: "bytes \<Rightarrow> bytes \<Rightarrow> bytes \<Rightarrow> bytes \<Rightarrow> bytes option"

definition ownerSalt :: bytes where "ownerSalt = bytes_of ''terminal-relay/owner/v1''"

definition ownerInfo :: bytes where "ownerInfo = bytes_of ''x25519''"

definition DeriveOwnerKey :: "(bytes \<Rightarrow> bytes \<Rightarrow> bytes \<Rightarrow> bytes option) \<Rightarrow> (bytes \<Rightarrow> bytes option) \<Rightarrow> bytes \<Rightarrow> (bytes \<times> bytes) option" where
  "DeriveOwnerKey hkdf x25519 prfOutput =
     (case hkdf prfOutput ownerSalt ownerInfo of None \<Rightarrow> None | Some priv \<Rightarrow> map_option (\<lambda>pub. (priv, pub)) (x25519 priv))"

definition registrySalt :: bytes where "registrySalt = bytes_of ''miranda/registry/v1''"

definition RegistryKey :: "(bytes \<Rightarrow> bytes \<Rightarrow> bytes \<Rightarrow> bytes option) \<Rightarrow> bytes \<Rightarrow> bytes option" where
  "RegistryKey hkdf secret = hkdf secret registrySalt (bytes_of ''aead-key'')"

definition SealRecord :: "aead \<Rightarrow> bytes \<Rightarrow> bytes \<Rightarrow> bytes \<Rightarrow> string \<Rightarrow> registry_error + bytes" where
  "SealRecord ae key nonce plaintext machineID =
     (if length key \<noteq> 32 then Inl BadAEADKey
      else if length nonce \<noteq> 12 then Inl BadNonce
      else Inr (nonce @ ae_seal ae key nonce plaintext (bytes_of machineID)))"

definition OpenRecord :: "aead \<Rightarrow> bytes \<Rightarrow> bytes \<Rightarrow> string \<Rightarrow> registry_error + bytes" where
  "OpenRecord ae key blob machineID =
     (if length key \<noteq> 32 then Inl BadAEADKey
      else if length blob < 12 then Inl ShortBlob
      else case ae_open ae key (take 12 blob) (drop 12 blob) (bytes_of machineID) of None \<Rightarrow> Inl CannotOpen | Some pt \<Rightarrow> Inr pt)"

section \<open>The client's side: registry.go\<close>

record registryEntry =
  reMachineID :: string
  reBlob :: string

record registryRecord =
  rrV :: int
  rrName :: string
  rrHostPub :: string
  rrSignalURL :: string
  rrTS :: int

text \<open>\<open>HasRootedIdentity\<close> on the root that \<open>Identity.Secret\<close> gives.\<close>

definition HasRootedIdentity :: "bytes \<Rightarrow> bool" where "HasRootedIdentity secret \<longleftrightarrow> length secret = 32"

definition record_of :: "Machine \<Rightarrow> time \<Rightarrow> registryRecord" where
  "record_of m now = \<lparr>rrV = 1, rrName = mName m, rrHostPub = mHostPubHex m, rrSignalURL = mSignalURL m, rrTS = unix now\<rparr>"

definition SealRegistryMachine ::
  "(bytes \<Rightarrow> bytes \<Rightarrow> bytes \<Rightarrow> bytes option) \<Rightarrow> aead \<Rightarrow> (registryRecord \<Rightarrow> bytes) \<Rightarrow> bytes option \<Rightarrow> time \<Rightarrow> bytes \<Rightarrow> Machine \<Rightarrow>
   registry_error + string \<times> int" where
  "SealRegistryMachine hkdf ae marshal rnd now secret m =
     (if \<not> HasRootedIdentity secret then Inl NoRoot
      else case RegistryKey hkdf secret of
             None \<Rightarrow> Inl NoRegistryKey
           | Some key \<Rightarrow>
               (case rnd of
                  None \<Rightarrow> Inl NoNonce
                | Some nonce \<Rightarrow>
                    (case SealRecord ae key nonce (marshal (record_of m now)) (mMachineID m) of
                       Inl e \<Rightarrow> Inl e
                     | Inr blob \<Rightarrow> Inr (b64_EncodeToString blob, unix now))))"

definition decode_entry ::
  "aead \<Rightarrow> (bytes \<Rightarrow> registryRecord option) \<Rightarrow> bytes \<Rightarrow> string \<Rightarrow> registryEntry \<Rightarrow> Machine option" where
  "decode_entry ae unmarshal key signalURL e =
     (case b64_DecodeString (reBlob e) of
        None \<Rightarrow> None
      | Some blob \<Rightarrow>
          (case OpenRecord ae key blob (reMachineID e) of
             Inl err \<Rightarrow> None
           | Inr pt \<Rightarrow>
               (case unmarshal pt of
                  None \<Rightarrow> None
                | Some r \<Rightarrow>
                    Some \<lparr>mName = rrName r, mMachineID = reMachineID e, mHostPubHex = rrHostPub r,
                          mSignalURL = (if rrSignalURL r = [] then signalURL else rrSignalURL r), mNameTS = rrTS r, mOwner = []\<rparr>)))"

definition decodeRegistryEntries ::
  "(bytes \<Rightarrow> bytes \<Rightarrow> bytes \<Rightarrow> bytes option) \<Rightarrow> aead \<Rightarrow> (bytes \<Rightarrow> registryRecord option) \<Rightarrow> registryEntry list \<Rightarrow> bytes \<Rightarrow> string \<Rightarrow>
   registry_error + Machine list" where
  "decodeRegistryEntries hkdf ae unmarshal entries secret signalURL =
     (if \<not> HasRootedIdentity secret then Inr []
      else case RegistryKey hkdf secret of
             None \<Rightarrow> Inl NoRegistryKey
           | Some key \<Rightarrow> Inr (List.map_filter (decode_entry ae unmarshal key signalURL) entries))"

text \<open>\<open>FetchRegistry\<close>: \<open>answer\<close> is what \<open>fetchRegistryEntries\<close> gets from the relay, none when the request fails or is not answered with 200.\<close>

definition FetchRegistry ::
  "(bytes \<Rightarrow> bytes \<Rightarrow> bytes \<Rightarrow> bytes option) \<Rightarrow> aead \<Rightarrow> (bytes \<Rightarrow> registryRecord option) \<Rightarrow> registryEntry list option \<Rightarrow> string \<Rightarrow> bytes \<Rightarrow>
   registry_error + Machine list" where
  "FetchRegistry hkdf ae unmarshal answer signalURL secret =
     (if \<not> HasRootedIdentity secret then Inr []
      else case answer of
             None \<Rightarrow> Inl RelayError
           | Some entries \<Rightarrow> decodeRegistryEntries hkdf ae unmarshal entries secret signalURL)"

section \<open>Sealed records\<close>

text \<open>What the code relies on of the AEAD: it opens what it sealed, and under a key it opens nothing else.\<close>

definition aead_opens :: "aead \<Rightarrow> bool" where
  "aead_opens ae \<longleftrightarrow> (\<forall>key nonce pt ad. length key = 32 \<longrightarrow> length nonce = 12 \<longrightarrow> ae_open ae key nonce (ae_seal ae key nonce pt ad) ad = Some pt)"

lemma OpenRecord_SealRecord:
  "aead_opens ae \<Longrightarrow> SealRecord ae key nonce pt i = Inr blob \<Longrightarrow> OpenRecord ae key blob i = Inr pt"
  by (auto simp: SealRecord_def OpenRecord_def aead_opens_def split: if_splits)

lemma OpenRecord_Inr:
  "OpenRecord ae key blob i = Inr pt \<Longrightarrow> ae_open ae key (take 12 blob) (drop 12 blob) (bytes_of i) = Some pt"
  by (auto simp: OpenRecord_def split: if_splits option.splits)

lemma decode_sealed:
  assumes "aead_opens ae" "unmarshal (marshal (record_of m now)) = Some (record_of m now)"
    and "SealRegistryMachine hkdf ae marshal rnd now secret m = Inr (blob, ts)" "RegistryKey hkdf secret = Some key"
  shows "decode_entry ae unmarshal key signalURL \<lparr>reMachineID = mMachineID m, reBlob = blob\<rparr> =
      Some (m\<lparr>mNameTS := ts, mSignalURL := if mSignalURL m = [] then signalURL else mSignalURL m, mOwner := []\<rparr>) \<and> ts = unix now"
proof -
  obtain nonce b where s: "SealRecord ae key nonce (marshal (record_of m now)) (mMachineID m) = Inr b"
      and b: "blob = b64_EncodeToString b" "ts = unix now"
    using assms(3,4) by (auto simp: SealRegistryMachine_def split: if_splits option.splits sum.splits)
  show ?thesis using OpenRecord_SealRecord [OF assms(1) s] assms(2) b by (simp add: decode_entry_def record_of_def)
qed

text \<open>What an entry decodes to was opened under the owner's key for the entry's machine.\<close>

lemma decode_entry_Some:
  assumes "decode_entry ae unmarshal key signalURL e = Some m"
  obtains nonce ct pt r where "ae_open ae key nonce ct (bytes_of (mMachineID m)) = Some pt" "unmarshal pt = Some r"
    "mHostPubHex m = rrHostPub r" "mName m = rrName r" "mNameTS m = rrTS r" "mSignalURL m \<in> {rrSignalURL r, signalURL}"
  using assms by (auto simp: decode_entry_def split: option.splits sum.splits if_splits dest!: OpenRecord_Inr)

lemma absorb_host: "mHostPubHex (absorb d l) = (if mHostPubHex d \<noteq> [] then mHostPubHex d else mHostPubHex l)"
  by (simp add: absorb_def Let_def)

lemma fold_absorb_host:
  "fold absorb_option ds (Some l) = Some m \<Longrightarrow> mHostPubHex m = mHostPubHex l \<or> (\<exists>d \<in> set ds. mHostPubHex m = mHostPubHex d)"
proof (induction ds arbitrary: l)
  case (Cons d ds)
  then show ?case using Cons.IH [of "absorb d l"] by (auto simp: absorb_option_def absorb_host split: if_splits)
qed simp

lemma fold_last: "fold (\<lambda>m acc. Some m) ms acc = (if ms = [] then acc else Some (last ms))"
  by (induction ms arbitrary: acc) auto

lemma merged_host:
  assumes "m \<in> set (MergeMachines local discovered)"
  shows "\<exists>x \<in> set local \<union> set discovered. mMachineID x = mMachineID m \<and> mHostPubHex x = mHostPubHex m"
proof -
  let ?ls = "filter (\<lambda>x. mMachineID x = mMachineID m) local" and ?ds = "filter (\<lambda>x. mMachineID x = mMachineID m) discovered"
  have one: "fold absorb_option ?ds (if ?ls = [] then None else Some (last ?ls)) = Some m"
    using assms by (simp add: MergeMachines_mem merge_one_def fold_last)
  show ?thesis
  proof (cases "?ls = []")
    case False
    with one have "mHostPubHex m = mHostPubHex (last ?ls) \<or> (\<exists>d \<in> set ?ds. mHostPubHex m = mHostPubHex d)"
      using fold_absorb_host [of ?ds "last ?ls" m] by simp
    moreover have "last ?ls \<in> set ?ls" using False by (rule last_in_set)
    ultimately show ?thesis by fastforce
  next
    case True
    with one obtain d ds where d: "?ds = d # ds" by (cases ?ds) auto
    with one True have "mHostPubHex m = mHostPubHex d \<or> (\<exists>x \<in> set ds. mHostPubHex m = mHostPubHex x)"
      using fold_absorb_host [of ds d m] by (simp add: absorb_option_def)
    moreover have "set (d # ds) = set ?ds" by (simp only: d)
    ultimately show ?thesis by fastforce
  qed
qed

section \<open>Properties\<close>


text \<open>A stand-in for the witness: sealing prefixes the associated data, opening compares it, and the only record there is is \<open>demo_registry_record\<close>.\<close>

definition demo_registry_record :: registryRecord where "demo_registry_record = record_of demo_machine 0"

definition demo_aead :: aead where
  "demo_aead = \<lparr>ae_seal = \<lambda>key nonce pt ad. ad @ pt,
     ae_open = \<lambda>key nonce ct ad. if take (length ad) ct = ad then Some (drop (length ad) ct) else None\<rparr>"


end
