(* ===== verification/Client_Identity.thy ===== *)
theory Client_Identity
  imports Client_Registry
begin

text \<open>
  The owner identity on a client: \<open>Identity\<close> and its storage in \<^verbatim>\<open>owner.json\<close> and the OS keychain, \<^verbatim>\<open>go/internal/client/store.go\<close> and the secret encoding of
  \<^verbatim>\<open>keychain.go\<close>. The root is kept in the keychain under an opaque reference, the file holds public data and the reference.

  The keychain is a map from references to bytes whose operations can fail; HKDF, X25519, Ed25519 and JSON are parameters. Saving goes through the states a
  process that dies would leave behind, and the definition gives all of them.
\<close>

section \<open>The identity\<close>

record crypto =
  cr_hkdf :: "bytes \<Rightarrow> bytes \<Rightarrow> bytes \<Rightarrow> bytes option"
  cr_x25519 :: "bytes \<Rightarrow> bytes option"
  cr_newKey :: "bytes \<Rightarrow> bytes \<times> bytes"
  cr_sign :: "bytes \<Rightarrow> bytes \<Rightarrow> bytes"

text \<open>The last two fields are the unexported ones, which are not stored.\<close>

record Identity =
  idSecretHex :: string
  idSecretRef :: string
  idOwnerPrivHex :: string
  idOwnerPubHex :: string
  idOwnerID :: string
  idDeviceID :: string
  idBindingJSON :: string
  id_secret :: bytes
  id_obsolete :: string

definition no_identity :: Identity where
  "no_identity = \<lparr>idSecretHex = [], idSecretRef = [], idOwnerPrivHex = [], idOwnerPubHex = [], idOwnerID = [], idDeviceID = [], idBindingJSON = [],
     id_secret = [], id_obsolete = []\<rparr>"

text \<open>\<open>hex.DecodeString\<close> with its error ignored gives the bytes before the first bad pair.\<close>

fun hex_prefix :: "string \<Rightarrow> bytes" where
  "hex_prefix (a # b # s) =
     (case (hex_value a, hex_value b) of (Some x, Some y) \<Rightarrow> word_of_nat (x * 16 + y) # hex_prefix s | _ \<Rightarrow> [])"
| "hex_prefix _ = []"

definition id_Secret :: "Identity \<Rightarrow> bytes" where
  "id_Secret i = (if id_secret i \<noteq> [] then id_secret i else hex_prefix (idSecretHex i))"

definition OwnerPriv :: "crypto \<Rightarrow> Identity \<Rightarrow> bytes" where
  "OwnerPriv cr i =
     (case (if length (id_Secret i) = 32 then DeriveOwnerKey (cr_hkdf cr) (cr_x25519 cr) (id_Secret i) else None) of
        Some (priv, pub) \<Rightarrow> priv
      | None \<Rightarrow> hex_prefix (idOwnerPrivHex i))"

definition OwnerPub :: "Identity \<Rightarrow> bytes" where "OwnerPub i = hex_prefix (idOwnerPubHex i)"

datatype identity_error =
    IdNoDir | IdBadFile | IdUnreadable | IdNoStore | IdNoEntry | IdBadSecret | IdDerive | IdNoRandom | IdBinding | IdPutFailed | IdFileFailed
  | IdCleanupFailed | IdMismatch | IdNoMaterial | IdPredates

definition encodeSecretHex :: "bytes \<Rightarrow> bytes" where
  "encodeSecretHex secret = bytes_of (hex_EncodeToString secret)"

definition decodeSecretHex :: "bytes \<Rightarrow> bytes option" where
  "decodeSecretHex encoded =
     (let s = TrimSpace (string_of encoded)
      in if length s \<noteq> 64 then None else hex_DecodeString s)"

definition id_Signer :: "crypto \<Rightarrow> Identity \<Rightarrow> identity_error + Signer" where
  "id_Signer cr i =
     (if \<not> HasRootedIdentity (id_Secret i) then Inl IdPredates
      else case DeriveSigner (cr_hkdf cr) (cr_newKey cr) (id_Secret i) of Ret s \<Rightarrow> Inr s | _ \<Rightarrow> Inl IdDerive)"

text \<open>\<open>setFromSecret\<close>; \<open>rnd\<close> is what \<open>rand.Read\<close> gives for a device id, \<open>now\<close> the time of the binding.\<close>

definition setFromSecret :: "crypto \<Rightarrow> bytes \<Rightarrow> bool \<Rightarrow> bytes option \<Rightarrow> time \<Rightarrow> Identity \<Rightarrow> identity_error + Identity" where
  "setFromSecret cr secret preserveRef rnd now i =
     (if length secret \<noteq> 32 then Inl IdBadSecret
      else
        let i = (if \<not> preserveRef \<and> idSecretRef i \<noteq> [] then i\<lparr>id_obsolete := idSecretRef i, idSecretRef := []\<rparr> else i)
        in case DeriveOwnerKey (cr_hkdf cr) (cr_x25519 cr) secret of
             None \<Rightarrow> Inl IdDerive
           | Some (priv, pub) \<Rightarrow>
               (case DeriveSigner (cr_hkdf cr) (cr_newKey cr) secret of
                  Ret w \<Rightarrow>
                    (case (if idDeviceID i \<noteq> [] then Some (idDeviceID i) else map_option hex_EncodeToString rnd) of
                       None \<Rightarrow> Inl IdNoRandom
                     | Some device \<Rightarrow>
                         (case SignBinding (cr_sign cr) w device (hex_EncodeToString pub) (unix now) of
                            Inl e \<Rightarrow> Inl IdBinding
                          | Inr sb \<Rightarrow>
                              (case JSON_binding sb of
                                 Inl e \<Rightarrow> Inl IdBinding
                               | Inr rec \<Rightarrow>
                                   Inr (i\<lparr>id_secret := secret, idSecretHex := [], idOwnerPrivHex := [], idOwnerPubHex := hex_EncodeToString pub,
                                         idOwnerID := Address w, idDeviceID := device, idBindingJSON := rec\<rparr>))))
                | _ \<Rightarrow> Inl IdDerive))"

section \<open>Storage\<close>

record 'f id_store =
  st_owner :: "'f option"
  st_keys :: "(string, bytes) gomap"

text \<open>Which operations of the environment succeed: the platform's secret store, its puts and deletes, and the file operations.\<close>

record id_io =
  io_store :: bool
  io_put :: bool
  io_delete :: "string \<Rightarrow> bool"
  io_file :: "file_call \<Rightarrow> bool"

definition kc_delete :: "id_io \<Rightarrow> string \<Rightarrow> 'f id_store \<Rightarrow> 'f id_store" where
  "kc_delete io ref st = (if io_delete io ref then st\<lparr>st_keys := mdel (st_keys st) ref\<rparr> else st)"

definition persisted :: "string \<Rightarrow> Identity \<Rightarrow> Identity" where
  "persisted ref i = i\<lparr>idSecretRef := ref, idSecretHex := [], idOwnerPrivHex := [], id_secret := [], id_obsolete := []\<rparr>"

definition save_calls :: "file_call list" where
  "save_calls = [OpMkdir, OpChmodDir, OpCreateTemp, OpWrite, OpChmod, OpSync, OpClose, OpRename]"

text \<open>
  \<open>SaveIdentity\<close>: its error, the identity afterwards, and the states of the storage it goes through, the last one included. \<open>rnd\<close> is what \<open>rand.Read\<close> gives for
  a new reference.
\<close>

definition SaveIdentity ::
  "(Identity \<Rightarrow> 'f) \<Rightarrow> id_io \<Rightarrow> bytes option \<Rightarrow> Identity \<Rightarrow> 'f id_store \<Rightarrow> identity_error option \<times> Identity \<times> 'f id_store list" where
  "SaveIdentity marshal io rnd i st =
     (let secret = id_Secret i; created = (idSecretRef i = [])
      in if length secret \<noteq> 32 then (Some IdBadSecret, i, [st])
         else if \<not> io_store io then (Some IdNoStore, i, [st])
         else case (if created then map_option (\<lambda>b. ''owner-'' @ hex_EncodeToString b) rnd else Some (idSecretRef i)) of
                None \<Rightarrow> (Some IdNoRandom, i, [st])
              | Some ref \<Rightarrow>
                  if \<not> io_put io then (Some IdPutFailed, i, [st])
                  else
                    let st1 = st\<lparr>st_keys := mput (st_keys st) ref (encodeSecretHex secret)\<rparr>;
                        (ok, owner') = run_calls save_calls (io_file io) (marshal (persisted ref i)) (st_owner st1)
                    in if \<not> ok then (Some IdFileFailed, i, [st, st1, if created then kc_delete io ref st1 else st1])
                       else
                         let st2 = st1\<lparr>st_owner := owner'\<rparr>; old = id_obsolete i;
                             i' = i\<lparr>idSecretRef := ref, idSecretHex := [], idOwnerPrivHex := [], id_obsolete := []\<rparr>
                         in if old \<noteq> [] \<and> old \<noteq> ref
                            then (if io_delete io old then None else Some IdCleanupFailed, i', [st, st1, st2, kc_delete io old st2])
                            else (None, i', [st, st1, st2]))"

text \<open>The part of \<open>LoadOrCreateIdentity\<close> that reads the file: an unreadable file counts as none.\<close>

definition loaded_identity :: "('f \<Rightarrow> Identity option) \<Rightarrow> bool \<Rightarrow> 'f id_store \<Rightarrow> identity_error + Identity" where
  "loaded_identity unmarshal readable st =
     (case st_owner st of
        None \<Rightarrow> Inr no_identity
      | Some data \<Rightarrow> if \<not> readable then Inr no_identity else (case unmarshal data of None \<Rightarrow> Inl IdBadFile | Some i \<Rightarrow> Inr i))"

definition fresh_identity ::
  "crypto \<Rightarrow> (Identity \<Rightarrow> 'f) \<Rightarrow> id_io \<Rightarrow> bytes option \<Rightarrow> bytes option \<Rightarrow> bytes option \<Rightarrow> time \<Rightarrow> Identity \<Rightarrow> 'f id_store \<Rightarrow>
   (identity_error + Identity) \<times> 'f id_store list" where
  "fresh_identity cr marshal io root rndD rndR now i st =
     (case root of
        None \<Rightarrow> (Inl IdNoRandom, [st])
      | Some secret \<Rightarrow>
          (case setFromSecret cr secret False rndD now i of
             Inl e \<Rightarrow> (Inl e, [st])
           | Inr i' \<Rightarrow>
               (case SaveIdentity marshal io rndR i' st of
                  (Some e, i'', sts) \<Rightarrow> (Inl e, sts)
                | (None, i'', sts) \<Rightarrow> (Inr i'', sts))))"

definition LoadOrCreateIdentity ::
  "crypto \<Rightarrow> (Identity \<Rightarrow> 'f) \<Rightarrow> ('f \<Rightarrow> Identity option) \<Rightarrow> id_io \<Rightarrow> bool \<Rightarrow> bool \<Rightarrow> bytes option \<Rightarrow> bytes option \<Rightarrow> bytes option \<Rightarrow> time \<Rightarrow>
   'f id_store \<Rightarrow> (identity_error + Identity) \<times> 'f id_store list" where
  "LoadOrCreateIdentity cr marshal unmarshal io mkdir readable root rndD rndR now st =
     (if \<not> mkdir then (Inl IdNoDir, [st])
      else case loaded_identity unmarshal readable st of
             Inl e \<Rightarrow> (Inl e, [st])
           | Inr i \<Rightarrow>
               if idSecretRef i \<noteq> [] then
                 (if \<not> io_store io then (Inl IdNoStore, [st])
                  else case mget (st_keys st) (idSecretRef i) of
                         None \<Rightarrow> (Inl IdNoEntry, [st])
                       | Some encoded \<Rightarrow>
                           (case decodeSecretHex encoded of
                              None \<Rightarrow> (Inl IdBadSecret, [st])
                            | Some secret \<Rightarrow> (setFromSecret cr secret True rndD now i, [st])))
               else if idSecretHex i \<noteq> [] then
                 (case hex_DecodeString (idSecretHex i) of
                    None \<Rightarrow> (Inl IdBadSecret, [st])
                  | Some secret \<Rightarrow> fresh_identity cr marshal io (Some secret) rndD rndR now i st)
               else if idOwnerPrivHex i = [] \<and> id_secret i = [] then fresh_identity cr marshal io root rndD rndR now i st
               else (Inr i, [st]))"

definition Rekey ::
  "crypto \<Rightarrow> (Identity \<Rightarrow> 'f) \<Rightarrow> ('f \<Rightarrow> Identity option) \<Rightarrow> id_io \<Rightarrow> bool \<Rightarrow> bool \<Rightarrow> bytes option \<Rightarrow> bytes option \<Rightarrow> bytes option \<Rightarrow> time \<Rightarrow>
   'f id_store \<Rightarrow> (identity_error + Identity) \<times> 'f id_store list" where
  "Rekey cr marshal unmarshal io mkdir readable root rndD rndR now st =
     (if \<not> mkdir then (Inl IdNoDir, [st])
      else if root = None then (Inl IdNoRandom, [st])
      else case (case st_owner st of
                   None \<Rightarrow> Inr no_identity
                 | Some data \<Rightarrow>
                     if \<not> readable then Inl IdUnreadable
                     else (case unmarshal data of None \<Rightarrow> Inl IdBadFile | Some old \<Rightarrow> Inr (no_identity\<lparr>id_obsolete := idSecretRef old\<rparr>))) of
             Inl e \<Rightarrow> (Inl e, [st])
           | Inr i \<Rightarrow> fresh_identity cr marshal io root rndD rndR now i st)"

text \<open>\<open>InspectIdentityStorage\<close>: whether there is an identity, its id, whether plaintext material is left; and the error reported with it.\<close>

definition InspectIdentityStorage ::
  "crypto \<Rightarrow> ('f \<Rightarrow> Identity option) \<Rightarrow> id_io \<Rightarrow> bool \<Rightarrow> 'f id_store \<Rightarrow> (bool \<times> string \<times> bool) \<times> identity_error option" where
  "InspectIdentityStorage cr unmarshal io readable st =
     (case st_owner st of
        None \<Rightarrow> ((False, [], False), None)
      | Some data \<Rightarrow>
          if \<not> readable then ((False, [], False), Some IdUnreadable)
          else case unmarshal data of
                 None \<Rightarrow> ((False, [], False), Some IdBadFile)
               | Some i \<Rightarrow>
                   let legacy = (idSecretHex i \<noteq> [] \<or> idOwnerPrivHex i \<noteq> []); info = (True, idOwnerID i, legacy)
                   in if idSecretRef i = [] then (info, if legacy then None else Some IdNoMaterial)
                      else if \<not> io_store io then (info, Some IdNoStore)
                      else case mget (st_keys st) (idSecretRef i) of
                             None \<Rightarrow> (info, Some IdNoEntry)
                           | Some encoded \<Rightarrow>
                               (case decodeSecretHex encoded of
                                  None \<Rightarrow> (info, Some IdBadSecret)
                                | Some secret \<Rightarrow>
                                    (case (DeriveOwnerKey (cr_hkdf cr) (cr_x25519 cr) secret, DeriveSigner (cr_hkdf cr) (cr_newKey cr) secret) of
                                       (Some (priv, pub), Ret s) \<Rightarrow>
                                         if idOwnerID i \<noteq> [] \<and> idOwnerID i \<noteq> Address s then (info, Some IdMismatch)
                                         else if idOwnerPubHex i \<noteq> [] \<and> idOwnerPubHex i \<noteq> hex_EncodeToString pub then (info, Some IdMismatch)
                                         else ((True, Address s, legacy), None)
                                     | _ \<Rightarrow> (info, Some IdDerive))))"

definition CheckSecretStorage :: "id_io \<Rightarrow> Identity \<Rightarrow> 'f id_store \<Rightarrow> identity_error option" where
  "CheckSecretStorage io i st =
     (if idSecretRef i = [] \<or> length (id_Secret i) \<noteq> 32 then Some IdNoMaterial
      else if \<not> io_store io then Some IdNoStore
      else case mget (st_keys st) (idSecretRef i) of
             None \<Rightarrow> Some IdNoEntry
           | Some encoded \<Rightarrow>
               (case decodeSecretHex encoded of
                  None \<Rightarrow> Some IdBadSecret
                | Some stored \<Rightarrow> if stored \<noteq> id_Secret i then Some IdMismatch else None))"

section \<open>Lemmas\<close>

lemma TrimSpace_hex: "TrimSpace (hex_EncodeToString b) = hex_EncodeToString b"
proof (rule TrimSpace_plain)
  have "\<forall>c \<in> set hex_chars. of_char c < (128 :: nat) \<and> \<not> IsSpace (of_char c)" by (simp add: hex_chars_def IsSpace_def)
  then show "all_ascii (hex_EncodeToString b)" "list_all (\<lambda>c. \<not> IsSpace (of_char c)) (hex_EncodeToString b)"
    using set_hex_EncodeToString [of b] by (auto simp: all_ascii_def codes_def list_all_iff)
qed

lemma decode_encodeSecretHex [simp]: "length root = 32 \<Longrightarrow> decodeSecretHex (encodeSecretHex root) = Some root"
  by (simp add: decodeSecretHex_def encodeSecretHex_def TrimSpace_hex Let_def)

text \<open>
  What the code relies on of JSON: what was written reads, with the reference as it was (it is text) and with empty fields empty.
\<close>

definition id_json :: "(Identity \<Rightarrow> 'f) \<Rightarrow> ('f \<Rightarrow> Identity option) \<Rightarrow> bool" where
  "id_json marshal unmarshal \<longleftrightarrow> 
     (\<forall>i. ValidString (idSecretRef i) \<longrightarrow>
        (\<exists>j. unmarshal (marshal i) = Some j \<and> idSecretRef j = idSecretRef i \<and> (idSecretHex i = [] \<longrightarrow> idSecretHex j = []) \<and>
           (idOwnerPrivHex i = [] \<longrightarrow> idOwnerPrivHex j = [])))"

text \<open>The storage holds a root: in the keychain, under the reference in the file; or, before the migration, as plaintext in the file.\<close>

definition rooted_in :: "('f \<Rightarrow> Identity option) \<Rightarrow> 'f id_store \<Rightarrow> bytes \<Rightarrow> bool" where
  "rooted_in unmarshal st root \<longleftrightarrow>
     length root = 32 \<and>
     (\<exists>data i. st_owner st = Some data \<and> unmarshal data = Some i \<and> idSecretRef i \<noteq> [] \<and> mget (st_keys st) (idSecretRef i) = Some (encodeSecretHex root))"

definition plaintext_in :: "('f \<Rightarrow> Identity option) \<Rightarrow> 'f id_store \<Rightarrow> bytes \<Rightarrow> bool" where
  "plaintext_in unmarshal st root \<longleftrightarrow>
     length root = 32 \<and>
     (\<exists>data i. st_owner st = Some data \<and> unmarshal data = Some i \<and> idSecretRef i = [] \<and> hex_DecodeString (idSecretHex i) = Some root)"

definition scrubbed :: "('f \<Rightarrow> Identity option) \<Rightarrow> 'f id_store \<Rightarrow> bool" where
  "scrubbed unmarshal st \<longleftrightarrow> (\<forall>data i. st_owner st = Some data \<longrightarrow> unmarshal data = Some i \<longrightarrow> idSecretHex i = [] \<and> idOwnerPrivHex i = [])"

lemma setFromSecret_Inr:
  assumes "setFromSecret cr secret preserve rnd now i = Inr i'"
  shows "id_secret i' = secret \<and> length secret = 32 \<and> idSecretRef i' = (if preserve then idSecretRef i else []) \<and>
    id_obsolete i' = (if \<not> preserve \<and> idSecretRef i \<noteq> [] then idSecretRef i else id_obsolete i)"
  using assms by (auto simp: setFromSecret_def Let_def split: if_splits option.splits prod.splits go_result.splits sum.splits)

text \<open>
  Saving a new root under a new reference. The file keeps its content until the rename, the keychain gains the new entry before it and loses the old one after
  it; so in every state on the way whatever the file refers to is there.
\<close>

lemma SaveIdentity_states:
  assumes json: "id_json marshal unmarshal" and root: "id_secret i = root" "length root = 32" and ref: "idSecretRef i = []"
    and fresh: "\<And>b. rnd = Some b \<Longrightarrow> mget (st_keys st) (''owner-'' @ hex_EncodeToString b) = None"
    and save: "SaveIdentity marshal io rnd i st = (e, i', sts)"
  shows "(\<forall>s \<in> set sts. (st_owner s = st_owner st \<and> (\<forall>k v. mget (st_keys st) k = Some v \<longrightarrow> mget (st_keys s) k = Some v)) \<or>
        (rooted_in unmarshal s root \<and> scrubbed unmarshal s)) \<and>
    (e = None \<or> e = Some IdCleanupFailed \<longrightarrow> rooted_in unmarshal (last sts) root \<and> scrubbed unmarshal (last sts) \<and> id_secret i' = root) \<and>
    (e \<noteq> None \<and> e \<noteq> Some IdCleanupFailed \<longrightarrow>
       st_owner (last sts) = st_owner st \<and> (\<forall>k v. mget (st_keys st) k = Some v \<longrightarrow> mget (st_keys (last sts)) k = Some v)) \<and> sts \<noteq> []"
proof (cases "io_store io \<and> io_put io \<and> rnd \<noteq> None")
  case False
  have "id_Secret i = root" using root by (auto simp: id_Secret_def)
  then have "i' = i \<and> sts = [st] \<and> e \<in> {Some IdNoStore, Some IdNoRandom, Some IdPutFailed}"
    using save root ref False by (cases rnd; cases "io_store io") (auto simp: SaveIdentity_def Let_def)
  then show ?thesis by auto
next
  case True
  then obtain b where b: "rnd = Some b" by auto
  define r where "r = ''owner-'' @ hex_EncodeToString b"
  define st1 where "st1 = st\<lparr>st_keys := mput (st_keys st) r (encodeSecretHex root)\<rparr>"
  have new: "mget (st_keys st) r = None" "r \<noteq> []" using fresh b by (simp_all add: r_def)
  have sec: "id_Secret i = root" "root \<noteq> []" using root by (auto simp: id_Secret_def)
  obtain ok owner' where run: "run_calls save_calls (io_file io) (marshal (persisted r i)) (st_owner st1) = (ok, owner')" by fastforce
  have owner': "owner' = (if ok then Some (marshal (persisted r i)) else st_owner st)"
    using run by (auto simp: save_calls_def st1_def split: if_splits)
  have "ValidString r" unfolding r_def
    using set_hex_EncodeToString [of b] by (intro ValidString_ascii) (auto simp: list_all_iff hex_chars_def)
  then obtain j where un: "unmarshal (marshal (persisted r i)) = Some j" "idSecretRef j = r" "idSecretHex j = []" "idOwnerPrivHex j = []"
    using json [unfolded id_json_def, rule_format, of "persisted r i"] by (auto simp: persisted_def)
  have keep1: "\<forall>k v. mget (st_keys st) k = Some v \<longrightarrow> mget (st_keys st1) k = Some v" using new by (auto simp: st1_def)
  define st2 where "st2 = st1\<lparr>st_owner := owner'\<rparr>"
  have r2: "rooted_in unmarshal s root" "scrubbed unmarshal s" if "ok" "st_owner s = owner'" "mget (st_keys s) r = Some (encodeSecretHex root)" for s
    using that owner' un root new by (auto simp: rooted_in_def scrubbed_def)
  have k2: "mget (st_keys st2) r = Some (encodeSecretHex root)" by (simp add: st2_def st1_def)
  show ?thesis
  proof (cases ok)
    case False
    then have eq: "e = Some IdFileFailed" "i' = i" "sts = [st, st1, kc_delete io r st1]"
      using save True b run sec root ref by (simp_all add: SaveIdentity_def Let_def st1_def r_def split: prod.splits)
    have "\<forall>k v. mget (st_keys st) k = Some v \<longrightarrow> mget (st_keys (kc_delete io r st1)) k = Some v"
      using new by (auto simp: kc_delete_def st1_def)
    then show ?thesis using eq keep1 by (auto simp: kc_delete_def st1_def)
  next
    case True': True
    let ?del = "id_obsolete i \<noteq> [] \<and> id_obsolete i \<noteq> r"
    have eq: "e = (if ?del \<and> \<not> io_delete io (id_obsolete i) then Some IdCleanupFailed else None)" "id_secret i' = root"
        "sts = [st, st1, st2] @ (if ?del then [kc_delete io (id_obsolete i) st2] else [])"
      using save True True' b run sec root ref by (auto simp: SaveIdentity_def Let_def st1_def st2_def r_def split: prod.splits if_splits)
    have o2: "st_owner st2 = owner'" "st_owner (kc_delete io (id_obsolete i) st2) = owner'" by (simp_all add: st2_def kc_delete_def)
    have kd: "?del \<Longrightarrow> mget (st_keys (kc_delete io (id_obsolete i) st2)) r = Some (encodeSecretHex root)" using k2 by (auto simp: kc_delete_def)
    have ok2: "rooted_in unmarshal st2 root \<and> scrubbed unmarshal st2" using r2 [OF True' o2(1) k2] by blast
    have okd: "?del \<Longrightarrow> rooted_in unmarshal (kc_delete io (id_obsolete i) st2) root \<and> scrubbed unmarshal (kc_delete io (id_obsolete i) st2)"
      using r2 [OF True' o2(2) kd] by blast
    have o1: "st_owner st1 = st_owner st" by (simp add: st1_def)
    show ?thesis
    proof (cases ?del)
      case True
      with eq have "sts = [st, st1, st2, kc_delete io (id_obsolete i) st2]" by simp
      with eq o1 keep1 ok2 okd [OF True] show ?thesis by auto
    next
      case False
      with eq have "sts = [st, st1, st2]" "e = None" by auto
      with eq o1 keep1 ok2 show ?thesis by auto
    qed
  qed
qed

lemma rooted_in_keep:
  "rooted_in unmarshal st root \<Longrightarrow> st_owner s = st_owner st \<Longrightarrow> \<forall>k v. mget (st_keys st) k = Some v \<longrightarrow> mget (st_keys s) k = Some v \<Longrightarrow>
     rooted_in unmarshal s root"
  by (auto simp: rooted_in_def)

lemma plaintext_in_keep: "plaintext_in unmarshal st root \<Longrightarrow> st_owner s = st_owner st \<Longrightarrow> plaintext_in unmarshal s root"
  by (auto simp: plaintext_in_def)

text \<open>Loading a storage that holds a root gives that root and changes nothing.\<close>

lemma load_rooted:
  assumes "rooted_in unmarshal st root" "LoadOrCreateIdentity cr marshal unmarshal io mkdir True root' rndD rndR now st = (r, sts)"
  shows "sts = [st] \<and> (\<forall>i. r = Inr i \<longrightarrow> id_secret i = root)"
proof -
  obtain data j where j: "st_owner st = Some data" "unmarshal data = Some j" "idSecretRef j \<noteq> []"
      "mget (st_keys st) (idSecretRef j) = Some (encodeSecretHex root)" "length root = 32"
    using assms(1) by (auto simp: rooted_in_def)
  then show ?thesis using assms(2) setFromSecret_Inr [of cr root True rndD now j]
    by (auto simp: LoadOrCreateIdentity_def loaded_identity_def split: if_splits)
qed

lemma fresh_identity_states:
  assumes "id_json marshal unmarshal" "\<And>b. rndR = Some b \<Longrightarrow> mget (st_keys st) (''owner-'' @ hex_EncodeToString b) = None"
    and "fresh_identity cr marshal io (Some root) rndD rndR now i st = (r, sts)"
  shows "(\<forall>s \<in> set sts. (st_owner s = st_owner st \<and> (\<forall>k v. mget (st_keys st) k = Some v \<longrightarrow> mget (st_keys s) k = Some v)) \<or>
        (rooted_in unmarshal s root \<and> scrubbed unmarshal s)) \<and>
    (\<forall>i'. r = Inr i' \<longrightarrow> rooted_in unmarshal (last sts) root \<and> scrubbed unmarshal (last sts) \<and> id_secret i' = root) \<and>
    (\<forall>e. r = Inl e \<longrightarrow> (if e = IdCleanupFailed then rooted_in unmarshal (last sts) root
       else st_owner (last sts) = st_owner st \<and> (\<forall>k v. mget (st_keys st) k = Some v \<longrightarrow> mget (st_keys (last sts)) k = Some v)))"
proof (cases "setFromSecret cr root False rndD now i")
  case (Inl e)
  then have "e \<noteq> IdCleanupFailed"
    by (auto simp: setFromSecret_def Let_def split: if_splits option.splits prod.splits go_result.splits sum.splits)
  with Inl assms(3) show ?thesis by (auto simp: fresh_identity_def)
next
  case (Inr i1)
  note s = setFromSecret_Inr [OF Inr]
  obtain e i2 sts1 where save: "SaveIdentity marshal io rndR i1 st = (e, i2, sts1)" by (metis prod.exhaust)
  have r: "r = (case e of None \<Rightarrow> Inr i2 | Some x \<Rightarrow> Inl x)" "sts = sts1" using assms(3) Inr save by (auto simp: fresh_identity_def split: option.splits)
  have "id_secret i1 = root" "length root = 32" "idSecretRef i1 = []" using s by simp_all
  note states = SaveIdentity_states [OF assms(1) this assms(2) save]
  show ?thesis using states r by (cases e) auto
qed

text \<open>
  A file that exists but cannot be read is taken for a first start: a new identity replaces the one in the file. \<open>Rekey\<close> refuses in the same situation.
\<close>

lemma unreadable_identity_replaced:
  assumes "id_json marshal unmarshal" "rooted_in unmarshal st root" "mget (st_keys st) (''owner-'' @ hex_EncodeToString b) = None"
    and "LoadOrCreateIdentity cr marshal unmarshal io True False (Some root') rndD (Some b) now st = (Inr i, sts)"
  shows "id_secret i = root' \<and> rooted_in unmarshal (last sts) root'"
    and "fst (Rekey cr marshal unmarshal io True False (Some root') rndD (Some b) now st) = Inl IdUnreadable"
proof -
  obtain data where d: "st_owner st = Some data" using assms(2) by (auto simp: rooted_in_def)
  then have "fresh_identity cr marshal io (Some root') rndD (Some b) now no_identity st = (Inr i, sts)"
    using assms(4) by (simp add: LoadOrCreateIdentity_def loaded_identity_def no_identity_def)
  from fresh_identity_states [OF assms(1) _ this] assms(3) show "id_secret i = root' \<and> rooted_in unmarshal (last sts) root'" by auto
  show "fst (Rekey cr marshal unmarshal io True False (Some root') rndD (Some b) now st) = Inl IdUnreadable" by (simp add: Rekey_def d)
qed

section \<open>Properties\<close>


text \<open>A stand-in for the witness: the seed is the root, the public keys are zero.\<close>

definition demo_crypto :: crypto where
  "demo_crypto = \<lparr>cr_hkdf = \<lambda>r s i. Some r, cr_x25519 = \<lambda>p. Some (replicate 32 0), cr_newKey = \<lambda>seed. (seed, replicate 32 0),
     cr_sign = \<lambda>p m. replicate 64 0\<rparr>"

definition demo_store :: "Identity id_store" where
  "demo_store = \<lparr>st_owner = Some (no_identity\<lparr>idSecretRef := ''r''\<rparr>), st_keys = [(''r'', encodeSecretHex (replicate 32 1))]\<rparr>"

definition demo_io :: id_io where
  "demo_io = \<lparr>io_store = True, io_put = True, io_delete = \<lambda>r. True, io_file = \<lambda>c. True\<rparr>"

lemma demo_setFromSecret:
  "\<exists>i. setFromSecret demo_crypto (replicate 32 7) False (Some (replicate 8 0)) (5 * second) (no_identity\<lparr>id_obsolete := ''r''\<rparr>) = Inr i \<and>
     idSecretRef i = [] \<and> id_obsolete i = ''r'' \<and> id_secret i = replicate 32 7"
proof -
  have "EntropyToMnemonic (replicate 32 7) = Ret (join_space (map (\<lambda>w. wordlist ! word_index (replicate 32 7) w) [0..<3 * 8]))"
    by (rule EntropyToMnemonic_Ret) simp_all
  then obtain m where d: "DeriveSigner (cr_hkdf demo_crypto) (cr_newKey demo_crypto) (replicate 32 7) =
      Ret \<lparr>Mnemonic = m, Priv = replicate 32 7, Pub = replicate 32 0, Address = demo_id\<rparr>"
    by (auto simp: DeriveSigner_def demo_crypto_def demo_id_encode58)
  have o: "DeriveOwnerKey (cr_hkdf demo_crypto) (cr_x25519 demo_crypto) (replicate 32 7) = Some (replicate 32 7, replicate 32 0)"
    by (simp add: DeriveOwnerKey_def demo_crypto_def)
  let ?b = "\<lparr>bV = 1, bWallet = demo_id, bDevice = hex_EncodeToString (replicate 8 0), bX25519 = hex_EncodeToString (replicate 32 0), bTs = 5\<rparr>"
  have hex: "list_all is_lower_hex (hex_EncodeToString b)" for b
  proof -
    have "\<forall>c \<in> set hex_chars. is_lower_hex c" by code_simp
    then show ?thesis using set_hex_EncodeToString [of b] by (auto simp: list_all_iff)
  qed
  have "is_name_char c" if "is_lower_hex c" for c using that by (auto simp: is_lower_hex_def is_name_char_def is_alnum_def Let_def)
  then have "list_all is_name_char (hex_EncodeToString b)" for b using hex [of b] by (auto simp: list_all_iff)
  moreover have "hex_EncodeToString (replicate 8 0) \<noteq> []" using length_hex_EncodeToString [of "replicate 8 0"] by force
  ultimately have v: "validate_binding ?b = None"
    unfolding validate_binding_def deviceRe_def hex64Re_def using hex [of "replicate 32 0"] by (simp add: key_of_demo)
  show ?thesis unfolding setFromSecret_def Let_def
    by (simp add: d o no_identity_def SignBinding_def CanonicalBinding_def JSON_binding_def v unix_def second_def Let_def)
qed


end
