(* ===== verification/Pair_Flow.thy ===== *)
theory Pair_Flow
  imports Pairing Agent_Config Client_Identity
begin

text \<open>
  \<^verbatim>\<open>mir pair\<close>, \<^verbatim>\<open>go/internal/cli/pair.go\<close>: the confirmation of the safety number, pairing to a machine (the initiator), making a machine pairable (the
  responder), and the pairing that \<^verbatim>\<open>mir up\<close> opens on a first run. They compose the handshake of \<open>Pairing\<close> with the agent's configuration and the client's
  machine list. What the environment gives (dialling, messages, randomness, file faults, the answer a human types) is in the records
  \<open>initiator_env\<close> and \<open>responder_env\<close>; the two-minute and five-minute contexts show as messages that do not arrive. What is printed is left out.
\<close>

section \<open>Confirming the safety number\<close>

record sasGate =
  sgConfirmSAS :: string
  sgSkip :: bool
  sgTTY :: bool
  sgAnswer :: string

definition normalizeSAS :: "(nat \<Rightarrow> nat) \<Rightarrow> string \<Rightarrow> string" where
  "normalizeSAS lower s = ToLower lower (TrimSpace s)"

definition confirmMatches :: "(nat \<Rightarrow> nat) \<Rightarrow> string \<Rightarrow> string \<Rightarrow> bool" where
  "confirmMatches lower inp sas \<longleftrightarrow> normalizeSAS lower inp = normalizeSAS lower sas \<and> normalizeSAS lower sas \<noteq> []"

definition isAffirmative :: "(nat \<Rightarrow> nat) \<Rightarrow> string \<Rightarrow> bool" where
  "isAffirmative lower s \<longleftrightarrow> ToLower lower (TrimSpace s) \<in> {''y'', ''yes''}"

datatype refusal = SASMismatch | SASNotConfirmed | SASNonInteractive

text \<open>\<open>sasGate.confirm\<close>: none when trust may be committed. \<open>sgAnswer\<close> is the line that is read when it prompts.\<close>

definition confirm :: "(nat \<Rightarrow> nat) \<Rightarrow> sasGate \<Rightarrow> string \<Rightarrow> refusal option" where
  "confirm lower g sas =
     (if sgConfirmSAS g \<noteq> [] then (if confirmMatches lower (sgConfirmSAS g) sas then None else Some SASMismatch)
      else if sgSkip g then None
      else if sgTTY g then (if isAffirmative lower (sgAnswer g) then None else Some SASNotConfirmed)
      else Some SASNonInteractive)"

datatype pairMode = pairResponder | pairInitiator string

datatype pair_cmd_error =
    PcUsage | PcCode code_error | PcIdentity identity_error | PcLegacy | PcRelay | PcHandshake pair_error | PcCancelled refusal | PcStore store_error
  | PcConfig config_error | PcNoToken | PcNoCommitment | PcNoInteractive | PcStopped | PcOwnerDir

definition classifyPair :: "string list \<Rightarrow> pair_cmd_error + pairMode" where
  "classifyPair positionals =
     (case positionals of [] \<Rightarrow> Inr pairResponder | [code] \<Rightarrow> Inr (pairInitiator code) | _ \<Rightarrow> Inl PcUsage)"

text \<open>\<open>ensureAgentOnlyDir\<close> of \<^verbatim>\<open>shared.go\<close> on whether the directory holds an \<^verbatim>\<open>owner.json\<close>.\<close>

definition ensureAgentOnlyDir :: "bool \<Rightarrow> pair_cmd_error option" where
  "ensureAgentOnlyDir identityExists = (if identityExists then Some PcOwnerDir else None)"

section \<open>The initiator\<close>

record ('h, 'f) initiator_env =
  ie_lower :: "nat \<Rightarrow> nat"
  ie_parse :: "string \<Rightarrow> (string \<times> string) option"
  ie_uncode :: "bytes \<Rightarrow> codePayload option"
  ie_identity :: "identity_error + Identity"
  ie_crypto :: crypto
  ie_dial :: "string \<Rightarrow> bool"
  ie_noise :: "'h noise_nn"
  ie_json :: pair_json
  ie_rnd :: bytes
  ie_net :: "bytes \<Rightarrow> net_reply"
  ie_sent :: "bytes \<Rightarrow> bool"
  ie_aead :: aead
  ie_marshalR :: "registryRecord \<Rightarrow> bytes"
  ie_nonce :: "bytes option"
  ie_now :: time
  ie_marshalM :: "Machine list \<Rightarrow> 'f"
  ie_unmarshalM :: "'f \<Rightarrow> Machine list option"
  ie_mkdir :: bool
  ie_readable :: bool
  ie_io :: "file_call \<Rightarrow> bool"

definition machine_of_info :: "AgentInfo \<Rightarrow> string \<Rightarrow> Machine" where
  "machine_of_info info signalURL =
     \<lparr>mName = aiName info, mMachineID = aiMachineID info, mHostPubHex = aiHostPubHex info, mSignalURL = signalURL, mNameTS = 0, mOwner = []\<rparr>"

text \<open>The provisioner \<open>pairInitiate\<close> hands to \<open>Finish\<close>: the sealed registry record.\<close>

definition initiator_provision :: "('h, 'f) initiator_env \<Rightarrow> Identity \<Rightarrow> string \<Rightarrow> AgentInfo \<Rightarrow> string option" where
  "initiator_provision env idn signalURL info =
     (case SealRegistryMachine (cr_hkdf (ie_crypto env)) (ie_aead env) (ie_marshalR env) (ie_nonce env) (ie_now env) (id_Secret idn)
             (machine_of_info info signalURL) of
        Inl e \<Rightarrow> None
      | Inr (blob, ts) \<Rightarrow> Some blob)"

text \<open>\<open>pairInitiate\<close>: its error, the third message if it goes out, and the machine list afterwards.\<close>

definition initiator_commit ::
  "('h, 'f) initiator_env \<Rightarrow> sasGate \<Rightarrow> Identity \<Rightarrow> string \<Rightarrow> StartedInitiator \<Rightarrow> 'f option \<Rightarrow> pair_cmd_error option \<times> bytes option \<times> 'f option" where
  "initiator_commit env gate idn signalURL started f =
     (case confirm (ie_lower env) gate (FromBinding (siBinding started)) of
        Some reason \<Rightarrow> (Some (PcCancelled reason), None, f)
      | None \<Rightarrow>
          (case Initiator_Finish (cr_sign (ie_crypto env)) (ie_json env) (Some (initiator_provision env idn signalURL)) started of
             Inl e \<Rightarrow> (Some (PcHandshake e), None, f)
           | Inr msg3 \<Rightarrow>
               if \<not> ie_sent env msg3 then (Some (PcHandshake SendFailed), None, f)
               else (case AddMachine (ie_marshalM env) (ie_unmarshalM env) (ie_mkdir env) (ie_readable env) (ie_io env)
                            (machine_of_info (siInfo started) signalURL) f of
                       (Some e, f') \<Rightarrow> (Some (PcStore e), Some msg3, f')
                     | (None, f') \<Rightarrow> (None, Some msg3, f'))))"

definition pairInitiate ::
  "('h, 'f) initiator_env \<Rightarrow> string \<Rightarrow> sasGate \<Rightarrow> 'f option \<Rightarrow> pair_cmd_error option \<times> bytes option \<times> 'f option" where
  "pairInitiate env codeStr gate f =
     (case DecodeCode (ie_parse env) (ie_uncode env) codeStr of
        Inl e \<Rightarrow> (Some (PcCode e), None, f)
      | Inr (signalURL, token) \<Rightarrow>
          (case ie_identity env of
             Inl e \<Rightarrow> (Some (PcIdentity e), None, f)
           | Inr idn \<Rightarrow>
               if \<not> HasRootedIdentity (id_Secret idn) then (Some PcLegacy, None, f)
               else (case id_Signer (ie_crypto env) idn of
                       Inl e \<Rightarrow> (Some (PcIdentity e), None, f)
                     | Inr w \<Rightarrow>
                         if \<not> ie_dial env (DialPair_url signalURL (RoomID token)) then (Some PcRelay, None, f)
                         else (case StartInitiator (ie_noise env) (ie_json env) (ie_rnd env) (ie_net env) token w of
                                 Inl e \<Rightarrow> (Some (PcHandshake e), None, f)
                               | Inr started \<Rightarrow> initiator_commit env gate idn signalURL started f))))"

section \<open>The responder\<close>

record ('h, 'f) responder_env =
  re_lower :: "nat \<Rightarrow> nat"
  re_marshal :: "Config \<Rightarrow> 'f"
  re_unmarshal :: "'f \<Rightarrow> Config option"
  re_mkdir :: bool
  re_readable :: bool
  re_entropy :: entropy
  re_fault :: save_fault
  re_token :: "bytes option"
  re_dial :: "string \<Rightarrow> bool"
  re_noise :: "'h noise_nn"
  re_json :: pair_json
  re_rnd :: bytes
  re_msg1 :: "bytes option"
  re_net :: "bytes \<Rightarrow> net_reply"
  re_verify :: "bytes \<Rightarrow> bytes \<Rightarrow> bytes \<Rightarrow> bool"
  re_readable2 :: bool
  re_fault2 :: save_fault

definition agent_info :: "Config \<Rightarrow> string \<Rightarrow> AgentInfo" where
  "agent_info cfg commitment =
     \<lparr>aiHostPubHex = cHostPubHex cfg, aiMachineID = cMachineID cfg, aiName = cMachineName cfg, aiRegistrationCommitment = commitment\<rparr>"

text \<open>The third message, the confirmation and the pin.\<close>

definition responder_commit ::
  "('h, 'f) responder_env \<Rightarrow> sasGate \<Rightarrow> bytes option \<Rightarrow> StartedResponder \<Rightarrow> 'f agent_dir \<Rightarrow> pair_cmd_error option \<times> 'f agent_dir" where
  "responder_commit env gate msg3 started d =
     (case Responder_Finish (re_verify env) (re_json env) msg3 started of
        Inl e \<Rightarrow> (Some (PcHandshake e), d)
      | Inr (ownerID, pv) \<Rightarrow>
          (case confirm (re_lower env) gate (FromBinding (srBinding started)) of
             Some reason \<Rightarrow> (Some (PcCancelled reason), d)
           | None \<Rightarrow>
               (case ProvisionOwner (re_marshal env) (re_unmarshal env) (re_readable2 env) (re_fault2 env) ownerID
                       (pvRegistry pv) (pvRegistrationAuth pv) d of
                  (Some e, d') \<Rightarrow> (Some (PcConfig e), d')
                | (None, d') \<Rightarrow> (None, d'))))"

definition responder_handshake ::
  "('h, 'f) responder_env \<Rightarrow> string \<Rightarrow> Config \<Rightarrow> pair_cmd_error + bytes \<times> StartedResponder" where
  "responder_handshake env signalURL cfg =
     (case re_token env of
        None \<Rightarrow> Inl PcNoToken
      | Some token \<Rightarrow>
          if \<not> re_dial env (DialPair_url signalURL (RoomID token)) then Inl PcRelay
          else (case RegistrationCommitment cfg of
                  None \<Rightarrow> Inl PcNoCommitment
                | Some commitment \<Rightarrow>
                    (case StartResponder (re_noise env) (re_json env) (re_rnd env) (re_msg1 env) (\<lambda>m2. re_net env m2 \<noteq> NotSent) token
                            (agent_info cfg commitment) of
                       Inl e \<Rightarrow> Inl (PcHandshake e)
                     | Inr r \<Rightarrow> Inr r)))"

definition received :: "net_reply \<Rightarrow> bytes option" where
  "received r = (case r of Reply m \<Rightarrow> Some m | _ \<Rightarrow> None)"

definition pairRespond ::
  "('h, 'f) responder_env \<Rightarrow> string \<Rightarrow> string \<Rightarrow> sasGate \<Rightarrow> 'f agent_dir \<Rightarrow> pair_cmd_error option \<times> 'f agent_dir" where
  "pairRespond env name signalURL gate d =
     (case LoadOrInit (re_marshal env) (re_unmarshal env) (re_mkdir env) (re_readable env) (re_entropy env) (re_fault env) name signalURL d of
        (Inl e, d1) \<Rightarrow> (Some (PcConfig e), d1)
      | (Inr cfg, d1) \<Rightarrow>
          (case responder_handshake env signalURL cfg of
             Inl e \<Rightarrow> (Some e, d1)
           | Inr (m2, started) \<Rightarrow> responder_commit env gate (received (re_net env m2)) started d1))"

section \<open>The first run\<close>

text \<open>
  \<open>pairOnFirstRun\<close>: every attempt has its own environment, whether the context is done when the attempt has failed, and whether it ends during the sleep.
  The result is the list of the sleeps it started, and none as long as the loop goes on.
\<close>

record ('h, 'f) pair_attempt =
  at_env :: "('h, 'f) responder_env"
  at_done :: bool
  at_stopped :: bool

fun first_run ::
  "string \<Rightarrow> string \<Rightarrow> sasGate \<Rightarrow> duration \<Rightarrow> ('h, 'f) pair_attempt list \<Rightarrow> 'f agent_dir \<Rightarrow> duration list \<times> pair_cmd_error option option \<times> 'f agent_dir" where
  "first_run name url gate delay [] d = ([], None, d)"
| "first_run name url gate delay (a # as) d =
     (case pairRespond (at_env a) name url gate d of
        (None, d') \<Rightarrow> ([], Some None, d')
      | (Some (PcCancelled r), d') \<Rightarrow> ([], Some (Some (PcCancelled r)), d')
      | (Some e, d') \<Rightarrow>
          if at_done a then ([], Some (Some e), d')
          else if at_stopped a then ([delay], Some (Some PcStopped), d')
          else let (sleeps, r) = first_run name url gate (if delay < 30 * second then delay * 2 else delay) as d' in (delay # sleeps, r))"

definition pairOnFirstRun ::
  "string \<Rightarrow> string \<Rightarrow> sasGate \<Rightarrow> ('h, 'f) pair_attempt list \<Rightarrow> 'f agent_dir \<Rightarrow> duration list \<times> pair_cmd_error option option \<times> 'f agent_dir" where
  "pairOnFirstRun name url gate as d =
     (if \<not> sgTTY gate \<and> sgConfirmSAS gate = [] \<and> \<not> sgSkip gate then ([], Some (Some PcNoInteractive), d)
      else first_run name url gate (2 * second) as d)"

section \<open>The safety number is compared exactly\<close>

text \<open>What is used of the Unicode case table: above ASCII nothing lowers to a character of a safety number or of an answer.\<close>

definition lower_plain :: "(nat \<Rightarrow> nat) \<Rightarrow> bool" where
  "lower_plain lower \<longleftrightarrow> (\<forall>r \<ge> 128. lower r \<ge> 128 \<or> lower r \<in> {105, 107})"

definition sas_char :: "char \<Rightarrow> bool" where
  "sas_char c \<longleftrightarrow> c \<in> set hex_chars \<or> c = CHR ''-''"

lemma sas_char_code:
  assumes "sas_char c"
  shows "of_char c < (128 :: nat)" "\<not> IsSpace (of_char c)" "lower_ascii (of_char c) = of_char c" "of_char c \<noteq> (105 :: nat)" "of_char c \<noteq> (107 :: nat)"
  using assms by (auto simp: sas_char_def hex_chars_def IsSpace_def lower_ascii_def)

lemma FromBinding_chars: "list_all sas_char (FromBinding b)" "FromBinding b \<noteq> []"
proof -
  have "list_all sas_char (sas_group h i)" for h i
    using set_hex_EncodeToString [of "[h ! (2 * i), h ! (2 * i + 1)]"] by (auto simp: sas_group_def sas_char_def list_all_iff)
  then show "list_all sas_char (FromBinding b)" by (simp add: FromBinding_def Let_def sas_char_def)
  show "FromBinding b \<noteq> []" by (simp add: FromBinding_def Let_def)
qed

lemma normalizeSAS_number:
  assumes "list_all sas_char sas"
  shows "normalizeSAS lower sas = sas"
proof -
  have "all_ascii sas" using assms sas_char_code(1) by (auto simp: all_ascii_def codes_def list_all_iff)
  moreover have "TrimSpace sas = sas" using assms sas_char_code(2) calculation by (intro TrimSpace_plain) (auto simp: list_all_iff)
  ultimately show ?thesis using assms sas_char_code(3) by (simp add: normalizeSAS_def ToLower_def list_all_iff map_idI)
qed

lemma decode_rune_small: "fst (decode_rune (a # s)) < 128 \<Longrightarrow> a < 128 \<and> snd (decode_rune (a # s)) = 1"
  by (auto simp: decode_rune.simps rune_error_def cont_def split: list.splits if_splits)

lemma small_runes_ascii: "\<forall>(r, w) \<in> set (rune_list s). r < 128 \<Longrightarrow> list_all (\<lambda>c. c < 128) s"
proof (induction s rule: rune_list.induct)
  case (1 s)
  show ?case
  proof (cases s)
    case (Cons a t)
    have "rune_list s = decode_rune s # rune_list (drop (snd (decode_rune s)) s)" using Cons by (subst rune_list.simps) simp
    with 1 Cons have "fst (decode_rune (a # t)) < 128" "\<forall>(r, w) \<in> set (rune_list (drop (snd (decode_rune s)) s)). r < 128" by auto
    with 1 Cons show ?thesis using decode_rune_small [of a t] by auto
  qed simp
qed

lemma encode_rune_big: "128 \<le> r \<Longrightarrow> \<exists>c \<in> set (encode_rune r). 128 \<le> c \<and> c < 256"
proof -
  assume "128 \<le> r"
  then have "last (encode_rune r) \<in> set (encode_rune r)" "128 \<le> last (encode_rune r)" "last (encode_rune r) < 256"
    by (auto simp: encode_rune_def)
  then show ?thesis by blast
qed

lemma ToLower_foreign:
  assumes "lower_plain lower" "\<not> all_ascii s"
  shows "\<exists>c \<in> set (ToLower lower s). 128 \<le> (of_char c :: nat) \<or> of_char c \<in> {105, 107 :: nat}"
proof -
  obtain r where r: "r \<in> set (runes s)" "128 \<le> r"
    using assms(2) small_runes_ascii [of "codes s"] by (fastforce simp: all_ascii_def runes_def not_less)
  let ?enc = "\<lambda>r. encode_rune (if r < 128 then lower_ascii r else lower r)"
  have eq: "ToLower lower s = map char_of (concat (map ?enc (runes s)))" using assms(2) by (simp add: ToLower_def)
  have "\<exists>c \<in> set (encode_rune (lower r)). (128 \<le> c \<or> c \<in> {105, 107}) \<and> c < 256"
    using assms(1) r(2) encode_rune_big [of "lower r"] by (fastforce simp: lower_plain_def encode_rune_def)
  then obtain c where c: "c \<in> set (encode_rune (lower r))" "128 \<le> c \<or> c \<in> {105, 107}" "c < 256" by blast
  have "c \<in> set (?enc r)" using r(2) c(1) by simp
  then have "c \<in> set (concat (map ?enc (runes s)))" unfolding set_concat set_map by (rule UN_I [OF imageI [OF r(1)]])
  then have "char_of c \<in> set (ToLower lower s)" unfolding eq by simp
  moreover have "of_char (char_of c :: char) = c" using c(3) by simp
  ultimately show ?thesis using c(2) by (intro bexI [of _ "char_of c"]) auto
qed

definition lower_string :: "string \<Rightarrow> string" where "lower_string s = map (\<lambda>c. char_of (lower_ascii (of_char c))) s"

lemma confirmMatches_exact:
  assumes "lower_plain lower" "list_all sas_char sas" "sas \<noteq> []"
  shows "confirmMatches lower inp sas \<longleftrightarrow> all_ascii (TrimSpace inp) \<and> lower_string (TrimSpace inp) = sas"
proof (cases "all_ascii (TrimSpace inp)")
  case True
  then have "normalizeSAS lower inp = lower_string (TrimSpace inp)" by (simp add: normalizeSAS_def ToLower_def lower_string_def)
  then show ?thesis using assms(3) True by (simp add: confirmMatches_def normalizeSAS_number [OF assms(2)])
next
  case False
  then obtain c where "c \<in> set (normalizeSAS lower inp)" "128 \<le> (of_char c :: nat) \<or> of_char c \<in> {105, 107 :: nat}"
    using ToLower_foreign [OF assms(1)] by (auto simp: normalizeSAS_def)
  then have "normalizeSAS lower inp \<noteq> sas" using assms(2) sas_char_code(1,4,5) [of c] by (auto simp: list_all_iff)
  then show ?thesis using False by (simp add: confirmMatches_def normalizeSAS_number [OF assms(2)])
qed

text \<open>When trust may be committed: the number given equals the one computed, or without one the operator vouches for the channel or answers yes.\<close>

definition may_trust :: "sasGate \<Rightarrow> string \<Rightarrow> bool" where
  "may_trust g sas \<longleftrightarrow>
     (if sgConfirmSAS g \<noteq> [] then lower_string (TrimSpace (sgConfirmSAS g)) = sas
      else sgSkip g \<or> sgTTY g \<and> lower_string (TrimSpace (sgAnswer g)) \<in> {''y'', ''yes''})"

lemma lower_string_code: "c \<in> set s \<Longrightarrow> 128 \<le> (of_char c :: nat) \<Longrightarrow> c \<in> set (lower_string s)"
proof -
  assume "c \<in> set s" "128 \<le> (of_char c :: nat)"
  then have "char_of (lower_ascii (of_char c)) = c" by (simp add: lower_ascii_def)
  then show ?thesis using \<open>c \<in> set s\<close> by (force simp: lower_string_def)
qed

lemma lower_string_ascii: "all_ascii (lower_string s) \<Longrightarrow> all_ascii s"
  using lower_string_code by (fastforce simp: all_ascii_def codes_def list_all_iff not_less)

lemma isAffirmative_exact:
  assumes "lower_plain lower"
  shows "isAffirmative lower s \<longleftrightarrow> lower_string (TrimSpace s) \<in> {''y'', ''yes''}"
proof (cases "all_ascii (TrimSpace s)")
  case False
  then have "lower_string (TrimSpace s) \<notin> {''y'', ''yes''}" using lower_string_ascii [of "TrimSpace s"] by (auto simp: all_ascii_def codes_def)
  moreover have "ToLower lower (TrimSpace s) \<notin> {''y'', ''yes''}" using ToLower_foreign [OF assms False] by auto
  ultimately show ?thesis by (simp add: isAffirmative_def)
qed (simp add: isAffirmative_def ToLower_def lower_string_def)

lemma confirm_exact: "lower_plain lower \<Longrightarrow> confirm lower g (FromBinding b) = None \<longleftrightarrow> may_trust g (FromBinding b)"
proof -
  assume l: "lower_plain lower"
  have "all_ascii (FromBinding b)" using FromBinding_chars(1) [of b] sas_char_code(1) by (auto simp: all_ascii_def codes_def list_all_iff)
  then have "all_ascii s" if "lower_string s = FromBinding b" for s using that lower_string_ascii [of s] by simp
  then show ?thesis
    using confirmMatches_exact [OF l FromBinding_chars] isAffirmative_exact [OF l] by (auto simp: confirm_def may_trust_def)
qed

section \<open>Nothing is committed before the number is confirmed\<close>

lemma responder_handshake_Inr:
  assumes "responder_handshake env url cfg = Inr (m2, st)"
  obtains token commitment where "re_token env = Some token" "RegistrationCommitment cfg = Some commitment" "srInfo st = agent_info cfg commitment"
    "commitment \<noteq> []" "\<exists>pub. key_of (srClaim st) = Some pub"
proof -
  obtain token commitment where h: "re_token env = Some token" "RegistrationCommitment cfg = Some commitment"
      "StartResponder (re_noise env) (re_json env) (re_rnd env) (re_msg1 env) (\<lambda>m2. re_net env m2 \<noteq> NotSent) token (agent_info cfg commitment) = Inr (m2, st)"
    using assms by (auto simp: responder_handshake_def split: option.splits if_splits sum.splits)
  moreover have "commitment \<noteq> []"
  proof -
    obtain sec where "commitment = hex_EncodeToString (sha256 sec)" using h(2) by (auto simp: RegistrationCommitment_def split: option.splits if_splits)
    then have "length commitment = 64" by simp
    then show ?thesis by auto
  qed
  ultimately show ?thesis using that StartResponder_Inr [OF h(3)] by blast
qed

lemma responder_commit_cases:
  assumes "responder_commit env gate msg3 st d = (e, d')"
  shows "(case e of
      Some _ \<Rightarrow> ad_config d' = ad_config d
    | None \<Rightarrow> \<exists>owner pv. Responder_Finish (re_verify env) (re_json env) msg3 st = Inr (owner, pv) \<and>
        confirm (re_lower env) gate (FromBinding (srBinding st)) = None \<and>
        ProvisionOwner (re_marshal env) (re_unmarshal env) (re_readable2 env) (re_fault2 env) owner (pvRegistry pv) (pvRegistrationAuth pv) d = (None, d'))"
proof -
  have keep: "ad_config x = ad_config d" if "ProvisionOwner m u r f ow b a d = (Some er, x)" for m u r f ow b a er x
    using that by (auto simp: ProvisionOwner_def update_config_def split: option.splits prod.splits if_splits dest: save_result)
  then show ?thesis using assms
    by (auto simp: responder_commit_def split: option.splits sum.splits prod.splits)
qed

section \<open>An honest run completes\<close>

lemma StartResponder_sent:
  "StartResponder nz js rnd msg1 (\<lambda>m. True) token info = Inr (m2, st) \<Longrightarrow> sent m2 \<Longrightarrow> StartResponder nz js rnd msg1 sent token info = Inr (m2, st)"
  by (auto simp: StartResponder_def split: option.splits prod.splits if_splits)

lemma StartInitiator_net:
  "StartInitiator_msg1 nz js rnd token w = Inr (msg1, h) \<Longrightarrow> StartInitiator nz js rnd (\<lambda>m. Reply m2) token w = Inr si \<Longrightarrow> net msg1 = Reply m2 \<Longrightarrow>
     StartInitiator nz js rnd net token w = Inr si"
  by (simp add: StartInitiator_def)

lemma LoadOrInit_saved:
  "LoadOrInit marshal unmarshal mkdir readable en fault name url d = (Inr cfg, d1) \<Longrightarrow> ad_config d1 = Some (marshal cfg)"
  by (auto simp: LoadOrInit_def Let_def split: if_splits sum.splits prod.splits dest: save_result)

lemma LoadOrInit_url: "LoadOrInit marshal unmarshal mkdir readable en fault name url d = (Inr cfg, d1) \<Longrightarrow> cSignalURL cfg = url"
  by (auto simp: LoadOrInit_def Let_def split: if_splits sum.splits prod.splits)

lemma ProvisionOwner_ok:
  assumes "json_faithful marshal unmarshal" "config_text cfg" "ad_config d1 = Some (marshal cfg)"
    and "ValidString owner" "ValidString blob" "ValidString auth"
  shows "\<exists>d2. ProvisionOwner marshal unmarshal True NoFault owner blob auth d1 = (None, d2) \<and> holds unmarshal d2 (provision owner blob auth cfg)"
proof -
  have u: "unmarshal (marshal cfg) = Some cfg" "unmarshal (marshal (provision owner blob auth cfg)) = Some (provision owner blob auth cfg)"
    using assms provision_text by (auto simp: json_faithful_def)
  obtain ok d2 where sv: "save marshal NoFault (provision owner blob auth cfg) d1 = (ok, d2)" by fastforce
  from save_result [OF sv] sv u assms(3) show ?thesis
    by (simp add: ProvisionOwner_def update_config_def read_config_def holds_def)
qed

text \<open>
  Both sides with a relay that delivers their messages to each other: there are three messages and one transcript binding such that, if both gates accept the number of
  that binding, both commands succeed, the client stores the machine with the host key of the agent's configuration, and the agent's file
  pins the owner with the sealed record and the authorization.
\<close>

definition wired_initiator :: "bytes \<Rightarrow> bytes \<Rightarrow> ('h, 'f) initiator_env \<Rightarrow> ('h, 'f) initiator_env" where
  "wired_initiator msg1 msg2 ie = ie\<lparr>ie_net := (\<lambda>m. if m = msg1 then Reply msg2 else NotSent), ie_sent := (\<lambda>m. True)\<rparr>"

definition wired_responder :: "bytes \<Rightarrow> bytes \<Rightarrow> bytes \<Rightarrow> ('h, 'g) responder_env \<Rightarrow> ('h, 'g) responder_env" where
  "wired_responder msg1 msg2 msg3 re = re\<lparr>re_msg1 := Some msg1, re_net := (\<lambda>m. if m = msg2 then Reply msg3 else NotSent)\<rparr>"

lemma pairing_completes:
  fixes ie :: "('h, 'f) initiator_env" and re :: "('h, 'g) responder_env"
  assumes same: "ie_noise ie = re_noise re" "ie_json ie = re_json re" and nz: "noise_agrees (re_noise re)" and js: "pair_json_faithful (re_json re)"
    and idn: "ie_identity ie = Inr idn" "HasRootedIdentity (id_Secret idn)" "id_Signer (ie_crypto ie) idn = Inr w"
    and sg: "signs_for (cr_sign (ie_crypto ie)) (re_verify re) w"
    and code: "DecodeCode (ie_parse ie) (ie_uncode ie) code = Inr (url, token)" "re_token re = Some token"
    and dial: "ie_dial ie (DialPair_url url (RoomID token))" "re_dial re (DialPair_url url (RoomID token))"
    and load: "LoadOrInit (re_marshal re) (re_unmarshal re) (re_mkdir re) (re_readable re) (re_entropy re) (re_fault re) name url d = (Inr cfg, d1)"
    and com: "RegistrationCommitment cfg = Some commitment"
    and texts: "config_text cfg" "ValidString commitment" "json_faithful (re_marshal re) (re_unmarshal re)"
    and prov: "initiator_provision ie idn url (agent_info cfg commitment) = Some registry" "ValidString registry"
    and room: "length (pj_claim (re_json re) (Address w)) \<le> noise_room" "length (pj_info (re_json re) (agent_info cfg commitment)) \<le> noise_room"
    and io: "ie_mkdir ie" "\<And>c. ie_io ie c" "ListMachines (ie_unmarshalM ie) (ie_readable ie) f = Inr machines" "re_readable2 re" "re_fault2 re = NoFault"
    and m: "m = machine_of_info (agent_info cfg commitment) url"
  shows "\<exists>msg1 msg2 msg3 si s d2.
    StartInitiator (re_noise re) (re_json re) (ie_rnd ie) (\<lambda>m. if m = msg1 then Reply msg2 else NotSent) token w = Inr si \<and>
    responder_handshake (wired_responder msg1 msg2 msg3 re) url cfg = Inr (msg2, s) \<and> siBinding si = srBinding s \<and>
    (confirm (ie_lower ie) gi (FromBinding (siBinding si)) = None \<longrightarrow> confirm (re_lower re) gr (FromBinding (srBinding s)) = None \<longrightarrow>
    pairInitiate (wired_initiator msg1 msg2 ie) code gi f =
      (None, Some msg3, Some (ie_marshalM ie (upsert (\<lambda>x. mName x = mName m) (\<lambda>x. m) m machines))) \<and>
    pairRespond (wired_responder msg1 msg2 msg3 re) name url gr d = (None, d2) \<and>
    holds (re_unmarshal re) d2 (provision (Address w) registry (registration_auth (cr_sign (ie_crypto ie)) w (agent_info cfg commitment)) cfg))"
proof -
  let ?info = "agent_info cfg commitment" and ?auth = "registration_auth (cr_sign (ie_crypto ie)) w (agent_info cfg commitment)"
  have info: "info_text ?info" using texts by (simp add: info_text_def agent_info_def config_text_def)
  obtain msg1 hi msg2 s si msg3 where h:
    "StartInitiator_msg1 (re_noise re) (re_json re) (ie_rnd ie) token w = Inr (msg1, hi)"
    "StartResponder (re_noise re) (re_json re) (re_rnd re) (Some msg1) (\<lambda>m. True) token ?info = Inr (msg2, s)"
    "StartInitiator (re_noise re) (re_json re) (ie_rnd ie) (\<lambda>m. Reply msg2) token w = Inr si" "siInfo si = ?info" "siBinding si = srBinding s"
    "Initiator_Finish (cr_sign (ie_crypto ie)) (re_json re) (Some (initiator_provision ie idn url)) si = Inr msg3"
    "Responder_Finish (re_verify re) (re_json re) (Some msg3) s = Inr (Address w, \<lparr>pvRegistry = registry, pvRegistrationAuth = ?auth\<rparr>)"
    using pairing_agrees [where provision = "initiator_provision ie idn url", OF nz js sg info prov room] by blast
  define ie' where "ie' = wired_initiator msg1 msg2 ie"
  define re' where "re' = wired_responder msg1 msg2 msg3 re"
  have ie': "initiator_provision ie' = initiator_provision ie" by (simp add: fun_eq_iff initiator_provision_def ie'_def wired_initiator_def)
  have sel: "ie_json ie' = re_json re" "ie_crypto ie' = ie_crypto ie" "ie_lower ie' = ie_lower ie" "ie_sent ie' = (\<lambda>m. True)" "ie_marshalM ie' = ie_marshalM ie"
      "ie_unmarshalM ie' = ie_unmarshalM ie" "ie_mkdir ie' = ie_mkdir ie" "ie_readable ie' = ie_readable ie" "ie_io ie' = ie_io ie"
    by (simp_all add: ie'_def wired_initiator_def same)
  have si: "StartInitiator (ie_noise ie') (ie_json ie') (ie_rnd ie') (ie_net ie') token w = Inr si"
    using StartInitiator_net [OF h(1,3), of "ie_net ie'"] same by (simp add: ie'_def wired_initiator_def)
  have sr: "StartResponder (re_noise re') (re_json re') (re_rnd re') (re_msg1 re') (\<lambda>m2. re_net re' m2 \<noteq> NotSent) token ?info = Inr (msg2, s)"
    using StartResponder_sent [OF h(2), of "\<lambda>m2. re_net re' m2 \<noteq> NotSent"] by (simp add: re'_def wired_responder_def)
  have add: "AddMachine (ie_marshalM ie) (ie_unmarshalM ie) (ie_mkdir ie) (ie_readable ie) (ie_io ie) m f =
      (None, Some (ie_marshalM ie (upsert (\<lambda>x. mName x = mName m) (\<lambda>x. m) m machines)))"
    using io by (simp add: AddMachine_def with_machines_def writeMachines_def write_temp_rename_def)
  have vs: "ValidString (Address w)" "ValidString ?auth"
    using ValidString_key [OF signs_for_key [OF sg]] by (simp_all add: registration_auth_def ValidString_b64)
  obtain d2 where d2: "ProvisionOwner (re_marshal re) (re_unmarshal re) True NoFault (Address w) registry ?auth d1 = (None, d2)"
      "holds (re_unmarshal re) d2 (provision (Address w) registry ?auth cfg)"
    using ProvisionOwner_ok [OF texts(3,1) LoadOrInit_saved [OF load] vs(1) prov(2) vs(2)] by blast
  have i: "pairInitiate ie' code gi f = (None, Some msg3, Some (ie_marshalM ie (upsert (\<lambda>x. mName x = mName m) (\<lambda>x. m) m machines)))"
    if "confirm (ie_lower ie) gi (FromBinding (srBinding s)) = None"
  proof -
    have "initiator_commit ie' gi idn url si f = (None, Some msg3, Some (ie_marshalM ie (upsert (\<lambda>x. mName x = mName m) (\<lambda>x. m) m machines)))"
      using that add by (simp add: initiator_commit_def sel ie' h(4-6) m)
    then show ?thesis using si idn code dial by (simp add: pairInitiate_def ie'_def wired_initiator_def)
  qed
  have hs: "responder_handshake re' url cfg = Inr (msg2, s)" using sr com code(2) dial(2) by (simp add: responder_handshake_def re'_def wired_responder_def)
  have r: "pairRespond re' name url gr d = (None, d2)" if "confirm (re_lower re) gr (FromBinding (srBinding s)) = None"
  proof -
    have "responder_commit re' gr (received (re_net re' msg2)) s d1 = (None, d2)"
      using that h(7) d2(1) io by (simp add: responder_commit_def re'_def wired_responder_def received_def)
    then show ?thesis using load hs by (simp add: pairRespond_def re'_def wired_responder_def)
  qed
  have "StartInitiator (re_noise re) (re_json re) (ie_rnd ie) (\<lambda>m. if m = msg1 then Reply msg2 else NotSent) token w = Inr si"
    using si same by (simp add: ie'_def wired_initiator_def)
  note facts = this hs [unfolded re'_def] h(5) i [unfolded ie'_def h(5) [symmetric]] r [unfolded re'_def] d2(2)
  show ?thesis by (intro exI conjI impI) (rule facts | assumption)+
qed

section \<open>The first run\<close>

text \<open>The sleeps between the attempts double from two seconds to thirty-two; a refusal is never retried.\<close>

lemma first_run_sleeps:
  assumes "first_run name url gate (2 ^ min k 5 * second) as d = (sleeps, r)" "i < length sleeps"
  shows "sleeps ! i = 2 ^ min (k + i) 5 * second"
  using assms
proof (induction as arbitrary: k d sleeps r i)
  case (Cons a as)
  have dbl: "(if (2 ^ min k 5 * second :: duration) < 30 * second then 2 ^ min k 5 * second * 2 else 2 ^ min k 5 * second) = 2 ^ min (Suc k) 5 * second"
  proof (cases "k < 5")
    case True
    then have "k \<in> {0, 1, 2, 3, 4}" by auto
    then show ?thesis by (auto simp: second_def)
  qed (simp add: second_def)
  obtain e d1 where p: "pairRespond (at_env a) name url gate d = (e, d1)" by fastforce
  obtain ss r1 where rest: "first_run name url gate (2 ^ min (Suc k) 5 * second) as d1 = (ss, r1)" by (metis prod.exhaust)
  have "sleeps \<in> {[], [2 ^ min k 5 * second], 2 ^ min k 5 * second # ss}"
    using Cons.prems(1) p rest unfolding first_run.simps dbl by (cases e; cases "the e") (auto split: if_splits)
  then show ?case using Cons.prems(2) Cons.IH [OF rest] by (cases i) auto
qed simp

lemma refusal_ends_first_run:
  assumes "pairRespond (at_env a) name url gate d = (Some (PcCancelled r), d')"
  shows "first_run name url gate delay (a # as) d = ([], Some (Some (PcCancelled r)), d')"
  using assms by simp

section \<open>Properties\<close>

lemma pairInitiate_commits:
  assumes "pairInitiate ie code gi f = (e, msg3, f')" "msg3 \<noteq> None \<or> f' \<noteq> f"
  shows "\<exists>url token w si. DecodeCode (ie_parse ie) (ie_uncode ie) code = Inr (url, token) \<and>
    StartInitiator (ie_noise ie) (ie_json ie) (ie_rnd ie) (ie_net ie) token w = Inr si \<and> confirm (ie_lower ie) gi (FromBinding (siBinding si)) = None"
proof -
  have "confirm (ie_lower ie) gi (FromBinding (siBinding si)) = None" if "initiator_commit ie gi idn url si f = (e, msg3, f')" for idn url si
    using that assms(2) by (auto simp: initiator_commit_def split: option.splits)
  then show ?thesis using assms by (auto simp: pairInitiate_def split: sum.splits prod.splits if_splits; blast)
qed

text \<open>
  C6. No trust before the safety number is confirmed: a responder that does not succeed leaves its configuration as its start wrote it; one that succeeds pins an owner
  who proved the key over this handshake and authorised the registration of this very machine, and the gate was satisfied by the number of this handshake. An
  initiator sends its proof or touches its machine list only after its gate was satisfied by the number of its own handshake.
\<close>

theorem pairing_gated:
  assumes "lower_plain (re_lower re)" "lower_plain (ie_lower ie)"
  shows "(case pairRespond re name url gr d of
      (Some e, d') \<Rightarrow> ad_config d' = ad_config (snd (LoadOrInit (re_marshal re) (re_unmarshal re) (re_mkdir re) (re_readable re) (re_entropy re) (re_fault re) name url d))
    | (None, d') \<Rightarrow> \<exists>cfg d1 msg2 s (pv :: Provision) sig rsig.
        LoadOrInit (re_marshal re) (re_unmarshal re) (re_mkdir re) (re_readable re) (re_entropy re) (re_fault re) name url d = (Inr cfg, d1) \<and>
        responder_handshake re url cfg = Inr (msg2, s) \<and> VerifyAuth (re_verify re) (srClaim s) (srBinding s) sig = None \<and>
        b64_DecodeString (pvRegistrationAuth pv) = Some rsig \<and>
        VerifyAuth (re_verify re) (srClaim s) (RegistrationChallenge (cMachineID cfg) (the (RegistrationCommitment cfg))) rsig = None \<and>
        may_trust gr (FromBinding (srBinding s)) \<and>
        ProvisionOwner (re_marshal re) (re_unmarshal re) (re_readable2 re) (re_fault2 re) (srClaim s) (pvRegistry pv) (pvRegistrationAuth pv) d1 = (None, d')) \<and>
    (case pairInitiate ie code gi f of (e, msg3, f') \<Rightarrow>
      msg3 \<noteq> None \<or> f' \<noteq> f \<longrightarrow> (\<exists>url token w si. DecodeCode (ie_parse ie) (ie_uncode ie) code = Inr (url, token) \<and>
        StartInitiator (ie_noise ie) (ie_json ie) (ie_rnd ie) (ie_net ie) token w = Inr si \<and> may_trust gi (FromBinding (siBinding si))))"
proof (rule conjI)
  let ?load = "LoadOrInit (re_marshal re) (re_unmarshal re) (re_mkdir re) (re_readable re) (re_entropy re) (re_fault re) name url d"
  obtain r d1 where load: "?load = (r, d1)" by fastforce
  show "case pairRespond re name url gr d of
      (Some e, d') \<Rightarrow> ad_config d' = ad_config (snd ?load)
    | (None, d') \<Rightarrow> \<exists>cfg d1 msg2 s (pv :: Provision) sig rsig. ?load = (Inr cfg, d1) \<and>
        responder_handshake re url cfg = Inr (msg2, s) \<and> VerifyAuth (re_verify re) (srClaim s) (srBinding s) sig = None \<and>
        b64_DecodeString (pvRegistrationAuth pv) = Some rsig \<and>
        VerifyAuth (re_verify re) (srClaim s) (RegistrationChallenge (cMachineID cfg) (the (RegistrationCommitment cfg))) rsig = None \<and>
        may_trust gr (FromBinding (srBinding s)) \<and>
        ProvisionOwner (re_marshal re) (re_unmarshal re) (re_readable2 re) (re_fault2 re) (srClaim s) (pvRegistry pv) (pvRegistrationAuth pv) d1 = (None, d')"
  proof (cases r)
    case (Inl e)
    then show ?thesis using load by (simp add: pairRespond_def)
  next
    case (Inr cfg)
    show ?thesis
    proof (cases "responder_handshake re url cfg")
      case (Inl e)
      then show ?thesis using load Inr by (simp add: pairRespond_def)
    next
      case hs: (Inr x)
      obtain msg2 s where x: "x = (msg2, s)" by fastforce
      obtain e d' where c: "responder_commit re gr (received (re_net re msg2)) s d1 = (e, d')" by fastforce
      have p: "pairRespond re name url gr d = (e, d')" using load Inr hs x c by (simp add: pairRespond_def)
      show ?thesis
      proof (cases e)
        case (Some err)
        then show ?thesis using responder_commit_cases [OF c] load p by simp
      next
        case None
        obtain commitment where h: "RegistrationCommitment cfg = Some commitment" "srInfo s = agent_info cfg commitment" "commitment \<noteq> []"
          using responder_handshake_Inr hs x by metis
        obtain owner pv where q: "Responder_Finish (re_verify re) (re_json re) (received (re_net re msg2)) s = Inr (owner, pv)"
            "confirm (re_lower re) gr (FromBinding (srBinding s)) = None"
            "ProvisionOwner (re_marshal re) (re_unmarshal re) (re_readable2 re) (re_fault2 re) owner (pvRegistry pv) (pvRegistrationAuth pv) d1 = (None, d')"
          using responder_commit_cases [OF c] None by auto
        note fin = Responder_Finish_Inr [OF q(1)]
        have "may_trust gr (FromBinding (srBinding s))" using q(2) confirm_exact [OF assms(1)] by blast
        moreover obtain sig rsig where "VerifyAuth (re_verify re) (srClaim s) (srBinding s) sig = None" "b64_DecodeString (pvRegistrationAuth pv) = Some rsig"
            "VerifyAuth (re_verify re) (srClaim s) (RegistrationChallenge (cMachineID cfg) commitment) rsig = None"
          using fin h by (auto simp: agent_info_def)
        ultimately show ?thesis unfolding p None load Inr prod.case option.case
          using h(1) q(3) fin(1) hs x by (intro exI [where x = cfg] exI [where x = d1] exI [where x = msg2] exI [where x = s]) (auto intro!: exI [where x = pv])
      qed
    qed
  qed
next
  show "case pairInitiate ie code gi f of (e, msg3, f') \<Rightarrow>
      msg3 \<noteq> None \<or> f' \<noteq> f \<longrightarrow> (\<exists>url token w si. DecodeCode (ie_parse ie) (ie_uncode ie) code = Inr (url, token) \<and>
        StartInitiator (ie_noise ie) (ie_json ie) (ie_rnd ie) (ie_net ie) token w = Inr si \<and> may_trust gi (FromBinding (siBinding si)))"
    using pairInitiate_commits [of ie code gi f] confirm_exact [OF assms(2)] by (auto split: prod.splits)
qed

text \<open>
  A stand-in for the witnesses: a handshake that sends its payloads as they are and has the empty binding, and payloads that spell each string out with a marker before every
  byte and one at the end.
\<close>

definition demo_noise :: "unit noise_nn" where
  "demo_noise = \<lparr>nn_new = \<lambda>r i p. Some (), nn_write = \<lambda>h p. Some (p, ()), nn_read = \<lambda>h m. Some (m, ()), nn_binding = \<lambda>h. []\<rparr>"

lemma demo_noise_agrees: "noise_agrees demo_noise"
  by (simp add: noise_agrees_def demo_noise_def)

fun put :: "string \<Rightarrow> bytes" where
  "put [] = [0]"
| "put (c # s) = 1 # byte_of c # put s"

fun get_field :: "bytes \<Rightarrow> string \<times> bytes" where
  "get_field (m # r) =
     (if m = 0 then ([], r) else case r of [] \<Rightarrow> ([], []) | b # r' \<Rightarrow> (case get_field r' of (s, t) \<Rightarrow> (char_byte b # s, t)))"
| "get_field [] = ([], [])"

lemma get_put [simp]: "get_field (put s @ r) = (s, r)" "get_field (put s) = (s, [])"
  by (induction s) simp_all

lemma length_put [simp]: "length (put s) = 2 * length s + 1"
  by (induction s) simp_all

definition demo_json :: pair_json where
  "demo_json =
     \<lparr>pj_claim = put, pj_unclaim = \<lambda>b. Some (fst (get_field b)),
      pj_info = \<lambda>i. put (aiHostPubHex i) @ put (aiMachineID i) @ put (aiName i) @ put (aiRegistrationCommitment i),
      pj_uninfo = \<lambda>b. (case get_field b of (h, b) \<Rightarrow> case get_field b of (m, b) \<Rightarrow> case get_field b of (n, b) \<Rightarrow>
        Some \<lparr>aiHostPubHex = h, aiMachineID = m, aiName = n, aiRegistrationCommitment = fst (get_field b)\<rparr>),
      pj_proof = \<lambda>p. put (ppSignature p) @ put (ppRegistry p) @ put (ppRegistrationAuth p),
      pj_unproof = \<lambda>b. (case get_field b of (g, b) \<Rightarrow> case get_field b of (r, b) \<Rightarrow>
        Some \<lparr>ppSignature = g, ppRegistry = r, ppRegistrationAuth = fst (get_field b)\<rparr>)\<rparr>"

lemma demo_json_faithful: "pair_json_faithful demo_json"
  by (simp add: pair_json_faithful_def demo_json_def)

definition demo_owner :: Identity where "demo_owner = no_identity\<lparr>id_secret := replicate 32 7\<rparr>"

definition demo_url :: string where "demo_url = ''https://r''"

definition demo_gate :: sasGate where
  "demo_gate = \<lparr>sgConfirmSAS = FromBinding [], sgSkip = False, sgTTY = False, sgAnswer = []\<rparr>"

definition demo_initiator :: "(unit, Machine list) initiator_env" where
  "demo_initiator =
     \<lparr>ie_lower = \<lambda>r. r, ie_parse = \<lambda>s. Some (''https'', ''r''), ie_uncode = \<lambda>b. Some \<lparr>cpS = demo_url, cpT = hex_EncodeToString (replicate 16 0)\<rparr>,
      ie_identity = Inr demo_owner, ie_crypto = demo_crypto, ie_dial = \<lambda>u. True, ie_noise = demo_noise, ie_json = demo_json, ie_rnd = [],
      ie_net = \<lambda>m. NotSent, ie_sent = \<lambda>m. False, ie_aead = demo_aead, ie_marshalR = \<lambda>r. [7], ie_nonce = Some (replicate 12 1), ie_now = 0,
      ie_marshalM = \<lambda>x. x, ie_unmarshalM = read_if (list_all machine_text), ie_mkdir = True, ie_readable = True, ie_io = \<lambda>c. True\<rparr>"

definition demo_responder :: "(unit, Config) responder_env" where
  "demo_responder =
     \<lparr>re_lower = \<lambda>r. r, re_marshal = \<lambda>c. c, re_unmarshal = Some, re_mkdir = True, re_readable = True,
      re_entropy = \<lparr>en_static = Some ([1], [2]), en_id = Some [3], en_secret = Some (replicate 32 7)\<rparr>, re_fault = NoFault,
      re_token = Some (replicate 16 0), re_dial = \<lambda>u. True, re_noise = demo_noise, re_json = demo_json, re_rnd = [], re_msg1 = None,
      re_net = \<lambda>m. NotSent, re_verify = demo_verify, re_readable2 = True, re_fault2 = NoFault\<rparr>"

definition demo_dir :: "Config agent_dir" where "demo_dir = \<lparr>ad_config = None, ad_tmp = NoTmp\<rparr>"

definition demo_agent_config :: Config where
  "demo_agent_config = empty_config\<lparr>cHostPrivHex := hex_EncodeToString [1], cHostPubHex := hex_EncodeToString [2], cMachineID := hex_EncodeToString [3],
     cRegistrationSecret := hex_EncodeToString (replicate 32 7), cMachineName := ''box'', cSignalURL := demo_url\<rparr>"

lemma demo_load_config:
  "LoadOrInit (re_marshal demo_responder) (re_unmarshal demo_responder) (re_mkdir demo_responder) (re_readable demo_responder) (re_entropy demo_responder)
     (re_fault demo_responder) ''box'' demo_url demo_dir = (Inr demo_agent_config, \<lparr>ad_config = Some demo_agent_config, ad_tmp = NoTmp\<rparr>)"
  by (simp add: demo_responder_def LoadOrInit_def demo_dir_def loaded_config_def read_config_def empty_config_def with_host_key_def with_machine_id_def
      with_secret_def sum_bind_def Let_def save_def save_states_def demo_agent_config_def del: hex_EncodeToString.simps)

lemma demo_commitment: "RegistrationCommitment demo_agent_config = Some (hex_EncodeToString (sha256 (replicate 32 7)))"
  by (simp add: RegistrationCommitment_def demo_agent_config_def del: hex_EncodeToString.simps)

lemma demo_Signer: "\<exists>w. id_Signer demo_crypto demo_owner = Inr w \<and> signs_for (cr_sign demo_crypto) demo_verify w \<and> Address w = demo_id"
proof -
  have "EntropyToMnemonic (replicate 32 7) = Ret (join_space (map (\<lambda>w. wordlist ! word_index (replicate 32 7) w) [0..<3 * 8]))"
    by (rule EntropyToMnemonic_Ret) simp_all
  then obtain m where d: "DeriveSigner (cr_hkdf demo_crypto) (cr_newKey demo_crypto) (replicate 32 7) =
      Ret \<lparr>Mnemonic = m, Priv = replicate 32 7, Pub = replicate 32 0, Address = demo_id\<rparr>"
    by (auto simp: DeriveSigner_def demo_crypto_def demo_id_encode58)
  have "id_Secret demo_owner = replicate 32 7" by (simp add: id_Secret_def demo_owner_def)
  then have "id_Signer demo_crypto demo_owner = Inr \<lparr>Mnemonic = m, Priv = replicate 32 7, Pub = replicate 32 0, Address = demo_id\<rparr>"
    unfolding id_Signer_def by (simp only: HasRootedIdentity_def d) simp
  then show ?thesis by (auto simp: signs_for_def demo_crypto_def demo_verify_def demo_id_encode58)
qed

definition demo_code :: string where
  "demo_code = EncodeCode (\<lambda>p. []) demo_url (replicate 16 0)"

lemma demo_decode: "DecodeCode (ie_parse demo_initiator) (ie_uncode demo_initiator) demo_code = Inr (demo_url, replicate 16 0)"
  by (simp add: demo_code_def demo_initiator_def DecodeCode_def EncodeCode_def validSignalURL_def del: hex_EncodeToString.simps)

lemma demo_provision:
  "\<exists>registry. initiator_provision demo_initiator demo_owner demo_url info = Some registry \<and> ValidString registry \<and> registry \<noteq> []"
proof -
  let ?b = "replicate 12 1 @ ae_seal demo_aead (replicate 32 7) (replicate 12 1) [7] (bytes_of (mMachineID (machine_of_info info demo_url)))"
  have "initiator_provision demo_initiator demo_owner demo_url info = Some (b64_EncodeToString ?b)" "?b \<noteq> []"
    by (simp_all add: initiator_provision_def SealRegistryMachine_def demo_initiator_def demo_owner_def id_Secret_def HasRootedIdentity_def
        RegistryKey_def demo_crypto_def SealRecord_def del: b64_EncodeToString.simps)
  moreover have "b64_EncodeToString b \<noteq> []" if "b \<noteq> []" for b using that by (cases b rule: b64_EncodeToString.cases) simp_all
  ultimately show ?thesis using ValidString_b64 by blast
qed

lemma demo_gate_ok: "confirm (\<lambda>r. r) demo_gate (FromBinding []) = None"
  using FromBinding_chars [of "[]"] by (simp add: confirm_def demo_gate_def confirmMatches_def normalizeSAS_number)

lemma demo_agent_config_text: "config_text demo_agent_config" "ValidString (hex_EncodeToString (sha256 (replicate 32 7)))"
  by (simp_all add: config_text_def demo_agent_config_def empty_config_def map_text_def ValidString_hex ValidString_ascii demo_url_def del: hex_EncodeToString.simps)

lemma demo_room:
  "length (pj_claim demo_json demo_id) \<le> noise_room"
  "length (pj_info demo_json (agent_info demo_agent_config (hex_EncodeToString (sha256 (replicate 32 7))))) \<le> noise_room"
  by (simp_all add: demo_json_def demo_id_def noise_room_def agent_info_def demo_agent_config_def empty_config_def del: hex_EncodeToString.simps)

lemma demo_fields [simp]:
  "ie_noise demo_initiator = demo_noise" "ie_json demo_initiator = demo_json" "ie_identity demo_initiator = Inr demo_owner"
  "ie_crypto demo_initiator = demo_crypto" "ie_lower demo_initiator = (\<lambda>r. r)" "ie_dial demo_initiator u" "ie_mkdir demo_initiator" "ie_io demo_initiator c"
  "ie_unmarshalM demo_initiator = read_if (list_all machine_text)" "ie_readable demo_initiator" "ie_marshalM demo_initiator = (\<lambda>x. x)"
  "re_noise demo_responder = demo_noise" "re_json demo_responder = demo_json" "re_verify demo_responder = demo_verify" "re_lower demo_responder = (\<lambda>r. r)"
  "re_token demo_responder = Some (replicate 16 0)" "re_dial demo_responder u" "re_readable2 demo_responder" "re_fault2 demo_responder = NoFault"
  "re_marshal demo_responder = (\<lambda>c. c)" "re_unmarshal demo_responder = Some"
  by (simp_all add: demo_initiator_def demo_responder_def)

lemma demo_binding: "responder_handshake re url cfg = Inr (msg2, s) \<Longrightarrow> re_noise re = demo_noise \<Longrightarrow> srBinding s = []"
  by (auto simp: responder_handshake_def StartResponder_def demo_noise_def split: option.splits if_splits sum.splits prod.splits)

text \<open>The hypotheses of \<open>pairing_completes\<close> hold for the stand-in.\<close>

lemma demo_setting:
  "ie_noise demo_initiator = re_noise demo_responder" "ie_json demo_initiator = re_json demo_responder"
  "noise_agrees (re_noise demo_responder)" "pair_json_faithful (re_json demo_responder)" "ie_identity demo_initiator = Inr demo_owner"
  "HasRootedIdentity (id_Secret demo_owner)" "json_faithful (re_marshal demo_responder) (re_unmarshal demo_responder)"
  "ListMachines (ie_unmarshalM demo_initiator) (ie_readable demo_initiator) None = Inr []"
  by (simp_all add: demo_noise_agrees demo_json_faithful HasRootedIdentity_def id_Secret_def demo_owner_def json_faithful_def ListMachines_def)

lemma demo_commitment_cases:
  obtains w registry where "id_Signer (ie_crypto demo_initiator) demo_owner = Inr w" "signs_for (cr_sign (ie_crypto demo_initiator)) (re_verify demo_responder) w"
    "Address w = demo_id"
    "initiator_provision demo_initiator demo_owner demo_url (agent_info demo_agent_config (hex_EncodeToString (sha256 (replicate 32 7)))) = Some registry"
    "ValidString registry" "registry \<noteq> []" "length (pj_claim (re_json demo_responder) (Address w)) \<le> noise_room"
    "length (pj_info (re_json demo_responder) (agent_info demo_agent_config (hex_EncodeToString (sha256 (replicate 32 7))))) \<le> noise_room"
proof -
  obtain w where "id_Signer demo_crypto demo_owner = Inr w" "signs_for (cr_sign demo_crypto) demo_verify w" "Address w = demo_id" using demo_Signer by blast
  moreover obtain registry where
      "initiator_provision demo_initiator demo_owner demo_url (agent_info demo_agent_config (hex_EncodeToString (sha256 (replicate 32 7)))) = Some registry"
      "ValidString registry" "registry \<noteq> []" using demo_provision by blast
  ultimately show ?thesis using that [of w registry] demo_room by (simp del: hex_EncodeToString.simps)
qed

lemma demo_pairing:
  obtains msg1 msg2 msg3 d2 where "pairRespond (wired_responder msg1 msg2 msg3 demo_responder) ''box'' demo_url demo_gate demo_dir = (None, d2)"
proof -
  obtain w registry where w: "id_Signer (ie_crypto demo_initiator) demo_owner = Inr w" "signs_for (cr_sign (ie_crypto demo_initiator)) (re_verify demo_responder) w"
    and reg: "initiator_provision demo_initiator demo_owner demo_url (agent_info demo_agent_config (hex_EncodeToString (sha256 (replicate 32 7)))) = Some registry"
      "ValidString registry"
    and room: "length (pj_claim (re_json demo_responder) (Address w)) \<le> noise_room"
      "length (pj_info (re_json demo_responder) (agent_info demo_agent_config (hex_EncodeToString (sha256 (replicate 32 7))))) \<le> noise_room"
    by (rule demo_commitment_cases)
  obtain msg1 msg2 msg3 s and si :: StartedInitiator where h:
      "responder_handshake (wired_responder msg1 msg2 msg3 demo_responder) demo_url demo_agent_config = Inr (msg2, s)" "siBinding si = srBinding s"
      "confirm (ie_lower demo_initiator) demo_gate (FromBinding (siBinding si)) = None \<longrightarrow> confirm (re_lower demo_responder) demo_gate (FromBinding (srBinding s)) = None \<longrightarrow>
       (\<exists>d2. pairRespond (wired_responder msg1 msg2 msg3 demo_responder) ''box'' demo_url demo_gate demo_dir = (None, d2))"
    using pairing_completes [OF demo_setting(1-6) w demo_decode demo_fields(16,6,17) demo_load_config demo_commitment demo_agent_config_text demo_setting(7) reg room
        demo_fields(7,8) demo_setting(8) demo_fields(18,19) refl, of demo_gate demo_gate] by (elim exE conjE) (erule that, assumption, blast)
  have "srBinding s = []" using demo_binding [OF h(1)] by (simp add: wired_responder_def)
  then show ?thesis using that h(2,3) demo_gate_ok by auto
qed

theorem pairing_gated_witness:
  "\<exists>msg1 msg2 msg3 d2 cfg m s. pairRespond (wired_responder msg1 msg2 msg3 demo_responder) ''box'' demo_url demo_gate demo_dir = (None, d2) \<and>
     responder_handshake (wired_responder msg1 msg2 msg3 demo_responder) demo_url cfg = Inr (m, s) \<and> may_trust demo_gate (FromBinding (srBinding s))"
proof -
  obtain msg1 msg2 msg3 d2 where p: "pairRespond (wired_responder msg1 msg2 msg3 demo_responder) ''box'' demo_url demo_gate demo_dir = (None, d2)"
    using demo_pairing by metis
  have l: "lower_plain (re_lower (wired_responder msg1 msg2 msg3 demo_responder))" "lower_plain (ie_lower demo_initiator)"
    by (simp_all add: lower_plain_def wired_responder_def)
  show ?thesis using conjunct1 [OF pairing_gated [OF l, where name = "''box''" and url = demo_url and gr = demo_gate and d = demo_dir]] p by auto blast
qed

end
