(* ===== verification/Client_Revocations.thy ===== *)
theory Client_Revocations
  imports Client_Machines Identity Runs "HOL-Library.List_Lexorder" "HOL-Library.Char_ord" "HOL-Library.Product_Lexorder"
begin

text \<open>
  The client's deny-list of revoked machines: \<^verbatim>\<open>go/internal/client/revocations.go\<close>. The store is one file, replaced as a whole; a store that cannot
  be read, decoded or verified is an error for every caller, never an empty list. The answers of the relay are arguments.
\<close>

record localRevocations =
  lrV :: int
  lrRevocations :: "Revocation list"

datatype revocations_error =
    RevUnreadable | RevDecode | RevVersion int | RevInvalid id_error | RevNotWritten | RevRelay | RevOtherOwner

definition ListRevocations ::
  "(bytes \<Rightarrow> bytes \<Rightarrow> bytes \<Rightarrow> bool) \<Rightarrow> ('f \<Rightarrow> localRevocations option) \<Rightarrow> bool \<Rightarrow> 'f option \<Rightarrow> revocations_error + Revocation list" where
  "ListRevocations verify unmarshal readable f =
     (case f of
        None \<Rightarrow> Inr []
      | Some data \<Rightarrow>
          if \<not> readable then Inl RevUnreadable
          else case unmarshal data of
                 None \<Rightarrow> Inl RevDecode
               | Some lr \<Rightarrow>
                   if lrV lr \<noteq> 1 then Inl (RevVersion (lrV lr))
                   else case find (\<lambda>r. VerifyRevocation verify r \<noteq> None) (lrRevocations lr) of
                          Some r \<Rightarrow> Inl (RevInvalid (the (VerifyRevocation verify r)))
                        | None \<Rightarrow> Inr (lrRevocations lr))"

definition same_slot :: "Revocation \<Rightarrow> Revocation \<Rightarrow> bool" where
  "same_slot r x \<longleftrightarrow> rvOwnerID x = rvOwnerID r \<and> rvMachineID x = rvMachineID r"

definition RecordRevocation ::
  "(bytes \<Rightarrow> bytes \<Rightarrow> bytes \<Rightarrow> bool) \<Rightarrow> (localRevocations \<Rightarrow> 'f) \<Rightarrow> ('f \<Rightarrow> localRevocations option) \<Rightarrow> bool \<Rightarrow> (file_call \<Rightarrow> bool) \<Rightarrow>
   Revocation \<Rightarrow> 'f option \<Rightarrow> revocations_error option \<times> 'f option" where
  "RecordRevocation verify marshal unmarshal readable io r f =
     (case VerifyRevocation verify r of
        Some e \<Rightarrow> (Some (RevInvalid e), f)
      | None \<Rightarrow>
          (case ListRevocations verify unmarshal readable f of
             Inl e \<Rightarrow> (Some e, f)
           | Inr records \<Rightarrow>
               let records = sort_key (\<lambda>x. (rvOwnerID x, rvMachineID x)) (upsert (same_slot r) (\<lambda>x. r) r records);
                   (ok, f') = run_calls (OpMkdir # OpChmodDir # write_temp_rename) io (marshal \<lparr>lrV = 1, lrRevocations = records\<rparr>) f
               in (if ok then None else Some RevNotWritten, f')))"

definition IsMachineRevoked :: "string \<Rightarrow> string \<Rightarrow> Revocation list \<Rightarrow> bool" where
  "IsMachineRevoked machineID ownerID records = list_ex (\<lambda>r. rvOwnerID r = ownerID \<and> rvMachineID r = machineID) records"

definition FilterRevoked :: "Machine list \<Rightarrow> string \<Rightarrow> Revocation list \<Rightarrow> Machine list" where
  "FilterRevoked machines ownerID records =
     (let revoked = fold (\<lambda>r m. if rvOwnerID r = ownerID then mput m (rvMachineID r) True else m) records []
      in filter (\<lambda>m. mget revoked (mMachineID m) \<noteq> Some True) machines)"

text \<open>\<open>FetchRevocations\<close>; \<open>answer\<close> is the decoded body of a 200 answer, none for any other outcome of the request.\<close>

definition FetchRevocations ::
  "(bytes \<Rightarrow> bytes \<Rightarrow> bytes \<Rightarrow> bool) \<Rightarrow> Revocation list option \<Rightarrow> string \<Rightarrow> revocations_error + Revocation list" where
  "FetchRevocations verify answer ownerID =
     (case answer of
        None \<Rightarrow> Inl RevRelay
      | Some records \<Rightarrow>
          (case find (\<lambda>r. rvOwnerID r \<noteq> ownerID \<or> VerifyRevocation verify r \<noteq> None) records of
             None \<Rightarrow> Inr records
           | Some r \<Rightarrow> if rvOwnerID r \<noteq> ownerID then Inl RevOtherOwner else Inl (RevInvalid (the (VerifyRevocation verify r)))))"

text \<open>\<open>PostRevocation\<close>; \<open>status\<close> is the answer of the relay to the record, none when the request fails.\<close>

definition PostRevocation ::
  "(bytes \<Rightarrow> bytes \<Rightarrow> bytes \<Rightarrow> bool) \<Rightarrow> (Revocation \<Rightarrow> int option) \<Rightarrow> Revocation \<Rightarrow> revocations_error option" where
  "PostRevocation verify status r =
     (case VerifyRevocation verify r of
        Some e \<Rightarrow> Some (RevInvalid e)
      | None \<Rightarrow> if status r = Some 204 then None else Some RevRelay)"

section \<open>Lemmas\<close>

lemma find_None_ball: "find P xs = None \<longleftrightarrow> (\<forall>x \<in> set xs. \<not> P x)"
  by (auto simp: find_None_iff)

lemma ListRevocations_Inr:
  "ListRevocations verify unmarshal readable f = Inr rs \<Longrightarrow> r \<in> set rs \<Longrightarrow> VerifyRevocation verify r = None"
  by (auto simp: ListRevocations_def find_None_ball split: option.splits if_splits)

text \<open>What JSON keeps: every record that verifies is text.\<close>

definition revocations_text :: "localRevocations \<Rightarrow> bool" where
  "revocations_text lr \<longleftrightarrow> list_all (\<lambda>r. ValidString (rvOwnerID r) \<and> ValidString (rvMachineID r) \<and> ValidString (rvSignature r)) (lrRevocations lr)"

lemma verified_revocation_text:
  "VerifyRevocation verify r = None \<Longrightarrow> ValidString (rvOwnerID r) \<and> ValidString (rvMachineID r) \<and> ValidString (rvSignature r)"
  by (auto simp: VerifyRevocation_def VerifyAuth_None machineIDRe_def split: if_splits option.splits
      intro: ValidString_key ValidString_name ValidString_b64_decodes)

lemma ListRevocations_written:
  assumes "json_reads revocations_text marshal unmarshal" "\<And>r. r \<in> set rs \<Longrightarrow> VerifyRevocation verify r = None"
  shows "ListRevocations verify unmarshal True (Some (marshal \<lparr>lrV = 1, lrRevocations = rs\<rparr>)) = Inr rs"
proof -
  have "find (\<lambda>r. VerifyRevocation verify r \<noteq> None) rs = None" using assms(2) by (simp add: find_None_ball)
  moreover have "revocations_text \<lparr>lrV = 1, lrRevocations = rs\<rparr>"
    using assms(2) verified_revocation_text by (auto simp: revocations_text_def list_all_iff)
  ultimately show ?thesis by (simp add: ListRevocations_def json_readsD [OF assms(1)])
qed

lemma FetchRevocations_Inr:
  "FetchRevocations verify answer owner = Inr rs \<longleftrightarrow>
     answer = Some rs \<and> (\<forall>r \<in> set rs. rvOwnerID r = owner \<and> VerifyRevocation verify r = None)"
proof (cases answer)
  case (Some records)
  define bad where "bad r \<longleftrightarrow> rvOwnerID r \<noteq> owner \<or> VerifyRevocation verify r \<noteq> None" for r
  have eq: "FetchRevocations verify (Some records) owner = (case find bad records of None \<Rightarrow> Inr records
      | Some r \<Rightarrow> if rvOwnerID r \<noteq> owner then Inl RevOtherOwner else Inl (RevInvalid (the (VerifyRevocation verify r))))"
    by (simp add: FetchRevocations_def bad_def [abs_def])
  have "(\<forall>r \<in> set records. rvOwnerID r = owner \<and> VerifyRevocation verify r = None) \<longleftrightarrow> find bad records = None"
    by (auto simp: find_None_ball bad_def)
  then show ?thesis unfolding Some eq by (auto split: option.splits)
qed (simp add: FetchRevocations_def)

lemma IsMachineRevoked_iff: "IsMachineRevoked machine owner rs \<longleftrightarrow> (owner, machine) \<in> (\<lambda>r. (rvOwnerID r, rvMachineID r)) ` set rs"
  by (auto simp: IsMachineRevoked_def list_ex_iff)

lemma FilterRevoked_exact: "FilterRevoked machines owner rs = filter (\<lambda>m. \<not> IsMachineRevoked (mMachineID m) owner rs) machines"
proof -
  have "mget (fold (\<lambda>r m. if rvOwnerID r = owner then mput m (rvMachineID r) True else m) rs acc) i = Some True \<longleftrightarrow>
      mget acc i = Some True \<or> IsMachineRevoked i owner rs" for i acc
    by (induction rs arbitrary: acc) (auto simp: IsMachineRevoked_def)
  then show ?thesis by (simp add: FilterRevoked_def)
qed

lemma upsert_set: "set (upsert P (\<lambda>x. r) r xs) \<subseteq> insert r (set xs)" "r \<in> set (upsert P (\<lambda>x. r) r xs)"
  by (rule upsert_cases [of P xs "\<lambda>x. r" r]; auto)+

lemma RecordRevocation_result:
  assumes "json_reads revocations_text marshal unmarshal"
    and "ListRevocations verify unmarshal True f = Inr rs" "RecordRevocation verify marshal unmarshal True io r f = (e, f')"
  shows "(e \<noteq> None \<longrightarrow> f' = f) \<and>
    (e = None \<longrightarrow> VerifyRevocation verify r = None \<and>
      (\<exists>rs'. ListRevocations verify unmarshal True f' = Inr rs' \<and> r \<in> set rs' \<and> set rs' \<subseteq> insert r (set rs) \<and>
         (\<forall>x \<in> set rs. x \<in> set rs' \<or> same_slot r x)))"
proof (cases "VerifyRevocation verify r")
  case (Some err)
  with assms(3) show ?thesis by (auto simp: RecordRevocation_def)
next
  case None
  define rs' where "rs' = sort_key (\<lambda>x. (rvOwnerID x, rvMachineID x)) (upsert (same_slot r) (\<lambda>x. r) r rs)"
  obtain ok f1 where run: "run_calls (OpMkdir # OpChmodDir # write_temp_rename) io (marshal \<lparr>lrV = 1, lrRevocations = rs'\<rparr>) f = (ok, f1)"
    by fastforce
  with assms(2,3) None have e: "e = (if ok then None else Some RevNotWritten)" "f' = f1"
    by (simp_all add: RecordRevocation_def rs'_def)
  have f1: "f1 = (if ok then Some (marshal \<lparr>lrV = 1, lrRevocations = rs'\<rparr>) else f)"
    using run by (auto simp: write_temp_rename_def split: if_splits)
  have sub: "set rs' \<subseteq> insert r (set rs)" "r \<in> set rs'" using upsert_set [where P = "same_slot r" and r = r and xs = rs] by (simp_all add: rs'_def)
  have keep: "x \<in> set rs' \<or> same_slot r x" if "x \<in> set rs" for x
    using upsert_others [where y = x and xs = rs and P = "same_slot r" and g = "\<lambda>x. r" and x = r] that by (auto simp: rs'_def)
  have ver: "VerifyRevocation verify x = None" if "x \<in> set rs'" for x
    using sub(1) that ListRevocations_Inr [OF assms(2)] None by auto
  show ?thesis
  proof (cases ok)
    case True
    then have "ListRevocations verify unmarshal True f' = Inr rs'"
      using e f1 ListRevocations_written [OF assms(1) ver] by simp
    then show ?thesis using e True None sub keep by auto
  qed (use e f1 in auto)
qed

section \<open>Runs\<close>

text \<open>
  The deny-list over time: records are stored, with any file operation failing, and a process may die anywhere in the sequence of calls. The
  calls before the rename leave the file alone, so dying is a failing call.
\<close>

inductive deny_step ::
  "(bytes \<Rightarrow> bytes \<Rightarrow> bytes \<Rightarrow> bool) \<Rightarrow> (localRevocations \<Rightarrow> 'f) \<Rightarrow> ('f \<Rightarrow> localRevocations option) \<Rightarrow> 'f option \<Rightarrow> 'f option \<Rightarrow> bool"
  for verify marshal unmarshal where
  recorded: "RecordRevocation verify marshal unmarshal readable io r f = (e, f') \<Longrightarrow> deny_step verify marshal unmarshal f f'"

lemma unreadable_unchanged: "RecordRevocation verify marshal unmarshal False io r (Some d) = (e, f') \<Longrightarrow> f' = Some d"
  by (auto simp: RecordRevocation_def ListRevocations_def split: option.splits)

lemma readable_irrelevant: "RecordRevocation verify marshal unmarshal readable io r None = RecordRevocation verify marshal unmarshal True io r None"
  by (cases "VerifyRevocation verify r") (simp_all add: RecordRevocation_def ListRevocations_def)

lemma deny_step_keeps:
  assumes "json_reads revocations_text marshal unmarshal"
    and "deny_step verify marshal unmarshal f f'" "ListRevocations verify unmarshal True f = Inr rs"
  shows "\<exists>rs'. ListRevocations verify unmarshal True f' = Inr rs' \<and>
    (\<forall>machine owner. IsMachineRevoked machine owner rs \<longrightarrow> IsMachineRevoked machine owner rs')"
  using assms(2)
proof cases
  case (recorded readable io r e)
  show ?thesis
  proof (cases "readable \<or> f = None")
    case True
    then have "RecordRevocation verify marshal unmarshal True io r f = (e, f')"
      using recorded readable_irrelevant by metis
    from RecordRevocation_result [OF assms(1,3) this] assms(3) show ?thesis
      by (cases e) (fastforce simp: IsMachineRevoked_iff same_slot_def image_iff)+
  next
    case False
    then obtain d where "f = Some d" "\<not> readable" by auto
    then have "f' = f" using recorded unreadable_unchanged [of verify marshal unmarshal io r d e f'] by simp
    then show ?thesis using assms(3) by blast
  qed
qed

text \<open>The deny-list can be read and covers a given one, as long as JSON reads back.\<close>

definition denies ::
  "(bytes \<Rightarrow> bytes \<Rightarrow> bytes \<Rightarrow> bool) \<Rightarrow> (localRevocations \<Rightarrow> 'f) \<Rightarrow> ('f \<Rightarrow> localRevocations option) \<Rightarrow> Revocation list \<Rightarrow> 'f option \<Rightarrow> bool" where
  "denies verify marshal unmarshal rs f \<longleftrightarrow>
     (json_reads revocations_text marshal unmarshal \<longrightarrow>
       (\<exists>rs'. ListRevocations verify unmarshal True f = Inr rs' \<and>
          (\<forall>machine owner. IsMachineRevoked machine owner rs \<longrightarrow> IsMachineRevoked machine owner rs')))"

interpretation deny_runs: step_invariant "deny_step verify marshal unmarshal" "denies verify marshal unmarshal rs" for verify marshal unmarshal rs
  by unfold_locales (unfold denies_def, blast dest: deny_step_keeps)

lemma deny_run_keeps:
  assumes "json_reads revocations_text marshal unmarshal"
    and "(deny_step verify marshal unmarshal)\<^sup>*\<^sup>* f f'" "ListRevocations verify unmarshal True f = Inr rs"
  shows "\<exists>rs'. ListRevocations verify unmarshal True f' = Inr rs' \<and>
    (\<forall>machine owner. IsMachineRevoked machine owner rs \<longrightarrow> IsMachineRevoked machine owner rs')"
  using deny_runs.run_keeps [OF assms(2), of rs] assms(1,3) unfolding denies_def by blast

section \<open>Properties\<close>

text \<open>
  C21. On the client a revocation is permanent: once a tombstone was stored successfully, then whatever records are stored later, whatever file
  operations fail and wherever a process dies, the deny-list can be read, every record in it carries the owner's verified signature, it
  still revokes that machine, and the machine is filtered out of every list for that owner.
\<close>

theorem client_revocation_permanent:
  assumes json: "json_reads revocations_text marshal unmarshal"
    and "ListRevocations verify unmarshal True f = Inr rs" "RecordRevocation verify marshal unmarshal True io r f = (None, f1)"
    and "(deny_step verify marshal unmarshal)\<^sup>*\<^sup>* f1 f2"
  shows "\<exists>rs2. ListRevocations verify unmarshal True f2 = Inr rs2 \<and> (\<forall>x \<in> set rs2. VerifyRevocation verify x = None) \<and>
    IsMachineRevoked (rvMachineID r) (rvOwnerID r) rs2 \<and>
    (\<forall>machines. \<forall>m \<in> set (FilterRevoked machines (rvOwnerID r) rs2). mMachineID m \<noteq> rvMachineID r)"
proof -
  obtain rs1 where 1: "ListRevocations verify unmarshal True f1 = Inr rs1" "r \<in> set rs1"
    using RecordRevocation_result [OF json assms(2,3)] by auto
  obtain rs2 where 2: "ListRevocations verify unmarshal True f2 = Inr rs2"
      "\<And>machine owner. IsMachineRevoked machine owner rs1 \<Longrightarrow> IsMachineRevoked machine owner rs2"
    using deny_run_keeps [OF json assms(4) 1(1)] by blast
  have rev: "IsMachineRevoked (rvMachineID r) (rvOwnerID r) rs2" using 1(2) by (intro 2(2)) (auto simp: IsMachineRevoked_iff)
  then have "mMachineID m \<noteq> rvMachineID r" if "m \<in> set (FilterRevoked machines (rvOwnerID r) rs2)" for m machines
    using that by (auto simp: FilterRevoked_exact)
  then show ?thesis using 2(1) rev ListRevocations_Inr [OF 2(1)] by blast
qed

definition demo_revocation :: Revocation where
  "demo_revocation = \<lparr>rvV = 1, rvOwnerID = demo_id, rvMachineID = ''m1'', rvTS = 7, rvSignature = b64_EncodeToString (replicate 64 0)\<rparr>"

lemma verify_demo_revocation: "VerifyRevocation demo_verify demo_revocation = None"
proof -
  have "VerifyAuth demo_verify demo_id c (replicate 64 0) = None" for c
    by (simp add: VerifyAuth_None key_of_demo demo_verify_def)
  then show ?thesis
    by (simp add: VerifyRevocation_def demo_revocation_def machineIDRe_def is_name_char_def is_alnum_def del: b64_EncodeToString.simps)
qed

theorem client_revocation_permanent_witness:
  "\<exists>f1. RecordRevocation demo_verify (\<lambda>x. x) (read_if revocations_text) True (\<lambda>c. True) demo_revocation None = (None, f1) \<and>
     (\<exists>rs. ListRevocations demo_verify (read_if revocations_text) True f1 = Inr rs \<and> IsMachineRevoked ''m1'' demo_id rs)"
proof -
  have r: "RecordRevocation demo_verify (\<lambda>x. x) (read_if revocations_text) True (\<lambda>c. True) demo_revocation None =
      (None, Some \<lparr>lrV = 1, lrRevocations = [demo_revocation]\<rparr>)"
    by (simp add: RecordRevocation_def verify_demo_revocation ListRevocations_def upsert_def write_temp_rename_def)
  have l: "ListRevocations demo_verify (read_if revocations_text) True None = Inr []" by (simp add: ListRevocations_def)
  have id: "rvMachineID demo_revocation = ''m1''" "rvOwnerID demo_revocation = demo_id" by (simp_all add: demo_revocation_def)
  show ?thesis using client_revocation_permanent [OF json_reads_read_if l r rtranclp.rtrancl_refl] r unfolding id by auto
qed

end
