(* ===== verification/Go_Strings.thy ===== *)
theory Go_Strings
  imports Utf8
begin

text \<open>
  The string functions of Go's standard library that read the output of other programs: \<open>strings.Split\<close> on a one-byte separator,
  \<open>strings.Join\<close> and \<open>strconv.Atoi\<close>. The lemmas are the round trips of separated text and of white space around it.
\<close>

section \<open>Separated text\<close>

text \<open>\<open>strings.Split\<close>: a string without the separator is its own single field, the empty string included.\<close>

fun Split :: "char \<Rightarrow> string \<Rightarrow> string list" where
  "Split sep [] = [[]]"
| "Split sep (c # s) = (if c = sep then [] # Split sep s else case Split sep s of f # fs \<Rightarrow> (c # f) # fs | [] \<Rightarrow> [[c]])"

fun Join :: "string \<Rightarrow> string list \<Rightarrow> string" where
  "Join sep [] = []"
| "Join sep [s] = s"
| "Join sep (s # t # ts) = s @ sep @ Join sep (t # ts)"

text \<open>\<open>strings.TrimRight\<close> of slashes, and \<open>filepath.Base\<close>.\<close>

definition TrimRightSlash :: "string \<Rightarrow> string" where
  "TrimRightSlash s = rev (dropWhile (\<lambda>c. c = CHR ''/'') (rev s))"

definition path_Base :: "string \<Rightarrow> string" where
  "path_Base p =
     (if p = [] then ''.''
      else let q = TrimRightSlash p; b = rev (takeWhile (\<lambda>c. c \<noteq> CHR ''/'') (rev q)) in if b = [] then ''/'' else b)"

lemma Split_not_Nil [simp]: "Split sep s \<noteq> []"
  by (induction s) (auto split: list.splits)

lemma Split_field: "sep \<notin> set s \<Longrightarrow> Split sep s = [s]"
  by (induction s) auto

lemma Split_append: "sep \<notin> set s \<Longrightarrow> Split sep (s @ sep # t) = s # Split sep t"
  by (induction s) (auto split: list.splits)

lemma Split_Join: "fs \<noteq> [] \<Longrightarrow> \<forall>f \<in> set fs. sep \<notin> set f \<Longrightarrow> Split sep (Join [sep] fs) = fs"
proof (induction fs rule: induct_list012)
  case (3 f g fs)
  then show ?case using Split_append [of sep f "Join [sep] (g # fs)"] by simp
qed (simp_all add: Split_field)

lemma set_Join: "set (Join sep fs) \<subseteq> set sep \<union> \<Union> (set ` set fs)"
  by (induction sep fs rule: Join.induct) auto

section \<open>Decimal numbers read from text\<close>

definition max_int64 :: int where "max_int64 = 9223372036854775807"

lemma is_digit_iff: "is_digit c \<longleftrightarrow> c \<in> set digit_chars"
proof
  assume d: "is_digit c"
  then have "c = digit_char (of_char c - 48)" "of_char c - 48 < (10 :: nat)" by (auto simp: is_digit_def digit_char_def Let_def)
  then show "c \<in> set digit_chars" using digit_char_less by metis
next
  have "\<forall>c \<in> set digit_chars. is_digit c" by (simp add: digit_chars_def is_digit_def)
  then show "c \<in> set digit_chars \<Longrightarrow> is_digit c" by blast
qed

text \<open>
  \<open>strconv.Atoi\<close> where the error is dropped: 0 for text that is no number, the nearest representable value for a number out of range.
\<close>

definition Atoi :: "string \<Rightarrow> int" where
  "Atoi s =
     (let neg = HasPrefix s ''-''; ds = (if neg \<or> HasPrefix s ''+'' then tl s else s)
      in if ds = [] \<or> \<not> list_all is_digit ds then 0
         else if neg then max (- max_int64 - 1) (- atoi ds) else min max_int64 (atoi ds))"

lemma HasPrefix_single: "HasPrefix s [c] \<longleftrightarrow> (\<exists>t. s = c # t)"
  by (cases s) (auto simp: HasPrefix_def)

lemma Atoi_itoa: "0 \<le> i \<Longrightarrow> i \<le> max_int64 \<Longrightarrow> Atoi (itoa i) = i"
proof -
  assume i: "0 \<le> i" "i \<le> max_int64"
  have d: "set (itoa i) \<subseteq> set digit_chars" using set_dec_nat i by (simp add: itoa_def)
  then have "\<not> HasPrefix (itoa i) [c]" if "c \<notin> set digit_chars" for c using that by (auto simp: HasPrefix_single)
  then have "\<not> HasPrefix (itoa i) ''-''" "\<not> HasPrefix (itoa i) ''+''" by (auto simp: digit_chars_def)
  then show ?thesis using i d atoi_itoa [of i] by (auto simp: Atoi_def Let_def is_digit_iff list_all_iff itoa_def)
qed

section \<open>White space around text\<close>

text \<open>An ASCII byte ends the rune before it.\<close>

lemma decode_rune_ascii_sep: "s \<noteq> [] \<Longrightarrow> c < 128 \<Longrightarrow> decode_rune (s @ c # t) = decode_rune s"
proof -
  assume s: "s \<noteq> []" "c < 128"
  then have c: "\<not> cont c" "\<not> (160 \<le> c \<and> c \<le> 191)" "\<not> (128 \<le> c)" by (auto simp: cont_def)
  obtain a u where "s = a # u" using s by (cases s) auto
  then show ?thesis using c
    by (cases u rule: decode_rune.cases; auto simp: decode_rune.simps split: list.splits)
qed

lemmas decode_rune_ascii_end = decode_rune_ascii_sep [where t = "[]"]

lemma hd_runes_ascii_sep: "s \<noteq> [] \<Longrightarrow> of_char c < (128 :: nat) \<Longrightarrow> hd (runes (s @ c # t)) = hd (runes s)"
  by (simp add: runes_def codes_def rune_list.simps [of "map of_char s"] rune_list.simps [of "map of_char s @ _"] decode_rune_ascii_sep)

lemma rune_list_ascii_end: "c < 128 \<Longrightarrow> rune_list (s @ [c]) = rune_list s @ [(c, 1)]"
proof (induction s rule: rune_list.induct)
  case (1 s)
  show ?case
  proof (cases "s = []")
    case True
    with 1 show ?thesis by (simp add: rune_list.simps decode_rune.simps)
  next
    case False
    with 1 have "rune_list (s @ [c]) = decode_rune s # rune_list (drop (snd (decode_rune s)) (s @ [c]))"
      by (simp add: rune_list.simps [of "s @ [c]"] decode_rune_ascii_end)
    also have "drop (snd (decode_rune s)) (s @ [c]) = drop (snd (decode_rune s)) s @ [c]" using decode_rune_width [OF False] by simp
    finally show ?thesis using 1 False by (simp add: rune_list.simps [of s])
  qed
qed

lemma last_runes_ascii: "of_char c < (128 :: nat) \<Longrightarrow> last (runes (s @ [c])) = of_char c"
  by (simp add: runes_def codes_def rune_list_ascii_end)

text \<open>The line end that a program prints after its output is trimmed away.\<close>

lemma TrimSpace_newline: "TrimSpace s = s \<Longrightarrow> TrimSpace (s @ [CHR 0x0A]) = s"
proof (cases "s = []")
  case True
  then show ?thesis by (simp add: TrimSpace_def codes_def rune_list.simps decode_rune.simps IsSpace_def)
next
  case False
  assume "TrimSpace s = s"
  then have ends: "\<not> IsSpace (hd (runes s))" "\<not> IsSpace (last (runes s))" using False by (simp_all add: TrimSpace_id)
  define rs where "rs = rune_list (codes s)"
  have rs: "rs \<noteq> []" using False by (simp add: rs_def rune_list.simps codes_def)
  have rs': "rune_list (codes (s @ [CHR 0x0A])) = rs @ [(10, 1)]" using rune_list_ascii_end [of 10 "codes s"] by (simp add: rs_def codes_def)
  have len: "sum_list (map snd rs) = length s" by (simp add: rs_def sum_widths)
  have e: "\<not> IsSpace (fst (hd rs))" "\<not> IsSpace (fst (last rs))" using ends rs by (simp_all add: runes_def rs_def [symmetric] hd_map last_map)
  obtain r w rest where h: "rs = (r, w) # rest" "\<not> IsSpace r" using rs e(1) by (cases rs) auto
  have l: "takeWhile (\<lambda>(r, w). IsSpace r) (rs @ [(10, 1)]) = []" "dropWhile (\<lambda>(r, w). IsSpace r) (rs @ [(10, 1)]) = rs @ [(10, 1)]"
    by (simp_all add: h)
  obtain r' w' front where t: "rs = front @ [(r', w')]" "\<not> IsSpace r'" using rs e(2) by (cases rs rule: rev_cases) auto
  have "IsSpace 10" by (simp add: IsSpace_def)
  then have "dropWhile (\<lambda>(r, w). IsSpace r) (rev (rs @ [(10, 1)])) = rev rs" by (simp add: t)
  then show ?thesis unfolding TrimSpace_def Let_def rs' l by (simp add: len)
qed

section \<open>Writing runes\<close>

definition scalar :: "nat \<Rightarrow> bool" where
  "scalar r \<longleftrightarrow> r < 55296 \<or> 57344 \<le> r \<and> r \<le> 1114111"

lemma scalar_two: "a \<le> 223 \<Longrightarrow> cont b \<Longrightarrow> scalar ((a - 192) * 64 + (b - 128))"
proof -
  assume a: "a \<le> 223" "cont b"
  then have "a - 192 \<le> 31" "b - 128 \<le> 63" by (auto simp: cont_def)
  then show ?thesis by (simp add: scalar_def)
qed

lemma scalar_three:
  assumes "a = 224 \<and> 160 \<le> b \<and> b \<le> 191 \<or> a = 237 \<and> 128 \<le> b \<and> b \<le> 159 \<or> (225 \<le> a \<and> a \<le> 239 \<and> a \<noteq> 237) \<and> cont b" "cont c"
  shows "scalar ((a - 224) * 4096 + (b - 128) * 64 + (c - 128))"
proof -
  obtain x y z where x: "x = a - 224" "y = b - 128" "z = c - 128" by blast
  have z: "z \<le> 63" "y \<le> 63" using assms x by (auto simp: cont_def)
  have "x = 13 \<and> y \<le> 31 \<or> x \<le> 12 \<or> 14 \<le> x \<and> x \<le> 15" using assms x by (auto simp: cont_def)
  then show ?thesis using z unfolding x [symmetric] scalar_def by linarith
qed

lemma scalar_four:
  assumes "a = 240 \<and> 144 \<le> b \<and> b \<le> 191 \<or> 241 \<le> a \<and> a \<le> 243 \<and> cont b \<or> a = 244 \<and> 128 \<le> b \<and> b \<le> 143" "cont c" "cont d"
  shows "scalar ((a - 240) * 262144 + (b - 128) * 4096 + (c - 128) * 64 + (d - 128))"
proof -
  obtain w x y z where x: "w = a - 240" "x = b - 128" "y = c - 128" "z = d - 128" by blast
  have z: "z \<le> 63" "y \<le> 63" "x \<le> 63" using assms x by (auto simp: cont_def)
  have "w = 0 \<and> 16 \<le> x \<or> 1 \<le> w \<and> w \<le> 3 \<or> w = 4 \<and> x \<le> 15" using assms x by (auto simp: cont_def)
  then show ?thesis using z unfolding x [symmetric] scalar_def by linarith
qed

lemma decode_rune_scalar: "scalar (fst (decode_rune s))"
proof (cases s)
  case (Cons a t)
  have e: "scalar rune_error" "\<And>a. a < 128 \<Longrightarrow> scalar a" by (auto simp: scalar_def rune_error_def)
  have f: "(A \<Longrightarrow> scalar (fst p)) \<Longrightarrow> (\<not> A \<Longrightarrow> scalar (fst q)) \<Longrightarrow> scalar (fst (if A then p else q))" for A and p q :: "nat \<times> nat" by simp
  have l: "scalar (fst p) \<Longrightarrow> (\<And>x y. scalar (fst (q x y))) \<Longrightarrow> scalar (fst (case ys of [] \<Rightarrow> p | x # y \<Rightarrow> q x y))" for p and q :: "nat \<Rightarrow> nat list \<Rightarrow> nat \<times> nat" and ys
    by (cases ys) auto
  show ?thesis unfolding Cons decode_rune.simps
    by (intro f l; unfold fst_conv; (rule e(1))?; (rule e(2), assumption)?; elim conjE;
        (rule scalar_two scalar_three scalar_four; assumption)?)
qed (simp add: decode_rune.simps scalar_def rune_error_def)

lemma runes_scalar: "list_all scalar (runes s)"
proof -
  have "list_all (\<lambda>(r, w). scalar r) (rune_list t)" for t
  proof (induction t rule: rune_list.induct)
    case (1 t)
    then show ?case using decode_rune_scalar [of t] by (auto simp: rune_list.simps [of t] split_beta)
  qed
  then show ?thesis by (simp add: runes_def list_all_iff split_beta)
qed

lemma decode_encode_rune: "scalar r \<Longrightarrow> decode_rune (encode_rune r @ t) = (r, length (encode_rune r))"
proof -
  assume r: "scalar r"
  consider "r < 128" | "128 \<le> r" "r < 2048" | "2048 \<le> r" "r < 65536" | "65536 \<le> r" by linarith
  then show ?thesis
  proof cases
    case 1
    then show ?thesis by (simp add: encode_rune_def decode_rune.simps)
  next
    case 2
    define a b where "a = r div 64" and "b = r mod 64"
    have r: "r = a * 64 + b" "b < 64" unfolding a_def b_def by simp_all
    then have e: "r = a * 64 + b" "2 \<le> a" "a \<le> 31" "b < 64" using 2 by linarith+
    moreover have "encode_rune r = [192 + a, 128 + b]" using 2 by (simp add: encode_rune_def a_def b_def)
    ultimately show ?thesis by (simp add: decode_rune.simps cont_def)
  next
    case 3
    define a b c where "a = r div 4096" and "b = r div 64 mod 64" and "c = r mod 64"
    have "r div 64 div 64 = r div 4096" by (simp add: div_mult2_eq [symmetric])
    then have "r = r div 64 * 64 + c" "r div 64 = a * 64 + b" unfolding a_def b_def c_def by (metis div_mult_mod_eq)+
    then have "r = a * 4096 + b * 64 + c" by linarith
    moreover have "b < 64" "c < 64" unfolding b_def c_def by simp_all
    ultimately have s: "r = a * 4096 + b * 64 + c" "b < 64" "c < 64" by auto
    then have e: "r = a * 4096 + b * 64 + c" "a \<le> 15" "b < 64" "c < 64" using 3 by linarith+
    have n: "\<not> (55296 \<le> r \<and> r \<le> 57343)" using r by (auto simp: scalar_def)
    have "a = 0 \<Longrightarrow> 32 \<le> b" "a = 13 \<Longrightarrow> b < 32" using 3 n e by linarith+
    moreover have "encode_rune r = [224 + a, 128 + b, 128 + c]" using 3 n by (auto simp: encode_rune_def a_def b_def c_def)
    ultimately show ?thesis using e by (auto simp: decode_rune.simps cont_def)
  next
    case 4
    define a b c d where "a = r div 262144" and "b = r div 4096 mod 64" and "c = r div 64 mod 64" and "d = r mod 64"
    have le: "r \<le> 1114111" using r 4 by (auto simp: scalar_def)
    have q: "r div 64 div 64 = r div 4096" "r div 64 div 64 div 64 = r div 262144" by (simp_all add: div_mult2_eq [symmetric])
    have "r = r div 64 * 64 + d" "r div 64 = r div 4096 * 64 + c" "r div 4096 = a * 64 + b"
      unfolding a_def b_def c_def d_def q [symmetric] by simp_all
    then have "r = a * 262144 + b * 4096 + c * 64 + d" by linarith
    moreover have "b < 64" "c < 64" "d < 64" unfolding b_def c_def d_def by simp_all
    ultimately have e: "r = a * 262144 + b * 4096 + c * 64 + d" "b < 64" "c < 64" "d < 64" by auto
    have "a = 0 \<and> 16 \<le> b \<or> a = 1 \<or> a = 2 \<or> a = 3 \<or> a = 4 \<and> b < 16" using 4 le e by linarith
    moreover have "encode_rune r = [240 + a, 128 + b, 128 + c, 128 + d]" using 4 le by (simp add: encode_rune_def a_def b_def c_def d_def)
    ultimately show ?thesis using e by (auto simp: decode_rune.simps cont_def)
  qed
qed

lemma rune_list_encode: "list_all scalar rs \<Longrightarrow> map fst (rune_list (concat (map encode_rune rs))) = rs"
proof (induction rs)
  case (Cons r rs)
  have "encode_rune r \<noteq> []" by (simp add: encode_rune_def)
  then show ?case using Cons decode_encode_rune [of r "concat (map encode_rune rs)"] by (simp add: rune_list.simps [of "encode_rune r @ _"])
qed (simp add: rune_list.simps)

lemma encode_rune_bytes: "scalar r \<Longrightarrow> list_all (\<lambda>b. b < 256) (encode_rune r)"
  by (auto simp: encode_rune_def scalar_def)

lemma runes_encode: "list_all scalar rs \<Longrightarrow> runes (map char_of (concat (map encode_rune rs))) = rs"
proof -
  assume s: "list_all scalar rs"
  then have "\<forall>b \<in> set (concat (map encode_rune rs)). b < 256" using encode_rune_bytes by (fastforce simp: list_all_iff)
  then have "codes (map char_of (concat (map encode_rune rs))) = concat (map encode_rune rs)" unfolding codes_def map_map by (intro map_idI) auto
  then show ?thesis using rune_list_encode [OF s] by (simp add: runes_def)
qed

lemma runes_append_ascii: "list_all (\<lambda>c. of_char c < (128 :: nat)) t \<Longrightarrow> runes (s @ t) = runes s @ map of_char t"
proof (induction t rule: rev_induct)
  case (snoc c t)
  then show ?case using rune_list_ascii_end [of "of_char c" "codes (s @ t)"] by (simp add: runes_def codes_def)
qed simp

end
