(* ===== verification/Client_Prewarm.thy ===== *)
theory Client_Prewarm
  imports Go_Strings Client_Registry Client_Revocations
begin

text \<open>
  The warm path before an attach: \<^verbatim>\<open>go/internal/client/prewarm.go\<close>, with \<open>ResolveICE\<close> of \<^verbatim>\<open>ice.go\<close> and the credentials of \<^verbatim>\<open>go/internal/peer/turn.go\<close>.
  Three answers of the relay (revocations, registry, TURN credentials) are cached, each in its file with the scope it is valid for and the time it was stored.

  The three fetches of a run touch different files, so a run is the composition of three independent parts. The answers of the relay, the times the code
  reads, which file operations succeed, and whether a refresh in the background has already arrived are arguments.
\<close>

section \<open>Cached answers\<close>

definition DirectoryTTL :: duration where "DirectoryTTL = 30 * second"

definition DirectoryStaleCeiling :: duration where "DirectoryStaleCeiling = 2 * DirectoryTTL"

definition TURNRenewMargin :: duration where "TURNRenewMargin = 2 * minute"

definition cacheVersion :: int where "cacheVersion = 1"

text \<open>\<open>ceExpiresAt\<close> is none for the zero time.\<close>

record 'p cacheEnvelope =
  ceV :: int
  ceScope :: string
  ceFetchedAt :: time
  ceExpiresAt :: "time option"
  cePayload :: 'p

definition cacheScope :: "string \<Rightarrow> string \<Rightarrow> string" where
  "cacheScope signalURL ownerID = TrimRightSlash (TrimSpace signalURL) @ ''|'' @ ownerID"

definition readCacheEnvelope ::
  "('c \<Rightarrow> 'p cacheEnvelope option) \<Rightarrow> bool \<Rightarrow> string \<Rightarrow> 'c option \<Rightarrow> 'p cacheEnvelope option" where
  "readCacheEnvelope unmarshal readable scope f =
     (case f of
        None \<Rightarrow> None
      | Some data \<Rightarrow>
          if \<not> readable then None
          else case unmarshal data of
                 None \<Rightarrow> None
               | Some env \<Rightarrow> if ceV env \<noteq> cacheVersion \<or> ceScope env \<noteq> scope then None else Some env)"

definition writeCacheEnvelope ::
  "('p cacheEnvelope \<Rightarrow> 'c) \<Rightarrow> (file_call \<Rightarrow> bool) \<Rightarrow> string \<Rightarrow> time \<Rightarrow> time option \<Rightarrow> 'p \<Rightarrow> 'c option \<Rightarrow> 'c option" where
  "writeCacheEnvelope marshal io scope t expires payload f =
     snd (run_calls (OpMkdir # write_temp_rename) io
            (marshal \<lparr>ceV = cacheVersion, ceScope = scope, ceFetchedAt = t, ceExpiresAt = expires, cePayload = payload\<rparr>) f)"

datatype cachePlan = planFetch | planStale | planFresh

definition directoryPlan :: "'p cacheEnvelope option \<Rightarrow> time \<Rightarrow> cachePlan" where
  "directoryPlan env now =
     (case env of
        None \<Rightarrow> planFetch
      | Some e \<Rightarrow>
          if now < ceFetchedAt e then planFetch
          else let age = now - ceFetchedAt e
               in if age < DirectoryTTL then planFresh else if age < DirectoryStaleCeiling then planStale else planFetch)"

definition turnPlan :: "'p cacheEnvelope option \<Rightarrow> time \<Rightarrow> cachePlan" where
  "turnPlan env now =
     (case env of
        None \<Rightarrow> planFetch
      | Some e \<Rightarrow>
          if now < ceFetchedAt e then planFetch
          else case ceExpiresAt e of
                 None \<Rightarrow> if now - ceFetchedAt e < DirectoryTTL then planFresh else planFetch
               | Some x \<Rightarrow> if now < x - TURNRenewMargin then planFresh else if now < x then planStale else planFetch)"

datatype source = SourceRelay | SourceCacheFresh | SourceCacheStale | SourceCacheFallback | SourceError | SourceSkipped

section \<open>Revocations\<close>

datatype rev_outcome = RevStored | RevFetchFailed | RevStoreFailed

text \<open>The loop of \<open>fetchRevocations\<close> that stores the records; \<open>ios\<close> gives the outcomes of the file operations of each turn.\<close>

fun record_all ::
  "(bytes \<Rightarrow> bytes \<Rightarrow> bytes \<Rightarrow> bool) \<Rightarrow> (localRevocations \<Rightarrow> 'd) \<Rightarrow> ('d \<Rightarrow> localRevocations option) \<Rightarrow> (Revocation \<Rightarrow> file_call \<Rightarrow> bool) \<Rightarrow>
   Revocation list \<Rightarrow> 'd option \<Rightarrow> bool \<times> 'd option" where
  "record_all verify marshal unmarshal ios [] f = (True, f)"
| "record_all verify marshal unmarshal ios (r # rs) f =
     (case RecordRevocation verify marshal unmarshal True (ios r) r f of
        (Some e, f') \<Rightarrow> (False, f')
      | (None, f') \<Rightarrow> record_all verify marshal unmarshal ios rs f')"

definition fetchRevocations ::
  "(bytes \<Rightarrow> bytes \<Rightarrow> bytes \<Rightarrow> bool) \<Rightarrow> (localRevocations \<Rightarrow> 'd) \<Rightarrow> ('d \<Rightarrow> localRevocations option) \<Rightarrow> (unit cacheEnvelope \<Rightarrow> 'c) \<Rightarrow>
   (Revocation \<Rightarrow> file_call \<Rightarrow> bool) \<Rightarrow> (file_call \<Rightarrow> bool) \<Rightarrow> Revocation list option \<Rightarrow> time \<Rightarrow> string \<Rightarrow> string \<Rightarrow> 'd option \<times> 'c option \<Rightarrow>
   rev_outcome \<times> 'd option \<times> 'c option" where
  "fetchRevocations verify marshal unmarshal marshalC ios ioC answer stored_at signalURL ownerID fs =
     (case fs of (deny, cache) \<Rightarrow>
        case FetchRevocations verify answer ownerID of
          Inl e \<Rightarrow> (RevFetchFailed, deny, cache)
        | Inr records \<Rightarrow>
            (case record_all verify marshal unmarshal ios records deny of
               (False, deny') \<Rightarrow> (RevStoreFailed, deny', cache)
             | (True, deny') \<Rightarrow> (RevStored, deny', writeCacheEnvelope marshalC ioC (cacheScope signalURL ownerID) stored_at None () cache)))"

text \<open>
  The revocation part of \<open>Run\<close>: the source it reports and the two files. In the stale case \<open>arrived\<close> says whether the refresh has finished when
  the joins before it have; a refresh that has not is a fetch of its own, later.
\<close>

definition run_revocations ::
  "(bytes \<Rightarrow> bytes \<Rightarrow> bytes \<Rightarrow> bool) \<Rightarrow> (localRevocations \<Rightarrow> 'd) \<Rightarrow> ('d \<Rightarrow> localRevocations option) \<Rightarrow> (unit cacheEnvelope \<Rightarrow> 'c) \<Rightarrow>
   ('c \<Rightarrow> unit cacheEnvelope option) \<Rightarrow> bool \<Rightarrow> (Revocation \<Rightarrow> file_call \<Rightarrow> bool) \<Rightarrow> (file_call \<Rightarrow> bool) \<Rightarrow> bool \<Rightarrow> Revocation list option \<Rightarrow> time \<Rightarrow>
   bool \<Rightarrow> time \<Rightarrow> string \<Rightarrow> string \<Rightarrow> 'd option \<times> 'c option \<Rightarrow> source \<times> 'd option \<times> 'c option" where
  "run_revocations verify marshal unmarshal marshalC unmarshalC readable ios ioC rooted answer stored_at arrived start signalURL ownerID fs =
     (if \<not> rooted then (SourceSkipped, fs)
      else case directoryPlan (readCacheEnvelope unmarshalC readable (cacheScope signalURL ownerID) (snd fs)) start of
             planFresh \<Rightarrow> (SourceCacheFresh, fs)
           | planStale \<Rightarrow>
               if \<not> arrived then (SourceCacheStale, fs)
               else (case fetchRevocations verify marshal unmarshal marshalC ios ioC answer stored_at signalURL ownerID fs of
                       (out, fs') \<Rightarrow> (if out = RevStored then SourceRelay else SourceCacheStale, fs'))
           | planFetch \<Rightarrow>
               (case fetchRevocations verify marshal unmarshal marshalC ios ioC answer stored_at signalURL ownerID fs of
                  (out, fs') \<Rightarrow> (if out = RevStored then SourceRelay else SourceError, fs')))"

section \<open>The registry\<close>

text \<open>The payload of a cached registry is the relay's entries, none when they cannot be decoded.\<close>

definition decodeCachedRegistry ::
  "(bytes \<Rightarrow> bytes \<Rightarrow> bytes \<Rightarrow> bytes option) \<Rightarrow> aead \<Rightarrow> (bytes \<Rightarrow> registryRecord option) \<Rightarrow> registryEntry list option cacheEnvelope \<Rightarrow> bytes \<Rightarrow> string \<Rightarrow>
   registry_error + Machine list" where
  "decodeCachedRegistry hkdf ae unmarshal env secret signalURL =
     (case cePayload env of None \<Rightarrow> Inl RelayError | Some entries \<Rightarrow> decodeRegistryEntries hkdf ae unmarshal entries secret signalURL)"

definition fetchRegistry ::
  "(bytes \<Rightarrow> bytes \<Rightarrow> bytes \<Rightarrow> bytes option) \<Rightarrow> aead \<Rightarrow> (bytes \<Rightarrow> registryRecord option) \<Rightarrow> (registryEntry list option cacheEnvelope \<Rightarrow> 'c) \<Rightarrow>
   (file_call \<Rightarrow> bool) \<Rightarrow> registryEntry list option \<Rightarrow> time \<Rightarrow> string \<Rightarrow> string \<Rightarrow> bytes \<Rightarrow> 'c option \<Rightarrow> (registry_error + Machine list) \<times> 'c option" where
  "fetchRegistry hkdf ae unmarshal marshalC io answer stored_at signalURL ownerID secret cache =
     (case answer of
        None \<Rightarrow> (Inl RelayError, cache)
      | Some entries \<Rightarrow>
          (case decodeRegistryEntries hkdf ae unmarshal entries secret signalURL of
             Inl e \<Rightarrow> (Inl e, cache)
           | Inr machines \<Rightarrow>
               (Inr machines, writeCacheEnvelope marshalC io (cacheScope signalURL ownerID) stored_at None (Some entries) cache)))"

text \<open>
  The registry part of \<open>Run\<close>: the machines, their source, the error reported and the cache file. A cached payload that cannot be decoded is a miss.
\<close>

definition run_registry ::
  "(bytes \<Rightarrow> bytes \<Rightarrow> bytes \<Rightarrow> bytes option) \<Rightarrow> aead \<Rightarrow> (bytes \<Rightarrow> registryRecord option) \<Rightarrow> (registryEntry list option cacheEnvelope \<Rightarrow> 'c) \<Rightarrow>
   ('c \<Rightarrow> registryEntry list option cacheEnvelope option) \<Rightarrow> bool \<Rightarrow> (file_call \<Rightarrow> bool) \<Rightarrow> registryEntry list option \<Rightarrow> time \<Rightarrow> bool \<Rightarrow> time \<Rightarrow> string \<Rightarrow>
   string \<Rightarrow> bytes \<Rightarrow> 'c option \<Rightarrow> (Machine list \<times> source \<times> registry_error option) \<times> 'c option" where
  "run_registry hkdf ae unmarshal marshalC unmarshalC readable io answer stored_at arrived start signalURL ownerID secret cache =
     (if \<not> HasRootedIdentity secret then (([], SourceSkipped, None), cache)
      else
        let env = readCacheEnvelope unmarshalC readable (cacheScope signalURL ownerID) cache;
            cached = (case env of
                        None \<Rightarrow> None
                      | Some e \<Rightarrow> (case decodeCachedRegistry hkdf ae unmarshal e secret signalURL of Inl err \<Rightarrow> None | Inr ms \<Rightarrow> Some ms));
            plan = (if env \<noteq> None \<and> cached = None then planFetch else directoryPlan env start);
            old = (case cached of None \<Rightarrow> [] | Some ms \<Rightarrow> ms);
            (r, cache') = fetchRegistry hkdf ae unmarshal marshalC io answer stored_at signalURL ownerID secret cache
        in case plan of
             planFresh \<Rightarrow> ((old, SourceCacheFresh, None), cache)
           | planStale \<Rightarrow>
               if \<not> arrived then ((old, SourceCacheStale, None), cache)
               else (case r of
                       Inl e \<Rightarrow> ((old, SourceCacheStale, Some e), cache')
                     | Inr ms \<Rightarrow> ((ms, SourceRelay, None), cache'))
           | planFetch \<Rightarrow>
               (case r of
                  Inr ms \<Rightarrow> ((ms, SourceRelay, None), cache')
                | Inl e \<Rightarrow>
                    (case cached of
                       Some ms \<Rightarrow> ((ms, SourceCacheFallback, Some e), cache')
                     | None \<Rightarrow> (([], SourceError, Some e), cache'))))"

definition RegistryIsCached :: "source \<Rightarrow> bool" where
  "RegistryIsCached s \<longleftrightarrow> s = SourceCacheFresh \<or> s = SourceCacheStale \<or> s = SourceCacheFallback"

section \<open>TURN credentials\<close>

record ICEServer =
  icURLs :: "string list"
  icUsername :: string
  icCredential :: string

record turnCreds =
  tcUsername :: string
  tcPassword :: string
  tcTTL :: int
  tcURLs :: "string list"

text \<open>\<open>strconv.ParseInt(s, 10, 64)\<close>.\<close>

definition ParseInt64 :: "string \<Rightarrow> int option" where
  "ParseInt64 s =
     (let neg = HasPrefix s ''-''; ds = (if neg \<or> HasPrefix s ''+'' then tl s else s);
          v = atoi ds; x = (if neg then - v else v)
      in if ds = [] \<or> \<not> list_all is_digit ds \<or> x < - (2 ^ 63) \<or> x \<ge> 2 ^ 63 then None else Some x)"

text \<open>A product of \<open>int64\<close> values wraps.\<close>

definition wrap64 :: "int \<Rightarrow> int" where "wrap64 x = sint (word_of_int x :: 64 word)"

definition turnExpiry :: "turnCreds \<Rightarrow> time \<Rightarrow> time option" where
  "turnExpiry tc now =
     (case ParseInt64 (tcUsername tc) of
        Some u \<Rightarrow> if u > 0 then Some (u * second) else if tcTTL tc > 0 then Some (now + wrap64 (tcTTL tc * second)) else None
      | None \<Rightarrow> if tcTTL tc > 0 then Some (now + wrap64 (tcTTL tc * second)) else None)"

datatype 'a http_answer = RequestFailed | NotOK | OKBody "'a option"

definition FetchTURNCreds :: "turnCreds http_answer \<Rightarrow> time \<Rightarrow> (ICEServer list \<times> time option) option" where
  "FetchTURNCreds answer now =
     (case answer of
        RequestFailed \<Rightarrow> None
      | NotOK \<Rightarrow> Some ([], None)
      | OKBody None \<Rightarrow> None
      | OKBody (Some tc) \<Rightarrow>
          if tcURLs tc = [] then Some ([], None)
          else Some ([\<lparr>icURLs = tcURLs tc, icUsername = tcUsername tc, icCredential = tcPassword tc\<rparr>], turnExpiry tc now))"

definition FetchTURN :: "turnCreds http_answer \<Rightarrow> time \<Rightarrow> ICEServer list option" where
  "FetchTURN answer now = map_option fst (FetchTURNCreds answer now)"

definition iceServers :: "ICEServer list \<Rightarrow> string list \<Rightarrow> ICEServer list" where
  "iceServers turn stunFallback =
     (if turn \<noteq> [] then turn else if stunFallback = [] then [] else [\<lparr>icURLs = stunFallback, icUsername = [], icCredential = []\<rparr>])"

definition ResolveICE :: "turnCreds http_answer \<Rightarrow> time \<Rightarrow> string \<Rightarrow> string list \<Rightarrow> ICEServer list option" where
  "ResolveICE answer now signalURL stunFallback =
     (case (if TrimSpace signalURL \<noteq> [] then FetchTURN answer now else Some []) of
        None \<Rightarrow> None
      | Some turn \<Rightarrow>
          if turn \<noteq> [] then Some turn
          else if stunFallback = [] then Some [] else Some [\<lparr>icURLs = stunFallback, icUsername = [], icCredential = []\<rparr>])"

definition fetchICE ::
  "(ICEServer list option cacheEnvelope \<Rightarrow> 'c) \<Rightarrow> (file_call \<Rightarrow> bool) \<Rightarrow> turnCreds http_answer \<Rightarrow> time \<Rightarrow> time \<Rightarrow> string \<Rightarrow> string list \<Rightarrow> 'c option \<Rightarrow>
   ICEServer list option \<times> 'c option" where
  "fetchICE marshalC io answer now stored_at turnURL stunFallback cache =
     (case FetchTURNCreds answer now of
        None \<Rightarrow> (None, cache)
      | Some (servers, expiry) \<Rightarrow>
          (Some (iceServers servers stunFallback), writeCacheEnvelope marshalC io (cacheScope turnURL []) stored_at expiry (Some servers) cache))"

text \<open>The ICE part of \<open>Run\<close>: the servers, their source and the cache file; \<open>later\<close> is the time read after a failed fetch.\<close>

definition run_ice ::
  "(ICEServer list option cacheEnvelope \<Rightarrow> 'c) \<Rightarrow> ('c \<Rightarrow> ICEServer list option cacheEnvelope option) \<Rightarrow> bool \<Rightarrow> (file_call \<Rightarrow> bool) \<Rightarrow>
   turnCreds http_answer \<Rightarrow> time \<Rightarrow> time \<Rightarrow> time \<Rightarrow> time \<Rightarrow> string \<Rightarrow> string list \<Rightarrow> 'c option \<Rightarrow> (ICEServer list \<times> source) \<times> 'c option" where
  "run_ice marshalC unmarshalC readable io answer now stored_at later start turnURL stunFallback cache =
     (if TrimSpace turnURL = [] then (([], SourceSkipped), cache)
      else
        let env0 = readCacheEnvelope unmarshalC readable (cacheScope turnURL []) cache;
            env = (case env0 of None \<Rightarrow> None | Some e \<Rightarrow> if cePayload e = None then None else Some e);
            cachedICE = (case env of None \<Rightarrow> [] | Some e \<Rightarrow> the (cePayload e))
        in if turnPlan env start = planFresh then ((iceServers cachedICE stunFallback, SourceCacheFresh), cache)
           else case fetchICE marshalC io answer now stored_at turnURL stunFallback cache of
                  (Some servers, cache') \<Rightarrow> ((servers, SourceRelay), cache')
                | (None, cache') \<Rightarrow>
                    if cachedICE \<noteq> [] \<and> (case env of None \<Rightarrow> False | Some e \<Rightarrow> (case ceExpiresAt e of None \<Rightarrow> False | Some x \<Rightarrow> later < x))
                    then ((iceServers cachedICE stunFallback, SourceCacheFallback), cache')
                    else (([], SourceError), cache'))"

section \<open>What a cached answer stands for\<close>

definition all_revoked :: "Revocation list \<Rightarrow> Revocation list \<Rightarrow> bool" where
  "all_revoked as rs \<longleftrightarrow> (\<forall>a \<in> set as. IsMachineRevoked (rvMachineID a) (rvOwnerID a) rs)"

lemma record_all_steps:
  "record_all verify marshal unmarshal ios as f = (ok, f') \<Longrightarrow> (deny_step verify marshal unmarshal)\<^sup>*\<^sup>* f f'"
proof (induction as arbitrary: f)
  case (Cons a as)
  obtain e f1 where r: "RecordRevocation verify marshal unmarshal True (ios a) a f = (e, f1)" by fastforce
  have step: "deny_step verify marshal unmarshal f f1" by (rule deny_step.recorded [OF r])
  show ?case
  proof (cases e)
    case None
    then have "(deny_step verify marshal unmarshal)\<^sup>*\<^sup>* f1 f'" using Cons r by simp
    with step show ?thesis by (rule converse_rtranclp_into_rtranclp)
  next
    case (Some err)
    then show ?thesis using Cons.prems r step by auto
  qed
qed simp

lemma record_all_stored:
  assumes json: "json_reads revocations_text marshal unmarshal"
  shows "record_all verify marshal unmarshal ios as f = (True, f') \<Longrightarrow> ListRevocations verify unmarshal True f = Inr rs \<Longrightarrow>
    \<exists>rs'. ListRevocations verify unmarshal True f' = Inr rs' \<and> all_revoked as rs'"
proof (induction as arbitrary: f rs)
  case Nil
  then show ?case by (simp add: all_revoked_def)
next
  case (Cons a as)
  obtain f1 where r: "RecordRevocation verify marshal unmarshal True (ios a) a f = (None, f1)"
      and rest: "record_all verify marshal unmarshal ios as f1 = (True, f')"
    using Cons.prems(1) by (auto split: prod.splits option.splits)
  obtain rs1 where rs1: "ListRevocations verify unmarshal True f1 = Inr rs1" "a \<in> set rs1"
    using RecordRevocation_result [OF json Cons.prems(2) r] by auto
  obtain rs' where rs': "ListRevocations verify unmarshal True f' = Inr rs'" "all_revoked as rs'" using Cons.IH [OF rest rs1(1)] by blast
  have "IsMachineRevoked (rvMachineID a) (rvOwnerID a) rs1" using rs1(2) by (auto simp: IsMachineRevoked_iff)
  then have "IsMachineRevoked (rvMachineID a) (rvOwnerID a) rs'"
    using deny_run_keeps [OF json record_all_steps [OF rest] rs1(1)] rs'(1) by auto
  then show ?case using rs' by (auto simp: all_revoked_def)
qed

text \<open>
  A history: warm-ups and refreshes with any relay address that is text, any answers, times and faults, and other changes of the deny-list. The log holds the answers that verified,
  each with its scope and the time it was stored.
\<close>

type_synonym answer_log = "(time \<times> string \<times> Revocation list) list"

definition logged ::
  "(bytes \<Rightarrow> bytes \<Rightarrow> bytes \<Rightarrow> bool) \<Rightarrow> Revocation list option \<Rightarrow> time \<Rightarrow> string \<Rightarrow> string \<Rightarrow> answer_log \<Rightarrow> answer_log" where
  "logged verify answer t signalURL owner log =
     (case FetchRevocations verify answer owner of Inl e \<Rightarrow> log | Inr as \<Rightarrow> (t, cacheScope signalURL owner, as) # log)"

inductive warm_step ::
  "(bytes \<Rightarrow> bytes \<Rightarrow> bytes \<Rightarrow> bool) \<Rightarrow> (localRevocations \<Rightarrow> 'd) \<Rightarrow> ('d \<Rightarrow> localRevocations option) \<Rightarrow> (unit cacheEnvelope \<Rightarrow> 'c) \<Rightarrow>
   ('c \<Rightarrow> unit cacheEnvelope option) \<Rightarrow> ('d option \<times> 'c option) \<times> answer_log \<Rightarrow> ('d option \<times> 'c option) \<times> answer_log \<Rightarrow> bool"
  for verify marshal unmarshal marshalC unmarshalC where
  warm: "ValidString (cacheScope url owner) \<Longrightarrow> run_revocations verify marshal unmarshal marshalC unmarshalC readable ios ioC rooted answer t arrived start url owner fs = (src, fs') \<Longrightarrow>
    warm_step verify marshal unmarshal marshalC unmarshalC (fs, log) (fs', logged verify answer t url owner log)"
| refresh: "ValidString (cacheScope url owner) \<Longrightarrow> fetchRevocations verify marshal unmarshal marshalC ios ioC answer t url owner fs = (out, fs') \<Longrightarrow>
    warm_step verify marshal unmarshal marshalC unmarshalC (fs, log) (fs', logged verify answer t url owner log)"
| other: "deny_step verify marshal unmarshal deny deny' \<Longrightarrow>
    warm_step verify marshal unmarshal marshalC unmarshalC ((deny, cache), log) ((deny', cache), log)"

text \<open>What JSON keeps of an envelope without a payload.\<close>

definition envelope_text :: "unit cacheEnvelope \<Rightarrow> bool" where "envelope_text e \<longleftrightarrow> ValidString (ceScope e)"

definition warm_inv ::
  "(bytes \<Rightarrow> bytes \<Rightarrow> bytes \<Rightarrow> bool) \<Rightarrow> ('d \<Rightarrow> localRevocations option) \<Rightarrow> ('c \<Rightarrow> unit cacheEnvelope option) \<Rightarrow>
   ('d option \<times> 'c option) \<times> answer_log \<Rightarrow> bool" where
  "warm_inv verify unmarshal unmarshalC st \<longleftrightarrow>
     (\<exists>rs. ListRevocations verify unmarshal True (fst (fst st)) = Inr rs \<and>
        (\<forall>scope env. readCacheEnvelope unmarshalC True scope (snd (fst st)) = Some env \<longrightarrow>
           (\<exists>as. (ceFetchedAt env, scope, as) \<in> set (snd st) \<and> all_revoked as rs)))"

lemma all_revoked_mono:
  "all_revoked as rs \<Longrightarrow> \<forall>machine owner. IsMachineRevoked machine owner rs \<longrightarrow> IsMachineRevoked machine owner rs' \<Longrightarrow> all_revoked as rs'"
  by (auto simp: all_revoked_def)

lemma warm_inv_deny:
  assumes "json_reads revocations_text marshal unmarshal" "(deny_step verify marshal unmarshal)\<^sup>*\<^sup>* deny deny'"
    and "warm_inv verify unmarshal unmarshalC ((deny, cache), log)" "set log \<subseteq> set log'"
  shows "warm_inv verify unmarshal unmarshalC ((deny', cache), log')"
proof -
  obtain rs where rs: "ListRevocations verify unmarshal True deny = Inr rs"
      "\<And>scope env. readCacheEnvelope unmarshalC True scope cache = Some env \<Longrightarrow> \<exists>as. (ceFetchedAt env, scope, as) \<in> set log \<and> all_revoked as rs"
    using assms(3) by (auto simp: warm_inv_def)
  obtain rs' where rs': "ListRevocations verify unmarshal True deny' = Inr rs'"
      "\<forall>machine owner. IsMachineRevoked machine owner rs \<longrightarrow> IsMachineRevoked machine owner rs'"
    using deny_run_keeps [OF assms(1,2) rs(1)] by blast
  show ?thesis using rs' rs(2) assms(4) all_revoked_mono [OF _ rs'(2)] unfolding warm_inv_def by (intro exI [of _ rs']) fastforce
qed

lemma writeCacheEnvelope_read:
  assumes "json_reads envelope_text marshalC unmarshalC" "ValidString scope"
    and "readCacheEnvelope unmarshalC True scope' (writeCacheEnvelope marshalC io scope t expires payload f) = Some env"
  shows "scope' = scope \<and> ceFetchedAt env = t \<or> readCacheEnvelope unmarshalC True scope' f = Some env"
proof -
  let ?e = "\<lparr>ceV = cacheVersion, ceScope = scope, ceFetchedAt = t, ceExpiresAt = expires, cePayload = payload\<rparr>"
  have "writeCacheEnvelope marshalC io scope t expires payload f \<in> {f, Some (marshalC ?e)}"
    unfolding writeCacheEnvelope_def by (rule run_calls_content)
  moreover have "unmarshalC (marshalC ?e) = Some ?e" using assms(2) by (intro json_readsD [OF assms(1)]) (simp add: envelope_text_def)
  ultimately show ?thesis using assms(3) by (auto simp: readCacheEnvelope_def split: if_splits)
qed

lemma fetchRevocations_inv:
  assumes json: "json_reads revocations_text marshal unmarshal" and jsonC: "json_reads envelope_text marshalC unmarshalC"
    and inv: "warm_inv verify unmarshal unmarshalC (fs, log)"
    and f: "fetchRevocations verify marshal unmarshal marshalC ios ioC answer t url owner fs = (out, fs')"
    and scope: "ValidString (cacheScope url owner)"
  shows "warm_inv verify unmarshal unmarshalC (fs', logged verify answer t url owner log) \<and>
    (out = RevStored \<longrightarrow> (\<exists>as rs. FetchRevocations verify answer owner = Inr as \<and> ListRevocations verify unmarshal True (fst fs') = Inr rs \<and> all_revoked as rs))"
proof -
  obtain deny cache where fs: "fs = (deny, cache)" by fastforce
  obtain rs where rs: "ListRevocations verify unmarshal True deny = Inr rs" using inv by (auto simp: warm_inv_def fs)
  show ?thesis
  proof (cases "FetchRevocations verify answer owner")
    case (Inl e)
    then show ?thesis using f inv by (simp add: fetchRevocations_def fs logged_def split: prod.splits)
  next
    case (Inr as)
    obtain ok deny' where ra: "record_all verify marshal unmarshal ios as deny = (ok, deny')" by fastforce
    let ?log = "logged verify answer t url owner log"
    have log: "?log = (t, cacheScope url owner, as) # log" by (simp add: logged_def Inr)
    have inv': "warm_inv verify unmarshal unmarshalC ((deny', cache), ?log)"
      using warm_inv_deny [OF json record_all_steps [OF ra], of unmarshalC cache log ?log] inv by (simp add: fs log subset_insertI)
    show ?thesis
    proof (cases ok)
      case False
      then show ?thesis using f inv' ra Inr by (simp add: fetchRevocations_def fs)
    next
      case True
      define cache' where "cache' = writeCacheEnvelope marshalC ioC (cacheScope url owner) t None () cache"
      have fs': "fs' = (deny', cache')" using f ra Inr True by (simp add: fetchRevocations_def fs cache'_def)
      obtain rs' where rs': "ListRevocations verify unmarshal True deny' = Inr rs'" "all_revoked as rs'"
        using record_all_stored [OF json, of verify ios as deny deny' rs] ra True rs by auto
      have "\<exists>as'. (ceFetchedAt env, scope, as') \<in> set ?log \<and> all_revoked as' rs'"
        if "readCacheEnvelope unmarshalC True scope cache' = Some env" for scope env
        using writeCacheEnvelope_read [OF jsonC scope, of scope ioC t None "()" cache env] that inv' rs'
        by (auto simp: cache'_def log warm_inv_def)
      then show ?thesis using rs' fs' Inr by (auto simp: warm_inv_def)
    qed
  qed
qed

lemma run_revocations_inv:
  assumes "json_reads revocations_text marshal unmarshal" "json_reads envelope_text marshalC unmarshalC" "warm_inv verify unmarshal unmarshalC (fs, log)"
    and run: "run_revocations verify marshal unmarshal marshalC unmarshalC readable ios ioC rooted answer t arrived start url owner fs = (src, fs')"
    and scope: "ValidString (cacheScope url owner)"
  shows "warm_inv verify unmarshal unmarshalC (fs', logged verify answer t url owner log)"
proof -
  obtain out fs1 where f: "fetchRevocations verify marshal unmarshal marshalC ios ioC answer t url owner fs = (out, fs1)" by (metis prod.exhaust)
  have "warm_inv verify unmarshal unmarshalC (fs, logged verify answer t url owner log)"
    using assms(3) by (auto simp: warm_inv_def logged_def split: sum.splits) blast
  moreover have "warm_inv verify unmarshal unmarshalC (fs1, logged verify answer t url owner log)"
    using fetchRevocations_inv [OF assms(1-3) f scope] by blast
  moreover have "fs' \<in> {fs, fs1}" using run f by (auto simp: run_revocations_def split: if_splits cachePlan.splits)
  ultimately show ?thesis by auto
qed

lemma warm_step_inv:
  assumes json: "json_reads revocations_text marshal unmarshal" "json_reads envelope_text marshalC unmarshalC"
    and "warm_step verify marshal unmarshal marshalC unmarshalC st st'" "warm_inv verify unmarshal unmarshalC st"
  shows "warm_inv verify unmarshal unmarshalC st'"
  using assms(3)
proof cases
  case (warm readable ios ioC rooted answer t arrived start url owner fs src fs' log)
  then show ?thesis using run_revocations_inv [OF json] assms(4) by blast
next
  case (refresh ios ioC answer t url owner fs out fs' log)
  then show ?thesis using fetchRevocations_inv [OF json] assms(4) by blast
next
  case (other deny deny' cache log)
  then have "(deny_step verify marshal unmarshal)\<^sup>*\<^sup>* deny deny'" by (intro r_into_rtranclp)
  with other show ?thesis using warm_inv_deny [OF json(1), of verify deny deny' unmarshalC cache log log] assms(4) by simp
qed

text \<open>The invariant of a run, as long as JSON reads back.\<close>

definition warm_ok where
  "warm_ok verify marshal unmarshal marshalC unmarshalC st \<longleftrightarrow>
     (json_reads revocations_text marshal unmarshal \<longrightarrow> json_reads envelope_text marshalC unmarshalC \<longrightarrow> warm_inv verify unmarshal unmarshalC st)"

interpretation warm_runs: step_invariant "warm_step verify marshal unmarshal marshalC unmarshalC" "warm_ok verify marshal unmarshal marshalC unmarshalC"
  for verify marshal unmarshal marshalC unmarshalC
  by unfold_locales (unfold warm_ok_def, blast intro: warm_step_inv)

lemma warm_run_inv:
  assumes json: "json_reads revocations_text marshal unmarshal" "json_reads envelope_text marshalC unmarshalC"
    and "(warm_step verify marshal unmarshal marshalC unmarshalC)\<^sup>*\<^sup>* ((None, None), []) st"
  shows "warm_inv verify unmarshal unmarshalC st"
proof -
  have "warm_inv verify unmarshal unmarshalC ((None, None), [])" by (simp add: warm_inv_def ListRevocations_def readCacheEnvelope_def)
  then show ?thesis using warm_runs.run_keeps [OF assms(3)] json unfolding warm_ok_def by blast
qed

lemma directoryPlan_bound:
  "directoryPlan (Some e) now \<noteq> planFetch \<Longrightarrow> ceFetchedAt e \<le> now \<and> now - ceFetchedAt e < DirectoryStaleCeiling"
  by (auto simp: directoryPlan_def Let_def DirectoryStaleCeiling_def DirectoryTTL_def second_def split: if_splits)

section \<open>Credentials\<close>

text \<open>\<open>iceServers\<close> is the choice \<open>ResolveICE\<close> makes.\<close>

lemma ResolveICE_iceServers:
  "ResolveICE answer now signalURL stun =
     map_option (\<lambda>turn. iceServers turn stun) (if TrimSpace signalURL \<noteq> [] then FetchTURN answer now else Some [])"
  by (auto simp: ResolveICE_def iceServers_def split: option.splits)

text \<open>Credentials taken from the cache are alive: by two minutes when they are taken without asking, and at the time a failed fetch falls back on them.\<close>

lemma ice_credentials_live:
  assumes "run_ice marshalC unmarshalC readable io answer now stored_at later start turnURL stun cache = ((servers, src), cache')"
  shows "src = SourceCacheFresh \<Longrightarrow> \<exists>env. readCacheEnvelope unmarshalC readable (cacheScope turnURL []) cache = Some env \<and> ceFetchedAt env \<le> start \<and>
      (case ceExpiresAt env of None \<Rightarrow> start - ceFetchedAt env < DirectoryTTL | Some x \<Rightarrow> start + TURNRenewMargin < x)"
    and "src = SourceCacheFallback \<Longrightarrow> \<exists>env x. readCacheEnvelope unmarshalC readable (cacheScope turnURL []) cache = Some env \<and>
      ceExpiresAt env = Some x \<and> later < x"
proof -
  show "\<exists>env. readCacheEnvelope unmarshalC readable (cacheScope turnURL []) cache = Some env \<and> ceFetchedAt env \<le> start \<and>
      (case ceExpiresAt env of None \<Rightarrow> start - ceFetchedAt env < DirectoryTTL | Some x \<Rightarrow> start + TURNRenewMargin < x)"
    if "src = SourceCacheFresh"
    using assms that by (auto simp: run_ice_def Let_def turnPlan_def split: if_splits option.splits prod.splits)
  show "\<exists>env x. readCacheEnvelope unmarshalC readable (cacheScope turnURL []) cache = Some env \<and> ceExpiresAt env = Some x \<and> later < x"
    if "src = SourceCacheFallback"
    using assms that by (auto simp: run_ice_def Let_def split: if_splits option.splits prod.splits)
qed

section \<open>Properties\<close>

text \<open>
  C23. How old the revocations behind an attach can be: in any history of warm-ups and refreshes, with any answers and faults, a warm-up that does not
  report an error (and is not skipped) leaves a deny-list that revokes every machine of some verified answer of that relay for that owner, and that answer was
  stored by this warm-up or less than sixty seconds before it started. A cached time in the future never counts.
\<close>

theorem revocations_staleness:
  assumes json: "json_reads revocations_text marshal unmarshal" "json_reads envelope_text marshalC unmarshalC"
    and "(warm_step verify marshal unmarshal marshalC unmarshalC)\<^sup>*\<^sup>* ((None, None), []) (fs, log)"
    and "run_revocations verify marshal unmarshal marshalC unmarshalC readable ios ioC rooted answer t arrived start url owner fs = (src, fs')"
    and "src \<noteq> SourceError" "src \<noteq> SourceSkipped"
    and scope: "ValidString (cacheScope url owner)"
  shows "\<exists>as rs. ListRevocations verify unmarshal True (fst fs') = Inr rs \<and> all_revoked as rs \<and>
    (src = SourceRelay \<and> answer = Some as \<or>
     (\<exists>stored_at. (stored_at, cacheScope url owner, as) \<in> set log \<and> stored_at \<le> start \<and> start - stored_at < 60 * second))"
proof -
  have inv: "warm_inv verify unmarshal unmarshalC (fs, log)" by (rule warm_run_inv [OF json assms(3)])
  obtain deny cache where fs: "fs = (deny, cache)" by fastforce
  let ?env = "readCacheEnvelope unmarshalC readable (cacheScope url owner) cache"
  obtain out fs1 where f: "fetchRevocations verify marshal unmarshal marshalC ios ioC answer t url owner fs = (out, fs1)" by (metis prod.exhaust)
  note fetched = fetchRevocations_inv [OF json inv f scope]
  have rooted using assms(4,6) by (auto simp: run_revocations_def split: if_splits)
  show ?thesis
  proof (cases "src = SourceRelay")
    case True
    then have "out = RevStored" "fs' = fs1"
      using assms(4) f \<open>rooted\<close> by (auto simp: run_revocations_def split: cachePlan.splits if_splits)
    with fetched True show ?thesis by (auto simp: FetchRevocations_Inr)
  next
    case False
    with assms(4-6) f \<open>rooted\<close> have plan: "directoryPlan ?env start \<noteq> planFetch" and fs': "fs' = fs \<or> fs' = fs1"
      by (auto simp: run_revocations_def fs split: cachePlan.splits if_splits)
    then obtain env where env: "?env = Some env" by (cases ?env) (auto simp: directoryPlan_def)
    then have env': "readCacheEnvelope unmarshalC True (cacheScope url owner) cache = Some env"
      by (auto simp: readCacheEnvelope_def split: option.splits if_splits)
    then obtain rs as where 1: "ListRevocations verify unmarshal True deny = Inr rs" "(ceFetchedAt env, cacheScope url owner, as) \<in> set log" "all_revoked as rs"
      using inv unfolding warm_inv_def fs by auto blast
    have bound: "ceFetchedAt env \<le> start" "start - ceFetchedAt env < 60 * second"
      using directoryPlan_bound [of env start] plan env by (simp_all add: DirectoryStaleCeiling_def DirectoryTTL_def)
    have "\<exists>rs'. ListRevocations verify unmarshal True (fst fs') = Inr rs' \<and> all_revoked as rs'"
    proof (cases "fs' = fs")
      case True
      then show ?thesis using 1 by (auto simp: fs)
    next
      case False
      have "(deny_step verify marshal unmarshal)\<^sup>*\<^sup>* deny (fst fs1)"
        using f record_all_steps [of verify marshal unmarshal ios] by (auto simp: fetchRevocations_def fs split: sum.splits prod.splits bool.splits)
      then show ?thesis using False fs' deny_run_keeps [OF json(1) _ 1(1)] all_revoked_mono [OF 1(3)] by blast
    qed
    then show ?thesis using 1(2) bound by blast
  qed
qed

theorem revocations_staleness_witness:
  "\<exists>fs'. run_revocations demo_verify (\<lambda>x. x) (read_if revocations_text) (\<lambda>x. x) (read_if envelope_text) True (\<lambda>r c. True) (\<lambda>c. True) True (Some [demo_revocation]) 5 False 3 ''https://r'' demo_id (None, None)
      = (SourceRelay, fs') \<and> (\<exists>as rs. ListRevocations demo_verify (read_if revocations_text) True (fst fs') = Inr rs \<and> all_revoked as rs)"
proof -
  have fetch: "FetchRevocations demo_verify (Some [demo_revocation]) demo_id = Inr [demo_revocation]"
    by (auto simp: FetchRevocations_Inr verify_demo_revocation) (simp add: demo_revocation_def)
  have rec: "RecordRevocation demo_verify (\<lambda>x. x) (read_if revocations_text) True (\<lambda>c. True) demo_revocation None =
      (None, Some \<lparr>lrV = 1, lrRevocations = [demo_revocation]\<rparr>)"
    by (simp add: RecordRevocation_def verify_demo_revocation ListRevocations_def upsert_def write_temp_rename_def)
  obtain fs' where r: "run_revocations demo_verify (\<lambda>x. x) (read_if revocations_text) (\<lambda>x. x) (read_if envelope_text) True (\<lambda>r c. True) (\<lambda>c. True) True (Some [demo_revocation]) 5 False 3 ''https://r'' demo_id
      (None, None) = (SourceRelay, fs')"
    by (simp add: run_revocations_def readCacheEnvelope_def directoryPlan_def fetchRevocations_def fetch rec)
  have "TrimSpace ''https://r'' = ''https://r''" by (simp add: TrimSpace_plain all_ascii_def codes_def IsSpace_def)
  then have scope: "ValidString (cacheScope ''https://r'' demo_id)"
    by (intro ValidString_ascii) (simp add: cacheScope_def TrimRightSlash_def demo_id_def list_all_iff)
  show ?thesis using revocations_staleness [OF json_reads_read_if json_reads_read_if rtranclp.rtrancl_refl r _ _ scope] r by auto
qed

end
