(* ===== verification/Client_Reconnect.thy ===== *)
theory Client_Reconnect
  imports Go_Prelude
begin

text \<open>
  The client's reconnect loop: \<^verbatim>\<open>go/internal/client/reconnect.go\<close>. What one turn of the loop meets is an \<open>attempt\<close>: whether the context is done at the
  places where the code looks at it, whether the dial succeeds, how the session ends and how long it was up, and whether the context is
  done while the loop sleeps. A run is a list of attempts; it ends with an outcome, or is still running when the list is used up. The
  text of the last error, which only appears in messages, is left out.
\<close>

record ReconnectPolicy =
  rpBase :: duration
  rpCap :: duration
  rpMaxFailures :: int
  rpMinHealthy :: duration

definition policy_defaults :: "ReconnectPolicy \<Rightarrow> ReconnectPolicy" where
  "policy_defaults p =
     \<lparr>rpBase = (if rpBase p \<le> 0 then second else rpBase p),
      rpCap = (if rpCap p \<le> 0 then 15 * second else rpCap p),
      rpMaxFailures = (if rpMaxFailures p \<le> 0 then 7 else rpMaxFailures p),
      rpMinHealthy = (if rpMinHealthy p \<le> 0 then 5 * second else rpMinHealthy p)\<rparr>"

datatype detach_error = DataChannelClosed | EOF | Canceled | OtherError

definition isTransientDetach :: "detach_error option \<Rightarrow> bool" where
  "isTransientDetach err \<longleftrightarrow> err = None \<or> err = Some DataChannelClosed \<or> err = Some EOF \<or> err = Some Canceled"

record attempt =
  ra_done :: bool
  ra_dialed :: bool
  ra_done_dial :: bool
  ra_error :: "detach_error option"
  ra_done_run :: bool
  ra_uptime :: duration
  ra_done_sleep :: bool

datatype loop_event = Reconnecting nat | Resumed | Sleep duration | GaveUpAfter nat

datatype loop_outcome = LoopCancelled | LoopError detach_error | LoopGaveUp nat | LoopRunning

record loop_state =
  ls_backoff :: duration
  ls_failures :: nat
  ls_attempt :: nat
  ls_dropped :: bool

definition bumpBackoff :: "ReconnectPolicy \<Rightarrow> duration \<Rightarrow> duration" where
  "bumpBackoff p b = (if b < rpCap p then (if b * 2 > rpCap p then rpCap p else b * 2) else b)"

text \<open>The closure \<open>failed\<close>: an outcome that ends the loop, or the state to go on with.\<close>

definition failed :: "ReconnectPolicy \<Rightarrow> bool \<Rightarrow> loop_state \<Rightarrow> loop_event list \<times> (loop_outcome + loop_state)" where
  "failed p done_sleep st =
     (let n = Suc (ls_failures st)
      in if int n \<ge> rpMaxFailures p then ([GaveUpAfter n], Inl (LoopGaveUp n))
         else if done_sleep then ([Sleep (ls_backoff st)], Inl LoopCancelled)
         else ([Sleep (ls_backoff st)], Inr (st\<lparr>ls_failures := n, ls_backoff := bumpBackoff p (ls_backoff st)\<rparr>)))"

definition loop_turn :: "ReconnectPolicy \<Rightarrow> attempt \<Rightarrow> loop_state \<Rightarrow> loop_event list \<times> (loop_outcome + loop_state)" where
  "loop_turn p a st =
     (if ra_done a then ([], Inl LoopCancelled)
      else
        let st = (if ls_dropped st then st\<lparr>ls_attempt := ls_attempt st + 1\<rparr> else st);
            ev = (if ls_dropped st then [Reconnecting (ls_attempt st)] else [])
        in if ra_done_dial a then (ev, Inl LoopCancelled)
           else if \<not> ra_dialed a then (case failed p (ra_done_sleep a) st of (ev', r) \<Rightarrow> (ev @ ev', r))
           else
             let ev = ev @ (if ls_dropped st then [Resumed] else [])
             in if ra_done_run a then (ev, Inl LoopCancelled)
                else if \<not> isTransientDetach (ra_error a) then (ev, Inl (LoopError (the (ra_error a))))
                else if ra_uptime a \<ge> rpMinHealthy p
                     then (ev, Inr \<lparr>ls_backoff = rpBase p, ls_failures = 0, ls_attempt = 0, ls_dropped = True\<rparr>)
                else (case failed p (ra_done_sleep a) (st\<lparr>ls_dropped := True\<rparr>) of (ev', r) \<Rightarrow> (ev @ ev', r)))"

fun reconnect_loop :: "ReconnectPolicy \<Rightarrow> attempt list \<Rightarrow> loop_state \<Rightarrow> loop_event list \<times> loop_outcome" where
  "reconnect_loop p [] st = ([], LoopRunning)"
| "reconnect_loop p (a # as) st =
     (case loop_turn p a st of
        (ev, Inl out) \<Rightarrow> (ev, out)
      | (ev, Inr st') \<Rightarrow> (case reconnect_loop p as st' of (ev', out) \<Rightarrow> (ev @ ev', out)))"

definition ReconnectLoopWith :: "ReconnectPolicy \<Rightarrow> attempt list \<Rightarrow> loop_event list \<times> loop_outcome" where
  "ReconnectLoopWith policy as =
     (let p = policy_defaults policy
      in reconnect_loop p as \<lparr>ls_backoff = rpBase p, ls_failures = 0, ls_attempt = 0, ls_dropped = False\<rparr>)"

section \<open>Lemmas\<close>

definition healthy :: "ReconnectPolicy \<Rightarrow> attempt \<Rightarrow> bool" where
  "healthy p a \<longleftrightarrow> ra_dialed a \<and> ra_uptime a \<ge> rpMinHealthy p"

definition backoff_at :: "ReconnectPolicy \<Rightarrow> nat \<Rightarrow> duration" where
  "backoff_at p n = (if rpBase p \<le> rpCap p then min (rpCap p) (rpBase p * 2 ^ n) else rpBase p)"

definition valid_policy :: "ReconnectPolicy \<Rightarrow> bool" where
  "valid_policy p \<longleftrightarrow> rpBase p > 0 \<and> rpCap p > 0 \<and> rpMaxFailures p > 0 \<and> rpMinHealthy p > 0"

lemma valid_defaults: "valid_policy (policy_defaults p)"
  by (simp add: valid_policy_def policy_defaults_def second_def)

lemma bumpBackoff_at: "valid_policy p \<Longrightarrow> bumpBackoff p (backoff_at p n) = backoff_at p (Suc n)"
proof -
  assume v: "valid_policy p"
  have "rpBase p * 2 ^ Suc n = rpBase p * 2 ^ n * 2" by simp
  then show ?thesis using v by (auto simp: bumpBackoff_def backoff_at_def min_def valid_policy_def)
qed

definition loop_inv :: "ReconnectPolicy \<Rightarrow> loop_state \<Rightarrow> bool" where
  "loop_inv p st \<longleftrightarrow> ls_backoff st = backoff_at p (ls_failures st) \<and> int (ls_failures st) < rpMaxFailures p"

lemma backoff_at_0: "valid_policy p \<Longrightarrow> backoff_at p 0 = rpBase p"
  by (auto simp: backoff_at_def)

definition sleeps_ok :: "ReconnectPolicy \<Rightarrow> loop_event list \<Rightarrow> bool" where
  "sleeps_ok p ev \<longleftrightarrow> (\<forall>b. Sleep b \<in> set ev \<longrightarrow> (\<exists>n. int n < rpMaxFailures p \<and> b = backoff_at p n))"

lemma sleeps_ok_append [simp]: "sleeps_ok p (xs @ ys) \<longleftrightarrow> sleeps_ok p xs \<and> sleeps_ok p ys"
  by (auto simp: sleeps_ok_def)

lemma sleeps_ok_simps [simp]:
  "sleeps_ok p []" "sleeps_ok p (Reconnecting n # ev) = sleeps_ok p ev" "sleeps_ok p (Resumed # ev) = sleeps_ok p ev"
  "sleeps_ok p (GaveUpAfter n # ev) = sleeps_ok p ev"
  by (auto simp: sleeps_ok_def)

text \<open>A turn is fine when its sleeps are, when it goes on with \<open>k\<close> failures, and when it gives up at the limit.\<close>

definition turn_ok :: "ReconnectPolicy \<Rightarrow> nat \<Rightarrow> loop_event list \<times> (loop_outcome + loop_state) \<Rightarrow> bool" where
  "turn_ok p k t \<longleftrightarrow> sleeps_ok p (fst t) \<and>
     (case snd t of
        Inr st' \<Rightarrow> loop_inv p st' \<and> ls_failures st' = k
      | Inl out \<Rightarrow> out \<noteq> LoopRunning \<and> (\<forall>n. out = LoopGaveUp n \<longrightarrow> int n = rpMaxFailures p))"

lemma turn_ok_prepend: "sleeps_ok p ev \<Longrightarrow> turn_ok p k t \<Longrightarrow> turn_ok p k (case t of (ev', r) \<Rightarrow> (ev @ ev', r))"
  by (cases t) (simp add: turn_ok_def)

lemmas turn_ok_events = turn_ok_prepend [of p "[Reconnecting n]" for p n, simplified]
  turn_ok_prepend [of p "[Reconnecting n, Resumed]" for p n, simplified]

lemma failed_ok:
  assumes "valid_policy p" "loop_inv p st"
  shows "turn_ok p (Suc (ls_failures st)) (failed p d st)"
proof -
  have "sleeps_ok p [Sleep (ls_backoff st)]" using assms(2) by (auto simp: sleeps_ok_def loop_inv_def)
  then show ?thesis using assms bumpBackoff_at [OF assms(1)] by (auto simp: turn_ok_def failed_def loop_inv_def Let_def)
qed

lemma loop_turn_ok:
  assumes "valid_policy p" "loop_inv p st"
  shows "turn_ok p (if healthy p a then 0 else Suc (ls_failures st)) (loop_turn p a st)"
proof -
  define st1 where "st1 = (if ls_dropped st then st\<lparr>ls_attempt := ls_attempt st + 1\<rparr> else st)"
  have inv1: "loop_inv p st1" "loop_inv p (st1\<lparr>ls_dropped := True\<rparr>)" using assms(2) by (simp_all add: st1_def loop_inv_def)
  have fails: "ls_failures st1 = ls_failures st" "ls_failures (st1\<lparr>ls_dropped := True\<rparr>) = ls_failures st" by (simp_all add: st1_def)
  have end_ok: "turn_ok p k (ev, Inl out)" if "sleeps_ok p ev" "out = LoopCancelled \<or> (\<exists>e. out = LoopError e)" for k ev out
    using that by (auto simp: turn_ok_def)
  have start: "turn_ok p 0 (ev, Inr \<lparr>ls_backoff = rpBase p, ls_failures = 0, ls_attempt = 0, ls_dropped = True\<rparr>)" if "sleeps_ok p ev" for ev
    using that assms(1) by (simp add: turn_ok_def loop_inv_def backoff_at_0 valid_policy_def)
  show ?thesis
    unfolding loop_turn_def st1_def [symmetric] Let_def
    using failed_ok [OF assms(1) inv1(1)] failed_ok [OF assms(1) inv1(2)] unfolding fails
    by (simp add: healthy_def end_ok start turn_ok_events)
qed

lemma reconnect_loop_result:
  assumes "valid_policy p"
  shows "loop_inv p st \<Longrightarrow> reconnect_loop p as st = (ev, out) \<Longrightarrow>
    sleeps_ok p ev \<and> (\<forall>n. out = LoopGaveUp n \<longrightarrow> int n = rpMaxFailures p)"
proof (induction as arbitrary: st ev out)
  case (Cons a as)
  obtain ev1 r where t: "loop_turn p a st = (ev1, r)" by fastforce
  note turn = loop_turn_ok [OF assms Cons.prems(1), of a, unfolded t turn_ok_def fst_conv snd_conv]
  show ?case
  proof (cases r)
    case (Inl o1)
    then show ?thesis using Cons.prems(2) t turn by auto
  next
    case (Inr st')
    then obtain ev2 where r: "reconnect_loop p as st' = (ev2, out)" "ev = ev1 @ ev2"
      using Cons.prems(2) t by (auto split: prod.splits)
    then show ?thesis using Cons.IH [of st' ev2 out] turn Inr by auto
  qed
qed auto

lemma loop_running_bound:
  assumes "valid_policy p"
  shows "loop_inv p st \<Longrightarrow> reconnect_loop p as st = (ev, LoopRunning) \<Longrightarrow> list_all (\<lambda>a. \<not> healthy p a) bs \<Longrightarrow> as = bs @ cs \<Longrightarrow>
    int (ls_failures st + length bs) < rpMaxFailures p"
proof (induction bs arbitrary: as st ev)
  case Nil
  then show ?case by (simp add: loop_inv_def)
next
  case (Cons b bs)
  obtain ev1 r where t: "loop_turn p b st = (ev1, r)" by fastforce
  note turn = loop_turn_ok [OF assms Cons.prems(1), of b, unfolded t turn_ok_def fst_conv snd_conv]
  obtain st' where r: "r = Inr st'" using Cons.prems(2,4) t turn by (cases r) auto
  then obtain ev2 where "reconnect_loop p (bs @ cs) st' = (ev2, LoopRunning)" using Cons.prems(2,4) t by (auto split: prod.splits)
  then have "int (ls_failures st' + length bs) < rpMaxFailures p" using Cons.IH [of st' "bs @ cs" ev2] Cons.prems(3) turn r by auto
  then show ?case using turn r Cons.prems(3) by auto
qed

lemma loop_running_suffix:
  assumes "valid_policy p"
  shows "loop_inv p st \<Longrightarrow> reconnect_loop p (as @ bs) st = (ev, LoopRunning) \<Longrightarrow>
    \<exists>st' ev'. loop_inv p st' \<and> reconnect_loop p bs st' = (ev', LoopRunning)"
proof (induction as arbitrary: st ev)
  case (Cons a as)
  obtain ev1 r where t: "loop_turn p a st = (ev1, r)" by fastforce
  note turn = loop_turn_ok [OF assms Cons.prems(1), of a, unfolded t turn_ok_def fst_conv snd_conv]
  obtain st' where r: "r = Inr st'" using Cons.prems(2) t turn by (cases r) auto
  then obtain ev2 where "reconnect_loop p (as @ bs) st' = (ev2, LoopRunning)" using Cons.prems(2) t by (auto split: prod.splits)
  then show ?case using Cons.IH [of st' ev2] turn r by simp
qed auto

section \<open>Properties\<close>



end
