(* ===== verification/Client_Mux.thy ===== *)
theory Client_Mux
  imports Frames Runs
begin

text \<open>
  Several machines on one terminal: \<^verbatim>\<open>go/internal/client/mux.go\<close>. The goroutines of \<open>Run\<close> (one reader per session, the resize loop, the keyboard) share the focus,
  the size, the dead flags and the terminal under one mutex. Every critical section is one operation of the model; what a goroutine does after it has
  released the mutex (the title and the two resize frames of \<open>afterFocusChange\<close>, the frame of \<open>resizeLoop\<close>) is an operation of its own,
  which may run arbitrarily later. Frames handed to a session are recorded in the order they are sent.
\<close>

record Size =
  szCols :: "16 word"
  szRows :: "16 word"

datatype mux_out = OutData nat bytes | OutDisconnected nat | OutClear | OutTitle nat

record mux_state =
  mx_focus :: nat
  mx_size :: Size
  mx_dead :: "bool list"
  mx_quit :: bool
  mx_out :: "mux_out list"
  mx_sent :: "(nat \<times> bytes) list"
  mx_repaint :: "(nat \<times> Size) list"
  mx_resize :: "(nat \<times> Size) list"

definition NewMux :: "nat \<Rightarrow> Size \<Rightarrow> mux_state" where
  "NewMux n initial = \<lparr>mx_focus = 0, mx_size = initial, mx_dead = replicate n False, mx_quit = False, mx_out = [], mx_sent = [],
     mx_repaint = [], mx_resize = []\<rparr>"

text \<open>What \<open>Run\<close> does before it starts the goroutines.\<close>

definition resize_frame :: "Size \<Rightarrow> bytes" where
  "resize_frame sz = EncodeResize (szCols sz) (szRows sz)"

definition Run_start :: "mux_state \<Rightarrow> mux_state" where
  "Run_start st = st\<lparr>mx_sent := mx_sent st @ map (\<lambda>i. (i, resize_frame (mx_size st))) [0..<length (mx_dead st)],
     mx_out := mx_out st @ [OutTitle (mx_focus st)]\<rparr>"

definition nextLiveLocked :: "mux_state \<Rightarrow> nat option" where
  "nextLiveLocked st =
     find (\<lambda>j. \<not> mx_dead st ! j) (map (\<lambda>off. (mx_focus st + off) mod length (mx_dead st)) [1..<Suc (length (mx_dead st))])"

text \<open>A decrypted frame from session \<open>i\<close>, in \<open>readSession\<close>.\<close>

definition session_data :: "nat \<Rightarrow> bytes \<Rightarrow> mux_state \<Rightarrow> mux_state" where
  "session_data i pt st =
     (case DecodeFrame pt of
        None \<Rightarrow> st
      | Some (typ, payload) \<Rightarrow>
          if typ = FrameData \<and> i = mx_focus st then st\<lparr>mx_out := mx_out st @ [OutData i payload]\<rparr> else st)"

text \<open>The focus moves to a session: clear the screen; \<open>afterFocusChange\<close> is left to run.\<close>

definition move_focus :: "nat \<Rightarrow> mux_state \<Rightarrow> mux_state" where
  "move_focus idx st = st\<lparr>mx_focus := idx, mx_out := mx_out st @ [OutClear], mx_repaint := mx_repaint st @ [(idx, mx_size st)]\<rparr>"

definition onSessionEnd :: "nat \<Rightarrow> mux_state \<Rightarrow> mux_state" where
  "onSessionEnd i st =
     (if mx_dead st ! i then st
      else
        let st = st\<lparr>mx_dead := (mx_dead st)[i := True], mx_out := mx_out st @ [OutDisconnected i]\<rparr>
        in case nextLiveLocked st of
             None \<Rightarrow> st\<lparr>mx_quit := True\<rparr>
           | Some j \<Rightarrow> if i \<noteq> mx_focus st then st else move_focus j st)"

definition switchTo :: "nat \<Rightarrow> mux_state \<Rightarrow> mux_state" where
  "switchTo idx st =
     (if idx \<ge> length (mx_dead st) \<or> mx_dead st ! idx \<or> idx = mx_focus st then st else move_focus idx st)"

text \<open>\<open>afterFocusChange\<close> for the k-th focus change that has not run it yet.\<close>

definition afterFocusChange :: "nat \<Rightarrow> mux_state \<Rightarrow> mux_state" where
  "afterFocusChange k st =
     (if k \<ge> length (mx_repaint st) then st
      else let (idx, size) = mx_repaint st ! k
           in st\<lparr>mx_repaint := take k (mx_repaint st) @ drop (Suc k) (mx_repaint st), mx_out := mx_out st @ [OutTitle idx],
                 mx_sent := mx_sent st @ (if szRows size > 1 then [(idx, EncodeResize (szCols size) (szRows size - 1))] else []) @
                              [(idx, resize_frame size)]\<rparr>)"

text \<open>\<open>resizeLoop\<close>: the critical section, and the frame sent after it.\<close>

definition resize_lock :: "Size \<Rightarrow> mux_state \<Rightarrow> mux_state" where
  "resize_lock sz st = (if mx_resize st \<noteq> [] then st else st\<lparr>mx_size := sz, mx_resize := [(mx_focus st, sz)]\<rparr>)"

definition resize_send :: "mux_state \<Rightarrow> mux_state" where
  "resize_send st = (case mx_resize st of [] \<Rightarrow> st | (f, sz) # r \<Rightarrow> st\<lparr>mx_resize := r, mx_sent := mx_sent st @ [(f, resize_frame sz)]\<rparr>)"

definition forward :: "bytes \<Rightarrow> mux_state \<Rightarrow> mux_state" where
  "forward b st = st\<lparr>mx_sent := mx_sent st @ [(mx_focus st, EncodeData b)]\<rparr>"

definition command :: "byte \<Rightarrow> byte \<Rightarrow> mux_state \<Rightarrow> mux_state" where
  "command pre b st =
     (if 49 \<le> b \<and> b \<le> 57 then switchTo (unat (b - 49)) st
      else if b = 110 then (case nextLiveLocked st of None \<Rightarrow> st | Some j \<Rightarrow> switchTo j st)
      else if b = 113 then st\<lparr>mx_quit := True\<rparr>
      else if b = pre then forward [pre] st
      else st)"

section \<open>The keyboard: readStdin\<close>

datatype key_action = Forward bytes | Command byte

definition flush :: "bytes \<Rightarrow> key_action list" where
  "flush run = (if run \<noteq> [] then [Forward run] else [])"

fun stdin_chunk :: "byte \<Rightarrow> bool \<Rightarrow> bytes \<Rightarrow> bytes \<Rightarrow> key_action list \<times> bool" where
  "stdin_chunk pre armed run [] = (flush run, armed)"
| "stdin_chunk pre armed run (b # bs) =
     (if armed then let (as, armed') = stdin_chunk pre False [] bs in (flush run @ Command b # as, armed')
      else if b = pre then let (as, armed') = stdin_chunk pre True [] bs in (flush run @ as, armed')
      else stdin_chunk pre False (run @ [b]) bs)"

fun readStdin :: "byte \<Rightarrow> bool \<Rightarrow> bytes list \<Rightarrow> key_action list" where
  "readStdin pre armed [] = []"
| "readStdin pre armed (c # cs) = (let (as, armed') = stdin_chunk pre armed [] c in as @ readStdin pre armed' cs)"

definition key_effect :: "byte \<Rightarrow> key_action \<Rightarrow> mux_state \<Rightarrow> mux_state" where
  "key_effect pre a st = (case a of Forward b \<Rightarrow> forward b st | Command b \<Rightarrow> command pre b st)"

section \<open>Interleavings\<close>

inductive mux_step :: "byte \<Rightarrow> mux_state \<Rightarrow> mux_state \<Rightarrow> bool" for pre where
  data: "i < length (mx_dead st) \<Longrightarrow> mux_step pre st (session_data i pt st)"
| ended: "i < length (mx_dead st) \<Longrightarrow> mux_step pre st (onSessionEnd i st)"
| key: "mux_step pre st (key_effect pre a st)"
| moved: "mux_step pre st (afterFocusChange k st)"
| resized: "mux_step pre st (resize_lock sz st)"
| resize_sent: "mux_step pre st (resize_send st)"

section \<open>Lemmas\<close>

lemma nextLive_Some: "nextLiveLocked st = Some j \<Longrightarrow> mx_dead st \<noteq> [] \<Longrightarrow> j < length (mx_dead st) \<and> \<not> mx_dead st ! j"
  by (auto simp: nextLiveLocked_def find_Some_iff)

lemma nextLive_None:
  assumes "nextLiveLocked st = None" "mx_focus st < length (mx_dead st)" "j < length (mx_dead st)"
  shows "mx_dead st ! j"
proof -
  let ?n = "length (mx_dead st)" and ?f = "mx_focus st"
  obtain off where off: "1 \<le> off" "off < Suc ?n" "(?f + off) mod ?n = j"
  proof (cases "j > ?f")
    case True
    then show ?thesis using that [of "j - ?f"] assms(3) by simp
  next
    case False
    have "?f + (?n - (?f - j)) = j + ?n" using False assms(2) by simp
    then have "(?f + (?n - (?f - j))) mod ?n = j" using assms(3) by simp
    then show ?thesis using that [of "?n - (?f - j)"] assms(2,3) by auto
  qed
  then have "j \<in> set (map (\<lambda>off. (?f + off) mod ?n) [1..<Suc ?n])"
    unfolding set_map set_upt by (intro image_eqI [of _ _ off]) auto
  then show ?thesis using assms(1) unfolding nextLiveLocked_def find_None_iff by blast
qed

text \<open>The focus is on a live session as long as there is one, and the mux has quit when there is none.\<close>

definition mux_inv :: "nat \<Rightarrow> mux_state \<Rightarrow> bool" where
  "mux_inv n st \<longleftrightarrow>
     length (mx_dead st) = n \<and> mx_focus st < n \<and> ((\<exists>j < n. \<not> mx_dead st ! j) \<longrightarrow> \<not> mx_dead st ! mx_focus st) \<and>
     ((\<forall>j < n. mx_dead st ! j) \<longrightarrow> mx_quit st)"

lemma mux_inv_cong:
  "mux_inv n st \<Longrightarrow> mx_dead st' = mx_dead st \<Longrightarrow> mx_focus st' = mx_focus st \<Longrightarrow> mx_quit st' = mx_quit st \<or> mx_quit st' \<Longrightarrow> mux_inv n st'"
  by (auto simp: mux_inv_def)

lemma switchTo_inv: "mux_inv n st \<Longrightarrow> mux_inv n (switchTo i st)"
  by (auto simp: mux_inv_def switchTo_def move_focus_def)

lemma command_inv: "mux_inv n st \<Longrightarrow> mux_inv n (command pre b st)"
  by (auto simp: command_def forward_def intro: switchTo_inv mux_inv_cong split: option.splits)

lemma onSessionEnd_inv:
  assumes "mux_inv n st" "i < n"
  shows "mux_inv n (onSessionEnd i st)"
proof (cases "mx_dead st ! i")
  case True
  then show ?thesis using assms by (simp add: onSessionEnd_def)
next
  case False
  define st1 where "st1 = st\<lparr>mx_dead := (mx_dead st)[i := True], mx_out := mx_out st @ [OutDisconnected i]\<rparr>"
  have l: "length (mx_dead st1) = n" "mx_focus st1 < n" "mx_focus st1 = mx_focus st" using assms by (simp_all add: st1_def mux_inv_def)
  show ?thesis
  proof (cases "nextLiveLocked st1")
    case None
    then have "\<forall>j < n. mx_dead st1 ! j" using nextLive_None [of st1] l by simp
    moreover have "onSessionEnd i st = st1\<lparr>mx_quit := True\<rparr>" using None False by (simp add: onSessionEnd_def Let_def st1_def)
    ultimately show ?thesis using l by (auto simp: mux_inv_def)
  next
    case (Some j)
    have "mx_dead st1 \<noteq> []" using l by auto
    with nextLive_Some [OF Some] l have j: "j < n" "\<not> mx_dead st1 ! j" by simp_all
    have e: "onSessionEnd i st = (if i \<noteq> mx_focus st then st1 else move_focus j st1)"
      using Some False by (simp add: onSessionEnd_def Let_def st1_def)
    have "\<not> mx_dead st1 ! mx_focus st" if "i \<noteq> mx_focus st" using assms False that by (auto simp: st1_def mux_inv_def)
    then show ?thesis using e l j by (auto simp: mux_inv_def move_focus_def)
  qed
qed

lemma mux_step_inv: "mux_step pre st st' \<Longrightarrow> mux_inv n st \<Longrightarrow> mux_inv n st'"
proof (induction rule: mux_step.induct)
  case (data i st pt)
  then show ?case by (auto simp: session_data_def intro: mux_inv_cong split: option.splits prod.splits)
next
  case (ended i st)
  then have "i < n" by (simp add: mux_inv_def)
  with ended show ?case using onSessionEnd_inv by blast
next
  case (key st a)
  then show ?case by (cases a) (auto simp: key_effect_def forward_def intro: command_inv mux_inv_cong)
next
  case (moved st k)
  then show ?case by (auto simp: afterFocusChange_def intro: mux_inv_cong split: prod.splits)
next
  case (resized st sz)
  then show ?case by (auto simp: resize_lock_def intro: mux_inv_cong)
next
  case (resize_sent st)
  then show ?case by (auto simp: resize_send_def intro: mux_inv_cong split: list.splits)
qed

text \<open>Output of a session is written only while it has the focus.\<close>

lemma session_data_out:
  "mx_out (session_data i pt st) = mx_out st \<or> (\<exists>p. mx_out (session_data i pt st) = mx_out st @ [OutData i p] \<and> i = mx_focus st)"
  by (auto simp: session_data_def split: option.splits prod.splits)

section \<open>Keys\<close>

text \<open>What the keys mean one byte at a time.\<close>

datatype key = KeyByte byte | KeyCommand byte

fun keys :: "byte \<Rightarrow> bool \<Rightarrow> bytes \<Rightarrow> key list" where
  "keys pre armed [] = []"
| "keys pre armed (b # bs) =
     (if armed then KeyCommand b # keys pre False bs else if b = pre then keys pre True bs else KeyByte b # keys pre False bs)"

fun armed_after :: "byte \<Rightarrow> bool \<Rightarrow> bytes \<Rightarrow> bool" where
  "armed_after pre armed [] = armed"
| "armed_after pre armed (b # bs) = armed_after pre (\<not> armed \<and> b = pre) bs"

fun action_keys :: "key_action \<Rightarrow> key list" where
  "action_keys (Forward bs) = map KeyByte bs"
| "action_keys (Command b) = [KeyCommand b]"

lemma flush_keys: "concat (map action_keys (flush run)) = map KeyByte run"
  by (simp add: flush_def)

lemma stdin_chunk_keys:
  "stdin_chunk pre armed run bs = (as, armed') \<Longrightarrow> armed \<longrightarrow> run = [] \<Longrightarrow>
     concat (map action_keys as) = map KeyByte run @ keys pre armed bs \<and> armed' = armed_after pre armed bs"
proof (induction bs arbitrary: armed run as armed')
  case Nil
  then show ?case by (auto simp: flush_keys)
next
  case (Cons b bs)
  show ?case
  proof (cases armed)
    case True
    then obtain as1 where "stdin_chunk pre False [] bs = (as1, armed')" "as = flush run @ Command b # as1"
      using Cons.prems by (auto split: prod.splits)
    with Cons.IH [of False "[]" as1 armed'] True Cons.prems(2) show ?thesis by (simp add: flush_keys)
  next
    case False
    show ?thesis
    proof (cases "b = pre")
      case True
      then obtain as1 where "stdin_chunk pre True [] bs = (as1, armed')" "as = flush run @ as1"
        using Cons.prems False by (auto split: prod.splits)
      with Cons.IH [of True "[]" as1 armed'] True False show ?thesis by (simp add: flush_keys)
    next
      case n: False
      with Cons.IH [of False "run @ [b]" as armed'] Cons.prems False show ?thesis by simp
    qed
  qed
qed

lemma keys_append: "keys pre armed (xs @ ys) = keys pre armed xs @ keys pre (armed_after pre armed xs) ys"
  by (induction xs arbitrary: armed) auto

interpretation mux_runs: step_invariant "mux_step pre" "mux_inv n" for pre n
  by unfold_locales (rule mux_step_inv)

section \<open>Properties\<close>


text \<open>
  The focus is never stranded: whatever the order in which sessions end, keys are pressed and the terminal is resized, as long as some machine is
  connected the focused one is, and the mux has quit when none is; what reaches the screen comes from the machine that has the focus at that moment.
\<close>

theorem mux_focus_live:
  assumes "(mux_step pre)\<^sup>*\<^sup>* (Run_start (NewMux n initial)) st" "0 < n"
  shows "mx_focus st < n \<and> ((\<exists>j < n. \<not> mx_dead st ! j) \<longrightarrow> \<not> mx_dead st ! mx_focus st) \<and> ((\<forall>j < n. mx_dead st ! j) \<longrightarrow> mx_quit st) \<and>
    (\<forall>i pt. mx_out (session_data i pt st) = mx_out st \<or> (\<exists>p. mx_out (session_data i pt st) = mx_out st @ [OutData i p] \<and> i = mx_focus st))"
proof -
  have "mux_inv n (Run_start (NewMux n initial))" using assms(2) by (auto simp: mux_inv_def NewMux_def Run_start_def)
  with assms(1) have "mux_inv n st" by (rule mux_runs.run_keeps)
  then show ?thesis using session_data_out by (auto simp: mux_inv_def)
qed

theorem mux_focus_live_witness:
  "let st = Run_start (NewMux 2 \<lparr>szCols = 80, szRows = 24\<rparr>); st' = onSessionEnd 0 st
   in mx_focus st' = 1 \<and> (mux_step 15)\<^sup>*\<^sup>* st st' \<and> \<not> mx_dead st' ! mx_focus st'"
proof -
  define st where "st = Run_start (NewMux 2 \<lparr>szCols = 80, szRows = 24\<rparr>)"
  have s: "mux_step 15 st (onSessionEnd 0 st)" by (rule mux_step.ended) (simp add: st_def Run_start_def NewMux_def)
  then have "(mux_step 15)\<^sup>*\<^sup>* (Run_start (NewMux 2 \<lparr>szCols = 80, szRows = 24\<rparr>)) (onSessionEnd 0 st)" by (simp add: st_def)
  note live = mux_focus_live [OF this]
  have "mx_dead (onSessionEnd 0 st) = [True, False] \<and> mx_focus (onSessionEnd 0 st) = 1"
    by (simp add: st_def Run_start_def NewMux_def onSessionEnd_def nextLiveLocked_def move_focus_def numeral_2_eq_2 upt_rec)
  with live s show ?thesis by (auto simp: Let_def st_def)
qed

text \<open>
  A resize that overlaps a focus change can be undone: the size captured with the focus change is sent after the newer size, and no operation that is still
  to run corrects it.
\<close>

lemma stale_resize:
  "let st0 = Run_start (NewMux 2 \<lparr>szCols = 80, szRows = 24\<rparr>);
       st = afterFocusChange 0 (resize_send (resize_lock \<lparr>szCols = 120, szRows = 40\<rparr> (switchTo 1 st0)))
   in mx_focus st = 1 \<and> mx_size st = \<lparr>szCols = 120, szRows = 40\<rparr> \<and> mx_repaint st = [] \<and> mx_resize st = [] \<and>
      last (mx_sent st) = (1, resize_frame \<lparr>szCols = 80, szRows = 24\<rparr>)"
  by (simp add: Let_def Run_start_def NewMux_def switchTo_def move_focus_def resize_lock_def resize_send_def afterFocusChange_def numeral_2_eq_2)

end
