(* ===== verification/Client_Shares.thy ===== *)
theory Client_Shares
  imports Client_Machines Grant_Store
begin

text \<open>
  Shares as the client keeps them: \<^verbatim>\<open>go/internal/client/shares.go\<close> and \<open>SaveGuestGrant\<close> of \<^verbatim>\<open>grantctl.go\<close>. An owner records every grant it mints, a guest keeps the
  grants it received. A directory maps file names to contents; a file that cannot be read is as if absent, a write succeeds, does not touch the file or leaves
  other content, as in the agent's store. \<open>sort.Slice\<close> does not say how it orders equal elements; the model keeps their order.
\<close>

section \<open>The owner's side\<close>

record OwnerShare =
  osRecord :: string
  osMachineName :: string
  osRevoked :: bool

type_synonym ('f) dir = "(string, 'f) gomap"

datatype share_error = ShareBadRecord | ShareNoDir | ShareNotWritten | ShareMissing | ShareCorrupt | NoShare | ManyShares nat

definition write_file :: "'f write_outcome \<Rightarrow> string \<Rightarrow> 'f \<Rightarrow> 'f dir \<Rightarrow> share_error option \<times> 'f dir" where
  "write_file out name data d =
     (case out of Written \<Rightarrow> (None, mput d name data) | NotWritten \<Rightarrow> (Some ShareNotWritten, d) | Torn junk \<Rightarrow> (Some ShareNotWritten, mput d name junk))"

definition SaveOwnerShare ::
  "(string \<Rightarrow> wireGrant option) \<Rightarrow> (OwnerShare \<Rightarrow> 'f) \<Rightarrow> bool \<Rightarrow> 'f write_outcome \<Rightarrow> string \<Rightarrow> string \<Rightarrow> 'f dir \<Rightarrow> share_error option \<times> 'f dir" where
  "SaveOwnerShare unmarshalG marshal mkdir out record machineName d =
     (case ParseSignedGrant unmarshalG record of
        Inl e \<Rightarrow> (Some ShareBadRecord, d)
      | Inr sg \<Rightarrow>
          if \<not> mkdir then (Some ShareNoDir, d)
          else write_file out (grantPath (gGID (sgGrant sg))) (marshal \<lparr>osRecord = record, osMachineName = machineName, osRevoked = False\<rparr>) d)"

definition share_entry ::
  "(string \<Rightarrow> wireGrant option) \<Rightarrow> ('f \<Rightarrow> OwnerShare option) \<Rightarrow> string \<times> 'f \<Rightarrow> (OwnerShare \<times> SignedGrant) option" where
  "share_entry unmarshalG unmarshal e =
     (if \<not> json_ext (fst e) then None
      else case unmarshal (snd e) of
             None \<Rightarrow> None
           | Some s \<Rightarrow> (case ParseSignedGrant unmarshalG (osRecord s) of Inl err \<Rightarrow> None | Inr sg \<Rightarrow> Some (s, sg)))"

definition ListOwnerShares ::
  "(string \<Rightarrow> wireGrant option) \<Rightarrow> ('f \<Rightarrow> OwnerShare option) \<Rightarrow> 'f dir \<Rightarrow> (OwnerShare \<times> SignedGrant) list" where
  "ListOwnerShares unmarshalG unmarshal d =
     sort_key (\<lambda>(s, sg). - gNA (sgGrant sg)) (List.map_filter (share_entry unmarshalG unmarshal) d)"

definition MarkShareRevoked ::
  "(OwnerShare \<Rightarrow> 'f) \<Rightarrow> ('f \<Rightarrow> OwnerShare option) \<Rightarrow> 'f write_outcome \<Rightarrow> string \<Rightarrow> 'f dir \<Rightarrow> share_error option \<times> 'f dir" where
  "MarkShareRevoked marshal unmarshal out gid d =
     (case mget d (grantPath gid) of
        None \<Rightarrow> (Some ShareMissing, d)
      | Some raw \<Rightarrow>
          (case unmarshal raw of
             None \<Rightarrow> (Some ShareCorrupt, d)
           | Some s \<Rightarrow> write_file out (grantPath gid) (marshal (s\<lparr>osRevoked := True\<rparr>)) d))"

definition ResolveShareGID ::
  "(string \<Rightarrow> wireGrant option) \<Rightarrow> ('f \<Rightarrow> OwnerShare option) \<Rightarrow> string \<Rightarrow> 'f dir \<Rightarrow> share_error + OwnerShare \<times> SignedGrant" where
  "ResolveShareGID unmarshalG unmarshal pre d =
     (case filter (\<lambda>(s, sg). HasPrefix (gGID (sgGrant sg)) pre) (ListOwnerShares unmarshalG unmarshal d) of
        [] \<Rightarrow> Inl NoShare
      | [hit] \<Rightarrow> Inr hit
      | hits \<Rightarrow> Inl (ManyShares (length hits)))"

section \<open>The guest's side\<close>

definition SaveGuestGrant :: "bool \<Rightarrow> string write_outcome \<Rightarrow> string \<Rightarrow> string \<Rightarrow> string dir \<Rightarrow> share_error option \<times> string dir" where
  "SaveGuestGrant mkdir out gid record d =
     (if \<not> gidRe gid then (Some ShareBadRecord, d)
      else if \<not> mkdir then (Some ShareNoDir, d)
      else write_file out (grantPath gid) record d)"

definition guest_entry :: "(string \<Rightarrow> wireGrant option) \<Rightarrow> string \<times> string \<Rightarrow> SignedGrant option" where
  "guest_entry unmarshalG e =
     (if \<not> grant_file (fst e) then None else case ParseSignedGrant unmarshalG (snd e) of Inl err \<Rightarrow> None | Inr sg \<Rightarrow> Some sg)"

definition ListGuestGrants :: "(string \<Rightarrow> wireGrant option) \<Rightarrow> string dir \<Rightarrow> SignedGrant list" where
  "ListGuestGrants unmarshalG d = sort_key (\<lambda>sg. - gNA (sgGrant sg)) (List.map_filter (guest_entry unmarshalG) d)"

definition GuestGrantFor :: "(string \<Rightarrow> wireGrant option) \<Rightarrow> string dir \<Rightarrow> string \<Rightarrow> SignedGrant option" where
  "GuestGrantFor unmarshalG d machineID = find (\<lambda>sg. gMachine (sgGrant sg) = machineID) (ListGuestGrants unmarshalG d)"

text \<open>
  \<open>SweepGuestState\<close>: the loop over the grants removes the files of the closed ones and collects the machines with a live one; then the guest machines without a
  live grant are removed one by one, each with its own outcome. \<open>remove\<close> says of which grant files the removal succeeds.
\<close>

definition live_machines :: "(string \<Rightarrow> wireGrant option) \<Rightarrow> time \<Rightarrow> string dir \<Rightarrow> string list" where
  "live_machines unmarshalG now d =
     map (\<lambda>sg. gMachine (sgGrant sg)) (filter (\<lambda>sg. gNA (sgGrant sg) \<ge> unix (now - GrantSkew)) (ListGuestGrants unmarshalG d))"

definition closed_files :: "(string \<Rightarrow> wireGrant option) \<Rightarrow> time \<Rightarrow> string dir \<Rightarrow> string list" where
  "closed_files unmarshalG now d =
     map (\<lambda>sg. grantPath (gGID (sgGrant sg))) (filter (\<lambda>sg. gNA (sgGrant sg) < unix (now - GrantSkew)) (ListGuestGrants unmarshalG d))"

definition SweepGuestState ::
  "(string \<Rightarrow> wireGrant option) \<Rightarrow> (Machine list \<Rightarrow> 'f) \<Rightarrow> ('f \<Rightarrow> Machine list option) \<Rightarrow> (string \<Rightarrow> bool) \<Rightarrow> (string \<Rightarrow> file_call \<Rightarrow> bool) \<Rightarrow> time \<Rightarrow>
   string dir \<Rightarrow> 'f option \<Rightarrow> string dir \<times> 'f option" where
  "SweepGuestState unmarshalG marshal unmarshal remove io now d f =
     (let live = live_machines unmarshalG now d;
          d' = fold (\<lambda>name d. if remove name then mdel d name else d) (closed_files unmarshalG now d) d
      in case ListMachines unmarshal True f of
           Inl e \<Rightarrow> (d', f)
         | Inr machines \<Rightarrow>
             (d', fold (\<lambda>m f. snd (RemoveMachine marshal unmarshal True (io (mMachineID m)) (mMachineID m) f))
                    (filter (\<lambda>m. mOwner m \<noteq> [] \<and> mMachineID m \<notin> set live) machines) f))"

section \<open>Lemmas\<close>

lemma ListOwnerShares_mem:
  "(s, sg) \<in> set (ListOwnerShares unmarshalG unmarshal d) \<longleftrightarrow>
     (\<exists>name data. (name, data) \<in> set d \<and> json_ext name \<and> unmarshal data = Some s \<and> ParseSignedGrant unmarshalG (osRecord s) = Inr sg)"
  by (force simp: ListOwnerShares_def map_filter_def share_entry_def split: option.splits sum.splits if_splits)

lemma filter_single: "filter P xs = [x] \<Longrightarrow> P x \<and> x \<in> set xs \<and> (\<forall>y \<in> set xs. P y \<longrightarrow> y = x)"
proof -
  assume "filter P xs = [x]"
  then have "set (filter P xs) = {x}" by simp
  then show ?thesis by auto
qed

text \<open>A gid prefix resolves to a share only when it is the only recorded one with that prefix.\<close>

lemma ResolveShareGID_unique:
  assumes "ResolveShareGID unmarshalG unmarshal pre d = Inr (s, sg)"
  shows "(s, sg) \<in> set (ListOwnerShares unmarshalG unmarshal d) \<and> HasPrefix (gGID (sgGrant sg)) pre \<and>
    (\<forall>s' sg'. (s', sg') \<in> set (ListOwnerShares unmarshalG unmarshal d) \<longrightarrow> HasPrefix (gGID (sgGrant sg')) pre \<longrightarrow> s' = s \<and> sg' = sg)"
proof -
  let ?P = "\<lambda>(s :: OwnerShare, sg). HasPrefix (gGID (sgGrant sg)) pre"
  have "filter ?P (ListOwnerShares unmarshalG unmarshal d) = [(s, sg)]"
    using assms by (auto simp: ResolveShareGID_def split: list.splits)
  from filter_single [OF this] show ?thesis by auto
qed

lemma ListGuestGrants_mem:
  "sg \<in> set (ListGuestGrants unmarshalG d) \<longleftrightarrow>
     (\<exists>name data. (name, data) \<in> set d \<and> grant_file name \<and> ParseSignedGrant unmarshalG data = Inr sg)"
  by (force simp: ListGuestGrants_def map_filter_def guest_entry_def split: sum.splits if_splits)

text \<open>\<open>GuestGrantFor\<close> gives the grant that expires last among those for the machine.\<close>

lemma find_sorted_best:
  assumes "sorted (map k xs)" "find P xs = Some x" "y \<in> set xs" "P y"
  shows "k x \<le> (k y :: int)"
  using assms
proof (induction xs)
  case (Cons a xs)
  then show ?case by (cases "P a") auto
qed simp

lemma GuestGrantFor_best:
  assumes "GuestGrantFor unmarshalG d machineID = Some sg"
  shows "sg \<in> set (ListGuestGrants unmarshalG d) \<and> gMachine (sgGrant sg) = machineID \<and>
    (\<forall>sg' \<in> set (ListGuestGrants unmarshalG d). gMachine (sgGrant sg') = machineID \<longrightarrow> gNA (sgGrant sg') \<le> gNA (sgGrant sg))"
proof -
  let ?xs = "ListGuestGrants unmarshalG d"
  have s: "sorted (map (\<lambda>sg. - gNA (sgGrant sg)) ?xs)" by (simp add: ListGuestGrants_def)
  have f: "find (\<lambda>sg. gMachine (sgGrant sg) = machineID) ?xs = Some sg" using assms by (simp add: GuestGrantFor_def)
  then have "sg \<in> set ?xs" "gMachine (sgGrant sg) = machineID" by (auto simp: find_Some_iff)
  then show ?thesis using find_sorted_best [OF s f] by force
qed

lemma fold_RemoveMachine:
  assumes "json_reads (list_all machine_text) marshal unmarshal" "\<And>i c. io i c"
  shows "ListMachines unmarshal True f = Inr list \<Longrightarrow>
    ListMachines unmarshal True (fold (\<lambda>m f. snd (RemoveMachine marshal unmarshal True (io (mMachineID m)) (mMachineID m) f)) ms f) =
      Inr (filter (\<lambda>x. mMachineID x \<notin> mMachineID ` set ms) list)"
proof (induction ms arbitrary: f list)
  case (Cons m ms)
  have "snd (RemoveMachine marshal unmarshal True (io (mMachineID m)) (mMachineID m) f) = Some (marshal (filter (\<lambda>x. mMachineID x \<noteq> mMachineID m) list))"
    using Cons.prems assms(2) by (simp add: RemoveMachine_def with_machines_def writeMachines_def write_temp_rename_def)
  moreover have "ListMachines unmarshal True (Some (marshal (filter P list))) = Inr (filter P list)" for P
    using ListMachines_text [OF assms(1) Cons.prems] by (intro ListMachines_written [OF assms(1)]) (auto simp: list_all_iff)
  ultimately show ?case using Cons.IH [of "Some (marshal (filter (\<lambda>x. mMachineID x \<noteq> mMachineID m) list))"] by (simp add: conj_commute)
qed simp

text \<open>
  The sweep keeps every machine of one's own and every shared one with a grant whose window, with the skew, is not over; the other shared machines go.
\<close>

lemma SweepGuestState_machines:
  assumes "json_reads (list_all machine_text) marshal unmarshal" "\<And>i c. io i c" "ListMachines unmarshal True f = Inr machines"
    and "SweepGuestState unmarshalG marshal unmarshal remove io now d f = (d', f')"
  shows "\<exists>kept. ListMachines unmarshal True f' = Inr kept \<and>
    (\<forall>m \<in> set machines. (\<forall>x \<in> set machines. mMachineID x = mMachineID m \<longrightarrow> mOwner x = mOwner m) \<longrightarrow>
       (m \<in> set kept \<longleftrightarrow> mOwner m = [] \<or>
          (\<exists>sg \<in> set (ListGuestGrants unmarshalG d). gMachine (sgGrant sg) = mMachineID m \<and> unix (now - GrantSkew) \<le> gNA (sgGrant sg))))"
proof -
  let ?gone = "filter (\<lambda>m. mOwner m \<noteq> [] \<and> mMachineID m \<notin> set (live_machines unmarshalG now d)) machines"
  have f': "f' = fold (\<lambda>m f. snd (RemoveMachine marshal unmarshal True (io (mMachineID m)) (mMachineID m) f)) ?gone f"
    using assms(3,4) by (simp add: SweepGuestState_def Let_def)
  have kept: "ListMachines unmarshal True f' = Inr (filter (\<lambda>x. mMachineID x \<notin> mMachineID ` set ?gone) machines)"
    unfolding f' by (rule fold_RemoveMachine [OF assms(1-3)])
  have live: "i \<in> set (live_machines unmarshalG now d) \<longleftrightarrow>
      (\<exists>sg \<in> set (ListGuestGrants unmarshalG d). gMachine (sgGrant sg) = i \<and> unix (now - GrantSkew) \<le> gNA (sgGrant sg))" for i
    by (auto simp: live_machines_def)
  have "m \<in> set (filter (\<lambda>x. mMachineID x \<notin> mMachineID ` set ?gone) machines) \<longleftrightarrow> mOwner m = [] \<or> mMachineID m \<in> set (live_machines unmarshalG now d)"
    if m: "m \<in> set machines" "\<forall>x \<in> set machines. mMachineID x = mMachineID m \<longrightarrow> mOwner x = mOwner m" for m
  proof -
    have "mMachineID m \<in> mMachineID ` set ?gone \<longleftrightarrow> mOwner m \<noteq> [] \<and> mMachineID m \<notin> set (live_machines unmarshalG now d)" (is "?l \<longleftrightarrow> ?r")
    proof
      assume ?l
      then obtain x where "x \<in> set ?gone" "mMachineID m = mMachineID x" by blast
      then have "x \<in> set machines" "mOwner x \<noteq> []" "mMachineID m \<notin> set (live_machines unmarshalG now d)" "mMachineID x = mMachineID m" by simp_all
      moreover have "mOwner x = mOwner m" using m(2) calculation(1,4) by blast
      ultimately show ?r by simp
    next
      assume ?r
      then have "m \<in> set ?gone" using m(1) by simp
      then show ?l by blast
    qed
    then show ?thesis using m(1) unfolding set_filter mem_Collect_eq by blast
  qed
  then show ?thesis unfolding live [symmetric] using kept by blast
qed

end
