(* ===== verification/Agent_Tmux.thy ===== *)
theory Agent_Tmux
  imports Go_Strings "HOL-Library.State_Monad"
begin

text \<open>
  The agent's use of tmux (\<open>agent/windows.go\<close>, \<open>agent/grouped.go\<close>): the commands a client requests through the control channel, the snapshot
  of sessions and windows it is sent, and the grouped session of each attach with its removal and the sweep of orphans.

  tmux itself is not part of the sources: a server is any function \<open>tmux\<close> from an argument list and its state to the output (none when the
  command fails) and the next state. The operations run in the state monad over the server's state and the log of the commands executed, in
  the order of the code, so the theorems on the log hold for every behaviour of tmux and of whoever else uses it between two commands.
  The JSON decoding of a control message is the argument \<open>decode\<close>.
\<close>

section \<open>Running tmux\<close>

type_synonym 'w tmux_server = "string list \<Rightarrow> 'w \<Rightarrow> string option \<times> 'w"
type_synonym 'w tmux_state = "'w \<times> string list list"

definition exec :: "'w tmux_server \<Rightarrow> string list \<Rightarrow> ('w tmux_state, string option) state" where
  "exec tmux args = State (\<lambda>(w, log). let (out, w') = tmux args w in (out, (w', log @ [args])))"

definition skip :: "('w tmux_state, unit) state" where
  "skip = State_Monad.return ()"

definition run :: "'w tmux_server \<Rightarrow> string list \<Rightarrow> ('w tmux_state, unit) state" where
  "run tmux args = do { _ \<leftarrow> exec tmux args; skip }"

section \<open>Names and targets\<close>

text \<open>\<open>winIDRe\<close>: an at sign and one to nine digits.\<close>

definition winIDRe :: "string \<Rightarrow> bool" where
  "winIDRe s \<longleftrightarrow> (case s of [] \<Rightarrow> False | c # ds \<Rightarrow> c = CHR ''@'' \<and> ds \<noteq> [] \<and> length ds \<le> 9 \<and> list_all is_digit ds)"

definition safe_rune :: "nat \<Rightarrow> bool" where
  "safe_rune r \<longleftrightarrow> 97 \<le> r \<and> r \<le> 122 \<or> 65 \<le> r \<and> r \<le> 90 \<or> 48 \<le> r \<and> r \<le> 57 \<or> r = 32 \<or> r = 45 \<or> r = 95 \<or> r = 46"

definition safeName :: "string \<Rightarrow> string" where
  "safeName s = take 32 (map char_of (filter safe_rune (runes s)))"

definition validSessTarget :: "string \<Rightarrow> bool" where
  "validSessTarget s \<longleftrightarrow> s \<noteq> [] \<and> length s \<le> 64 \<and> CHR '':'' \<notin> set s \<and> list_all (\<lambda>r. \<not> (r < 32 \<or> r = 127)) (runes s)"

section \<open>Which session the client views\<close>

definition lines_of :: "string \<Rightarrow> string list" where
  "lines_of out = Split (CHR 0x0A) (TrimSpace out)"

definition list_clients :: "string list" where
  "list_clients = [''list-clients'', ''-F'', ''#{client_pid}|#{client_tty}|#{client_session}'']"

definition list_groups :: "string list" where
  "list_groups = [''list-sessions'', ''-F'', ''#{session_name}|#{session_group}'']"

text \<open>The loop of \<open>tmuxClient\<close>: the client of the PTY's process if it is listed, else the only one, counted in \<open>n\<close>.\<close>

fun client_scan :: "int \<Rightarrow> nat \<Rightarrow> string \<times> string \<Rightarrow> string list \<Rightarrow> string \<times> string" where
  "client_scan clientPid n only [] = (if n = 1 then only else ([], []))"
| "client_scan clientPid n only (line # ls) =
     (case Split (CHR ''|'') line of
        pid # tty # sess # _ \<Rightarrow> if Atoi pid = clientPid then (tty, sess) else client_scan clientPid (Suc n) (tty, sess) ls
      | _ \<Rightarrow> client_scan clientPid n only ls)"

text \<open>What the outputs of the two queries say: the client's terminal and session, and whether two sessions share a group.\<close>

definition client_view :: "int \<Rightarrow> string option \<Rightarrow> string \<times> string" where
  "client_view clientPid out = (case out of None \<Rightarrow> ([], []) | Some s \<Rightarrow> client_scan clientPid 0 ([], []) (lines_of s))"

definition tmuxClient :: "'w tmux_server \<Rightarrow> int \<Rightarrow> ('w tmux_state, string \<times> string) state" where
  "tmuxClient tmux clientPid = do {
     out \<leftarrow> exec tmux list_clients;
     State_Monad.return (client_view clientPid out) }"

fun group_map :: "string list \<Rightarrow> (string, string) gomap \<Rightarrow> (string, string) gomap" where
  "group_map [] m = m"
| "group_map (line # ls) m = group_map ls (case Split (CHR ''|'') line of [name, grp] \<Rightarrow> mput m name grp | _ \<Rightarrow> m)"

definition groups_of :: "string option \<Rightarrow> (string, string) gomap option" where
  "groups_of out = map_option (\<lambda>s. group_map (lines_of s) []) out"

definition sessionGroups :: "'w tmux_server \<Rightarrow> ('w tmux_state, (string, string) gomap option) state" where
  "sessionGroups tmux = do { out \<leftarrow> exec tmux list_groups; State_Monad.return (groups_of out) }"

definition group_in :: "(string, string) gomap \<Rightarrow> string \<Rightarrow> string" where
  "group_in g name = (case mget g name of None \<Rightarrow> [] | Some x \<Rightarrow> x)"

definition share_group :: "(string, string) gomap option \<Rightarrow> string \<Rightarrow> string \<Rightarrow> bool" where
  "share_group g target cur = (case g of None \<Rightarrow> False | Some m \<Rightarrow> group_in m target \<noteq> [] \<and> group_in m target = group_in m cur)"

definition sameView :: "'w tmux_server \<Rightarrow> string \<Rightarrow> string \<Rightarrow> ('w tmux_state, bool) state" where
  "sameView tmux target cur =
     (if target = cur then State_Monad.return True
      else do {
        g \<leftarrow> sessionGroups tmux;
        State_Monad.return (share_group g target cur) })"

section \<open>Control messages\<close>

record tmux_request =
  rqA :: string
  rqS :: string
  rqT :: string
  rqN :: string

definition exact :: "string \<Rightarrow> string" where "exact s = CHR ''='' # s"

definition switch_client :: "string \<Rightarrow> string \<Rightarrow> string list" where
  "switch_client tty sess = [''switch-client'', ''-c'', tty, ''-t'', exact sess]"

definition window_target :: "string \<Rightarrow> string \<Rightarrow> string" where
  "window_target sess wid = exact sess @ '':'' @ wid"

definition select_window :: "'w tmux_server \<Rightarrow> int \<Rightarrow> tmux_request \<Rightarrow> ('w tmux_state, unit) state" where
  "select_window tmux pid c =
     (if \<not> winIDRe (rqT c) then skip
      else do {
        (tty, cur) \<leftarrow> tmuxClient tmux pid;
        cur' \<leftarrow> (if tty \<noteq> [] \<and> rqS c \<noteq> [] then do {
                    sv \<leftarrow> sameView tmux (rqS c) cur;
                    (if \<not> sv \<and> validSessTarget (rqS c) then do { run tmux (switch_client tty (rqS c)); State_Monad.return (rqS c) }
                     else State_Monad.return cur) }
                 else State_Monad.return cur);
        run tmux [''select-window'', ''-t'', if validSessTarget cur' then window_target cur' (rqT c) else rqT c] })"

text \<open>Where a created window landed, from the output of \<open>new-window -P\<close>.\<close>

definition follow_window :: "'w tmux_server \<Rightarrow> string \<Rightarrow> string \<Rightarrow> string \<Rightarrow> string \<Rightarrow> ('w tmux_state, unit) state" where
  "follow_window tmux tty cur created wid =
     (if created = cur \<or> \<not> validSessTarget created then skip
      else do {
        sv \<leftarrow> sameView tmux created cur;
        (if sv then (if winIDRe wid \<and> validSessTarget cur then run tmux [''select-window'', ''-t'', window_target cur wid] else skip)
         else run tmux (switch_client tty created)) })"

definition new_window :: "'w tmux_server \<Rightarrow> int \<Rightarrow> tmux_request \<Rightarrow> ('w tmux_state, unit) state" where
  "new_window tmux pid c = do {
     (tty, cur) \<leftarrow> tmuxClient tmux pid;
     (let target = (if rqS c = [] then cur else rqS c)
      in if \<not> validSessTarget target then skip
         else do {
           out \<leftarrow> exec tmux [''new-window'', ''-t'', exact target @ '':'', ''-P'', ''-F'', ''#{session_name}|#{window_id}''];
           (case out of
              None \<Rightarrow> skip
            | Some s \<Rightarrow>
                if tty = [] then skip
                else (case Split (CHR ''|'') (TrimSpace s) of
                        [created, wid] \<Rightarrow> follow_window tmux tty cur created wid
                      | _ \<Rightarrow> skip)) }) }"

definition step_window :: "'w tmux_server \<Rightarrow> int \<Rightarrow> string \<Rightarrow> ('w tmux_state, unit) state" where
  "step_window tmux pid action = do {
     (tty, cur) \<leftarrow> tmuxClient tmux pid;
     (if validSessTarget cur then run tmux [action, ''-t'', exact cur] else skip) }"

definition switch_session :: "'w tmux_server \<Rightarrow> int \<Rightarrow> tmux_request \<Rightarrow> ('w tmux_state, unit) state" where
  "switch_session tmux pid c = do {
     (tty, cur) \<leftarrow> tmuxClient tmux pid;
     (if tty = [] then skip
      else do {
        sv \<leftarrow> sameView tmux (rqT c) cur;
        (if \<not> sv \<and> validSessTarget (rqT c) then run tmux (switch_client tty (rqT c)) else skip) }) }"

definition new_session :: "'w tmux_server \<Rightarrow> int \<Rightarrow> tmux_request \<Rightarrow> ('w tmux_state, unit) state" where
  "new_session tmux pid c = do {
     out \<leftarrow> exec tmux ([''new-session'', ''-d'', ''-P'', ''-F'', ''#{session_name}''] @
        (if safeName (rqN c) \<noteq> [] then [''-s'', safeName (rqN c)] else []));
     (case out of
        None \<Rightarrow> skip
      | Some s \<Rightarrow> do {
          (tty, _) \<leftarrow> tmuxClient tmux pid;
          (if tty \<noteq> [] \<and> validSessTarget (TrimSpace s) then run tmux (switch_client tty (TrimSpace s)) else skip) }) }"

definition kill_session :: "'w tmux_server \<Rightarrow> int \<Rightarrow> tmux_request \<Rightarrow> ('w tmux_state, unit) state" where
  "kill_session tmux pid c = do {
     (tty, cur) \<leftarrow> tmuxClient tmux pid;
     (if \<not> validSessTarget (rqT c) then skip
      else do {
        sv \<leftarrow> sameView tmux (rqT c) cur;
        (if \<not> sv then run tmux [''kill-session'', ''-t'', exact (rqT c)] else skip) }) }"

definition runTmuxControl :: "(bytes \<Rightarrow> tmux_request option) \<Rightarrow> 'w tmux_server \<Rightarrow> int \<Rightarrow> bytes \<Rightarrow> ('w tmux_state, unit) state" where
  "runTmuxControl decode tmux clientPid payload =
     (case decode payload of
        None \<Rightarrow> skip
      | Some c \<Rightarrow>
          let a = rqA c; idOK = winIDRe (rqT c)
          in if a = ''select-window'' then select_window tmux clientPid c
             else if a = ''kill-window'' then (if idOK then run tmux [''kill-window'', ''-t'', rqT c] else skip)
             else if a = ''rename-window'' then (if idOK then run tmux [''rename-window'', ''-t'', rqT c, safeName (rqN c)] else skip)
             else if a = ''new-window'' then new_window tmux clientPid c
             else if a = ''next-window'' \<or> a = ''previous-window'' then step_window tmux clientPid a
             else if a = ''switch-session'' then switch_session tmux clientPid c
             else if a = ''new-session'' then new_session tmux clientPid c
             else if a = ''rename-session'' then
               (if safeName (rqN c) \<noteq> [] \<and> validSessTarget (rqT c) then run tmux [''rename-session'', ''-t'', exact (rqT c), safeName (rqN c)] else skip)
             else if a = ''kill-session'' then kill_session tmux clientPid c
             else skip)"

section \<open>The snapshot\<close>

record winInfo =
  wID :: string
  wI :: int
  wN :: string
  wCmd :: string
  wP :: int
  wA :: bool
  wB :: bool

record sessInfo =
  sN :: string
  sAct :: bool
  sAW :: string
  sWin :: "winInfo list"

record sessSnapshot =
  snV :: int
  snSess :: "sessInfo list"

text \<open>One line of \<open>list-windows -a\<close>: the session, the window and whether it is the session's active one; a line with fewer than nine fields is skipped.\<close>

definition window_line :: "string \<Rightarrow> (string \<times> winInfo \<times> bool) option" where
  "window_line line =
     (case Split (CHR ''|'') line of
        f0 # f1 # f2 # f3 # f4 # f5 # f6 # f7 # f8 # _ \<Rightarrow>
          Some (f0, \<lparr>wID = f1, wI = Atoi f2, wN = f3, wCmd = f7, wP = Atoi f8, wA = (f5 = ''1''), wB = (f6 = ''1'')\<rparr>, f4 = ''1'')
      | _ \<Rightarrow> None)"

definition snap_add :: "string \<Rightarrow> string \<times> winInfo \<times> bool \<Rightarrow> (string, nat) gomap \<times> sessInfo list \<Rightarrow> (string, nat) gomap \<times> sessInfo list" where
  "snap_add activeSession entry st =
     (let (sname, w, cur) = entry; (pos, sess) = st;
          (si, pos', sess') =
            (case mget pos sname of
               Some i \<Rightarrow> (i, pos, sess)
             | None \<Rightarrow> (length sess, mput pos sname (length sess), sess @ [\<lparr>sN = sname, sAct = (sname = activeSession), sAW = [], sWin = []\<rparr>]));
          s = sess' ! si
      in (pos', sess'[si := s\<lparr>sWin := sWin s @ [w], sAW := (if cur then wID w else sAW s)\<rparr>]))"

fun snap_loop :: "string \<Rightarrow> string list \<Rightarrow> (string, nat) gomap \<times> sessInfo list \<Rightarrow> (string, nat) gomap \<times> sessInfo list" where
  "snap_loop activeSession [] st = st"
| "snap_loop activeSession (line # ls) st =
     snap_loop activeSession ls (case window_line line of None \<Rightarrow> st | Some entry \<Rightarrow> snap_add activeSession entry st)"

definition parseSessionsSnap :: "string \<Rightarrow> string \<Rightarrow> sessSnapshot option" where
  "parseSessionsSnap listAllWindows activeSession =
     (let sess = snd (snap_loop activeSession (lines_of listAllWindows) ([], []))
      in if sess = [] then None else Some \<lparr>snV = 2, snSess = sess\<rparr>)"

text \<open>\<open>groupedNameRe\<close>: the session names this agent mints.\<close>

definition hex8 :: "string \<Rightarrow> bool" where
  "hex8 s \<longleftrightarrow> length s = 8 \<and> list_all (\<lambda>c. c \<in> set hex_chars) s"

definition groupedNameRe :: "string \<Rightarrow> bool" where
  "groupedNameRe s \<longleftrightarrow> HasPrefix s ''mir-'' \<and> hex8 (drop 4 s) \<or> HasPrefix s ''guest-'' \<and> hex8 (drop 6 s)"

text \<open>The loop of \<open>collapseGrouped\<close>: the kept sessions, the index of the base among them, and the viewer's own active window.\<close>

fun collapse_loop :: "string \<Rightarrow> string \<Rightarrow> sessInfo list \<Rightarrow> sessInfo list \<times> nat option \<times> string option \<Rightarrow> sessInfo list \<times> nat option \<times> string option" where
  "collapse_loop active base [] st = st"
| "collapse_loop active base (s # ss) (kept, baseIdx, own) =
     (if groupedNameRe (sN s) then collapse_loop active base ss (kept, baseIdx, if sN s = active then Some (sAW s) else own)
      else collapse_loop active base ss (kept @ [s], if sN s = base then Some (length kept) else baseIdx, own))"

definition collapseGrouped :: "sessSnapshot \<Rightarrow> string \<Rightarrow> string \<Rightarrow> sessSnapshot" where
  "collapseGrouped snap active base =
     (let (kept, baseIdx, own) = collapse_loop active base (snSess snap) ([], None, None)
      in snap\<lparr>snSess :=
           (case (baseIdx, own) of
              (Some i, Some aw) \<Rightarrow> kept[i := (kept ! i)\<lparr>sAct := True, sAW := (if aw \<noteq> [] then aw else sAW (kept ! i))\<rparr>]
            | _ \<Rightarrow> kept)\<rparr>)"

definition list_windows :: "string list" where
  "list_windows = [''list-windows'', ''-a'', ''-F'',
     ''#{session_name}|#{window_id}|#{window_index}|#{window_name}|#{window_active}|#{window_activity_flag}|#{window_bell_flag}|#{pane_current_command}|#{window_panes}'']"

text \<open>\<open>marshal\<close> is the JSON encoding of a snapshot.\<close>

definition tmuxSessionsJSON :: "(sessSnapshot \<Rightarrow> bytes) \<Rightarrow> 'w tmux_server \<Rightarrow> int \<Rightarrow> string \<Rightarrow> ('w tmux_state, bytes option) state" where
  "tmuxSessionsJSON marshal tmux clientPid collapseBase = do {
     out \<leftarrow> exec tmux list_windows;
     (case out of
        None \<Rightarrow> State_Monad.return None
      | Some s \<Rightarrow> do {
          (_, active) \<leftarrow> tmuxClient tmux clientPid;
          State_Monad.return (map_option (\<lambda>snap. marshal (if collapseBase \<noteq> [] then collapseGrouped snap active collapseBase else snap)) (parseSessionsSnap s active)) }) }"

fun after_s :: "string list \<Rightarrow> string" where
  "after_s (a # b # l) = (if a = ''-s'' then b else after_s (b # l))"
| "after_s l = []"

definition sessionFromLaunch :: "string list \<Rightarrow> string" where
  "sessionFromLaunch launch = (if launch = [] \<or> hd launch \<noteq> ''tmux'' then [] else after_s launch)"

section \<open>Grouped sessions\<close>

definition defaultLaunch :: "string list" where
  "defaultLaunch = [''tmux'', ''new'', ''-A'', ''-s'', ''main'']"

definition isDefaultTmuxLaunch :: "string list \<Rightarrow> bool" where
  "isDefaultTmuxLaunch launch \<longleftrightarrow> length launch = length defaultLaunch \<and> list_all (\<lambda>i. launch ! i = defaultLaunch ! i) [0..<length launch]"

text \<open>\<open>rnd\<close> are the four bytes read from the random source.\<close>

definition newAttachSessionName :: "bytes \<Rightarrow> string" where
  "newAttachSessionName rnd = ''mir-'' @ hex_EncodeToString rnd"

text \<open>\<open>gid[:8]\<close> panics on a shorter gid.\<close>

definition guestSessionName :: "string \<Rightarrow> string option" where
  "guestSessionName gid = (if length gid < 8 then None else Some (''guest-'' @ take 8 gid))"

definition ensureGroupedBase :: "'w tmux_server \<Rightarrow> string \<Rightarrow> ('w tmux_state, bool) state" where
  "ensureGroupedBase tmux base = do {
     has \<leftarrow> exec tmux [''has-session'', ''-t'', exact base];
     (if has \<noteq> None then State_Monad.return True
      else do {
        created \<leftarrow> exec tmux [''new-session'', ''-d'', ''-s'', base];
        (if created \<noteq> None then State_Monad.return True
         else do { again \<leftarrow> exec tmux [''has-session'', ''-t'', exact base]; State_Monad.return (again \<noteq> None) }) }) }"

definition groupedLaunch :: "string \<Rightarrow> string \<Rightarrow> string list" where
  "groupedLaunch base name = [''tmux'', ''new-session'', ''-A'', ''-t'', base, ''-s'', name]"

definition killGroupedSession :: "'w tmux_server \<Rightarrow> string \<Rightarrow> ('w tmux_state, unit) state" where
  "killGroupedSession tmux name = (if groupedNameRe name then run tmux [''kill-session'', ''-t'', exact name] else skip)"

record sess =
  ssName :: string
  ssGroup :: string
  ssAttached :: bool

definition sess_line :: "string \<Rightarrow> sess option" where
  "sess_line line =
     (case Split (CHR ''|'') line of
        f0 # f1 # f2 # _ \<Rightarrow> Some \<lparr>ssName = f0, ssGroup = f2, ssAttached = (f1 \<noteq> [] \<and> f1 \<noteq> ''0'')\<rparr>
      | _ \<Rightarrow> None)"

definition member_count :: "(string, nat) gomap \<Rightarrow> string \<Rightarrow> nat" where
  "member_count members g = (case mget members g of None \<Rightarrow> 0 | Some n \<Rightarrow> n)"

fun count_members :: "sess list \<Rightarrow> (string, nat) gomap \<Rightarrow> (string, nat) gomap" where
  "count_members [] members = members"
| "count_members (s # ss) members =
     count_members ss (if ssGroup s \<noteq> [] then mput members (ssGroup s) (member_count members (ssGroup s) + 1) else members)"

fun sweep_loop :: "'w tmux_server \<Rightarrow> sess list \<Rightarrow> (string, nat) gomap \<Rightarrow> ('w tmux_state, unit) state" where
  "sweep_loop tmux [] members = skip"
| "sweep_loop tmux (s # ss) members =
     (if groupedNameRe (ssName s) \<and> \<not> ssAttached s \<and> ssGroup s \<noteq> [] \<and> 1 < member_count members (ssGroup s)
      then do {
        run tmux [''kill-session'', ''-t'', exact (ssName s)];
        sweep_loop tmux ss (mput members (ssGroup s) (member_count members (ssGroup s) - 1)) }
      else sweep_loop tmux ss members)"

definition list_orphans :: "string list" where
  "list_orphans = [''list-sessions'', ''-F'', ''#{session_name}|#{session_attached}|#{session_group}'']"

definition sweepOrphanGroupedSessions :: "'w tmux_server \<Rightarrow> ('w tmux_state, unit) state" where
  "sweepOrphanGroupedSessions tmux = do {
     out \<leftarrow> exec tmux list_orphans;
     (case out of
        None \<Rightarrow> skip
      | Some s \<Rightarrow> let all = List.map_filter sess_line (lines_of s) in sweep_loop tmux all (count_members all [])) }"

section \<open>Commands a control message can cause\<close>

text \<open>A computation appends to the log commands that satisfy \<open>P\<close>, whatever tmux answers.\<close>

definition emits :: "(string list \<Rightarrow> bool) \<Rightarrow> ('w tmux_state, 'a) state \<Rightarrow> bool" where
  "emits P m \<longleftrightarrow> (\<forall>w log. \<exists>cmds. snd (snd (run_state m (w, log))) = log @ cmds \<and> list_all P cmds)"

named_theorems emits_intros \<open>commands emitted by a tmux operation\<close>

lemma emits_return [emits_intros]: "emits P (State_Monad.return x)"
  by (simp add: emits_def State_Monad.return_def)

lemma emits_skip [emits_intros]: "emits P skip"
  by (simp add: skip_def emits_return)

lemma emits_exec [emits_intros]: "P args \<Longrightarrow> emits P (exec tmux args)"
  by (simp add: emits_def exec_def split_beta Let_def)

lemma emits_bind [emits_intros]:
  assumes "emits P m" "\<And>x. emits P (f x)"
  shows "emits P (State_Monad.bind m f)"
  unfolding emits_def
proof (intro allI)
  fix w log
  obtain x w1 log1 where m: "run_state m (w, log) = (x, (w1, log1))" by (metis surj_pair)
  obtain cs where "log1 = log @ cs" "list_all P cs" using assms(1) m unfolding emits_def by (metis snd_conv)
  moreover obtain cs' where "snd (snd (run_state (f x) (w1, log1))) = log1 @ cs'" "list_all P cs'" using assms(2) unfolding emits_def by blast
  ultimately have "snd (snd (run_state (State_Monad.bind m f) (w, log))) = log @ cs @ cs' \<and> list_all P (cs @ cs')"
    by (simp add: State_Monad.bind_def m)
  then show "\<exists>cmds. snd (snd (run_state (State_Monad.bind m f) (w, log))) = log @ cmds \<and> list_all P cmds" by blast
qed

lemma emits_if [emits_intros]: "(b \<Longrightarrow> emits P m) \<Longrightarrow> (\<not> b \<Longrightarrow> emits P n) \<Longrightarrow> emits P (if b then m else n)"
  by simp

lemma emits_prod [emits_intros]: "(\<And>x y. emits P (f x y)) \<Longrightarrow> emits P (case p of (x, y) \<Rightarrow> f x y)"
  by (simp split: prod.split)

lemma emits_option [emits_intros]: "emits P m \<Longrightarrow> (\<And>x. emits P (f x)) \<Longrightarrow> emits P (case p of None \<Rightarrow> m | Some x \<Rightarrow> f x)"
  by (simp split: option.split)

lemma emits_run [emits_intros]: "P args \<Longrightarrow> emits P (run tmux args)"
  unfolding run_def by (intro emits_intros)

definition session_target :: "string \<Rightarrow> bool" where
  "session_target t \<longleftrightarrow> (case t of [] \<Rightarrow> False | c # s \<Rightarrow> c = CHR ''='' \<and> validSessTarget s)"

definition safe_text :: "string \<Rightarrow> bool" where
  "safe_text s \<longleftrightarrow> length s \<le> 32 \<and> list_all (\<lambda>c. safe_rune (of_char c)) s"

text \<open>A window: its id, alone or in a session.\<close>

definition qualified_window :: "string \<Rightarrow> bool" where
  "qualified_window t \<longleftrightarrow> (case Split (CHR '':'') t of [s, w] \<Rightarrow> session_target s \<and> winIDRe w | _ \<Rightarrow> False)"

definition new_window_target :: "string \<Rightarrow> bool" where
  "new_window_target t \<longleftrightarrow> (case Split (CHR '':'') t of [s, w] \<Rightarrow> session_target s \<and> w = [] | _ \<Rightarrow> False)"

text \<open>
  The commands a client may cause: the two queries, and window and session commands whose targets are well-formed window ids or exact session names without
  tmux's separator or control characters, and whose new names are short and plain.
\<close>

definition allowed_command :: "string list \<Rightarrow> bool" where
  "allowed_command args \<longleftrightarrow>
     args = list_clients \<or> args = list_groups \<or>
     (case args of
        [cmd, f, t] \<Rightarrow> f = ''-t'' \<and>
          (cmd = ''select-window'' \<and> (winIDRe t \<or> qualified_window t) \<or> cmd = ''kill-window'' \<and> winIDRe t \<or>
           (cmd = ''next-window'' \<or> cmd = ''previous-window'' \<or> cmd = ''kill-session'') \<and> session_target t)
      | [cmd, f, t, n] \<Rightarrow> f = ''-t'' \<and> safe_text n \<and> (cmd = ''rename-window'' \<and> winIDRe t \<or> cmd = ''rename-session'' \<and> session_target t \<and> n \<noteq> [])
      | [cmd, f, x, g, t] \<Rightarrow>
          cmd = ''switch-client'' \<and> f = ''-c'' \<and> x \<noteq> [] \<and> g = ''-t'' \<and> session_target t \<or>
          cmd = ''new-session'' \<and> f = ''-d'' \<and> x = ''-P'' \<and> g = ''-F'' \<and> t = ''#{session_name}''
      | [cmd, f, t, g, h, fmt] \<Rightarrow> cmd = ''new-window'' \<and> f = ''-t'' \<and> new_window_target t \<and> g = ''-P'' \<and> h = ''-F'' \<and> fmt = ''#{session_name}|#{window_id}''
      | [cmd, f, g, h, fmt, k, n] \<Rightarrow>
          cmd = ''new-session'' \<and> f = ''-d'' \<and> g = ''-P'' \<and> h = ''-F'' \<and> fmt = ''#{session_name}'' \<and> k = ''-s'' \<and> safe_text n \<and> n \<noteq> []
      | _ \<Rightarrow> False)"

definition no_kill :: "string list \<Rightarrow> bool" where
  "no_kill args \<longleftrightarrow> allowed_command args \<and> hd args \<noteq> ''kill-session''"

lemma safe_text_safeName: "safe_text (safeName s)"
proof -
  have "safe_rune r \<Longrightarrow> r < 256" for r by (auto simp: safe_rune_def)
  then show ?thesis by (auto simp: safe_text_def safeName_def list_all_iff dest!: in_set_takeD)
qed

lemma session_target_exact: "validSessTarget s \<Longrightarrow> session_target (exact s)"
  by (simp add: session_target_def exact_def)

lemma qualified_window_target: "validSessTarget s \<Longrightarrow> winIDRe w \<Longrightarrow> qualified_window (window_target s w)"
proof -
  assume s: "validSessTarget s" "winIDRe w"
  have "CHR '':'' \<notin> set (exact s)" using s(1) by (simp add: validSessTarget_def exact_def)
  moreover have "CHR '':'' \<notin> set w"
  proof -
    have "set w \<subseteq> insert (CHR ''@'') (set digit_chars)" using s(2) by (auto simp: winIDRe_def is_digit_iff list_all_iff split: list.splits)
    moreover have "CHR '':'' \<notin> insert (CHR ''@'') (set digit_chars)" by (simp add: digit_chars_def)
    ultimately show ?thesis by blast
  qed
  ultimately have "Split (CHR '':'') (window_target s w) = [exact s, w]" by (simp add: window_target_def Split_append Split_field)
  then show ?thesis using s by (simp add: qualified_window_def session_target_exact)
qed

lemma new_window_target_exact: "validSessTarget s \<Longrightarrow> new_window_target (exact s @ '':'')"
proof -
  assume s: "validSessTarget s"
  then have "Split (CHR '':'') (exact s @ '':'') = [exact s, []]" by (simp add: validSessTarget_def exact_def Split_append)
  then show ?thesis using s by (simp add: new_window_target_def session_target_exact)
qed

lemmas target_simps = session_target_exact qualified_window_target new_window_target_exact safe_text_safeName

lemma command_ok:
  "no_kill list_clients" "no_kill list_groups"
  "tty \<noteq> [] \<Longrightarrow> validSessTarget s \<Longrightarrow> no_kill (switch_client tty s)"
  "winIDRe w \<Longrightarrow> no_kill [''select-window'', ''-t'', w]"
  "validSessTarget s \<Longrightarrow> winIDRe w \<Longrightarrow> no_kill [''select-window'', ''-t'', window_target s w]"
  "winIDRe w \<Longrightarrow> no_kill [''kill-window'', ''-t'', w]"
  "winIDRe w \<Longrightarrow> no_kill [''rename-window'', ''-t'', w, safeName n]"
  "validSessTarget s \<Longrightarrow> no_kill [''new-window'', ''-t'', exact s @ '':'', ''-P'', ''-F'', ''#{session_name}|#{window_id}'']"
  "validSessTarget s \<Longrightarrow> no_kill [''next-window'', ''-t'', exact s]"
  "validSessTarget s \<Longrightarrow> no_kill [''previous-window'', ''-t'', exact s]"
  "no_kill [''new-session'', ''-d'', ''-P'', ''-F'', ''#{session_name}'']"
  "safeName n \<noteq> [] \<Longrightarrow> no_kill [''new-session'', ''-d'', ''-P'', ''-F'', ''#{session_name}'', ''-s'', safeName n]"
  "validSessTarget s \<Longrightarrow> safeName n \<noteq> [] \<Longrightarrow> no_kill [''rename-session'', ''-t'', exact s, safeName n]"
  by (simp_all add: no_kill_def allowed_command_def list_clients_def list_groups_def switch_client_def target_simps)

lemma emits_tmuxClient [emits_intros]: "emits no_kill (tmuxClient tmux pid)"
  unfolding tmuxClient_def by (intro emits_intros command_ok)

lemma emits_sameView [emits_intros]: "emits no_kill (sameView tmux t cur)"
  unfolding sameView_def sessionGroups_def by (intro emits_intros command_ok)

lemma emits_select_window: "emits no_kill (select_window tmux pid c)"
  unfolding select_window_def by (intro emits_intros; simp add: command_ok split: if_split)

lemma emits_new_window: "emits no_kill (new_window tmux pid c)"
  unfolding new_window_def follow_window_def Let_def
  by (intro emits_intros; (simp add: command_ok)?; (auto split: list.split intro!: emits_intros simp: command_ok)?)

lemma emits_step_window: "a = ''next-window'' \<or> a = ''previous-window'' \<Longrightarrow> emits no_kill (step_window tmux pid a)"
  unfolding step_window_def by (intro emits_intros) (auto simp: command_ok)

lemma emits_switch_session: "emits no_kill (switch_session tmux pid c)"
  unfolding switch_session_def by (intro emits_intros; simp add: command_ok)

lemma emits_new_session: "emits no_kill (new_session tmux pid c)"
  unfolding new_session_def by (intro emits_intros; simp add: command_ok)

lemma runTmuxControl_no_kill:
  assumes "\<And>c. decode payload = Some c \<Longrightarrow> rqA c \<noteq> ''kill-session''"
  shows "emits no_kill (runTmuxControl decode tmux pid payload)"
proof (cases "decode payload")
  case None
  then show ?thesis by (simp add: runTmuxControl_def emits_skip)
next
  case (Some c)
  with assms have "rqA c \<noteq> ''kill-session''" by blast
  then show ?thesis unfolding runTmuxControl_def Let_def Some option.case
    by (intro emits_if emits_select_window emits_new_window emits_switch_session emits_new_session emits_step_window emits_run emits_skip)
       (simp_all add: command_ok)
qed

lemma run_exec: "run_state (exec tmux args) (w, log) = (let (out, w') = tmux args w in (out, (w', log @ [args])))"
  by (simp add: exec_def)

lemma run_bind: "run_state (State_Monad.bind m f) s = (case run_state m s of (x, s') \<Rightarrow> run_state (f x) s')"
  by (simp add: State_Monad.bind_def)

lemma run_return: "run_state (State_Monad.return x) s = (x, s)"
  by (simp add: State_Monad.return_def)

lemmas tmux_run_simps = run_exec run_bind run_return skip_def run_def

lemma kill_session_run:
  assumes "tmux list_clients w = (clients, w1)" "tmux list_groups w1 = (groups, w2)"
  shows "\<exists>w' cmds. run_state (kill_session tmux pid c) (w, log) = ((), (w', log @ cmds)) \<and> list_all allowed_command cmds \<and>
    (\<forall>t. [''kill-session'', ''-t'', t] \<in> set cmds \<longrightarrow>
      t = exact (rqT c) \<and> rqT c \<noteq> snd (client_view pid clients) \<and> \<not> share_group (groups_of groups) (rqT c) (snd (client_view pid clients)))"
proof -
  obtain tty cur where v: "client_view pid clients = (tty, cur)" by (cases "client_view pid clients")
  obtain out w3 where k: "tmux [''kill-session'', ''-t'', exact (rqT c)] w2 = (out, w3)" by (metis surj_pair)
  have ok: "allowed_command list_clients" "allowed_command list_groups" using command_ok(1,2) by (simp_all add: no_kill_def)
  have tk: "validSessTarget (rqT c) \<Longrightarrow> allowed_command [''kill-session'', ''-t'', exact (rqT c)]"
    by (simp add: allowed_command_def target_simps)
  show ?thesis
    using ok tk assms k
    by (simp add: kill_session_def tmuxClient_def sameView_def sessionGroups_def tmux_run_simps v list_clients_def list_groups_def)
qed

section \<open>What the snapshot shows\<close>

text \<open>The names in the order of their first occurrence.\<close>

definition first_seen :: "'a list \<Rightarrow> 'a list" where
  "first_seen xs = rev (remdups (rev xs))"

lemma first_seen_Nil [simp]: "first_seen [] = []"
  by (simp add: first_seen_def)

lemma first_seen_snoc [simp]: "first_seen (xs @ [x]) = (if x \<in> set xs then first_seen xs else first_seen xs @ [x])"
  by (simp add: first_seen_def)

lemma set_first_seen [simp]: "set (first_seen xs) = set xs"
  by (simp add: first_seen_def)

lemma distinct_first_seen: "distinct (first_seen xs)"
  by (simp add: first_seen_def)

text \<open>A session as a list of windows describes it: its windows in order, and the window that is its active one.\<close>

definition sess_of :: "string \<Rightarrow> (string \<times> winInfo \<times> bool) list \<Rightarrow> string \<Rightarrow> sessInfo" where
  "sess_of active ws n =
     (let own = filter (\<lambda>(s, w, cur). s = n) ws; act = filter (\<lambda>(s, w, cur). cur) own
      in \<lparr>sN = n, sAct = (n = active), sAW = (if act = [] then [] else wID (fst (snd (last act)))), sWin = map (\<lambda>(s, w, cur). w) own\<rparr>)"

lemma sess_of_new: "n \<notin> set (map fst ws) \<Longrightarrow> sess_of active ws n = \<lparr>sN = n, sAct = (n = active), sAW = [], sWin = []\<rparr>"
proof -
  assume "n \<notin> set (map fst ws)"
  then have "filter (\<lambda>(s, w, cur). s = n) ws = []" by (force simp: filter_empty_conv)
  then show ?thesis by (simp add: sess_of_def)
qed

lemma sess_of_snoc:
  "sess_of active (ws @ [(s, w, cur)]) n =
     (let x = sess_of active ws n in if s = n then x\<lparr>sWin := sWin x @ [w], sAW := (if cur then wID w else sAW x)\<rparr> else x)"
  by (auto simp: sess_of_def Let_def)

definition snap_inv :: "string \<Rightarrow> (string \<times> winInfo \<times> bool) list \<Rightarrow> (string, nat) gomap \<times> sessInfo list \<Rightarrow> bool" where
  "snap_inv active ws st \<longleftrightarrow>
     (let fs = first_seen (map fst ws)
      in snd st = map (sess_of active ws) fs \<and> (\<forall>n i. mget (fst st) n = Some i \<longleftrightarrow> i < length fs \<and> fs ! i = n))"

lemma snap_add_inv:
  assumes "snap_inv active ws (pos, sess)"
  shows "snap_inv active (ws @ [(s, w, cur)]) (snap_add active (s, w, cur) (pos, sess))"
proof -
  define fs where "fs = first_seen (map fst ws)"
  have sess: "sess = map (sess_of active ws) fs" and pos: "\<And>n i. mget pos n = Some i \<longleftrightarrow> i < length fs \<and> fs ! i = n"
    using assms by (auto simp: snap_inv_def fs_def Let_def)
  have d: "distinct fs" "set fs = fst ` set ws" by (simp_all add: fs_def distinct_first_seen)
  show ?thesis
  proof (cases "mget pos s")
    case None
    then have new: "s \<notin> set fs" using pos by (metis in_set_conv_nth option.distinct(1))
    then have old: "map (sess_of active (ws @ [(s, w, cur)])) fs = sess" unfolding sess by (auto simp: sess_of_snoc Let_def)
    have "sess_of active ws s = \<lparr>sN = s, sAct = (s = active), sAW = [], sWin = []\<rparr>" using new d by (intro sess_of_new) simp
    then have "snap_add active (s, w, cur) (pos, sess) = (mput pos s (length sess), sess @ [sess_of active (ws @ [(s, w, cur)]) s])"
      using None by (simp add: snap_add_def Let_def sess_of_snoc)
    moreover have "first_seen (map fst (ws @ [(s, w, cur)])) = fs @ [s]" using new d by (simp add: fs_def)
    moreover have "length sess = length fs" by (simp add: sess)
    ultimately show ?thesis using new pos old by (auto simp: snap_inv_def Let_def nth_append less_Suc_eq)
  next
    case (Some i)
    then have i: "i < length fs" "fs ! i = s" using pos by auto
    then have "s \<in> set fs" by auto
    then have "first_seen (map fst (ws @ [(s, w, cur)])) = fs" using d by (simp add: fs_def)
    moreover have "snap_add active (s, w, cur) (pos, sess) =
        (pos, sess[i := (sess ! i)\<lparr>sWin := sWin (sess ! i) @ [w], sAW := (if cur then wID w else sAW (sess ! i))\<rparr>])"
      using Some by (simp add: snap_add_def Let_def)
    moreover have "sess[i := (sess ! i)\<lparr>sWin := sWin (sess ! i) @ [w], sAW := (if cur then wID w else sAW (sess ! i))\<rparr>] =
        map (sess_of active (ws @ [(s, w, cur)])) fs"
      by (rule nth_equalityI) (use i d in \<open>auto simp: sess sess_of_snoc Let_def nth_list_update nth_eq_iff_index_eq\<close>)
    ultimately show ?thesis using pos by (simp add: snap_inv_def)
  qed
qed

lemma snap_loop_inv:
  "snap_inv active ws st \<Longrightarrow> snap_inv active (ws @ List.map_filter window_line ls) (snap_loop active ls st)"
proof (induction ls arbitrary: ws st)
  case (Cons l ls)
  show ?case
  proof (cases "window_line l")
    case None
    then show ?thesis using Cons by simp
  next
    case (Some e)
    obtain s w cur where e: "e = (s, w, cur)" by (cases e)
    have "snap_inv active (ws @ [e]) (snap_add active e st)" using snap_add_inv [of active ws "fst st" "snd st"] Cons.prems by (simp add: e)
    from Cons.IH [OF this] show ?thesis by (simp add: Some)
  qed
qed simp

lemma parseSessionsSnap_windows:
  "parseSessionsSnap out active =
     (let ws = List.map_filter window_line (lines_of out)
      in if ws = [] then None else Some \<lparr>snV = 2, snSess = map (sess_of active ws) (first_seen (map fst ws))\<rparr>)"
proof -
  have "snap_inv active [] ([], [])" by (simp add: snap_inv_def)
  from snap_loop_inv [OF this, of "lines_of out"] have
    s: "snd (snap_loop active (lines_of out) ([], [])) = map (sess_of active (List.map_filter window_line (lines_of out)))
      (first_seen (map fst (List.map_filter window_line (lines_of out))))" by (simp add: snap_inv_def Let_def)
  moreover have "first_seen (map fst ws) = [] \<longleftrightarrow> ws = []" for ws :: "(string \<times> winInfo \<times> bool) list"
    using set_first_seen [of "map fst ws"] by (metis list.set_map image_is_empty set_empty)
  ultimately show ?thesis by (simp add: parseSessionsSnap_def Let_def)
qed

text \<open>What tmux prints for a window, and for a list of windows.\<close>

definition flag :: "bool \<Rightarrow> string" where "flag b = (if b then ''1'' else ''0'')"

fun window_text :: "string \<times> winInfo \<times> bool \<Rightarrow> string" where
  "window_text (n, w, cur) =
     Join ''|'' [n, wID w, itoa (wI w), wN w, flag cur, flag (wA w), flag (wB w), wCmd w, itoa (wP w)]"

definition windows_output :: "(string \<times> winInfo \<times> bool) list \<Rightarrow> string" where
  "windows_output ws = Join [CHR 0x0A] (map window_text ws) @ [CHR 0x0A]"

text \<open>No separator inside a field, and a session name that starts with no white space.\<close>

definition clean_field :: "string \<Rightarrow> bool" where
  "clean_field s \<longleftrightarrow> CHR ''|'' \<notin> set s \<and> CHR 0x0A \<notin> set s"

fun clean_window :: "string \<times> winInfo \<times> bool \<Rightarrow> bool" where
  "clean_window (n, w, cur) \<longleftrightarrow>
     n \<noteq> [] \<and> \<not> IsSpace (hd (runes n)) \<and> list_all clean_field [n, wID w, wN w, wCmd w] \<and> 0 \<le> wI w \<and> wI w \<le> max_int64 \<and> 0 \<le> wP w \<and> wP w \<le> max_int64"

lemma clean_itoa: "0 \<le> i \<Longrightarrow> clean_field (itoa i)"
proof -
  assume "0 \<le> i"
  then have "set (itoa i) \<subseteq> set digit_chars" using set_dec_nat by (simp add: itoa_def)
  moreover have "CHR ''|'' \<notin> set digit_chars \<and> CHR 0x0A \<notin> set digit_chars" by (simp add: digit_chars_def)
  ultimately show ?thesis by (auto simp: clean_field_def)
qed

lemma clean_flag: "clean_field (flag b)"
  by (simp add: clean_field_def flag_def)

lemma window_line_text: "clean_window e \<Longrightarrow> window_line (window_text e) = Some e"
proof -
  assume c: "clean_window e"
  obtain n w cur where e: "e = (n, w, cur)" by (cases e)
  let ?fs = "[n, wID w, itoa (wI w), wN w, flag cur, flag (wA w), flag (wB w), wCmd w, itoa (wP w)]"
  have "\<forall>f \<in> set ?fs. CHR ''|'' \<notin> set f"
    using c clean_itoa [of "wI w"] clean_itoa [of "wP w"] clean_flag by (auto simp: e clean_field_def)
  then have "Split (CHR ''|'') (window_text e) = ?fs" unfolding e window_text.simps by (intro Split_Join) simp_all
  then show ?thesis using c by (simp add: e window_line_def Atoi_itoa flag_def)
qed

lemma window_text_ends:
  assumes "clean_window e"
  shows "\<exists>t. window_text e = fst e @ CHR ''|'' # t" "\<exists>t c. window_text e = t @ [c] \<and> c \<in> set digit_chars" "CHR 0x0A \<notin> set (window_text e)"
proof -
  obtain n w cur where e: "e = (n, w, cur)" by (cases e)
  show "\<exists>t. window_text e = fst e @ CHR ''|'' # t" by (simp add: e)
  have "0 \<le> wP w" using assms by (simp add: e)
  then have "itoa (wP w) \<noteq> []" "set (itoa (wP w)) \<subseteq> set digit_chars" using set_dec_nat by (simp_all add: itoa_def)
  then obtain u c where "itoa (wP w) = u @ [c]" "c \<in> set digit_chars" by (cases "itoa (wP w)" rule: rev_cases) auto
  then show "\<exists>t c. window_text e = t @ [c] \<and> c \<in> set digit_chars" by (simp add: e)
  show "CHR 0x0A \<notin> set (window_text e)"
    using assms clean_itoa [of "wI w"] clean_itoa [of "wP w"] clean_flag [of cur] clean_flag [of "wA w"] clean_flag [of "wB w"] by (simp add: e clean_field_def)
qed

lemma lines_of_output:
  assumes "ws \<noteq> []" "list_all clean_window ws"
  shows "lines_of (windows_output ws) = map window_text ws"
proof -
  let ?t = "Join [CHR 0x0A] (map window_text ws)"
  obtain n u where first: "?t = n @ CHR ''|'' # u" "n \<noteq> []" "\<not> IsSpace (hd (runes n))"
  proof -
    obtain e es where ws: "ws = e # es" using assms(1) by (cases ws) auto
    obtain n w cur where e: "e = (n, w, cur)" by (cases e)
    obtain t where "window_text e = n @ CHR ''|'' # t" using window_text_ends(1) [of e] assms(2) ws e by auto
    then show ?thesis using assms(2) ws e by (intro that [of n "drop (Suc (length n)) ?t"]) (cases es, auto)
  qed
  have "\<exists>t c. ?t = t @ [c] \<and> c \<in> set digit_chars" using assms
  proof (induction ws rule: induct_list012)
    case (3 e f es)
    then obtain t c where "Join [CHR 0x0A] (map window_text (f # es)) = t @ [c]" "c \<in> set digit_chars" by auto
    then have "Join [CHR 0x0A] (map window_text (e # f # es)) = (window_text e @ CHR 0x0A # t) @ [c]" by simp
    then show ?case using \<open>c \<in> set digit_chars\<close> by blast
  qed (auto dest: window_text_ends(2))
  then obtain t c where last: "?t = t @ [c]" "c \<in> set digit_chars" by blast
  have dig: "\<forall>c \<in> set digit_chars. of_char c < (128 :: nat) \<and> \<not> IsSpace (of_char c)" by (simp add: digit_chars_def IsSpace_def)
  have "of_char CHR ''|'' < (128 :: nat)" by simp
  then have h: "hd (runes ?t) = hd (runes n)" unfolding first(1) by (rule hd_runes_ascii_sep [OF first(2)])
  have l: "last (runes ?t) = of_char c" unfolding last(1) using dig last(2) by (intro last_runes_ascii) blast
  have "TrimSpace ?t = ?t" unfolding TrimSpace_id h l using first(3) dig last(2) by blast
  then have "TrimSpace (windows_output ws) = ?t" by (simp add: windows_output_def TrimSpace_newline)
  moreover have "Split (CHR 0x0A) ?t = map window_text ws"
    using assms window_text_ends(3) by (intro Split_Join) (auto simp: list_all_iff)
  ultimately show ?thesis by (simp add: lines_of_def)
qed

text \<open>Folding the minted sessions away keeps the others and gives the base the viewer's own window.\<close>

definition own_window :: "string \<Rightarrow> sessInfo list \<Rightarrow> string option \<Rightarrow> string option" where
  "own_window active ss own = fold (\<lambda>s own. if groupedNameRe (sN s) \<and> sN s = active then Some (sAW s) else own) ss own"

lemma collapse_loop_result:
  assumes "collapse_loop active base ss (kept, bi, own) = (kept', bi', own')"
  shows "kept' = kept @ filter (\<lambda>s. \<not> groupedNameRe (sN s)) ss \<and> own' = own_window active ss own \<and>
    (bi' = bi \<and> base \<notin> sN ` set (filter (\<lambda>s. \<not> groupedNameRe (sN s)) ss) \<or> (\<exists>i < length kept'. bi' = Some i \<and> sN (kept' ! i) = base))"
  using assms
proof (induction ss arbitrary: kept bi own)
  case (Cons s ss)
  show ?case
  proof (cases "groupedNameRe (sN s)")
    case True
    then have c: "collapse_loop active base ss (kept, bi, if sN s = active then Some (sAW s) else own) = (kept', bi', own')"
      using Cons.prems by simp
    from Cons.IH [OF c] True show ?thesis by (auto simp: own_window_def)
  next
    case False
    then have c: "collapse_loop active base ss (kept @ [s], if sN s = base then Some (length kept) else bi, own) = (kept', bi', own')"
      using Cons.prems by simp
    note ih = Cons.IH [OF c]
    have k: "kept' = kept @ s # filter (\<lambda>s. \<not> groupedNameRe (sN s)) ss" using ih by simp
    have at: "length kept < length kept'" "kept' ! length kept = s" unfolding k by simp_all
    show ?thesis
    proof (cases "\<exists>i < length kept'. bi' = Some i \<and> sN (kept' ! i) = base")
      case True
      then show ?thesis using ih False by (simp add: own_window_def)
    next
      case none: False
      then have "bi' = (if sN s = base then Some (length kept) else bi)" "base \<notin> sN ` set (filter (\<lambda>s. \<not> groupedNameRe (sN s)) ss)" using ih by blast+
      moreover have "sN s \<noteq> base" using none at calculation(1) by auto
      ultimately show ?thesis using ih False by (simp add: own_window_def)
    qed
  qed
qed (simp add: own_window_def)

definition view_base :: "string \<Rightarrow> string option \<Rightarrow> sessInfo \<Rightarrow> sessInfo" where
  "view_base base own s =
     (case own of None \<Rightarrow> s | Some aw \<Rightarrow> if sN s = base then s\<lparr>sAct := True, sAW := (if aw \<noteq> [] then aw else sAW s)\<rparr> else s)"

lemma collapseGrouped_sessions:
  assumes "distinct (map sN (snSess snap))"
  shows "snSess (collapseGrouped snap active base) =
    map (view_base base (own_window active (snSess snap) None)) (filter (\<lambda>s. \<not> groupedNameRe (sN s)) (snSess snap))"
proof -
  obtain kept bi own where c: "collapse_loop active base (snSess snap) ([], None, None) = (kept, bi, own)" by (metis surj_pair)
  from collapse_loop_result [OF c] have k: "kept = filter (\<lambda>s. \<not> groupedNameRe (sN s)) (snSess snap)" and o: "own = own_window active (snSess snap) None"
    and b: "bi = None \<and> base \<notin> sN ` set kept \<or> (\<exists>i < length kept. bi = Some i \<and> sN (kept ! i) = base)" by auto
  have d: "distinct (map sN kept)" using assms by (simp add: k distinct_map_filter)
  show ?thesis
  proof (cases own)
    case None
    moreover have "map (view_base base None) kept = kept" by (intro map_idI) (simp add: view_base_def)
    ultimately show ?thesis by (simp add: collapseGrouped_def c k [symmetric] o [symmetric] split: option.split)
  next
    case (Some aw)
    have "kept[i := view_base base own (kept ! i)] = map (view_base base own) kept" if "i < length kept" "sN (kept ! i) = base" for i
    proof (rule nth_equalityI)
      fix j
      assume "j < length (kept[i := view_base base own (kept ! i)])"
      then have j: "j < length kept" by simp
      show "kept[i := view_base base own (kept ! i)] ! j = map (view_base base own) kept ! j"
      proof (cases "i = j")
        case False
        then have "sN (kept ! j) \<noteq> base" using d that j by (metis length_map nth_eq_iff_index_eq nth_map)
        then show ?thesis using False j by (simp add: view_base_def split: option.split)
      qed (use j in simp)
    qed simp
    moreover have "map (view_base base own) kept = kept" if "base \<notin> sN ` set kept"
      using that by (intro map_idI) (auto simp: view_base_def split: option.split)
    ultimately show ?thesis using b by (auto simp: collapseGrouped_def c k [symmetric] o [symmetric] Some view_base_def)
  qed
qed

section \<open>What the sweep keeps\<close>

lemma count_members_count:
  "g \<noteq> [] \<Longrightarrow> member_count (count_members ss members) g = member_count members g + length (filter (\<lambda>s. ssGroup s = g) ss)"
  by (induction ss arbitrary: members) (auto simp: member_count_def)

text \<open>The sessions the sweep asks tmux to kill.\<close>

fun sweep_killed :: "sess list \<Rightarrow> (string, nat) gomap \<Rightarrow> sess list" where
  "sweep_killed [] members = []"
| "sweep_killed (s # ss) members =
     (if groupedNameRe (ssName s) \<and> \<not> ssAttached s \<and> ssGroup s \<noteq> [] \<and> 1 < member_count members (ssGroup s)
      then s # sweep_killed ss (mput members (ssGroup s) (member_count members (ssGroup s) - 1)) else sweep_killed ss members)"

lemma sweep_loop_log:
  "\<exists>w'. run_state (sweep_loop tmux ss members) (w, log) = ((), (w', log @ map (\<lambda>s. [''kill-session'', ''-t'', exact (ssName s)]) (sweep_killed ss members)))"
proof (induction ss arbitrary: members w log)
  case (Cons s ss)
  show ?case
  proof (cases "groupedNameRe (ssName s) \<and> \<not> ssAttached s \<and> ssGroup s \<noteq> [] \<and> 1 < member_count members (ssGroup s)")
    case True
    obtain out w1 where k: "tmux [''kill-session'', ''-t'', exact (ssName s)] w = (out, w1)" by (metis surj_pair)
    show ?thesis using True
        Cons.IH [of "mput members (ssGroup s) (member_count members (ssGroup s) - 1)" w1 "log @ [[''kill-session'', ''-t'', exact (ssName s)]]"]
      by (simp add: tmux_run_simps k)
  next
    case False
    then show ?thesis using Cons.IH [of members w log] by auto
  qed
qed (simp add: tmux_run_simps)

lemma swept_group_bound:
  "g \<noteq> [] \<Longrightarrow> length (filter (\<lambda>s. ssGroup s = g) (sweep_killed ss members)) \<le> member_count members g - 1"
proof (induction ss arbitrary: members)
  case (Cons s ss)
  from Cons.IH [of "mput members (ssGroup s) (member_count members (ssGroup s) - 1)"] Cons.IH [of members] Cons.prems
  show ?case by (auto simp: member_count_def split: if_splits)
qed simp

lemma swept_minted: "s \<in> set (sweep_killed ss members) \<Longrightarrow> s \<in> set ss \<and> groupedNameRe (ssName s) \<and> \<not> ssAttached s \<and> ssGroup s \<noteq> []"
  by (induction ss arbitrary: members) (auto split: if_splits)

lemma swept_spares:
  assumes "distinct (map ssName ss)" "s \<in> set ss" "ssGroup s \<noteq> []"
  shows "\<exists>s' \<in> set ss. ssGroup s' = ssGroup s \<and> ssName s' \<notin> ssName ` set (sweep_killed ss (count_members ss []))"
proof (rule ccontr)
  let ?g = "ssGroup s" and ?k = "sweep_killed ss (count_members ss [])"
  let ?own = "filter (\<lambda>s. ssGroup s = ?g)"
  assume "\<not> ?thesis"
  then have all: "s' \<in> set ss \<Longrightarrow> ssGroup s' = ?g \<Longrightarrow> ssName s' \<in> ssName ` set ?k" for s' by blast
  have "set (?own ss) \<subseteq> set (?own ?k)"
  proof
    fix s'
    assume "s' \<in> set (?own ss)"
    then have s': "s' \<in> set ss" "ssGroup s' = ?g" by auto
    then obtain k where "k \<in> set ?k" "ssName k = ssName s'" using all by (metis imageE)
    then have "k = s'" using assms(1) s'(1) swept_minted by (metis distinct_map inj_onD)
    then show "s' \<in> set (?own ?k)" using \<open>k \<in> set ?k\<close> s' by simp
  qed
  then have "card (set (?own ss)) \<le> card (set (?own ?k))" by (simp add: card_mono)
  also have "\<dots> \<le> length (?own ?k)" by (rule card_length)
  also have "\<dots> \<le> length (?own ss) - 1"
    using swept_group_bound [OF assms(3), of ss "count_members ss []"] count_members_count [OF assms(3), of ss "[]"] by (simp add: member_count_def)
  also have "length (?own ss) = card (set (?own ss))" using assms(1) by (intro distinct_card [symmetric] distinct_filter) (simp add: distinct_map)
  finally have "card (set (?own ss)) = 0" by linarith
  moreover have "s \<in> set (?own ss)" using assms(2) by simp
  ultimately show False by (metis List.finite_set card_0_eq empty_iff)
qed

section \<open>Properties\<close>



lemma lines_of_plain:
  assumes "all_ascii s" "s \<noteq> []" "\<not> IsSpace (of_char (hd s))" "\<not> IsSpace (of_char (last s))"
  shows "lines_of s = Split (CHR 0x0A) s"
  using assms by (simp add: lines_of_def TrimSpace_id [THEN iffD2] runes_ascii codes_def hd_map last_map)

text \<open>A tmux server with two sessions, whose only client views one of them.\<close>

definition demo_clients :: string where "demo_clients = ''7|/dev/pts/3|main''"

definition demo_groups :: string where "demo_groups = ''main|main'' @ CHR 0x0A # ''work|''"

definition demo_sessions :: string where
  "demo_sessions = ''main|1|main'' @ CHR 0x0A # ''mir-0123abcd|0|main'' @ CHR 0x0A # ''guest-0123abcd|0|main'' @ CHR 0x0A # ''mir-ffffffff|0|lone''"

definition demo_tmux :: "unit tmux_server" where
  "demo_tmux args w =
     (if args = list_clients then Some demo_clients else if args = list_groups then Some demo_groups
      else if args = list_orphans then Some demo_sessions else Some [], w)"

lemma demo_answers:
  "demo_tmux list_clients w = (Some demo_clients, w)" "demo_tmux list_groups w = (Some demo_groups, w)" "demo_tmux list_orphans w = (Some demo_sessions, w)"
  "demo_tmux (''kill-session'' # args) w = (Some [], w)"
  by (simp_all add: demo_tmux_def list_clients_def list_groups_def list_orphans_def)

lemma demo_lines:
  "lines_of demo_clients = [''7|/dev/pts/3|main'']" "lines_of demo_groups = [''main|main'', ''work|'']"
  "lines_of demo_sessions = [''main|1|main'', ''mir-0123abcd|0|main'', ''guest-0123abcd|0|main'', ''mir-ffffffff|0|lone'']"
  by (subst lines_of_plain, simp_all add: demo_clients_def demo_groups_def demo_sessions_def all_ascii_def codes_def IsSpace_def)+

lemma demo_view: "client_view 7 (Some demo_clients) = (''/dev/pts/3'', ''main'')"
  by (simp add: client_view_def demo_lines Atoi_def HasPrefix_def is_digit_iff digit_chars_def atoi_def max_int64_def)

lemma demo_apart: "\<not> share_group (groups_of (Some demo_groups)) ''work'' ''main''"
  by (simp add: share_group_def groups_of_def demo_lines group_in_def)

definition demo_kill :: "string \<Rightarrow> bytes \<Rightarrow> tmux_request option" where
  "demo_kill t payload = Some \<lparr>rqA = ''kill-session'', rqS = [], rqT = t, rqN = []\<rparr>"


text \<open>
  The snapshot a client is sent shows what tmux has: from the listing of windows whose names hold no separator, the snapshot holds every session once, in
  the order of the listing, each with exactly its windows in order and its active one.
\<close>

theorem snapshot_exact:
  assumes "ws \<noteq> []" "list_all clean_window ws"
  shows "parseSessionsSnap (windows_output ws) active = Some \<lparr>snV = 2, snSess = map (sess_of active ws) (first_seen (map fst ws))\<rparr>"
proof -
  have "List.map_filter window_line (map window_text ws) = ws"
    using assms(2) by (induction ws) (simp_all add: window_line_text)
  then show ?thesis using assms by (simp add: parseSessionsSnap_windows lines_of_output)
qed

definition demo_window :: "string \<Rightarrow> winInfo" where
  "demo_window i = \<lparr>wID = i, wI = 0, wN = ''zsh'', wCmd = ''zsh'', wP = 1, wA = False, wB = True\<rparr>"

theorem snapshot_exact_witness:
  "parseSessionsSnap (windows_output [(''main'', demo_window ''@1'', True), (''work'', demo_window ''@2'', True), (''main'', demo_window ''@3'', False)]) ''work'' =
     Some \<lparr>snV = 2, snSess = [\<lparr>sN = ''main'', sAct = False, sAW = ''@1'', sWin = [demo_window ''@1'', demo_window ''@3'']\<rparr>,
                             \<lparr>sN = ''work'', sAct = True, sAW = ''@2'', sWin = [demo_window ''@2'']\<rparr>]\<rparr>"
proof -
  let ?ws = "[(''main'', demo_window ''@1'', True), (''work'', demo_window ''@2'', True), (''main'', demo_window ''@3'', False)]"
  have "list_all clean_window ?ws"
    by (simp add: demo_window_def clean_field_def max_int64_def runes_ascii all_ascii_def codes_def IsSpace_def)
  then have "parseSessionsSnap (windows_output ?ws) ''work'' = Some \<lparr>snV = 2, snSess = map (sess_of ''work'' ?ws) (first_seen (map fst ?ws))\<rparr>"
    by (intro snapshot_exact) simp_all
  also have "map (sess_of ''work'' ?ws) (first_seen (map fst ?ws)) = [\<lparr>sN = ''main'', sAct = False, sAW = ''@1'', sWin = [demo_window ''@1'', demo_window ''@3'']\<rparr>,
                             \<lparr>sN = ''work'', sAct = True, sAW = ''@2'', sWin = [demo_window ''@2'']\<rparr>]"
    by (simp add: first_seen_def sess_of_def demo_window_def)
  finally show ?thesis .
qed

text \<open>A separator inside a window's name shifts the fields: the active window of the session is not recognised and its command is the bell flag.\<close>

lemma window_name_with_separator:
  "window_line (window_text (''main'', (demo_window ''@1'')\<lparr>wN := ''a|b''\<rparr>, True)) =
     Some (''main'', (demo_window ''@1'')\<lparr>wN := ''a'', wCmd := ''1'', wP := 0, wA := True, wB := False\<rparr>, False)"
  by code_simp

text \<open>
  C26. The sweep at start-up destroys no work: it asks tmux to kill only sessions that bear a name minted by an agent, have no client attached and belong to a
  group, and of every group in the listing at least one session is left, which holds the group's windows.
\<close>

theorem sweep_spares_groups:
  assumes "tmux list_orphans w = (Some out, w1)" "List.map_filter sess_line (lines_of out) = all" "distinct (map ssName all)"
  shows "\<exists>w' killed. run_state (sweepOrphanGroupedSessions tmux) (w, log) =
      ((), (w', log @ list_orphans # map (\<lambda>s. [''kill-session'', ''-t'', exact (ssName s)]) killed)) \<and>
    (\<forall>s \<in> set killed. s \<in> set all \<and> groupedNameRe (ssName s) \<and> \<not> ssAttached s \<and> ssGroup s \<noteq> []) \<and>
    (\<forall>s \<in> set all. ssGroup s \<noteq> [] \<longrightarrow> (\<exists>s' \<in> set all. ssGroup s' = ssGroup s \<and> ssName s' \<notin> ssName ` set killed))"
proof -
  obtain w' where "run_state (sweep_loop tmux all (count_members all [])) (w1, log @ [list_orphans]) =
      ((), (w', (log @ [list_orphans]) @ map (\<lambda>s. [''kill-session'', ''-t'', exact (ssName s)]) (sweep_killed all (count_members all []))))"
    using sweep_loop_log [of tmux all "count_members all []" w1 "log @ [list_orphans]"] by blast
  then have "run_state (sweepOrphanGroupedSessions tmux) (w, log) =
      ((), (w', log @ list_orphans # map (\<lambda>s. [''kill-session'', ''-t'', exact (ssName s)]) (sweep_killed all (count_members all []))))"
    using assms(1,2) by (simp add: sweepOrphanGroupedSessions_def tmux_run_simps)
  then show ?thesis using swept_minted swept_spares [OF assms(3)] by blast
qed

theorem sweep_spares_groups_witness:
  "snd (snd (run_state (sweepOrphanGroupedSessions demo_tmux) ((), []))) =
     [list_orphans, [''kill-session'', ''-t'', ''=mir-0123abcd''], [''kill-session'', ''-t'', ''=guest-0123abcd'']] \<and>
   (\<exists>w' (killed :: sess list). run_state (sweepOrphanGroupedSessions demo_tmux) ((), []) =
      ((), (w', [] @ list_orphans # map (\<lambda>s. [''kill-session'', ''-t'', exact (ssName s)]) killed)))"
proof -
  have all: "List.map_filter sess_line (lines_of demo_sessions) =
      [\<lparr>ssName = ''main'', ssGroup = ''main'', ssAttached = True\<rparr>, \<lparr>ssName = ''mir-0123abcd'', ssGroup = ''main'', ssAttached = False\<rparr>,
       \<lparr>ssName = ''guest-0123abcd'', ssGroup = ''main'', ssAttached = False\<rparr>, \<lparr>ssName = ''mir-ffffffff'', ssGroup = ''lone'', ssAttached = False\<rparr>]"
    by (simp add: sess_line_def demo_lines)
  then have d: "distinct (map ssName (List.map_filter sess_line (lines_of demo_sessions)))" by simp
  have "snd (snd (run_state (sweepOrphanGroupedSessions demo_tmux) ((), []))) =
     [list_orphans, [''kill-session'', ''-t'', ''=mir-0123abcd''], [''kill-session'', ''-t'', ''=guest-0123abcd'']]"
    by (simp add: sweepOrphanGroupedSessions_def tmux_run_simps all demo_answers member_count_def groupedNameRe_def HasPrefix_def hex8_def hex_chars_def exact_def)
  moreover have "\<exists>w' (killed :: sess list). run_state (sweepOrphanGroupedSessions demo_tmux) ((), []) =
      ((), (w', [] @ list_orphans # map (\<lambda>s. [''kill-session'', ''-t'', exact (ssName s)]) killed))"
    using sweep_spares_groups [where tmux = demo_tmux, OF demo_answers(3) refl d, of "()" "[]"] by blast
  ultimately show ?thesis by blast
qed

text \<open>The names the agent mints are of the minted shape, so that its own clean-up and sweep find them, and none of them is the base session.\<close>

lemma minted_names:
  "length rnd = 4 \<Longrightarrow> groupedNameRe (newAttachSessionName rnd)"
  "hex8 (take 8 gid) \<Longrightarrow> guestSessionName gid = Some n \<Longrightarrow> groupedNameRe n"
  "\<not> groupedNameRe ''main''"
proof -
  show "length rnd = 4 \<Longrightarrow> groupedNameRe (newAttachSessionName rnd)"
    using set_hex_EncodeToString [of rnd] by (auto simp: groupedNameRe_def newAttachSessionName_def HasPrefix_def hex8_def length_hex_EncodeToString list_all_iff)
  show "hex8 (take 8 gid) \<Longrightarrow> guestSessionName gid = Some n \<Longrightarrow> groupedNameRe n"
    by (auto simp: groupedNameRe_def guestSessionName_def HasPrefix_def split: if_splits)
  show "\<not> groupedNameRe ''main''" by (simp add: groupedNameRe_def HasPrefix_def)
qed

end
