(* ===== verification/Agent_Push.thy ===== *)
theory Agent_Push
  imports Agent_Tmux Runs
begin

text \<open>
  When the agent sends a snapshot (\<open>agent/windowpush.go\<close>) and the tmux hooks that tell it to look (\<open>agent/tmuxhooks.go\<close>). The pusher is a loop over the events
  its \<open>select\<close> can receive; the hooks are shared by all sessions of the agent and counted under one lock.
\<close>

section \<open>Pushing snapshots\<close>

text \<open>
  \<open>psLast\<close> is the frame sent last, \<open>psPushed\<close> all frames sent; \<open>psPending\<close> says that the debounce timer runs, \<open>psTrigger\<close> that the trigger channel is open.
\<close>

record push_state =
  psLast :: bytes
  psPushed :: "bytes list"
  psPending :: bool
  psTrigger :: bool

definition emit :: "bytes option \<Rightarrow> push_state \<Rightarrow> push_state" where
  "emit snap st =
     (case snap of
        None \<Rightarrow> st
      | Some b \<Rightarrow> if b \<noteq> psLast st then st\<lparr>psLast := b, psPushed := psPushed st @ [b]\<rparr> else st)"

text \<open>What the loop can receive, with the snapshot taken then; a receive from a nil channel or a timer that is not armed never happens.\<close>

datatype push_event = PollTick "bytes option" | Trigger | TriggerClosed | DebounceFired "bytes option"

definition push_event_step :: "push_event \<Rightarrow> push_state \<Rightarrow> push_state option" where
  "push_event_step ev st =
     (case ev of
        PollTick snap \<Rightarrow> Some (emit snap st)
      | Trigger \<Rightarrow> if psTrigger st then Some (st\<lparr>psPending := True\<rparr>) else None
      | TriggerClosed \<Rightarrow> if psTrigger st then Some (st\<lparr>psTrigger := False\<rparr>) else None
      | DebounceFired snap \<Rightarrow> if psPending st then Some (emit snap (st\<lparr>psPending := False\<rparr>)) else None)"

fun push_loop :: "push_event list \<Rightarrow> push_state \<Rightarrow> push_state option" where
  "push_loop [] st = Some st"
| "push_loop (ev # evs) st = (case push_event_step ev st of None \<Rightarrow> None | Some st' \<Rightarrow> push_loop evs st')"

definition pushWindowSnapshots :: "bytes option \<Rightarrow> push_event list \<Rightarrow> push_state option" where
  "pushWindowSnapshots snap evs = push_loop evs (emit snap \<lparr>psLast = [], psPushed = [], psPending = False, psTrigger = True\<rparr>)"

text \<open>The snapshots taken during a run.\<close>

fun observed :: "push_event list \<Rightarrow> bytes list" where
  "observed [] = []"
| "observed (PollTick (Some b) # evs) = b # observed evs"
| "observed (DebounceFired (Some b) # evs) = b # observed evs"
| "observed (_ # evs) = observed evs"

section \<open>The hooks\<close>

definition hookChannel :: string where "hookChannel = ''mir-window-strip''"

definition hookSlot :: string where "hookSlot = ''[999]''"

definition hookEvents :: "string list" where
  "hookEvents =
     [''window-linked'', ''window-unlinked'', ''window-renamed'', ''session-created'', ''session-closed'', ''session-renamed'',
      ''session-window-changed'', ''client-session-changed'', ''alert-activity'', ''alert-bell'', ''alert-silence'',
      ''pane-exited'', ''pane-died'', ''window-pane-changed'', ''after-select-window'', ''after-new-window'', ''after-split-window'',
      ''after-kill-pane'', ''after-rename-window'', ''after-rename-session'', ''after-new-session'', ''after-select-pane'']"

fun hookArgs :: "string \<Rightarrow> string \<Rightarrow> string list \<Rightarrow> string \<Rightarrow> string list" where
  "hookArgs cmd flags [] body = []"
| "hookArgs cmd flags [h] body = [cmd, flags, h @ hookSlot] @ (if body \<noteq> [] then [body] else [])"
| "hookArgs cmd flags (h # hs) body =
     [cmd, flags, h @ hookSlot] @ (if body \<noteq> [] then [body] else []) @ ['';''] @ hookArgs cmd flags hs body"

definition hook_body :: string where "hook_body = ''wait-for -S '' @ hookChannel"

fun install_each :: "'w tmux_server \<Rightarrow> string list \<Rightarrow> string list \<Rightarrow> ('w tmux_state, string list) state" where
  "install_each tmux [] ok = State_Monad.return ok"
| "install_each tmux (h # hs) ok = do {
     r \<leftarrow> exec tmux [''set-hook'', ''-g'', h @ hookSlot, hook_body];
     install_each tmux hs (if r \<noteq> None then ok @ [h] else ok) }"

definition installTmuxHooks :: "'w tmux_server \<Rightarrow> ('w tmux_state, string list) state" where
  "installTmuxHooks tmux = do {
     r \<leftarrow> exec tmux [''set-hook'', ''-g'', hd hookEvents @ hookSlot, hook_body];
     (if r = None then State_Monad.return []
      else do {
        r2 \<leftarrow> exec tmux (hookArgs ''set-hook'' ''-g'' (tl hookEvents) hook_body);
        (if r2 \<noteq> None then State_Monad.return hookEvents else install_each tmux (tl hookEvents) [hd hookEvents]) }) }"

fun remove_each :: "'w tmux_server \<Rightarrow> string list \<Rightarrow> ('w tmux_state, unit) state" where
  "remove_each tmux [] = skip"
| "remove_each tmux (h # hs) = do { run tmux [''set-hook'', ''-gu'', h @ hookSlot]; remove_each tmux hs }"

definition removeTmuxHooks :: "'w tmux_server \<Rightarrow> string list \<Rightarrow> ('w tmux_state, unit) state" where
  "removeTmuxHooks tmux names =
     (if names = [] then skip
      else do {
        r \<leftarrow> exec tmux (hookArgs ''set-hook'' ''-gu'' names []);
        (if r \<noteq> None then skip else remove_each tmux names) })"

record hook_state =
  hkRefs :: nat
  hkNames :: "string list"

text \<open>One try of \<open>acquireTmuxHooks\<close>, and \<open>releaseTmuxHooks\<close>, each under the lock.\<close>

definition acquire_try :: "'w tmux_server \<Rightarrow> hook_state \<Rightarrow> ('w tmux_state, bool \<times> hook_state) state" where
  "acquire_try tmux hk =
     (if hkRefs hk > 0 then State_Monad.return (True, hk\<lparr>hkRefs := hkRefs hk + 1\<rparr>)
      else do {
        names \<leftarrow> installTmuxHooks tmux;
        State_Monad.return (if names \<noteq> [] then (True, \<lparr>hkRefs = 1, hkNames = names\<rparr>) else (False, hk)) })"

definition releaseTmuxHooks :: "'w tmux_server \<Rightarrow> hook_state \<Rightarrow> ('w tmux_state, hook_state) state" where
  "releaseTmuxHooks tmux hk =
     (if hkRefs hk = 0 then State_Monad.return hk
      else if hkRefs hk - 1 > 0 then State_Monad.return (hk\<lparr>hkRefs := hkRefs hk - 1\<rparr>)
      else do { removeTmuxHooks tmux (hkNames hk); State_Monad.return \<lparr>hkRefs = 0, hkNames = []\<rparr> })"

text \<open>The sessions of an agent in any order: \<open>holders\<close> are those whose acquire succeeded and that have not released.\<close>

inductive hook_step :: "'w tmux_server \<Rightarrow> hook_state \<times> nat set \<times> 'w tmux_state \<Rightarrow> hook_state \<times> nat set \<times> 'w tmux_state \<Rightarrow> bool" for tmux where
  acquire: "run_state (acquire_try tmux hk) ts = ((True, hk'), ts') \<Longrightarrow> i \<notin> holders \<Longrightarrow> hook_step tmux (hk, holders, ts) (hk', insert i holders, ts')"
| retry: "run_state (acquire_try tmux hk) ts = ((False, hk'), ts') \<Longrightarrow> hook_step tmux (hk, holders, ts) (hk', holders, ts')"
| release: "run_state (releaseTmuxHooks tmux hk) ts = (hk', ts') \<Longrightarrow> i \<in> holders \<Longrightarrow> hook_step tmux (hk, holders, ts) (hk', holders - {i}, ts')"
| other: "hook_step tmux (hk, holders, w, log) (hk, holders, w', log)"

section \<open>What is pushed\<close>

lemma push_loop_changes:
  "push_loop evs st = Some st' \<Longrightarrow> psPushed st' = psPushed st @ tl (remdups_adj (psLast st # observed evs))"
proof (induction evs arbitrary: st)
  case Nil
  then show ?case by simp
next
  case (Cons ev evs)
  then obtain st1 where s: "push_event_step ev st = Some st1" "push_loop evs st1 = Some st'" by (auto split: option.splits)
  note ih = Cons.IH [OF s(2)]
  have taken: "psPushed (emit (Some b) u) @ tl (remdups_adj (psLast (emit (Some b) u) # bs)) = psPushed u @ tl (remdups_adj (psLast u # b # bs))" for b u bs
    by (simp add: emit_def remdups_adj_Cons' [of "psLast u"])
  have none: "emit None u = u" for u by (simp add: emit_def)
  show ?case
  proof (cases ev)
    case (PollTick snap)
    then show ?thesis using s(1) ih taken none by (cases snap) (auto simp: push_event_step_def)
  next
    case (DebounceFired snap)
    then show ?thesis using s(1) ih taken [of _ "st\<lparr>psPending := False\<rparr>"] none by (cases snap) (auto simp: push_event_step_def split: if_splits)
  qed (use s(1) ih in \<open>auto simp: push_event_step_def split: if_splits\<close>)
qed

text \<open>The frames pushed are the snapshots taken, with repetitions of the frame before left out; an empty first snapshot is not sent.\<close>

lemma pushes_changes:
  assumes "pushWindowSnapshots snap evs = Some st"
  shows "[] # psPushed st = remdups_adj ([] # (case snap of None \<Rightarrow> [] | Some b \<Rightarrow> [b]) @ observed evs)"
proof -
  let ?st0 = "\<lparr>psLast = [], psPushed = [], psPending = False, psTrigger = True\<rparr>"
  have "push_loop (PollTick snap # evs) ?st0 = Some st" using assms by (simp add: pushWindowSnapshots_def push_event_step_def)
  from push_loop_changes [OF this] show ?thesis by (cases snap) (simp_all add: remdups_adj_Cons')
qed

section \<open>What happens to the hooks\<close>

fun hook_counts :: "hook_state \<times> nat set \<times> 'w tmux_state \<Rightarrow> bool" where
  "hook_counts (hk, holders, ts) \<longleftrightarrow> finite holders \<and> hkRefs hk = card holders \<and> (hkRefs hk = 0 \<longleftrightarrow> hkNames hk = [])"

lemma hook_step_counts:
  assumes "hook_step tmux x y" "hook_counts x"
  shows "hook_counts y"
  using assms
proof (cases rule: hook_step.cases)
  case (acquire hk ts hk' ts' i holders)
  then show ?thesis using assms(2) by (auto simp: acquire_try_def run_bind run_return split: if_splits prod.splits)
next
  case (retry hk ts hk' ts' holders)
  then show ?thesis using assms(2) by (auto simp: acquire_try_def run_bind run_return split: if_splits prod.splits)
next
  case (release hk ts hk' ts' i holders)
  have c: "card (holders - {i}) = card holders - 1" using release(4) assms(2) release(1) by (simp add: card_Diff_singleton)
  have pos: "0 < card holders" using release(1,4) assms(2) by (auto simp: card_gt_0_iff)
  show ?thesis using release assms(2) c pos by (auto simp: releaseTmuxHooks_def run_bind run_return split: if_splits prod.splits)
qed (use assms(2) in simp)

interpretation hook_runs: step_invariant "hook_step tmux" hook_counts for tmux :: "'w tmux_server"
  by unfold_locales (rule hook_step_counts)

text \<open>Only the agent's own slot of the listed hooks is ever set or unset.\<close>

fun slot_commands :: "string list \<Rightarrow> bool" where
  "slot_commands (cmd # fl # h # rest) \<longleftrightarrow>
     cmd = ''set-hook'' \<and> list_ex (\<lambda>e. h = e @ hookSlot) hookEvents \<and>
     (fl = ''-g'' \<and> (case rest of [b] \<Rightarrow> b = hook_body | b # s # cs \<Rightarrow> b = hook_body \<and> s = '';'' \<and> slot_commands cs | _ \<Rightarrow> False) \<or>
      fl = ''-gu'' \<and> (case rest of [] \<Rightarrow> True | s # cs \<Rightarrow> s = '';'' \<and> slot_commands cs))"
| "slot_commands _ \<longleftrightarrow> False"

lemma hookArgs_slot:
  "hs \<noteq> [] \<Longrightarrow> set hs \<subseteq> set hookEvents \<Longrightarrow> slot_commands (hookArgs ''set-hook'' ''-g'' hs hook_body)"
  "hs \<noteq> [] \<Longrightarrow> set hs \<subseteq> set hookEvents \<Longrightarrow> slot_commands (hookArgs ''set-hook'' ''-gu'' hs [])"
proof -
  have b: "hook_body \<noteq> []" by (simp add: hook_body_def)
  show "hs \<noteq> [] \<Longrightarrow> set hs \<subseteq> set hookEvents \<Longrightarrow> slot_commands (hookArgs ''set-hook'' ''-g'' hs hook_body)"
    by (induction hs rule: induct_list012) (auto simp: b list_ex_iff)
  show "hs \<noteq> [] \<Longrightarrow> set hs \<subseteq> set hookEvents \<Longrightarrow> slot_commands (hookArgs ''set-hook'' ''-gu'' hs [])"
    by (induction hs rule: induct_list012) (auto simp: list_ex_iff)
qed

lemma emits_install_each: "set hs \<subseteq> set hookEvents \<Longrightarrow> emits slot_commands (install_each tmux hs ok)"
  by (induction hs arbitrary: ok) (auto simp: list_ex_iff intro!: emits_intros)

lemma emits_remove_each: "set hs \<subseteq> set hookEvents \<Longrightarrow> emits slot_commands (remove_each tmux hs)"
  by (induction hs) (auto simp: list_ex_iff intro!: emits_intros)

lemma emits_hooks:
  "emits slot_commands (installTmuxHooks tmux)"
  "set names \<subseteq> set hookEvents \<Longrightarrow> emits slot_commands (removeTmuxHooks tmux names)"
proof -
  have e: "hookEvents = hd hookEvents # tl hookEvents" "tl hookEvents \<noteq> []" by (simp_all add: hookEvents_def)
  then have m: "hd hookEvents \<in> set hookEvents" "set (tl hookEvents) \<subseteq> set hookEvents" by (metis list.set_intros(1), metis set_subset_Cons)
  show "emits slot_commands (installTmuxHooks tmux)"
    unfolding installTmuxHooks_def using m e(2)
    by (intro emits_intros emits_install_each hookArgs_slot) (auto simp: list_ex_iff)
  show "set names \<subseteq> set hookEvents \<Longrightarrow> emits slot_commands (removeTmuxHooks tmux names)"
    unfolding removeTmuxHooks_def by (intro emits_intros emits_remove_each hookArgs_slot)
qed

end
