(* ===== verification/Cli_Overview.thy ===== *)
theory Cli_Overview
  imports Go_Strings Client_Machines Client_Revocations Client_Prewarm Client_Shares
begin

text \<open>
  The interactive overview of the client (\<open>cli/overview_model.go\<close>, \<open>cli/overview.go\<close>): decoding keys, the rows and the cursor, rendering, the inline
  prompts, the refresh of the list, and the filter that watches for the detach gesture during an attach.

  The terminal, the clock and the network are inputs of the steps: a refresh is given what the warm-up and the files answered, and attaching, sharing,
  renaming and retiring a machine are outcomes chosen by the environment and recorded in a log of actions. Error texts and the \<open>%q\<close> quoting of \<open>fmt\<close> are
  arguments. Text outside ASCII is written as its UTF-8 bytes.
\<close>

section \<open>Keys\<close>

datatype ovKey = ovNone | ovUp | ovDown | ovEnter | ovRename | ovRetire | ovQuit | ovHelp | ovEsc | ovShare | ovRune

record keyEvent =
  evKey :: ovKey
  evRune :: byte

text \<open>The decoder's state \<open>esc\<close>: 0 idle, 1 after ESC, 2 after ESC and a bracket.\<close>

definition feed :: "nat \<Rightarrow> byte \<Rightarrow> keyEvent \<times> nat" where
  "feed esc b =
     (if esc = 1 then (if b = 0x5B then (\<lparr>evKey = ovNone, evRune = 0\<rparr>, 2) else (\<lparr>evKey = ovEsc, evRune = 0\<rparr>, 0))
      else if esc = 2 then (\<lparr>evKey = (if b = 0x41 then ovUp else if b = 0x42 then ovDown else ovNone), evRune = 0\<rparr>, 0)
      else if b = 0x1B then (\<lparr>evKey = ovNone, evRune = 0\<rparr>, 1)
      else if b = 0x0D \<or> b = 0x0A then (\<lparr>evKey = ovEnter, evRune = 0\<rparr>, esc)
      else (\<lparr>evKey =
               (if b = 0x6A then ovDown else if b = 0x6B then ovUp else if b = 0x71 \<or> b = 0x03 then ovQuit else if b = 0x72 then ovRename
                else if b = 0x78 then ovRetire else if b = 0x73 then ovShare else if b = 0x3F then ovHelp else ovRune), evRune = b\<rparr>, esc))"

section \<open>Rows, cursor and rendering\<close>

record overviewRow =
  rName :: string
  rMachineID :: string
  rOnline :: bool
  rNew :: bool
  rShared :: bool
  rWindowsLine :: string

record overviewModel =
  omBinary :: string
  omRows :: "overviewRow list"
  omCursor :: int
  omStatus :: string
  omPrompt :: string
  omInput :: string
  omWidth :: int
  omHeight :: int

definition MoveCursor :: "int \<Rightarrow> overviewModel \<Rightarrow> overviewModel" where
  "MoveCursor delta m =
     (let c0 = omCursor m + delta;
          c1 = (if c0 < 0 then 0 else c0);
          c2 = (if c1 \<ge> int (length (omRows m)) then int (length (omRows m)) - 1 else c1);
          c3 = (if c2 < 0 then 0 else c2)
      in m\<lparr>omCursor := c3\<rparr>)"

definition Selected :: "overviewModel \<Rightarrow> overviewRow option" where
  "Selected m = (if omCursor m < 0 \<or> int (length (omRows m)) \<le> omCursor m then None else Some (omRows m ! nat (omCursor m)))"

text \<open>The loops of \<open>visibleLen\<close> and \<open>truncateVisible\<close> over the runes of the text.\<close>

fun visible_runes :: "bool \<Rightarrow> nat list \<Rightarrow> nat" where
  "visible_runes esc [] = 0"
| "visible_runes esc (r # rs) =
     (if esc then visible_runes (r \<noteq> 109) rs else if r = 27 then visible_runes True rs else Suc (visible_runes False rs))"

definition visibleLen :: "string \<Rightarrow> nat" where
  "visibleLen s = visible_runes False (runes s)"

fun truncate_runes :: "int \<Rightarrow> nat \<Rightarrow> bool \<Rightarrow> nat list \<Rightarrow> nat list" where
  "truncate_runes width n esc [] = []"
| "truncate_runes width n esc (r # rs) =
     (if esc then r # truncate_runes width n (r \<noteq> 109) rs
      else if r = 27 then r # truncate_runes width n True rs
      else if width \<le> int n then [] else r # truncate_runes width (Suc n) False rs)"

definition write_runes :: "nat list \<Rightarrow> string" where
  "write_runes rs = map char_of (concat (map encode_rune rs))"

definition ansiDim :: string where "ansiDim = CHR 0x1B # ''[2m''"
definition ansiBold :: string where "ansiBold = CHR 0x1B # ''[1m''"
definition ansiReset :: string where "ansiReset = CHR 0x1B # ''[0m''"

definition truncateVisible :: "string \<Rightarrow> int \<Rightarrow> string" where
  "truncateVisible s width = write_runes (truncate_runes width 0 False (runes s)) @ ansiReset"

definition fit :: "int \<Rightarrow> string \<Rightarrow> string" where
  "fit width s = (if 0 < width \<and> width < int (visibleLen s) then truncateVisible s width else s)"

text \<open>Characters of the screen outside ASCII.\<close>

definition emdash :: string where "emdash = [CHR 0xE2, CHR 0x80, CHR 0x94]"
definition ellipsis :: string where "ellipsis = [CHR 0xE2, CHR 0x80, CHR 0xA6]"
definition middot :: string where "middot = [CHR 0xC2, CHR 0xB7]"
definition pointer :: string where "pointer = [CHR 0xE2, CHR 0x96, CHR 0xB8]"
definition circle :: string where "circle = [CHR 0xE2, CHR 0x97, CHR 0x8B]"
definition disc :: string where "disc = [CHR 0xE2, CHR 0x97, CHR 0x8F]"
definition arrow_share :: string where "arrow_share = [CHR 0xE2, CHR 0x87, CHR 0xA2]"
definition caret :: string where "caret = [CHR 0xE2, CHR 0x96, CHR 0x8F]"
definition check_mark :: string where "check_mark = [CHR 0xE2, CHR 0x9C, CHR 0x93]"
definition retired_mark :: string where "retired_mark = [CHR 0xE2, CHR 0x8A, CHR 0x98]"
definition arrow_to :: string where "arrow_to = [CHR 0xE2, CHR 0x86, CHR 0x92]"
definition arrow_keys :: string where "arrow_keys = [CHR 0xE2, CHR 0x86, CHR 0x91, CHR ''/'', CHR 0xE2, CHR 0x86, CHR 0x93]"
definition dot_sep :: string where "dot_sep = '' '' @ middot @ '' ''"
definition dash_sep :: string where "dash_sep = '' '' @ emdash @ '' ''"

definition a_share :: string where "a_share = ''that'' @ [CHR 0x27] @ ''s a share'' @ dash_sep"

definition ovHintBar :: string where
  "ovHintBar = ''enter attach'' @ dot_sep @ ''s share'' @ dot_sep @ ''r rename'' @ dot_sep @ ''x retire'' @ dot_sep @ ''q quit'' @ dot_sep @ ''? help''"

definition ovHelpLine :: string where
  "ovHelpLine = arrow_keys @ '' or j/k move'' @ dot_sep @ ''enter attaches'' @ dot_sep @ ''s shares (owner)'' @ dot_sep @ ''r renames'' @ dot_sep @
     ''x retires (asks first)'' @ dot_sep @ ''q quits''"

definition row_lines :: "int \<Rightarrow> nat \<Rightarrow> overviewRow \<Rightarrow> string list" where
  "row_lines cursor i r =
     (let cur = (if int i = cursor then '' '' @ pointer else ''  '');
          mark = (if rShared r then arrow_share else if rOnline r then disc else circle);
          badge = (if rNew r then ''  '' @ ansiBold @ ''NEW'' @ ansiReset else [])
      in (cur @ '' '' @ mark @ '' '' @ rName r @ badge) #
         (if rWindowsLine r \<noteq> [] then [''     '' @ ansiDim @ rWindowsLine r @ ansiReset] else []))"

definition screen_lines :: "overviewModel \<Rightarrow> string list" where
  "screen_lines m =
     [[], '' '' @ ansiBold @ omBinary m @ ansiReset @ ansiDim @ dash_sep @ ''your machines'' @ ansiReset, []] @
     (if omRows m = [] then
        ['' no machines yet'' @ dash_sep @ ''run `'' @ omBinary m @ '' up` on the machine you want to reach;'', '' its first run shows a pairing QR'']
      else []) @
     concat (map (\<lambda>i. row_lines (omCursor m) i (omRows m ! i)) [0..<length (omRows m)]) @
     [[]] @
     (if omPrompt m \<noteq> [] then ['' '' @ omPrompt m @ omInput m @ caret] else if omStatus m \<noteq> [] then ['' '' @ omStatus m] else []) @
     ['' '' @ ansiDim @ ovHintBar @ ansiReset]"

definition Render :: "overviewModel \<Rightarrow> string" where
  "Render m = concat (map (\<lambda>l. fit (omWidth m) l @ [CHR 0x0D, CHR 0x0A]) (screen_lines m))"

text \<open>\<open>windowsSummary\<close>; \<open>decode\<close> is the JSON decoding of a snapshot into sessions, each with its active flag and its window names.\<close>

definition shown_names :: "string list \<Rightarrow> string list" where
  "shown_names ns = (if 4 < length ns then take 4 ns @ [ellipsis] else ns)"

definition windowsSummary :: "(bytes \<Rightarrow> (bool \<times> string list) list option) \<Rightarrow> bytes \<Rightarrow> string" where
  "windowsSummary decode payload =
     (case decode payload of
        None \<Rightarrow> []
      | Some [] \<Rightarrow> []
      | Some (s0 # ss) \<Rightarrow>
          let win = (case find fst (s0 # ss) of Some s \<Rightarrow> snd s | None \<Rightarrow> snd s0)
          in if win = [] then []
             else dec_nat (length win) @ '' '' @ (if length win = 1 then ''window'' else ''windows'') @ dash_sep @ Join '', '' (shown_names win))"

definition pickDefaultMachine :: "string \<Rightarrow> Machine list \<Rightarrow> Machine option" where
  "pickDefaultMachine lastUsed machines =
     (case find (\<lambda>m. lastUsed \<noteq> [] \<and> mName m = lastUsed) machines of
        Some m \<Rightarrow> Some m
      | None \<Rightarrow> (case machines of [m] \<Rightarrow> Some m | _ \<Rightarrow> None))"

section \<open>The state of the overview\<close>

datatype promptKind = promptNone | promptRename | promptRetire

datatype action = Attached Machine | Shared_out Machine | Renamed Machine string | Retired Machine

record overviewState =
  ovModel :: overviewModel
  ovMachines :: "Machine list"
  ovFresh :: "string set"
  ovWindows :: "(string, string) gomap"
  ovICE :: "ICEServer list"
  ovPrompt :: promptKind
  ovInput :: bytes
  ovLog :: "action list"

text \<open>What a refresh finds: the warm-up's answers, the local files (an error text when unreadable), the last-used machine, the grants and the time.\<close>

record refreshInput =
  rfICE :: "ICEServer list option"
  rfDiscovered :: "Machine list"
  rfRegistryErr :: bool
  rfLocal :: "string + Machine list"
  rfRevocations :: "string + Revocation list"
  rfUnseen :: "string set"
  rfLastUsed :: string
  rfGrant :: "string \<Rightarrow> SignedGrant option"
  rfNow :: time

definition loading :: string where "loading = ''loading your machines'' @ ellipsis"

definition windows_line :: "(string, string) gomap \<Rightarrow> string \<Rightarrow> string" where
  "windows_line ws name = (case mget ws name of None \<Rightarrow> [] | Some l \<Rightarrow> l)"

definition modeWord :: "string \<Rightarrow> string" where
  "modeWord mode = (if mode = ''rw'' then ''read-write'' else ''read-only'')"

definition two_digits :: "nat \<Rightarrow> string" where
  "two_digits n = (if n < 10 then ''0'' else []) @ dec_nat n"

text \<open>The \<open>float64\<close> of \<open>Duration.Minutes\<close> and \<open>Hours\<close> is cut to whole units, which is the integer quotient.\<close>

definition expiryPhrase :: "int \<Rightarrow> bool \<Rightarrow> time \<Rightarrow> string" where
  "expiryPhrase na revoked now =
     (let left = na * second - now
      in if revoked then ''revoked''
         else if left \<le> 0 then ''expired''
         else if left < minute then ''expires in under a minute''
         else if left < hour then ''expires in '' @ itoa (left div minute) @ '' min''
         else ''expires in '' @ itoa (left div hour) @ ''h '' @ two_digits (nat (left div minute mod 60)) @ ''min'')"

definition overview_row :: "overviewState \<Rightarrow> refreshInput \<Rightarrow> Machine list \<Rightarrow> Machine \<Rightarrow> overviewRow" where
  "overview_row ov rf discovered m =
     (let row = \<lparr>rName = mName m, rMachineID = mMachineID m, rOnline = (mMachineID m \<in> set (map mMachineID discovered)),
                 rNew = (mMachineID m \<in> ovFresh ov), rShared = False, rWindowsLine = windows_line (ovWindows ov) (mName m)\<rparr>
      in if mOwner m = [] then row
         else row\<lparr>rShared := True, rWindowsLine :=
           (case rfGrant rf (mMachineID m) of
              None \<Rightarrow> ''shared with you''
            | Some g \<Rightarrow> ''shared with you'' @ dot_sep @ modeWord (gMode (sgGrant g)) @ dot_sep @ expiryPhrase (gNA (sgGrant g)) False (rfNow rf))\<rparr>)"

fun index_of :: "('a \<Rightarrow> bool) \<Rightarrow> 'a list \<Rightarrow> nat option" where
  "index_of P [] = None"
| "index_of P (x # xs) = (if P x then Some 0 else map_option Suc (index_of P xs))"

definition refresh :: "string \<Rightarrow> string \<Rightarrow> refreshInput \<Rightarrow> bool \<Rightarrow> overviewState \<Rightarrow> bool \<times> overviewState" where
  "refresh ownerID discoveryPausedNote rf first ov0 =
     (let ov1 = (case rfICE rf of Some ice \<Rightarrow> if first \<and> ice \<noteq> [] then ov0\<lparr>ovICE := ice\<rparr> else ov0 | None \<Rightarrow> ov0)
      in case rfLocal rf of
           Inl e \<Rightarrow> (True, ov1\<lparr>ovModel := (ovModel ov1)\<lparr>omStatus := ''could not read local machines: '' @ e\<rparr>\<rparr>)
         | Inr local \<Rightarrow>
             (case rfRevocations rf of
                Inl e \<Rightarrow> (True, ov1\<lparr>ovModel := (ovModel ov1)\<lparr>omStatus := ''could not read revocations: '' @ e\<rparr>\<rparr>)
              | Inr revocations \<Rightarrow>
                  let discovered = FilterRevoked (rfDiscovered rf) ownerID revocations;
                      merged = FilterRevoked (MergeMachines local discovered) ownerID revocations;
                      ov = (if first then ov1\<lparr>ovFresh := rfUnseen rf\<rparr> else ov1);
                      selected = (case Selected (ovModel ov) of Some row \<Rightarrow> rName row | None \<Rightarrow> []);
                      rows = map (overview_row ov rf discovered) merged;
                      changed = (first \<or> omRows (ovModel ov) \<noteq> rows);
                      target = (if first then rfLastUsed rf else selected);
                      cursor = (case (if target = [] then None else index_of (\<lambda>r. rName r = target) rows) of
                                  Some i \<Rightarrow> int i | None \<Rightarrow> omCursor (ovModel ov));
                      m = MoveCursor 0 ((ovModel ov)\<lparr>omRows := rows, omCursor := cursor\<rparr>);
                      status = (if rfRegistryErr rf then discoveryPausedNote
                                else if omStatus m = loading \<or> omStatus m = discoveryPausedNote then [] else omStatus m)
                  in (changed, ov\<lparr>ovMachines := merged, ovModel := m\<lparr>omStatus := status\<rparr>\<rparr>)))"

section \<open>Prompts and keys\<close>

text \<open>
  The outcomes of the operations a key can start: an error text or success. \<open>opAttach\<close> gives the snapshots received during the attach, the text shown
  for an attach that failed for good, and whether the whole overview was cancelled meanwhile.
\<close>

record overviewOps =
  opBinary :: string
  opOwner :: string
  opPaused :: string
  opQuote :: "string \<Rightarrow> string"
  opSummary :: "bytes \<Rightarrow> (bool \<times> string list) list option"
  opAttach :: "Machine \<Rightarrow> bytes list \<times> string option \<times> bool"
  opShare :: "Machine \<Rightarrow> string option"
  opRename :: "Machine \<Rightarrow> string \<Rightarrow> string option"
  opRetire :: "Machine \<Rightarrow> string option"
  opRefresh :: refreshInput

definition set_status :: "string \<Rightarrow> overviewState \<Rightarrow> overviewState" where
  "set_status s ov = ov\<lparr>ovModel := (ovModel ov)\<lparr>omStatus := s\<rparr>\<rparr>"

definition closePrompt :: "string \<Rightarrow> overviewState \<Rightarrow> overviewState" where
  "closePrompt status ov =
     ov\<lparr>ovPrompt := promptNone, ovInput := [], ovModel := (ovModel ov)\<lparr>omPrompt := [], omInput := [], omStatus := status\<rparr>\<rparr>"

definition under_cursor :: "overviewState \<Rightarrow> Machine option" where
  "under_cursor ov =
     (let i = omCursor (ovModel ov) in if i < 0 \<or> int (length (ovMachines ov)) \<le> i then None else Some (ovMachines ov ! nat i))"

definition finishRename :: "overviewOps \<Rightarrow> string \<Rightarrow> overviewState \<Rightarrow> overviewState" where
  "finishRename ops newName ov =
     (case (if newName = [] then None else under_cursor ov) of
        None \<Rightarrow> set_status ''nothing changed'' ov
      | Some m \<Rightarrow>
          let ov1 = ov\<lparr>ovLog := ovLog ov @ [Renamed m newName]\<rparr>
          in case opRename ops m newName of
               Some e \<Rightarrow> set_status e ov1
             | None \<Rightarrow>
                 let ov2 = set_status (check_mark @ '' renamed '' @ opQuote ops (mName m) @ '' '' @ arrow_to @ '' '' @ opQuote ops newName) ov1;
                     line = windows_line (ovWindows ov2) (mName m);
                     ov3 = (if line \<noteq> [] then ov2\<lparr>ovWindows := mput (ovWindows ov2) newName line\<rparr> else ov2)
                 in snd (refresh (opOwner ops) (opPaused ops) (opRefresh ops) False ov3))"

definition finishRetire :: "overviewOps \<Rightarrow> string \<Rightarrow> overviewState \<Rightarrow> overviewState" where
  "finishRetire ops answer ov =
     (case under_cursor ov of
        None \<Rightarrow> ov
      | Some m \<Rightarrow>
          if answer \<noteq> ''y'' \<and> answer \<noteq> ''Y'' \<and> answer \<noteq> ''yes'' then set_status ''nothing changed'' ov
          else let ov1 = ov\<lparr>ovLog := ovLog ov @ [Retired m]\<rparr>
               in case opRetire ops m of
                    Some e \<Rightarrow> set_status e ov1
                  | None \<Rightarrow>
                      snd (refresh (opOwner ops) (opPaused ops) (opRefresh ops) False
                        (set_status (retired_mark @ '' retired '' @ opQuote ops (mName m) @ dash_sep @ ''to use it again: run `'' @ opBinary ops @
                           '' up` on it and pair fresh'') ov1)))"

definition edit_input :: "bytes \<Rightarrow> overviewState \<Rightarrow> overviewState" where
  "edit_input inp ov = ov\<lparr>ovInput := inp, ovModel := (ovModel ov)\<lparr>omInput := string_of inp\<rparr>\<rparr>"

definition handlePromptKey :: "overviewOps \<Rightarrow> keyEvent \<Rightarrow> overviewState \<Rightarrow> overviewState" where
  "handlePromptKey ops ev ov =
     (let k = evKey ev; b = evRune ev
      in if k = ovEsc \<or> k = ovQuit then (if b = 0x71 then edit_input (ovInput ov @ [b]) ov else closePrompt ''nothing changed'' ov)
         else if k = ovEnter then
           (let txt = string_of (ovInput ov); ov1 = closePrompt [] ov
            in case ovPrompt ov of promptRename \<Rightarrow> finishRename ops txt ov1 | promptRetire \<Rightarrow> finishRetire ops txt ov1 | promptNone \<Rightarrow> ov1)
         else if k = ovRune \<or> k = ovUp \<or> k = ovDown \<or> k = ovRename \<or> k = ovRetire \<or> k = ovHelp then
           (if b = 0x7F \<or> b = 0x08 then edit_input (butlast (ovInput ov)) ov
            else if 0x20 \<le> b \<and> b < 0x7F then edit_input (ovInput ov @ [b]) ov
            else edit_input (ovInput ov) ov)
         else ov)"

definition open_prompt :: "promptKind \<Rightarrow> string \<Rightarrow> overviewState \<Rightarrow> overviewState" where
  "open_prompt kind label ov = ov\<lparr>ovPrompt := kind, ovInput := [], ovModel := (ovModel ov)\<lparr>omPrompt := label, omInput := []\<rparr>\<rparr>"

definition retire_question :: "string \<Rightarrow> string \<Rightarrow> string" where
  "retire_question binary name =
     ''Retire '' @ name @ ''? It disappears from every device; the machine and its tmux keep running; `'' @ binary @ '' up` + pair brings it back. [y/N] ''"

text \<open>The lines a session's snapshots leave for its machine.\<close>

fun sink :: "(bytes \<Rightarrow> (bool \<times> string list) list option) \<Rightarrow> string \<Rightarrow> bytes list \<Rightarrow> (string, string) gomap \<Rightarrow> (string, string) gomap" where
  "sink decode name [] ws = ws"
| "sink decode name (p # ps) ws =
     sink decode name ps (if windowsSummary decode p \<noteq> [] then mput ws name (windowsSummary decode p) else ws)"

text \<open>\<open>attach\<close>: the new state and whether the overview's own context ended.\<close>

definition attach :: "overviewOps \<Rightarrow> Machine \<Rightarrow> overviewState \<Rightarrow> overviewState \<times> bool" where
  "attach ops m ov =
     (let (payloads, err, cancelled) = opAttach ops m;
          ov1 = ov\<lparr>ovLog := ovLog ov @ [Attached m], ovWindows := sink (opSummary ops) (mName m) payloads (ovWindows ov)\<rparr>;
          ov2 = set_status (case err of Some e \<Rightarrow> if cancelled then [] else e | None \<Rightarrow> []) ov1;
          ov3 = (case Selected (ovModel ov2) of
                   Some row \<Rightarrow>
                     if rName row = mName m
                     then let i = nat (omCursor (ovModel ov2)); rows = omRows (ovModel ov2)
                          in ov2\<lparr>ovModel := (ovModel ov2)\<lparr>omRows := rows[i := (rows ! i)\<lparr>rWindowsLine := windows_line (ovWindows ov2) (mName m)\<rparr>]\<rparr>\<rparr>
                     else ov2
                 | None \<Rightarrow> ov2)
      in (ov3, cancelled))"

definition share :: "overviewOps \<Rightarrow> Machine \<Rightarrow> overviewState \<Rightarrow> overviewState" where
  "share ops m ov =
     set_status (case opShare ops m of Some e \<Rightarrow> e | None \<Rightarrow> ''shared'' @ dash_sep @ ''`'' @ opBinary ops @ '' share ls` lists it'')
       (ov\<lparr>ovLog := ovLog ov @ [Shared_out m]\<rparr>)"

datatype outcome = Continue | Quit | Failed

definition handleKey :: "overviewOps \<Rightarrow> keyEvent \<Rightarrow> overviewState \<Rightarrow> outcome \<times> overviewState" where
  "handleKey ops ev ov =
     (if ovPrompt ov \<noteq> promptNone then (Continue, handlePromptKey ops ev ov)
      else case evKey ev of
        ovQuit \<Rightarrow> (Quit, ov)
      | ovUp \<Rightarrow> (Continue, ov\<lparr>ovModel := MoveCursor (- 1) (ovModel ov)\<rparr>)
      | ovDown \<Rightarrow> (Continue, ov\<lparr>ovModel := MoveCursor 1 (ovModel ov)\<rparr>)
      | ovHelp \<Rightarrow> (Continue, set_status ovHelpLine ov)
      | ovEnter \<Rightarrow>
          (case under_cursor ov of
             None \<Rightarrow> (Continue, ov)
           | Some m \<Rightarrow> let (ov', cancelled) = attach ops m ov in (if cancelled then Failed else Continue, ov'))
      | ovShare \<Rightarrow>
          (case Selected (ovModel ov) of
             None \<Rightarrow> (Continue, ov)
           | Some row \<Rightarrow>
               if rShared row then (Continue, set_status (a_share @ ''only its owner can share it onward'') ov)
               else (case under_cursor ov of None \<Rightarrow> (Continue, ov) | Some m \<Rightarrow> (Continue, share ops m ov)))
      | ovRename \<Rightarrow>
          (case Selected (ovModel ov) of
             None \<Rightarrow> (Continue, ov)
           | Some row \<Rightarrow>
               if rShared row
               then (Continue, set_status (a_share @ ''only the owner can rename it; it expires on its own'') ov)
               else (Continue, open_prompt promptRename (''new name for '' @ rName row @ '': '') ov))
      | ovRetire \<Rightarrow>
          (case Selected (ovModel ov) of
             None \<Rightarrow> (Continue, ov)
           | Some row \<Rightarrow>
               if rShared row then (Continue, set_status (a_share @ ''it expires on its own; nothing to retire'') ov)
               else (Continue, open_prompt promptRetire (retire_question (opBinary ops) (rName row)) ov))
      | _ \<Rightarrow> (Continue, ov))"

section \<open>The loop\<close>

text \<open>The bytes of one chunk, until a key ends the overview.\<close>

fun handle_chunk :: "overviewOps \<Rightarrow> bytes \<Rightarrow> nat \<Rightarrow> overviewState \<Rightarrow> outcome \<times> nat \<times> overviewState" where
  "handle_chunk ops [] esc ov = (Continue, esc, ov)"
| "handle_chunk ops (b # bs) esc ov =
     (let (ev, esc') = feed esc b; (out, ov') = handleKey ops ev ov
      in if out = Continue then handle_chunk ops bs esc' ov' else (out, esc', ov'))"

text \<open>What wakes the loop: a new window size, a tick with what its refresh finds, a chunk of input.\<close>

datatype event = Winch "(int \<times> int) option" | Tick refreshInput | Chunk overviewOps bytes

definition resize :: "(int \<times> int) option \<Rightarrow> overviewState \<Rightarrow> overviewState" where
  "resize sz ov = (case sz of None \<Rightarrow> ov | Some (w, h) \<Rightarrow> ov\<lparr>ovModel := (ovModel ov)\<lparr>omWidth := w, omHeight := h\<rparr>\<rparr>)"

fun overview_loop :: "string \<Rightarrow> string \<Rightarrow> event list \<Rightarrow> nat \<Rightarrow> overviewState \<Rightarrow> outcome \<times> overviewState" where
  "overview_loop owner paused [] esc ov = (Continue, ov)"
| "overview_loop owner paused (Winch sz # es) esc ov = overview_loop owner paused es esc (resize sz ov)"
| "overview_loop owner paused (Tick rf # es) esc ov = overview_loop owner paused es esc (snd (refresh owner paused rf False ov))"
| "overview_loop owner paused (Chunk ops bs # es) esc ov =
     (let (out, esc', ov') = handle_chunk ops bs esc ov in if out = Continue then overview_loop owner paused es esc' ov' else (out, ov'))"

definition overview_start :: "string \<Rightarrow> overviewState" where
  "overview_start binary =
     \<lparr>ovModel = \<lparr>omBinary = binary, omRows = [], omCursor = 0, omStatus = loading, omPrompt = [], omInput = [], omWidth = 0, omHeight = 0\<rparr>,
      ovMachines = [], ovFresh = {}, ovWindows = [], ovICE = [], ovPrompt = promptNone, ovInput = [], ovLog = []\<rparr>"

definition cmdOverview :: "string \<Rightarrow> string \<Rightarrow> string \<Rightarrow> (int \<times> int) option \<Rightarrow> refreshInput \<Rightarrow> event list \<Rightarrow> outcome \<times> overviewState" where
  "cmdOverview binary owner paused sz rf es =
     overview_loop owner paused es 0 (snd (refresh owner paused rf True (resize sz (overview_start binary))))"

section \<open>The detach gesture\<close>

record detachFilter =
  dfBuf :: bytes
  dfArmed :: bool
  dfDone :: bool

text \<open>The loop over the bytes of a chunk: the bytes passed on, whether a prefix is pending, and whether the gesture was made.\<close>

fun detach_scan :: "byte \<Rightarrow> bool \<Rightarrow> bytes \<Rightarrow> bytes \<Rightarrow> bytes \<times> bool \<times> bool" where
  "detach_scan prefix armed out [] = (out, armed, False)"
| "detach_scan prefix armed out (b # bs) =
     (if armed then
        (if b = 0x64 \<or> b = 0x71 then (out, False, True)
         else if b = prefix then detach_scan prefix False (out @ [prefix]) bs
         else detach_scan prefix False (out @ [prefix, b]) bs)
      else if b = prefix then detach_scan prefix True out bs
      else detach_scan prefix False (out @ [b]) bs)"

text \<open>
  \<open>Read\<close> into a buffer of \<open>n\<close> bytes, with the chunks still to come from the pump: the bytes read, none for \<open>EOF\<close>.
\<close>

fun filter_Read :: "byte \<Rightarrow> nat \<Rightarrow> detachFilter \<Rightarrow> bytes list \<Rightarrow> bytes option \<times> detachFilter \<times> bytes list" where
  "filter_Read prefix n f [] =
     (if dfDone f then (None, f, [])
      else if dfBuf f \<noteq> [] then (Some (take n (dfBuf f)), f\<lparr>dfBuf := drop n (dfBuf f)\<rparr>, []) else (None, f, []))"
| "filter_Read prefix n f (chunk # pump) =
     (if dfDone f then (None, f, chunk # pump)
      else if dfBuf f \<noteq> [] then (Some (take n (dfBuf f)), f\<lparr>dfBuf := drop n (dfBuf f)\<rparr>, chunk # pump)
      else let (out, armed, detached) = detach_scan prefix (dfArmed f) [] chunk
           in if detached
              then (if out \<noteq> [] then (Some (take n out), f\<lparr>dfArmed := False, dfDone := True, dfBuf := drop n out\<rparr>, pump)
                    else (None, f\<lparr>dfArmed := False, dfDone := True\<rparr>, pump))
              else filter_Read prefix n (f\<lparr>dfBuf := out, dfArmed := armed\<rparr>) pump)"

definition newDetachFilter :: detachFilter where
  "newDetachFilter = \<lparr>dfBuf = [], dfArmed = False, dfDone = False\<rparr>"

section \<open>The width of the screen\<close>

lemma truncate_runes_visible:
  "int n \<le> width \<Longrightarrow> int (visible_runes esc (truncate_runes width n esc rs @ [27, 91, 48, 109]) + n) \<le> width"
proof (induction width n esc rs rule: truncate_runes.induct)
  case (2 width n esc r rs)
  then show ?case by (auto simp: algebra_simps)
qed simp

lemma truncate_runes_scalar: "list_all scalar rs \<Longrightarrow> list_all scalar (truncate_runes width n esc rs)"
  by (induction width n esc rs rule: truncate_runes.induct) auto

text \<open>No line of the screen occupies more cells than the terminal has.\<close>

lemma fit_width: "0 < width \<Longrightarrow> int (visibleLen (fit width s)) \<le> width"
proof (cases "width < int (visibleLen s)")
  case True
  assume w: "0 < width"
  have "runes (truncateVisible s width) = truncate_runes width 0 False (runes s) @ [27, 91, 48, 109]"
    by (simp add: truncateVisible_def write_runes_def runes_append_ascii ansiReset_def runes_encode truncate_runes_scalar runes_scalar)
  then show ?thesis using w True truncate_runes_visible [of 0 width False "runes s"] by (simp add: fit_def visibleLen_def)
qed (simp add: fit_def)

section \<open>Consistency of the screen\<close>

text \<open>
  The rows describe the machines at the same places, the cursor is on a row if there is one, a prompt is shown exactly while one is open, and its text is
  printable and holds no \<open>s\<close>.
\<close>

definition prompt_ok :: "overviewState \<Rightarrow> bool" where
  "prompt_ok ov \<longleftrightarrow>
     (ovPrompt ov = promptNone \<longleftrightarrow> omPrompt (ovModel ov) = []) \<and> omInput (ovModel ov) = string_of (ovInput ov) \<and>
     list_all (\<lambda>b. 0x20 \<le> b \<and> b < 0x7F \<and> b \<noteq> 0x73) (ovInput ov)"

definition row_of :: "overviewRow \<Rightarrow> string \<times> string \<times> bool" where "row_of r = (rName r, rMachineID r, rShared r)"

definition machine_row :: "Machine \<Rightarrow> string \<times> string \<times> bool" where "machine_row m = (mName m, mMachineID m, mOwner m \<noteq> [])"

definition rows_ok :: "overviewState \<Rightarrow> bool" where
  "rows_ok ov \<longleftrightarrow>
     map row_of (omRows (ovModel ov)) = map machine_row (ovMachines ov) \<and>
     0 \<le> omCursor (ovModel ov) \<and> (omCursor (ovModel ov) < int (length (omRows (ovModel ov))) \<or> omCursor (ovModel ov) = 0)"

definition overview_ok :: "overviewState \<Rightarrow> bool" where
  "overview_ok ov \<longleftrightarrow> rows_ok ov \<and> prompt_ok ov"

text \<open>Both parts look only at some fields.\<close>

lemma overview_ok_cong:
  assumes "map row_of (omRows (ovModel ov')) = map row_of (omRows (ovModel ov))" "omCursor (ovModel ov') = omCursor (ovModel ov)" "ovMachines ov' = ovMachines ov"
    "ovPrompt ov' = ovPrompt ov" "omPrompt (ovModel ov') = omPrompt (ovModel ov)" "omInput (ovModel ov') = omInput (ovModel ov)" "ovInput ov' = ovInput ov"
  shows "overview_ok ov' \<longleftrightarrow> overview_ok ov"
proof -
  have "length (omRows (ovModel ov')) = length (omRows (ovModel ov))" using assms(1) by (metis length_map)
  then show ?thesis using assms by (simp add: overview_ok_def rows_ok_def prompt_ok_def)
qed

lemma overview_ok_status [simp]: "overview_ok (set_status t ov) \<longleftrightarrow> overview_ok ov"
  by (rule overview_ok_cong) (simp_all add: set_status_def)

lemma overview_ok_log [simp]: "overview_ok (ov\<lparr>ovLog := l\<rparr>) \<longleftrightarrow> overview_ok ov"
  by (rule overview_ok_cong) simp_all

lemma overview_ok_windows [simp]: "overview_ok (ov\<lparr>ovWindows := l\<rparr>) \<longleftrightarrow> overview_ok ov"
  by (rule overview_ok_cong) simp_all

lemma overview_ok_resize: "overview_ok (resize sz ov) \<longleftrightarrow> overview_ok ov"
  by (rule overview_ok_cong) (simp_all add: resize_def split: option.split)

lemma MoveCursor_ok:
  "0 \<le> omCursor (MoveCursor d m) \<and> (omCursor (MoveCursor d m) < int (length (omRows m)) \<or> omCursor (MoveCursor d m) = 0)"
  by (auto simp: MoveCursor_def Let_def)

lemma MoveCursor_other [simp]:
  "omRows (MoveCursor d m) = omRows m" "omPrompt (MoveCursor d m) = omPrompt m" "omInput (MoveCursor d m) = omInput m"
  by (simp_all add: MoveCursor_def Let_def)

lemma overview_ok_move: "overview_ok ov \<Longrightarrow> overview_ok (ov\<lparr>ovModel := MoveCursor d (ovModel ov)\<rparr>)"
  using MoveCursor_ok [of d "ovModel ov"] by (simp add: overview_ok_def rows_ok_def prompt_ok_def)

lemma row_of_overview_row: "row_of (overview_row ov rf discovered m) = machine_row m"
  by (simp add: overview_row_def row_of_def machine_row_def Let_def)

lemma refreshed_ok:
  assumes "prompt_ok ov" "map row_of rows = map machine_row ms"
  shows "overview_ok (ov\<lparr>ovMachines := ms, ovModel := (MoveCursor 0 ((ovModel ov)\<lparr>omRows := rows, omCursor := c\<rparr>))\<lparr>omStatus := t\<rparr>\<rparr>)"
  using assms MoveCursor_ok [of 0 "(ovModel ov)\<lparr>omRows := rows, omCursor := c\<rparr>"] by (simp add: overview_ok_def rows_ok_def prompt_ok_def)

lemma refresh_ok:
  assumes "overview_ok ov"
  shows "overview_ok (snd (refresh owner paused rf first ov))"
proof -
  define ov1 where "ov1 = (case rfICE rf of Some ice \<Rightarrow> if first \<and> ice \<noteq> [] then ov\<lparr>ovICE := ice\<rparr> else ov | None \<Rightarrow> ov)"
  have same: "ovModel ov1 = ovModel ov" "ovMachines ov1 = ovMachines ov" "ovPrompt ov1 = ovPrompt ov" "ovInput ov1 = ovInput ov"
    by (simp_all add: ov1_def split: option.split)
  then have ok1: "overview_ok (set_status t ov1)" for t using assms overview_ok_cong [of "set_status t ov1" ov] by (simp add: set_status_def)
  show ?thesis
  proof (cases "rfLocal rf"; cases "rfRevocations rf")
    fix local revocations
    assume r: "rfLocal rf = Inr local" "rfRevocations rf = Inr revocations"
    have "prompt_ok (if first then ov1\<lparr>ovFresh := rfUnseen rf\<rparr> else ov1)" using assms same by (simp add: overview_ok_def prompt_ok_def)
    then show ?thesis unfolding refresh_def r ov1_def [symmetric] Let_def sum.case snd_conv
      by (rule refreshed_ok) (simp add: row_of_overview_row)
  qed (use ok1 in \<open>simp_all add: refresh_def ov1_def [symmetric] Let_def set_status_def\<close>)
qed

lemma closePrompt_ok: "overview_ok ov \<Longrightarrow> overview_ok (closePrompt t ov)"
  by (simp add: overview_ok_def rows_ok_def prompt_ok_def closePrompt_def string_of_def)

lemma edit_input_ok:
  assumes "overview_ok ov" "list_all (\<lambda>b. 0x20 \<le> b \<and> b < 0x7F \<and> b \<noteq> 0x73) inp"
  shows "overview_ok (edit_input inp ov)"
  using assms by (simp add: overview_ok_def rows_ok_def prompt_ok_def edit_input_def)

lemma open_prompt_ok: "overview_ok ov \<Longrightarrow> kind \<noteq> promptNone \<Longrightarrow> label \<noteq> [] \<Longrightarrow> overview_ok (open_prompt kind label ov)"
  by (simp add: overview_ok_def rows_ok_def prompt_ok_def open_prompt_def string_of_def)

lemma finishRename_ok: "overview_ok ov \<Longrightarrow> overview_ok (finishRename ops n ov)"
  by (auto simp: finishRename_def Let_def refresh_ok split: option.split)

lemma finishRetire_ok: "overview_ok ov \<Longrightarrow> overview_ok (finishRetire ops a ov)"
  by (auto simp: finishRetire_def Let_def refresh_ok split: option.split)

definition key_ok :: "keyEvent \<Rightarrow> bool" where
  "key_ok ev \<longleftrightarrow> (evRune ev = 0x73 \<longrightarrow> evKey ev = ovShare)"

lemma feed_ok: "key_ok (fst (feed esc b))"
  by (simp add: key_ok_def feed_def)

lemma handlePromptKey_ok:
  assumes "overview_ok ov" "key_ok ev"
  shows "overview_ok (handlePromptKey ops ev ov)"
proof -
  have inp: "list_all (\<lambda>b. 0x20 \<le> b \<and> b < 0x7F \<and> b \<noteq> 0x73) (ovInput ov)" using assms(1) by (simp add: overview_ok_def prompt_ok_def)
  then have bl: "list_all (\<lambda>b. 0x20 \<le> b \<and> b < 0x7F \<and> b \<noteq> 0x73) (butlast (ovInput ov))" by (auto simp: list_all_iff dest: in_set_butlastD)
  have fin: "overview_ok (case ovPrompt ov of promptRename \<Rightarrow> finishRename ops t (closePrompt [] ov) | promptRetire \<Rightarrow> finishRetire ops t (closePrompt [] ov)
      | promptNone \<Rightarrow> closePrompt [] ov)" for t
    using assms(1) by (simp add: closePrompt_ok finishRename_ok finishRetire_ok split: promptKind.split)
  show ?thesis unfolding handlePromptKey_def Let_def
    using assms inp bl fin by (auto simp: key_ok_def intro!: edit_input_ok closePrompt_ok)
qed

lemma attach_ok:
  assumes "overview_ok ov"
  shows "overview_ok (fst (attach ops m ov))"
proof -
  obtain payloads err cancelled where a: "opAttach ops m = (payloads, err, cancelled)" by (metis surj_pair)
  have upd: "map row_of (rows[i := (rows ! i)\<lparr>rWindowsLine := l\<rparr>]) = map row_of rows" for rows i l
    by (cases "i < length rows") (simp_all add: map_update row_of_def list_update_same_conv list_update_beyond)
  define ov2 where "ov2 = set_status (case err of Some e \<Rightarrow> if cancelled then [] else e | None \<Rightarrow> [])
    (ov\<lparr>ovLog := ovLog ov @ [Attached m], ovWindows := sink (opSummary ops) (mName m) payloads (ovWindows ov)\<rparr>)"
  have ok2: "overview_ok ov2" using assms by (simp add: ov2_def)
  have "overview_ok (ov2\<lparr>ovModel := (ovModel ov2)\<lparr>omRows := (omRows (ovModel ov2))[i := (omRows (ovModel ov2) ! i)\<lparr>rWindowsLine := l\<rparr>]\<rparr>\<rparr>) \<longleftrightarrow> overview_ok ov2" for i l
    by (rule overview_ok_cong) (simp_all add: upd)
  then show ?thesis unfolding attach_def a Let_def prod.case fst_conv ov2_def [symmetric] using ok2 by (simp split: option.split)
qed

lemma share_ok: "overview_ok ov \<Longrightarrow> overview_ok (share ops m ov)"
  by (simp add: share_def)

lemma handleKey_ok:
  assumes "overview_ok ov" "key_ok ev"
  shows "overview_ok (snd (handleKey ops ev ov))"
proof -
  have att: "overview_ok (snd (let (ov', cancelled) = attach ops m ov in (if cancelled then Failed else Continue, ov')))" for m
    using attach_ok [OF assms(1), of ops m] by (simp add: split_beta)
  show ?thesis
    using assms att
    by (auto simp: handleKey_def handlePromptKey_ok overview_ok_move open_prompt_ok share_ok retire_question_def split: ovKey.split option.split)
qed

lemma handle_chunk_ok: "overview_ok ov \<Longrightarrow> overview_ok (snd (snd (handle_chunk ops bs esc ov)))"
proof (induction bs arbitrary: esc ov)
  case (Cons b bs)
  have "overview_ok (snd (handleKey ops (fst (feed esc b)) ov))" by (rule handleKey_ok [OF Cons.prems feed_ok])
  then show ?case using Cons.IH by (simp add: split_beta Let_def)
qed simp

lemma overview_loop_ok: "overview_ok ov \<Longrightarrow> overview_ok (snd (overview_loop owner paused es esc ov))"
proof (induction owner paused es esc ov rule: overview_loop.induct)
  case (4 owner paused ops bs es esc ov)
  obtain out esc' ov' where c: "handle_chunk ops bs esc ov = (out, esc', ov')" by (metis surj_pair)
  then have "overview_ok ov'" using handle_chunk_ok [OF "4.prems", of ops bs esc] by simp
  then show ?case using "4.IH" [OF c [symmetric] refl] by (simp add: c)
qed (simp_all add: overview_ok_resize refresh_ok)

lemma overview_start_ok: "overview_ok (overview_start binary)"
  by (simp add: overview_start_def overview_ok_def rows_ok_def prompt_ok_def string_of_def)

section \<open>What the prompts can do\<close>

definition log_ok :: "action list \<Rightarrow> bool" where
  "log_ok log \<longleftrightarrow> list_all (\<lambda>a. case a of Renamed m n \<Rightarrow> CHR ''s'' \<notin> set n | _ \<Rightarrow> True) log"

lemma refresh_log [simp]: "ovLog (snd (refresh owner paused rf first ov)) = ovLog ov"
  by (auto simp: refresh_def Let_def split: sum.split option.split)

lemma status_log [simp]: "ovLog (set_status t ov) = ovLog ov"
  by (simp add: set_status_def)

lemma closePrompt_log [simp]: "ovLog (closePrompt t ov) = ovLog ov"
  by (simp add: closePrompt_def)

lemma edit_input_log [simp]: "ovLog (edit_input t ov) = ovLog ov"
  by (simp add: edit_input_def)

lemma no_s: "list_all (\<lambda>b. 0x20 \<le> b \<and> b < 0x7F \<and> b \<noteq> 0x73) bs \<Longrightarrow> CHR ''s'' \<notin> set (string_of bs)"
proof
  assume b: "list_all (\<lambda>b. 0x20 \<le> b \<and> b < 0x7F \<and> b \<noteq> 0x73) bs" and "CHR ''s'' \<in> set (string_of bs)"
  then obtain x where x: "x \<in> set bs" "CHR ''s'' = char_byte x" by (auto simp: string_of_def)
  then have "x = byte_of CHR ''s''" by (metis byte_of_char_byte)
  then have "x = 0x73" by (simp add: byte_of_def)
  with x b show False by (auto simp: list_all_iff)
qed

lemma finishRename_log: "log_ok (ovLog ov) \<Longrightarrow> CHR ''s'' \<notin> set n \<Longrightarrow> log_ok (ovLog (finishRename ops n ov))"
  by (simp add: finishRename_def Let_def log_ok_def split: option.split)

lemma finishRetire_log: "log_ok (ovLog ov) \<Longrightarrow> log_ok (ovLog (finishRetire ops a ov))"
  by (simp add: finishRetire_def Let_def log_ok_def split: option.split)

lemma handlePromptKey_log:
  assumes "overview_ok ov" "log_ok (ovLog ov)"
  shows "log_ok (ovLog (handlePromptKey ops ev ov))"
proof -
  have "CHR ''s'' \<notin> set (string_of (ovInput ov))" using assms(1) by (intro no_s) (simp add: overview_ok_def prompt_ok_def)
  then show ?thesis using assms(2) by (simp add: handlePromptKey_def Let_def finishRename_log finishRetire_log split: promptKind.split)
qed

lemma attach_log: "log_ok (ovLog ov) \<Longrightarrow> log_ok (ovLog (fst (attach ops m ov)))"
  by (auto simp: attach_def Let_def log_ok_def split: option.split prod.split)

lemma handleKey_log:
  assumes "overview_ok ov" "log_ok (ovLog ov)"
  shows "log_ok (ovLog (snd (handleKey ops ev ov)))"
proof -
  have att: "log_ok (ovLog (snd (let (ov', cancelled) = attach ops m ov in (if cancelled then Failed else Continue, ov'))))" for m
    using attach_log [OF assms(2), of ops m] by (simp add: split_beta)
  have sh: "log_ok (ovLog (share ops m ov))" for m using assms(2) by (simp add: share_def log_ok_def)
  show ?thesis using assms att sh
    by (auto simp: handleKey_def handlePromptKey_log open_prompt_def split: ovKey.split option.split)
qed

lemma handle_chunk_log: "overview_ok ov \<Longrightarrow> log_ok (ovLog ov) \<Longrightarrow> log_ok (ovLog (snd (snd (handle_chunk ops bs esc ov))))"
proof (induction bs arbitrary: esc ov)
  case (Cons b bs)
  let ?ov = "snd (handleKey ops (fst (feed esc b)) ov)"
  have "overview_ok ?ov" "log_ok (ovLog ?ov)" using handleKey_ok [OF Cons.prems(1) feed_ok] handleKey_log [OF Cons.prems] by blast+
  then show ?case using Cons.IH by (simp add: split_beta Let_def)
qed simp

lemma overview_loop_log: "overview_ok ov \<Longrightarrow> log_ok (ovLog ov) \<Longrightarrow> log_ok (ovLog (snd (overview_loop owner paused es esc ov)))"
proof (induction owner paused es esc ov rule: overview_loop.induct)
  case (2 owner paused sz es esc ov)
  moreover have "ovLog (resize sz ov) = ovLog ov" by (simp add: resize_def split: option.split)
  ultimately show ?case by (simp add: overview_ok_resize)
next
  case (4 owner paused ops bs es esc ov)
  obtain out esc' ov' where c: "handle_chunk ops bs esc ov = (out, esc', ov')" by (metis surj_pair)
  then have "overview_ok ov'" "log_ok (ovLog ov')"
    using handle_chunk_ok [OF "4.prems"(1), of ops bs esc] handle_chunk_log [OF "4.prems", of ops bs esc] by simp_all
  then show ?case using "4.IH" [OF c [symmetric] refl] by (simp add: c)
qed (simp_all add: refresh_ok)

section \<open>What the detach filter passes on\<close>

lemma detach_scan_append:
  "detach_scan p armed out (xs @ ys) =
     (let (o1, a1, d1) = detach_scan p armed out xs in if d1 then (o1, a1, d1) else detach_scan p a1 o1 ys)"
  by (induction p armed out xs rule: detach_scan.induct) auto

lemma detach_scan_out: "detach_scan p armed (pre @ out) xs = (let (o1, r) = detach_scan p armed out xs in (pre @ o1, r))"
  by (induction p armed out xs rule: detach_scan.induct) (simp_all del: append_assoc add: append_assoc [symmetric])

lemma detach_scan_length:
  "detach_scan p armed out xs = (o1, a1, True) \<Longrightarrow> length o1 + (if armed then 1 else 2) \<le> length out + length xs"
proof (induction p armed out xs rule: detach_scan.induct)
  case (2 p armed out b bs)
  show ?case
  proof (cases armed)
    case True
    then show ?thesis using 2 by (cases "b = 0x64 \<or> b = 0x71"; cases "b = p") auto
  next
    case False
    then show ?thesis using 2 by (cases "b = p") auto
  qed
qed simp

text \<open>Every byte the reader gets, with buffers of \<open>n + 1\<close> bytes, until the end of input.\<close>

function read_all :: "byte \<Rightarrow> nat \<Rightarrow> detachFilter \<Rightarrow> bytes list \<Rightarrow> bytes \<times> detachFilter" where
  "read_all p n f pump =
     (case filter_Read p (Suc n) f pump of
        (None, f', _) \<Rightarrow> ([], f')
      | (Some d, f', pump') \<Rightarrow> let (ds, f'') = read_all p n f' pump' in (d @ ds, f''))"
  by pat_completeness auto

lemma filter_Read_progress:
  "filter_Read p (Suc n) f pump = (Some d, f', pump') \<Longrightarrow>
     length pump' < length pump \<or> length pump' = length pump \<and> length (dfBuf f') < length (dfBuf f)"
proof (induction p "Suc n" f pump rule: filter_Read.induct)
  case (2 p f chunk pump)
  then show ?case by (fastforce split: if_splits prod.splits)
qed (auto split: if_splits)

termination read_all
proof (relation "measures [\<lambda>(p, n, f, pump). length pump, \<lambda>(p, n, f, pump). length (dfBuf f)]", goal_cases)
  case (2 p n f pump)
  then show ?case using filter_Read_progress [of p n f pump] by (metis (mono_tags, lifting) case_prod_conv in_measures(2))
qed simp

declare read_all.simps [simp del]

lemma filter_Read_buf:
  "\<not> dfDone f \<Longrightarrow> dfBuf f \<noteq> [] \<Longrightarrow> filter_Read p n f pump = (Some (take n (dfBuf f)), f\<lparr>dfBuf := drop n (dfBuf f)\<rparr>, pump)"
  by (cases pump) simp_all

lemma read_all_buf:
  "\<not> dfDone f \<Longrightarrow> read_all p n f pump = (let (ds, f') = read_all p n (f\<lparr>dfBuf := []\<rparr>) pump in (dfBuf f @ ds, f'))"
proof (induction "length (dfBuf f)" arbitrary: f rule: less_induct)
  case less
  show ?case
  proof (cases "dfBuf f = []")
    case True
    then have eq: "f\<lparr>dfBuf := []\<rparr> = f" by (cases f) simp
    show ?thesis unfolding eq using True by simp
  next
    case False
    let ?g = "f\<lparr>dfBuf := drop (Suc n) (dfBuf f)\<rparr>"
    have "read_all p n f pump = (let (ds, f') = read_all p n ?g pump in (take (Suc n) (dfBuf f) @ ds, f'))"
      using less.prems False by (subst read_all.simps) (simp add: filter_Read_buf)
    also have "read_all p n ?g pump = (let (ds, f') = read_all p n (f\<lparr>dfBuf := []\<rparr>) pump in (drop (Suc n) (dfBuf f) @ ds, f'))"
      using less.hyps [of ?g] less.prems False by (cases "dfBuf f") simp_all
    finally show ?thesis by (simp add: split_beta Let_def)
  qed
qed

lemma read_all_done: "dfDone f \<Longrightarrow> read_all p n f pump = ([], f)"
  by (subst read_all.simps) (cases pump; simp)

lemma read_all_scan:
  assumes "\<not> dfDone f" "dfBuf f = []" "list_all (\<lambda>c. length c \<le> Suc n) pump"
  shows "fst (read_all p n f pump) = fst (detach_scan p (dfArmed f) [] (concat pump)) \<and>
    dfDone (snd (read_all p n f pump)) = snd (snd (detach_scan p (dfArmed f) [] (concat pump)))"
  using assms
proof (induction pump arbitrary: f)
  case Nil
  then show ?case by (subst (1 2) read_all.simps) simp
next
  case (Cons chunk pump)
  obtain out a d where sc: "detach_scan p (dfArmed f) [] chunk = (out, a, d)" by (metis surj_pair)
  show ?case
  proof (cases d)
    case True
    have "length out \<le> Suc n" using detach_scan_length [of p "dfArmed f" "[]" chunk out a] sc True Cons.prems(3) by (auto split: if_splits)
    then show ?thesis using Cons.prems True sc
      by (subst (1 2) read_all.simps) (simp add: detach_scan_append read_all_done split_beta Let_def)
  next
    case False
    let ?f = "f\<lparr>dfBuf := out, dfArmed := a\<rparr>" and ?g = "f\<lparr>dfArmed := a, dfBuf := []\<rparr>"
    have "filter_Read p (Suc n) f (chunk # pump) = filter_Read p (Suc n) ?f pump" using Cons.prems False sc by simp
    then have "read_all p n f (chunk # pump) = read_all p n ?f pump" by (simp add: read_all.simps [of p n f "chunk # pump"] read_all.simps [of p n ?f pump])
    also have "\<dots> = (let (ds, f') = read_all p n ?g pump in (out @ ds, f'))" using read_all_buf [of ?f p n pump] Cons.prems(1) by simp
    finally have r: "read_all p n f (chunk # pump) = (let (ds, f') = read_all p n ?g pump in (out @ ds, f'))" .
    have "detach_scan p (dfArmed f) [] (concat (chunk # pump)) = (let (o1, r) = detach_scan p a [] (concat pump) in (out @ o1, r))"
      using detach_scan_out [of p a out "[]" "concat pump"] False sc by (simp add: detach_scan_append)
    then show ?thesis using Cons.IH [of ?g] Cons.prems r by (simp add: split_beta Let_def)
  qed
qed

section \<open>Properties\<close>

text \<open>
  C36. At every moment of an overview session, whatever keys, refreshes and resizes arrive and whatever the operations answer, the screen is consistent: each row
  shows the machine that a key on it acts on, the cursor is on a row whenever there is one, a prompt is shown exactly while its answer is awaited, and the
  answer typed so far is printable.
\<close>

theorem overview_consistent:
  "case cmdOverview binary owner paused sz rf es of (_, ov) \<Rightarrow>
     map rName (omRows (ovModel ov)) = map mName (ovMachines ov) \<and> map rMachineID (omRows (ovModel ov)) = map mMachineID (ovMachines ov) \<and>
     map rShared (omRows (ovModel ov)) = map (\<lambda>m. mOwner m \<noteq> []) (ovMachines ov) \<and>
     0 \<le> omCursor (ovModel ov) \<and> (omCursor (ovModel ov) < int (length (omRows (ovModel ov))) \<or> omRows (ovModel ov) = [] \<and> omCursor (ovModel ov) = 0) \<and>
     (ovPrompt ov = promptNone \<longleftrightarrow> omPrompt (ovModel ov) = []) \<and> omInput (ovModel ov) = string_of (ovInput ov) \<and>
     list_all (\<lambda>b. 0x20 \<le> b \<and> b < 0x7F) (ovInput ov)"
proof -
  have "overview_ok (snd (cmdOverview binary owner paused sz rf es))"
    unfolding cmdOverview_def by (intro overview_loop_ok refresh_ok) (simp add: overview_ok_resize overview_start_ok)
  then obtain out ov where c: "cmdOverview binary owner paused sz rf es = (out, ov)" and ok: "overview_ok ov" by (metis prod.collapse)
  then have r: "map row_of (omRows (ovModel ov)) = map machine_row (ovMachines ov)" by (simp add: overview_ok_def rows_ok_def)
  then have "map (fst \<circ> row_of) (omRows (ovModel ov)) = map (fst \<circ> machine_row) (ovMachines ov)"
    "map (fst \<circ> snd \<circ> row_of) (omRows (ovModel ov)) = map (fst \<circ> snd \<circ> machine_row) (ovMachines ov)"
    "map (snd \<circ> snd \<circ> row_of) (omRows (ovModel ov)) = map (snd \<circ> snd \<circ> machine_row) (ovMachines ov)" by (metis map_map)+
  moreover have "omCursor (ovModel ov) = 0 \<Longrightarrow> omRows (ovModel ov) \<noteq> [] \<Longrightarrow> omCursor (ovModel ov) < int (length (omRows (ovModel ov)))" by simp
  moreover have "fst \<circ> row_of = rName" "fst \<circ> snd \<circ> row_of = rMachineID" "snd \<circ> snd \<circ> row_of = rShared"
    "fst \<circ> machine_row = mName" "fst \<circ> snd \<circ> machine_row = mMachineID" "snd \<circ> snd \<circ> machine_row = (\<lambda>m. mOwner m \<noteq> [])"
    by (auto simp: row_of_def machine_row_def fun_eq_iff)
  ultimately show ?thesis using c ok by (auto simp: overview_ok_def rows_ok_def prompt_ok_def list_all_iff)
qed

text \<open>
  The key that starts a share is lost inside a prompt: in no session is a machine renamed to a name with an \<open>s\<close> in it, whatever the user types, since
  \<open>handlePromptKey\<close> does not list that key among the ordinary ones. The answer \<open>yes\<close>, which the retire prompt accepts, cannot be typed either.
\<close>

theorem prompt_loses_s:
  "case cmdOverview binary owner paused sz rf es of (_, ov) \<Rightarrow>
     list_all (\<lambda>a. case a of Renamed m n \<Rightarrow> CHR ''s'' \<notin> set n | _ \<Rightarrow> True) (ovLog ov) \<and> CHR ''s'' \<notin> set (string_of (ovInput ov))"
proof -
  let ?ov0 = "snd (refresh owner paused rf True (resize sz (overview_start binary)))"
  have ok: "overview_ok ?ov0" by (intro refresh_ok) (simp add: overview_ok_resize overview_start_ok)
  have "log_ok (ovLog ?ov0)" by (simp add: log_ok_def resize_def overview_start_def split: option.split)
  moreover obtain out ov where c: "overview_loop owner paused es 0 ?ov0 = (out, ov)" by (metis surj_pair)
  ultimately have "log_ok (ovLog ov)" "overview_ok ov" using overview_loop_log [OF ok, of owner paused es 0] overview_loop_ok [OF ok, of owner paused es 0] by simp_all
  then show ?thesis using no_s [of "ovInput ov"] by (simp add: cmdOverview_def c log_ok_def overview_ok_def prompt_ok_def)
qed

text \<open>
  However the terminal's input is cut into chunks, a bridge that reads it through the detach filter with its buffer of at least the chunks' size receives
  exactly the bytes typed before the detach gesture, a doubled prefix as one, and sees the end of input exactly when the gesture is made or the
  input ends; the gesture is recognised across chunks.
\<close>

theorem detach_filter_exact:
  assumes "list_all (\<lambda>c. length c \<le> Suc n) chunks"
  shows "fst (read_all prefix n newDetachFilter chunks) = fst (detach_scan prefix False [] (concat chunks)) \<and>
    dfDone (snd (read_all prefix n newDetachFilter chunks)) = snd (snd (detach_scan prefix False [] (concat chunks)))"
  using read_all_scan [of newDetachFilter n chunks prefix] assms by (simp add: newDetachFilter_def)

theorem detach_filter_exact_witness:
  "fst (read_all 0x0F 4095 newDetachFilter [[0x61, 0x0F], [0x0F, 0x62, 0x0F], [0x64, 0x63]]) = [0x61, 0x0F, 0x62] \<and>
   dfDone (snd (read_all 0x0F 4095 newDetachFilter [[0x61, 0x0F], [0x0F, 0x62, 0x0F], [0x64, 0x63]]))"
  using detach_filter_exact [of 4095 "[[0x61, 0x0F], [0x0F, 0x62, 0x0F], [0x64, 0x63]]" "0x0F"] by simp

definition ov_machine :: "string \<Rightarrow> Machine" where
  "ov_machine n = \<lparr>mName = n, mMachineID = n, mHostPubHex = [], mSignalURL = [], mNameTS = 0, mOwner = []\<rparr>"

definition demo_refresh :: "string list \<Rightarrow> refreshInput" where
  "demo_refresh names =
     \<lparr>rfICE = None, rfDiscovered = [], rfRegistryErr = False, rfLocal = Inr (map ov_machine names), rfRevocations = Inr [], rfUnseen = {},
      rfLastUsed = [], rfGrant = (\<lambda>_. None), rfNow = 0\<rparr>"

definition demo_ops :: "string list \<Rightarrow> overviewOps" where
  "demo_ops names =
     \<lparr>opBinary = ''mir'', opOwner = ''owner'', opPaused = ''paused'', opQuote = id, opSummary = (\<lambda>_. None), opAttach = (\<lambda>_. ([], None, False)),
      opShare = (\<lambda>_. None), opRename = (\<lambda>_ _. None), opRetire = (\<lambda>_. None), opRefresh = demo_refresh names\<rparr>"


end
