(* ===== verification/Self_Update.thy ===== *)
theory Self_Update
  imports Go_Strings Atomic_File Sha256
begin

text \<open>
  Updating the installed binary (\<open>internal/selfupdate\<close>): choosing the release, authenticating the checksum file with cosign, checking the archive against it,
  extracting the binary and swapping it in, and the cached notice that a newer version exists.

  Outside the sources and therefore arguments: GitHub's answers (\<open>get\<close>, \<open>fetch\<close>), the \<open>cosign\<close> program, the reading of a gzipped tar archive, the ordering of
  \<open>golang.org/x/mod/semver\<close>, and which file operations succeed. SHA-256 and the reading of the checksum file are modelled.
\<close>

section \<open>Releases\<close>

record updateClient =
  ucAPIBase :: string
  ucRepo :: string
  ucBinary :: string
  ucOS :: string
  ucArch :: string
  ucPre :: bool

record Release =
  rlTag :: string
  rlAssetURL :: string
  rlAssetName :: string
  rlChecksumsURL :: string
  rlChecksumsSigURL :: string
  rlChecksumsCertURL :: string

record ghAsset =
  gaName :: string
  gaURL :: string

record ghRelease =
  ghTagName :: string
  ghDraft :: bool
  ghAssets :: "ghAsset list"

record semver =
  svIsValid :: "string \<Rightarrow> bool"
  svCompare :: "string \<Rightarrow> string \<Rightarrow> int"
  svPrerelease :: "string \<Rightarrow> string"

datatype update_error =
  Unreachable | NoSemverRelease | NoAsset | NoChecksums | DownloadFailed | NoCosign | NoSignature | TempFailed | CosignFailed
  | NoChecksumEntry | ChecksumMismatch | BadArchive | BinaryNotFound | SwapFailed

definition canon :: "string \<Rightarrow> string" where
  "canon v = (let v = TrimSpace v in if v = [] then [] else if HasPrefix v ''v'' then v else ''v'' @ v)"

definition assetName :: "updateClient \<Rightarrow> string \<Rightarrow> string" where
  "assetName c tag = ucBinary c @ ''_'' @ TrimPrefix tag ''v'' @ ''_'' @ ucOS c @ ''_'' @ ucArch c @ ''.tar.gz''"

definition take_asset :: "string \<Rightarrow> ghAsset \<Rightarrow> Release \<Rightarrow> Release" where
  "take_asset want a rel =
     (if gaName a = want then rel\<lparr>rlAssetURL := gaURL a\<rparr>
      else if gaName a = ''checksums.txt'' then rel\<lparr>rlChecksumsURL := gaURL a\<rparr>
      else if gaName a = ''checksums.txt.sig'' then rel\<lparr>rlChecksumsSigURL := gaURL a\<rparr>
      else if gaName a = ''checksums.txt.pem'' then rel\<lparr>rlChecksumsCertURL := gaURL a\<rparr>
      else rel)"

definition resolve :: "updateClient \<Rightarrow> ghRelease \<Rightarrow> update_error + Release" where
  "resolve c gr =
     (let want = assetName c (ghTagName gr);
          rel = fold (take_asset want) (ghAssets gr)
            \<lparr>rlTag = ghTagName gr, rlAssetURL = [], rlAssetName = want, rlChecksumsURL = [], rlChecksumsSigURL = [], rlChecksumsCertURL = []\<rparr>
      in if rlAssetURL rel = [] then Inl NoAsset else if rlChecksumsURL rel = [] then Inl NoChecksums else Inr rel)"

text \<open>The loop of \<open>latestIncludingPre\<close>: the best release so far.\<close>

definition candidate :: "semver \<Rightarrow> ghRelease \<Rightarrow> bool" where
  "candidate sv gr \<longleftrightarrow> \<not> (ghDraft gr \<or> \<not> svIsValid sv (canon (ghTagName gr)))"

fun best_release :: "semver \<Rightarrow> ghRelease list \<Rightarrow> ghRelease option \<Rightarrow> ghRelease option" where
  "best_release sv [] best = best"
| "best_release sv (gr # grs) best =
     best_release sv grs
       (if \<not> candidate sv gr then best
        else case best of
          None \<Rightarrow> Some gr
        | Some b \<Rightarrow> if 0 < svCompare sv (canon (ghTagName gr)) (canon (ghTagName b)) then Some gr else best)"

text \<open>\<open>get\<close> and \<open>getList\<close> are the decoded 200 answers of GitHub at a URL.\<close>

definition latestIncludingPre :: "semver \<Rightarrow> (string \<Rightarrow> ghRelease list option) \<Rightarrow> updateClient \<Rightarrow> update_error + Release" where
  "latestIncludingPre sv getList c =
     (case getList (TrimRightSlash (ucAPIBase c) @ ''/repos/'' @ ucRepo c @ ''/releases?per_page=30'') of
        None \<Rightarrow> Inl Unreachable
      | Some grs \<Rightarrow> (case best_release sv grs None of None \<Rightarrow> Inl NoSemverRelease | Some gr \<Rightarrow> resolve c gr))"

definition Latest :: "semver \<Rightarrow> (string \<Rightarrow> ghRelease option) \<Rightarrow> (string \<Rightarrow> ghRelease list option) \<Rightarrow> updateClient \<Rightarrow> update_error + Release" where
  "Latest sv get getList c =
     (if ucPre c then latestIncludingPre sv getList c
      else case get (TrimRightSlash (ucAPIBase c) @ ''/repos/'' @ ucRepo c @ ''/releases/latest'') of
        None \<Rightarrow> Inl Unreachable
      | Some gr \<Rightarrow> resolve c gr)"

definition IsPrerelease :: "semver \<Rightarrow> string \<Rightarrow> bool" where
  "IsPrerelease sv v \<longleftrightarrow> svIsValid sv (canon v) \<and> svPrerelease sv (canon v) \<noteq> []"

definition IsNewer :: "semver \<Rightarrow> string \<Rightarrow> string \<Rightarrow> bool" where
  "IsNewer sv cur latest \<longleftrightarrow>
     (if \<not> svIsValid sv (canon cur) then True
      else if \<not> svIsValid sv (canon latest) then False
      else 0 < svCompare sv (canon latest) (canon cur))"

section \<open>The checksum file\<close>

text \<open>
  \<open>bufio.Scanner\<close> with its default line splitting: a trailing carriage return is dropped, the text after the last line end is a line if it is not empty,
  and a line that does not fit the buffer of 64 kB stops the scan.
\<close>

definition drop_cr :: "string \<Rightarrow> string" where
  "drop_cr l = (if l \<noteq> [] \<and> last l = CHR 0x0D then butlast l else l)"

definition scan_lines :: "string \<Rightarrow> string list" where
  "scan_lines s =
     (let ls = Split (CHR 0x0A) s; ls' = (if last ls = [] then butlast ls else ls)
      in map drop_cr (takeWhile (\<lambda>l. length l < 65536) ls'))"

text \<open>\<open>bytes.Fields\<close>: the text of each rune, and the maximal runs without white space.\<close>

fun pieces :: "(nat \<times> nat) list \<Rightarrow> string \<Rightarrow> (nat \<times> string) list" where
  "pieces [] s = []"
| "pieces ((r, w) # rs) s = (r, take w s) # pieces rs (drop w s)"

fun fields_of :: "string \<Rightarrow> (nat \<times> string) list \<Rightarrow> string list" where
  "fields_of cur [] = (if cur = [] then [] else [cur])"
| "fields_of cur ((r, t) # ps) =
     (if IsSpace r then (if cur = [] then fields_of [] ps else cur # fields_of [] ps) else fields_of (cur @ t) ps)"

definition bytes_Fields :: "string \<Rightarrow> string list" where
  "bytes_Fields s = fields_of [] (pieces (rune_list (codes s)) s)"

fun checksum_entry :: "string \<Rightarrow> string list \<Rightarrow> string" where
  "checksum_entry name [] = []"
| "checksum_entry name (l # ls) =
     (case bytes_Fields l of [digest, n] \<Rightarrow> if n = name then digest else checksum_entry name ls | _ \<Rightarrow> checksum_entry name ls)"

definition verifyChecksum :: "bytes \<Rightarrow> string \<Rightarrow> string \<Rightarrow> update_error option" where
  "verifyChecksum data name checksums =
     (let want = checksum_entry name (scan_lines checksums)
      in if want = [] then Some NoChecksumEntry
         else if hex_EncodeToString (sha256 data) \<noteq> want then Some ChecksumMismatch else None)"

section \<open>Applying an update\<close>

definition cosignOIDCIssuer :: string where
  "cosignOIDCIssuer = ''https://token.actions.githubusercontent.com''"

definition cosignIdentityRegexp :: "string \<Rightarrow> string" where
  "cosignIdentityRegexp repo = ''https://github.com/'' @ repo @ ''/.github/workflows/release.yml@refs/tags/v.*''"

text \<open>
  \<open>cosign cert sig identity issuer blob\<close>: whether \<open>cosign verify-blob\<close> accepts; \<open>installed\<close>: whether the program is found; \<open>temp\<close>: whether the temporary
  directory and its three files could be written.
\<close>

record update_env =
  ueFetch :: "string \<Rightarrow> bytes option"
  ueInstalled :: bool
  ueTemp :: bool
  ueCosign :: "bytes \<Rightarrow> bytes \<Rightarrow> string \<Rightarrow> string \<Rightarrow> bytes \<Rightarrow> bool"
  ueUntar :: "bytes \<Rightarrow> ((string \<times> bytes) list \<times> bool) option"
  ueIO :: "file_call \<Rightarrow> bool"

definition verifyChecksumsSignature :: "update_env \<Rightarrow> updateClient \<Rightarrow> Release \<Rightarrow> bytes \<Rightarrow> update_error option" where
  "verifyChecksumsSignature env c rel sums =
     (if \<not> ueInstalled env then Some NoCosign
      else if rlChecksumsSigURL rel = [] \<or> rlChecksumsCertURL rel = [] then Some NoSignature
      else case ueFetch env (rlChecksumsSigURL rel) of
        None \<Rightarrow> Some DownloadFailed
      | Some sig \<Rightarrow>
          (case ueFetch env (rlChecksumsCertURL rel) of
             None \<Rightarrow> Some DownloadFailed
           | Some cert \<Rightarrow>
               if \<not> ueTemp env then Some TempFailed
               else if ueCosign env cert sig (cosignIdentityRegexp (ucRepo c)) cosignOIDCIssuer sums then None else Some CosignFailed))"

text \<open>
  \<open>extractBinary\<close>: \<open>ueUntar\<close> gives none when the archive is no gzip stream, else its entries up to the first error and whether the end was reached.
\<close>

fun find_entry :: "string \<Rightarrow> (string \<times> bytes) list \<Rightarrow> bool \<Rightarrow> update_error + bytes" where
  "find_entry name [] complete = Inl (if complete then BinaryNotFound else BadArchive)"
| "find_entry name ((n, data) # es) complete = (if path_Base n = name then Inr data else find_entry name es complete)"

definition extractBinary :: "update_env \<Rightarrow> bytes \<Rightarrow> string \<Rightarrow> update_error + bytes" where
  "extractBinary env targz name = (case ueUntar env targz of None \<Rightarrow> Inl BadArchive | Some (es, complete) \<Rightarrow> find_entry name es complete)"

definition swap :: "update_env \<Rightarrow> bytes \<Rightarrow> bytes option \<Rightarrow> update_error option \<times> bytes option" where
  "swap env data target =
     (let (ok, target') = run_calls write_temp_rename (ueIO env) data target in (if ok then None else Some SwapFailed, target'))"

definition Apply :: "update_env \<Rightarrow> updateClient \<Rightarrow> Release \<Rightarrow> bytes option \<Rightarrow> update_error option \<times> bytes option" where
  "Apply env c rel target =
     (case ueFetch env (rlAssetURL rel) of
        None \<Rightarrow> (Some DownloadFailed, target)
      | Some archive \<Rightarrow>
          (case ueFetch env (rlChecksumsURL rel) of
             None \<Rightarrow> (Some DownloadFailed, target)
           | Some sums \<Rightarrow>
               (case verifyChecksumsSignature env c rel sums of
                  Some e \<Rightarrow> (Some e, target)
                | None \<Rightarrow>
                    (case verifyChecksum archive (rlAssetName rel) (string_of sums) of
                       Some e \<Rightarrow> (Some e, target)
                     | None \<Rightarrow>
                         (case extractBinary env archive (ucBinary c) of
                            Inl e \<Rightarrow> (Some e, target)
                          | Inr binData \<Rightarrow> swap env binData target)))))"

section \<open>The notice\<close>

record checkState =
  ckLatestTag :: string
  ckCheckedAt :: time
  ckChannel :: string

definition channel :: "updateClient \<Rightarrow> string" where
  "channel c = (if ucPre c then ''pre'' else ''stable'')"

definition channelOf :: "checkState \<Rightarrow> string" where
  "channelOf st = (if ckChannel st = [] then ''stable'' else ckChannel st)"

text \<open>The cache file is its decoded content, none when it is missing or unreadable.\<close>

definition shouldCheck :: "updateClient \<Rightarrow> time \<Rightarrow> duration \<Rightarrow> checkState option \<Rightarrow> bool" where
  "shouldCheck c now window cache =
     (case cache of None \<Rightarrow> True | Some st \<Rightarrow> if channelOf st \<noteq> channel c then True else window \<le> now - ckCheckedAt st)"

definition cachedLatest :: "updateClient \<Rightarrow> checkState option \<Rightarrow> string" where
  "cachedLatest c cache = (case cache of None \<Rightarrow> [] | Some st \<Rightarrow> if channelOf st \<noteq> channel c then [] else ckLatestTag st)"

definition writeCheck :: "bool \<Rightarrow> updateClient \<Rightarrow> string \<Rightarrow> time \<Rightarrow> checkState option \<Rightarrow> checkState option" where
  "writeCheck ok c tag at cache = (if ok then Some \<lparr>ckLatestTag = tag, ckCheckedAt = at, ckChannel = channel c\<rparr> else cache)"

definition cached_notice :: "semver \<Rightarrow> updateClient \<Rightarrow> string \<Rightarrow> checkState option \<Rightarrow> string option" where
  "cached_notice sv c current cache =
     (let tag = cachedLatest c cache in if tag \<noteq> [] \<and> IsNewer sv current tag then Some tag else None)"

text \<open>
  \<open>MaybeNotify\<close> and \<open>NoticeNow\<close>: the tag announced and the cache they leave; \<open>latest\<close> is the outcome of \<open>Latest\<close>, asked only when a check is due,
  \<open>ok\<close> whether the cache could be written and \<open>at\<close> the time of the answer. In \<open>MaybeNotify\<close> the refresh runs in the background, and \<open>landed\<close> says
  whether it ended before the process.
\<close>

definition MaybeNotify ::
  "bool \<Rightarrow> semver \<Rightarrow> updateClient \<Rightarrow> string \<Rightarrow> time \<Rightarrow> duration \<Rightarrow> update_error + Release \<Rightarrow> bool \<Rightarrow> bool \<Rightarrow> time \<Rightarrow> checkState option \<Rightarrow>
   string option \<times> checkState option" where
  "MaybeNotify disabled sv c current now window latest landed ok at cache =
     (if disabled then (None, cache)
      else (cached_notice sv c current cache,
            if shouldCheck c now window cache \<and> landed
            then (case latest of Inl e \<Rightarrow> cache | Inr rel \<Rightarrow> writeCheck ok c (rlTag rel) at cache) else cache))"

definition NoticeNow ::
  "bool \<Rightarrow> semver \<Rightarrow> updateClient \<Rightarrow> string \<Rightarrow> time \<Rightarrow> duration \<Rightarrow> update_error + Release \<Rightarrow> bool \<Rightarrow> time \<Rightarrow> checkState option \<Rightarrow>
   string option \<times> checkState option" where
  "NoticeNow disabled sv c current now window latest ok at cache =
     (if disabled then (None, cache)
      else if \<not> shouldCheck c now window cache then (cached_notice sv c current cache, cache)
      else case latest of
        Inl e \<Rightarrow> (None, cache)
      | Inr rel \<Rightarrow> (if IsNewer sv current (rlTag rel) then Some (rlTag rel) else None, writeCheck ok c (rlTag rel) at cache))"

section \<open>Which release is chosen\<close>

text \<open>What \<open>semver.Compare\<close> promises: a strict order on versions.\<close>

definition semver_order :: "semver \<Rightarrow> bool" where
  "semver_order sv \<longleftrightarrow>
     (\<forall>a. svCompare sv a a = 0) \<and> (\<forall>a b c. 0 < svCompare sv a b \<and> 0 < svCompare sv b c \<longrightarrow> 0 < svCompare sv a c)"

definition higher :: "semver \<Rightarrow> ghRelease \<Rightarrow> ghRelease \<Rightarrow> bool" where
  "higher sv a b \<longleftrightarrow> 0 < svCompare sv (canon (ghTagName a)) (canon (ghTagName b))"

lemma best_release_highest:
  assumes "semver_order sv" "best_release sv grs best = Some gr" "\<And>b. best = Some b \<Longrightarrow> candidate sv b"
  shows "candidate sv gr \<and> (gr \<in> set grs \<or> best = Some gr) \<and> (\<forall>x \<in> set grs. candidate sv x \<longrightarrow> \<not> higher sv x gr) \<and>
    (\<forall>b. best = Some b \<longrightarrow> b = gr \<or> higher sv gr b)"
  using assms(2,3)
proof (induction grs arbitrary: best)
  case Nil
  then show ?case by simp
next
  case (Cons x grs)
  define best' where "best' = (if \<not> candidate sv x then best
      else case best of None \<Rightarrow> Some x | Some b \<Rightarrow> if 0 < svCompare sv (canon (ghTagName x)) (canon (ghTagName b)) then Some x else best)"
  have r: "best_release sv grs best' = Some gr" using Cons.prems(1) by (simp add: best'_def)
  have c: "candidate sv b" if "best' = Some b" for b using that Cons.prems(2) by (auto simp: best'_def split: if_splits option.splits)
  note ih = Cons.IH [OF r c]
  have trans: "higher sv a b \<Longrightarrow> higher sv b d \<Longrightarrow> higher sv a d" for a b d using assms(1) unfolding semver_order_def higher_def by blast
  have irr: "\<not> higher sv a a" for a using assms(1) by (simp add: semver_order_def higher_def)
  have b1: "best' = Some b \<Longrightarrow> b = x \<or> best = Some b" for b by (auto simp: best'_def split: if_splits option.splits)
  have b2: "candidate sv x \<Longrightarrow> \<exists>b. best' = Some b \<and> (b = x \<or> \<not> higher sv x b)"
    by (cases best) (auto simp: best'_def higher_def)
  have b3: "best = Some b \<Longrightarrow> \<exists>b'. best' = Some b' \<and> (b' = b \<or> higher sv b' b)" for b by (auto simp: best'_def higher_def)
  have x: "\<not> higher sv x gr" if cx: "candidate sv x"
  proof -
    obtain b where b: "best' = Some b" "b = x \<or> \<not> higher sv x b" using b2 [OF cx] by blast
    then have "b = gr \<or> higher sv gr b" using ih by blast
    then show ?thesis using b(2) trans [of x gr b] trans [of x gr x] irr by blast
  qed
  have "b = gr \<or> higher sv gr b" if "best = Some b" for b
  proof -
    obtain b' where b': "best' = Some b'" "b' = b \<or> higher sv b' b" using b3 [OF \<open>best = Some b\<close>] by blast
    then have "b' = gr \<or> higher sv gr b'" using ih by blast
    then show ?thesis using b'(2) trans [of gr b' b] by blast
  qed
  moreover have "gr \<in> set (x # grs) \<or> best = Some gr" using ih b1 [of gr] by auto
  ultimately show ?case using ih x by auto
qed

lemma resolve_release:
  assumes "resolve c gr = Inr rel"
  shows "rlTag rel = ghTagName gr \<and> rlAssetName rel = assetName c (ghTagName gr) \<and> (\<exists>a \<in> set (ghAssets gr). gaName a = rlAssetName rel \<and> gaURL a = rlAssetURL rel)"
proof -
  define want where "want = assetName c (ghTagName gr)"
  define r0 where "r0 = \<lparr>rlTag = ghTagName gr, rlAssetURL = [], rlAssetName = want, rlChecksumsURL = [], rlChecksumsSigURL = [], rlChecksumsCertURL = []\<rparr>"
  have "rlTag (fold (take_asset want) as r) = rlTag r \<and> rlAssetName (fold (take_asset want) as r) = rlAssetName r \<and>
      (rlAssetURL (fold (take_asset want) as r) = rlAssetURL r \<or> (\<exists>a \<in> set as. gaName a = want \<and> gaURL a = rlAssetURL (fold (take_asset want) as r)))" for as r
  proof (induction as arbitrary: r)
    case (Cons a as)
    show ?case using Cons.IH [of "take_asset want a r"] by (auto simp: take_asset_def)
  qed simp
  from this [of "ghAssets gr" r0] show ?thesis
    using assms unfolding resolve_def Let_def want_def [symmetric] r0_def [symmetric] by (auto simp: r0_def split: if_splits)
qed

text \<open>On the prerelease channel the release offered is a published one with a valid version, and no other such release in the list has a higher one.\<close>

lemma latest_highest:
  assumes "semver_order sv" "latestIncludingPre sv getList c = Inr rel"
  shows "\<exists>grs gr. getList (TrimRightSlash (ucAPIBase c) @ ''/repos/'' @ ucRepo c @ ''/releases?per_page=30'') = Some grs \<and> gr \<in> set grs \<and>
    candidate sv gr \<and> rlTag rel = ghTagName gr \<and> (\<forall>x \<in> set grs. candidate sv x \<longrightarrow> \<not> higher sv x gr)"
proof -
  obtain grs gr where g: "getList (TrimRightSlash (ucAPIBase c) @ ''/repos/'' @ ucRepo c @ ''/releases?per_page=30'') = Some grs"
      "best_release sv grs None = Some gr" "resolve c gr = Inr rel"
    using assms(2) by (auto simp: latestIncludingPre_def split: option.splits)
  then show ?thesis using best_release_highest [OF assms(1) g(2)] resolve_release [OF g(3)] by auto
qed

section \<open>What is installed\<close>

lemma checksum_entry_listed:
  "checksum_entry name ls = d \<Longrightarrow> d \<noteq> [] \<Longrightarrow> \<exists>l \<in> set ls. bytes_Fields l = [d, name]"
proof (induction ls)
  case (Cons l ls)
  consider d' n where "bytes_Fields l = [d', n]" | "\<nexists>d' n. bytes_Fields l = [d', n]" by blast
  then show ?case
  proof cases
    case 1
    then show ?thesis using Cons by (auto split: if_splits)
  next
    case 2
    then have "checksum_entry name (l # ls) = checksum_entry name ls" by (auto split: list.split)
    then show ?thesis using Cons by simp
  qed
qed simp

lemma verifyChecksum_listed:
  "verifyChecksum data name sums = None \<Longrightarrow> \<exists>l \<in> set (scan_lines sums). bytes_Fields l = [hex_EncodeToString (sha256 data), name]"
  using checksum_entry_listed by (auto simp: verifyChecksum_def Let_def split: if_splits)

lemma find_entry_found: "find_entry name es complete = Inr data \<Longrightarrow> \<exists>n. (n, data) \<in> set es \<and> path_Base n = name"
  by (induction es) (auto split: if_splits)

lemma swap_result: "swap env data target = (err, target') \<Longrightarrow> target' = (if err = None then Some data else target)"
  by (auto simp: swap_def split: prod.splits if_splits dest: write_temp_rename_ok)

lemma Apply_outcome:
  assumes "Apply env c rel target = (err, target')"
  shows "target' = target \<and> err \<noteq> None \<or>
    err = None \<and> (\<exists>archive sums sig cert data. ueFetch env (rlAssetURL rel) = Some archive \<and> ueFetch env (rlChecksumsURL rel) = Some sums \<and>
      ueFetch env (rlChecksumsSigURL rel) = Some sig \<and> ueFetch env (rlChecksumsCertURL rel) = Some cert \<and>
      ueCosign env cert sig (cosignIdentityRegexp (ucRepo c)) cosignOIDCIssuer sums \<and>
      verifyChecksum archive (rlAssetName rel) (string_of sums) = None \<and> extractBinary env archive (ucBinary c) = Inr data \<and> target' = Some data)"
  using assms by (auto simp: Apply_def verifyChecksumsSignature_def dest!: swap_result split: option.splits sum.splits if_splits)

text \<open>A line of the release pipeline's format is read back as its digest and its name.\<close>

definition plain :: "string \<Rightarrow> bool" where
  "plain s \<longleftrightarrow> s \<noteq> [] \<and> list_all (\<lambda>c. of_char c < (128 :: nat) \<and> \<not> IsSpace (of_char c)) s"

definition checksum_line :: "string \<Rightarrow> string \<Rightarrow> string" where
  "checksum_line digest name = digest @ ''  '' @ name"

lemma pieces_ascii: "list_all (\<lambda>c. of_char c < (128 :: nat)) s \<Longrightarrow> pieces (rune_list (codes s)) s = map (\<lambda>c. (of_char c, [c])) s"
proof -
  have "pieces (map (\<lambda>c. (c, 1)) (codes s)) s = map (\<lambda>c. (of_char c, [c])) s" for s by (induction s) (simp_all add: codes_def)
  then show "list_all (\<lambda>c. of_char c < (128 :: nat)) s \<Longrightarrow> pieces (rune_list (codes s)) s = map (\<lambda>c. (of_char c, [c])) s"
    by (simp add: rune_list_ascii codes_def list_all_iff)
qed

lemma fields_of_plain:
  "list_all (\<lambda>c. \<not> IsSpace (of_char c)) t \<Longrightarrow> fields_of cur (map (\<lambda>c. (of_char c, [c])) (t @ rest)) = fields_of (cur @ t) (map (\<lambda>c. (of_char c, [c])) rest)"
  by (induction t arbitrary: cur) simp_all

lemma Fields_checksum_line: "plain d \<Longrightarrow> plain n \<Longrightarrow> bytes_Fields (checksum_line d n) = [d, n]"
proof -
  assume p: "plain d" "plain n"
  then have d: "list_all (\<lambda>c. \<not> IsSpace (of_char c)) d" "list_all (\<lambda>c. \<not> IsSpace (of_char c)) n" "d \<noteq> []" "n \<noteq> []" by (auto simp: plain_def list_all_iff)
  have sp: "IsSpace 32" by (simp add: IsSpace_def)
  have "list_all (\<lambda>c. of_char c < (128 :: nat)) (checksum_line d n)" using p by (auto simp: plain_def checksum_line_def list_all_iff)
  then have "bytes_Fields (checksum_line d n) = fields_of [] (map (\<lambda>c. (of_char c, [c])) (d @ ''  '' @ n @ []))"
    by (simp add: bytes_Fields_def pieces_ascii checksum_line_def)
  also have "\<dots> = [d, n]" unfolding fields_of_plain [OF d(1)] using d(3,4) fields_of_plain [OF d(2), of "[]" "[]"] sp by simp
  finally show ?thesis .
qed

lemma scan_lines_line:
  assumes "plain d" "plain n" "length d + length n + 2 < 65536"
  shows "scan_lines (checksum_line d n @ [CHR 0x0A]) = [checksum_line d n]"
proof -
  have nl: "CHR 0x0A \<notin> set (checksum_line d n)" using assms(1,2) by (auto simp: plain_def checksum_line_def list_all_iff IsSpace_def)
  have "last (checksum_line d n) = last n" "last n \<in> set n" using assms(2) by (simp_all add: plain_def checksum_line_def)
  moreover have "CHR 0x0D \<notin> set n" using assms(2) by (auto simp: plain_def list_all_iff IsSpace_def)
  ultimately have "drop_cr (checksum_line d n) = checksum_line d n" by (metis drop_cr_def)
  moreover have "Split (CHR 0x0A) (checksum_line d n @ [CHR 0x0A]) = [checksum_line d n, []]" using nl by (simp add: Split_append)
  moreover have "length (checksum_line d n) < 65536" using assms(3) by (simp add: checksum_line_def)
  ultimately show ?thesis by (simp add: scan_lines_def)
qed

lemma plain_hex: "bs \<noteq> [] \<Longrightarrow> plain (hex_EncodeToString bs)"
proof -
  assume "bs \<noteq> []"
  then have "hex_EncodeToString bs \<noteq> []" by (cases bs) simp_all
  moreover have "\<forall>c \<in> set hex_chars. of_char c < (128 :: nat) \<and> \<not> IsSpace (of_char c)" by (simp add: hex_chars_def IsSpace_def)
  ultimately show ?thesis using set_hex_EncodeToString [of bs] by (auto simp: plain_def list_all_iff)
qed

lemma plain_digest: "plain (hex_EncodeToString (sha256 m))"
  using length_sha256 [of m] by (intro plain_hex) (auto simp del: length_sha256)

lemma verifyChecksum_own:
  assumes "plain name" "length name < 1000"
  shows "verifyChecksum data name (checksum_line (hex_EncodeToString (sha256 data)) name @ [CHR 0x0A]) = None"
proof -
  have h: "plain (hex_EncodeToString (sha256 data))" by (rule plain_digest)
  have "scan_lines (checksum_line (hex_EncodeToString (sha256 data)) name @ [CHR 0x0A]) = [checksum_line (hex_EncodeToString (sha256 data)) name]"
    using assms by (intro scan_lines_line h) simp_all
  moreover have "hex_EncodeToString (sha256 data) \<noteq> []" using h by (simp add: plain_def)
  ultimately show ?thesis by (simp add: verifyChecksum_def Fields_checksum_line [OF h assms(1)])
qed

section \<open>Properties\<close>

text \<open>
  C20. An update installs only what the repository's release pipeline published. The installed file changes only when the update reports success, and then atomically;
  and if cosign accepts a checksum file under the pinned identity and issuer only when the pipeline published it, the pipeline's checksum files list for an
  asset only the digests of archives it built, and no archive is served that collides with a built one, then the new content is the binary inside an
  archive that the pipeline built under the name of this release's asset.
\<close>

theorem update_authentic:
  assumes "Apply env c rel target = (err, target')"
    and cosign: "\<And>cert sig sums. ueCosign env cert sig (cosignIdentityRegexp (ucRepo c)) cosignOIDCIssuer sums \<Longrightarrow> sums \<in> published"
    and pipeline: "\<And>sums l d n. sums \<in> published \<Longrightarrow> l \<in> set (scan_lines (string_of sums)) \<Longrightarrow> bytes_Fields l = [d, n] \<Longrightarrow>
      \<exists>a \<in> built n. d = hex_EncodeToString (sha256 a)"
    and collisions: "\<And>archive n a. ueFetch env (rlAssetURL rel) = Some archive \<Longrightarrow> a \<in> built n \<Longrightarrow> sha256 a = sha256 archive \<Longrightarrow> a = archive"
  shows "target' = target \<and> err \<noteq> None \<or>
    err = None \<and> (\<exists>archive \<in> built (rlAssetName rel). \<exists>es complete n data. ueUntar env archive = Some (es, complete) \<and>
      (n, data) \<in> set es \<and> path_Base n = ucBinary c \<and> target' = Some data)"
  using Apply_outcome [OF assms(1)]
proof (elim disjE conjE exE)
  fix archive sums sig cert data
  assume a: "ueFetch env (rlAssetURL rel) = Some archive" "ueCosign env cert sig (cosignIdentityRegexp (ucRepo c)) cosignOIDCIssuer sums"
    "verifyChecksum archive (rlAssetName rel) (string_of sums) = None" "extractBinary env archive (ucBinary c) = Inr data" "target' = Some data" "err = None"
  obtain l where "l \<in> set (scan_lines (string_of sums))" "bytes_Fields l = [hex_EncodeToString (sha256 archive), rlAssetName rel]"
    using verifyChecksum_listed [OF a(3)] by blast
  from pipeline [OF cosign [OF a(2)] this] obtain b where "b \<in> built (rlAssetName rel)" "sha256 archive = sha256 b" by auto
  then have "archive \<in> built (rlAssetName rel)" using collisions [OF a(1)] by metis
  moreover obtain es complete n where "ueUntar env archive = Some (es, complete)" "(n, data) \<in> set es" "path_Base n = ucBinary c"
    using a(4) find_entry_found by (fastforce simp: extractBinary_def split: option.splits)
  ultimately show ?thesis using a(5,6) by blast
qed simp

definition demo_asset :: string where "demo_asset = ''mir_1.2.0_linux_arm64.tar.gz''"

definition demo_sums :: bytes where
  "demo_sums = bytes_of (checksum_line (hex_EncodeToString (sha256 [1])) demo_asset @ [CHR 0x0A])"

definition demo_update :: update_env where
  "demo_update =
     \<lparr>ueFetch = (\<lambda>u. if u = ''archive'' then Some [1] else if u = ''sums'' then Some demo_sums else Some [0]), ueInstalled = True, ueTemp = True,
      ueCosign = (\<lambda>cert sig identity issuer sums. sums = demo_sums), ueUntar = (\<lambda>a. Some ([(''README'', [5]), (''bin/mir'', [7])], True)), ueIO = (\<lambda>_. True)\<rparr>"

definition demo_client :: updateClient where
  "demo_client = \<lparr>ucAPIBase = [], ucRepo = ''srcfl/miranda'', ucBinary = ''mir'', ucOS = ''linux'', ucArch = ''arm64'', ucPre = False\<rparr>"

definition demo_release :: Release where
  "demo_release = \<lparr>rlTag = ''v1.2.0'', rlAssetURL = ''archive'', rlAssetName = demo_asset, rlChecksumsURL = ''sums'', rlChecksumsSigURL = ''sig'', rlChecksumsCertURL = ''cert''\<rparr>"

lemma demo_asset_plain: "plain demo_asset"
  by (simp add: plain_def demo_asset_def IsSpace_def)

theorem update_authentic_witness:
  "Apply demo_update demo_client demo_release (Some [0]) = (None, Some [7]) \<and>
   (\<exists>archive \<in> {[1]}. \<exists>es complete n data. ueUntar demo_update archive = Some (es, complete) \<and>
      (n, data) \<in> set es \<and> path_Base n = ucBinary demo_client \<and> Some [7] = Some data)"
proof -
  have h: "plain (hex_EncodeToString (sha256 [1]))" by (rule plain_digest)
  have small: "length demo_asset < 1000" by (simp add: demo_asset_def)
  have lines: "scan_lines (string_of demo_sums) = [checksum_line (hex_EncodeToString (sha256 [1])) demo_asset]"
    using small by (simp add: demo_sums_def scan_lines_line h demo_asset_plain)
  have "verifyChecksum [1] demo_asset (string_of demo_sums) = None"
    using verifyChecksum_own [OF demo_asset_plain small, of "[1]"] by (simp add: demo_sums_def)
  then have run: "Apply demo_update demo_client demo_release (Some [0]) = (None, Some [7])"
    by (simp add: Apply_def demo_update_def demo_client_def demo_release_def verifyChecksumsSignature_def extractBinary_def path_Base_def TrimRightSlash_def
        swap_def write_temp_rename_def)
  have "Some [7] = Some ([0] :: bytes) \<and> None \<noteq> (None :: update_error option) \<or>
    (None :: update_error option) = None \<and> (\<exists>archive \<in> (if rlAssetName demo_release = demo_asset then {[1]} else {}). \<exists>es complete n data.
      ueUntar demo_update archive = Some (es, complete) \<and> (n, data) \<in> set es \<and> path_Base n = ucBinary demo_client \<and> Some [7] = Some data)"
  proof (rule update_authentic [OF run, of "{demo_sums}" "\<lambda>n. if n = demo_asset then {[1]} else {}"])
    show "sums \<in> {demo_sums}" if "ueCosign demo_update cert sig (cosignIdentityRegexp (ucRepo demo_client)) cosignOIDCIssuer sums" for cert sig sums
      using that by (simp add: demo_update_def)
    show "\<exists>a \<in> if n = demo_asset then {[1]} else {}. d = hex_EncodeToString (sha256 a)"
      if "sums \<in> {demo_sums}" "l \<in> set (scan_lines (string_of sums))" "bytes_Fields l = [d, n]" for sums l d n
      using that lines Fields_checksum_line [OF h demo_asset_plain] by simp
    show "a = archive" if "ueFetch demo_update (rlAssetURL demo_release) = Some archive" "a \<in> (if n = demo_asset then {[1]} else {})" for archive n a
      using that by (auto simp: demo_update_def demo_release_def split: if_splits)
  qed
  then show ?thesis using run by (simp add: demo_release_def)
qed

end
