(* ===== verification/Relay_Http.thy ===== *)
theory Relay_Http
  imports Client_Prewarm
begin

text \<open>
  What the relay reads from and writes to HTTP requests beside its sockets: the client address behind trusted proxies (\<open>signal/server.go\<close>) and the ephemeral TURN
  credentials (\<open>signal/turn.go\<close>).

  The parsing of addresses and networks, of URLs, and HMAC-SHA1 belong to the standard library and are arguments; \<open>coturn\<close>'s acceptance of a credential is stated
  as its documentation does: the user name is an expiry in the future and the password the keyed hash of the user name.
\<close>

section \<open>The client address\<close>

record ('ip, 'net) net_lib =
  nlParseIP :: "string \<Rightarrow> 'ip option"
  nlString :: "'ip \<Rightarrow> string"
  nlSplitHostPort :: "string \<Rightarrow> string option"
  nlParseCIDR :: "string \<Rightarrow> 'net option"
  nlContains :: "'net \<Rightarrow> 'ip \<Rightarrow> bool"

record http_request =
  hrRemoteAddr :: string
  hrCF :: string
  hrXFF :: string

definition isTrustedProxy :: "('ip, 'net) net_lib \<Rightarrow> 'net list \<Rightarrow> string \<Rightarrow> bool" where
  "isTrustedProxy lib nets remoteAddr =
     (let host = (case nlSplitHostPort lib remoteAddr of Some h \<Rightarrow> h | None \<Rightarrow> remoteAddr)
      in case nlParseIP lib host of None \<Rightarrow> False | Some ip \<Rightarrow> list_ex (\<lambda>n. nlContains lib n ip) nets)"

definition peer_addr :: "('ip, 'net) net_lib \<Rightarrow> http_request \<Rightarrow> string" where
  "peer_addr lib r = (case nlSplitHostPort lib (hrRemoteAddr r) of Some h \<Rightarrow> h | None \<Rightarrow> hrRemoteAddr r)"

definition header_ip :: "('ip, 'net) net_lib \<Rightarrow> string \<Rightarrow> string option" where
  "header_ip lib h = (if h = [] then None else map_option (nlString lib) (nlParseIP lib h))"

definition remoteIP :: "('ip, 'net) net_lib \<Rightarrow> bool \<Rightarrow> 'net list \<Rightarrow> http_request \<Rightarrow> string" where
  "remoteIP lib trustProxyHeaders nets r =
     (if trustProxyHeaders \<and> isTrustedProxy lib nets (hrRemoteAddr r) then
        (case header_ip lib (TrimSpace (hrCF r)) of
           Some ip \<Rightarrow> ip
         | None \<Rightarrow>
             (case header_ip lib (TrimSpace (takeWhile (\<lambda>c. c \<noteq> CHR '','') (hrXFF r))) of
                Some ip \<Rightarrow> ip
              | None \<Rightarrow> peer_addr lib r))
      else peer_addr lib r)"

fun parse_cidrs :: "('ip, 'net) net_lib \<Rightarrow> string list \<Rightarrow> 'net list option" where
  "parse_cidrs lib [] = Some []"
| "parse_cidrs lib (raw # rs) =
     (case nlParseCIDR lib (TrimSpace raw) of None \<Rightarrow> None | Some n \<Rightarrow> map_option ((#) n) (parse_cidrs lib rs))"

text \<open>\<open>SetTrustedProxyCIDRs\<close>: on an error the networks set before stay.\<close>

definition SetTrustedProxyCIDRs :: "('ip, 'net) net_lib \<Rightarrow> string list \<Rightarrow> 'net list \<Rightarrow> bool \<times> 'net list" where
  "SetTrustedProxyCIDRs lib cidrs old =
     (case parse_cidrs lib cidrs of None \<Rightarrow> (False, old) | Some [] \<Rightarrow> (False, old) | Some nets \<Rightarrow> (True, nets))"

text \<open>Headers count only behind a trusted proxy: any other peer is known by its own address whatever it sends, so it cannot choose its rate-limit key.\<close>

lemma headers_ignored:
  assumes "\<not> isTrustedProxy lib nets (hrRemoteAddr r)" "hrRemoteAddr r' = hrRemoteAddr r"
  shows "remoteIP lib t nets r' = remoteIP lib t nets r \<and> remoteIP lib t nets r = peer_addr lib r"
  using assms by (simp add: remoteIP_def peer_addr_def split: option.split)

lemma proxy_header_used:
  assumes "isTrustedProxy lib nets (hrRemoteAddr r)" "TrimSpace (hrCF r) \<noteq> []" "nlParseIP lib (TrimSpace (hrCF r)) = Some ip"
  shows "remoteIP lib True nets r = nlString lib ip"
  using assms by (simp add: remoteIP_def header_ip_def)

lemma configured_proxies:
  assumes "SetTrustedProxyCIDRs lib cidrs old = (True, nets)"
  shows "nets \<noteq> [] \<and> length nets = length cidrs \<and> (\<forall>i < length cidrs. nlParseCIDR lib (TrimSpace (cidrs ! i)) = Some (nets ! i))"
proof -
  have p: "parse_cidrs lib cs = Some ns \<Longrightarrow> length ns = length cs \<and> (\<forall>i < length cs. nlParseCIDR lib (TrimSpace (cs ! i)) = Some (ns ! i))" for cs ns
    by (induction cs arbitrary: ns) (auto simp: less_Suc_eq_0_disj split: option.splits)
  show ?thesis using assms p [of cidrs nets] by (auto simp: SetTrustedProxyCIDRs_def split: option.splits list.splits)
qed

section \<open>TURN credentials\<close>

definition turnTTL :: duration where "turnTTL = 15 * minute"

text \<open>\<open>handleTURN\<close>: none for the 404 of a relay without TURN; \<open>hmac\<close> is HMAC-SHA1 with the shared secret as key.\<close>

definition handleTURN :: "(bytes \<Rightarrow> bytes \<Rightarrow> bytes) \<Rightarrow> string \<Rightarrow> string \<Rightarrow> time \<Rightarrow> turnCreds option" where
  "handleTURN hmac secret url now =
     (if secret = [] \<or> url = [] then None
      else let username = itoa (unix (now + turnTTL))
           in Some \<lparr>tcUsername = username, tcPassword = b64_EncodeToString (hmac (bytes_of secret) (bytes_of username)),
                    tcTTL = turnTTL div second, tcURLs = [url]\<rparr>)"

text \<open>\<open>hostname\<close> parses a URL and gives its host.\<close>

definition allowCORSOrigin :: "(string \<Rightarrow> string option) \<Rightarrow> string list \<Rightarrow> string \<Rightarrow> string" where
  "allowCORSOrigin hostname allowed origin =
     (if origin = [] \<or> origin = ''*'' then []
      else if origin \<in> set allowed then origin
      else case hostname origin of
        None \<Rightarrow> []
      | Some host \<Rightarrow> if host = ''localhost'' \<or> host = ''127.0.0.1'' \<or> host = ''::1'' then origin else [])"

definition coturn_accepts :: "(bytes \<Rightarrow> bytes \<Rightarrow> bytes) \<Rightarrow> string \<Rightarrow> time \<Rightarrow> ICEServer \<Rightarrow> bool" where
  "coturn_accepts hmac secret now s \<longleftrightarrow>
     (case ParseInt64 (icUsername s) of None \<Rightarrow> False | Some expiry \<Rightarrow> now < expiry * second) \<and>
     icCredential s = b64_EncodeToString (hmac (bytes_of secret) (bytes_of (icUsername s)))"

lemma ParseInt64_itoa: "0 \<le> i \<Longrightarrow> i < 2 ^ 63 \<Longrightarrow> ParseInt64 (itoa i) = Some i"
proof -
  assume i: "0 \<le> i" "i < 2 ^ 63"
  have d: "set (itoa i) \<subseteq> set digit_chars" using set_dec_nat i by (simp add: itoa_def)
  then have "\<not> HasPrefix (itoa i) [c]" if "c \<notin> set digit_chars" for c using that by (auto simp: HasPrefix_single)
  then have "\<not> HasPrefix (itoa i) ''-''" "\<not> HasPrefix (itoa i) ''+''" by (auto simp: digit_chars_def)
  moreover have "itoa i \<noteq> []" using i by (simp add: itoa_def)
  moreover have "list_all is_digit (itoa i)" using d by (auto simp: is_digit_iff list_all_iff)
  ultimately show ?thesis using i atoi_itoa [of i] by (simp add: ParseInt64_def Let_def)
qed

text \<open>
  Credentials issued by the relay serve the client until they expire: the client reads one server with the relay's URL from them, takes for their end the very
  second that coturn checks, which lies within the last second of the fifteen minutes, and until then coturn accepts them.
\<close>

lemma turn_credentials_serve:
  assumes "handleTURN hmac secret url issued = Some tc" "0 \<le> issued" "unix (issued + turnTTL) < 2 ^ 63"
  shows "\<exists>s expiry. FetchTURNCreds (OKBody (Some tc)) fetched = Some ([s], Some expiry) \<and> icURLs s = [url] \<and>
    issued + turnTTL - second < expiry \<and> expiry \<le> issued + turnTTL \<and> (\<forall>now. now < expiry \<longrightarrow> coturn_accepts hmac secret now s)"
proof -
  define u where "u = unix (issued + turnTTL)"
  have pos: "0 < u" using assms(2) by (simp add: u_def unix_def turnTTL_def minute_def second_def)
  have p: "ParseInt64 (itoa u) = Some u" using pos assms(3) by (intro ParseInt64_itoa) (simp_all add: u_def)
  have u: "issued + turnTTL - second < u * second" "u * second \<le> issued + turnTTL"
    unfolding u_def unix_def second_def by linarith+
  have tc: "tcUsername tc = itoa u" "tcURLs tc = [url]" "tcPassword tc = b64_EncodeToString (hmac (bytes_of secret) (bytes_of (itoa u)))"
    using assms(1) by (auto simp: handleTURN_def Let_def u_def split: if_splits)
  then show ?thesis using p pos u by (simp add: FetchTURNCreds_def turnExpiry_def coturn_accepts_def)
qed

end
