(* ===== verification/Noise_Session.thy ===== *)
theory Noise_Session
  imports Go_Prelude
begin

text \<open>
  The encrypted channel: \<^verbatim>\<open>go/internal/noise/noise.go\<close>, the two sides of the handshake in \<^verbatim>\<open>go/internal/peer/handshake.go\<close> and the sender of
  \<^verbatim>\<open>go/internal/client/sender.go\<close>. The package \<^verbatim>\<open>flynn/noise\<close> is the record \<open>flynn\<close>: building a handshake state for the pattern KK, writing and reading a
  message (the last one gives the two cipher states), and encrypting and decrypting with a cipher state, which advances its counter. What is used of it is
  \<open>kk_agrees\<close>. Calling a method of a cipher state that is not there yet panics.
\<close>

section \<open>Handshakes and sessions: noise.go\<close>

record kkConfig =
  kkInitiator :: bool
  kkPrologue :: bytes
  kkPriv :: bytes
  kkPub :: bytes
  kkPeer :: bytes
  kkRandom :: bytes

record ('h, 'c) flynn =
  fl_public :: "bytes \<Rightarrow> bytes option"
  fl_new :: "kkConfig \<Rightarrow> 'h option"
  fl_write :: "'h \<Rightarrow> bytes \<Rightarrow> (bytes \<times> ('c \<times> 'c) option \<times> 'h) option"
  fl_read :: "'h \<Rightarrow> bytes \<Rightarrow> (bytes \<times> ('c \<times> 'c) option \<times> 'h) option"
  fl_encrypt :: "'c \<Rightarrow> bytes \<Rightarrow> (bytes \<times> 'c) option"
  fl_decrypt :: "'c \<Rightarrow> bytes \<Rightarrow> (bytes \<times> 'c) option"

record ('h, 'c) Handshake =
  hsState :: 'h
  hsInitiator :: bool
  hsDone :: bool
  hsSend :: "'c option"
  hsRecv :: "'c option"

record 'c Session =
  ssSend :: "'c option"
  ssRecv :: "'c option"

definition prologue :: string where "prologue = ''terminal-relay/v1''"

definition kk_newHandshake :: "('h, 'c) flynn \<Rightarrow> bool \<Rightarrow> bytes \<Rightarrow> bytes \<Rightarrow> bytes \<Rightarrow> ('h, 'c) Handshake option" where
  "kk_newHandshake fl initiator staticPriv peerStaticPub rng =
     (case fl_public fl staticPriv of
        None \<Rightarrow> None
      | Some pub \<Rightarrow>
          (case fl_new fl \<lparr>kkInitiator = initiator, kkPrologue = bytes_of prologue, kkPriv = staticPriv, kkPub = pub, kkPeer = peerStaticPub, kkRandom = rng\<rparr> of
             None \<Rightarrow> None
           | Some h \<Rightarrow> Some \<lparr>hsState = h, hsInitiator = initiator, hsDone = False, hsSend = None, hsRecv = None\<rparr>))"

definition NewInitiator :: "('h, 'c) flynn \<Rightarrow> bytes \<Rightarrow> bytes \<Rightarrow> bytes \<Rightarrow> ('h, 'c) Handshake option" where
  "NewInitiator fl staticPriv peerStaticPub rng = kk_newHandshake fl True staticPriv peerStaticPub rng"

definition NewResponder :: "('h, 'c) flynn \<Rightarrow> bytes \<Rightarrow> bytes \<Rightarrow> bytes \<Rightarrow> ('h, 'c) Handshake option" where
  "NewResponder fl staticPriv peerStaticPub rng = kk_newHandshake fl False staticPriv peerStaticPub rng"

definition complete :: "'c \<times> 'c \<Rightarrow> ('h, 'c) Handshake \<Rightarrow> ('h, 'c) Handshake" where
  "complete cs h =
     (if hsInitiator h then h\<lparr>hsSend := Some (fst cs), hsRecv := Some (snd cs), hsDone := True\<rparr>
      else h\<lparr>hsSend := Some (snd cs), hsRecv := Some (fst cs), hsDone := True\<rparr>)"

definition after_message :: "('c \<times> 'c) option \<Rightarrow> ('h, 'c) Handshake \<Rightarrow> ('h, 'c) Handshake" where
  "after_message cs h = (case cs of None \<Rightarrow> h | Some c \<Rightarrow> complete c h)"

definition WriteMessage :: "('h, 'c) flynn \<Rightarrow> bytes \<Rightarrow> ('h, 'c) Handshake \<Rightarrow> (bytes \<times> ('h, 'c) Handshake) option" where
  "WriteMessage fl payload h =
     (case fl_write fl (hsState h) payload of None \<Rightarrow> None | Some (msg, cs, s) \<Rightarrow> Some (msg, after_message cs (h\<lparr>hsState := s\<rparr>)))"

definition ReadMessage :: "('h, 'c) flynn \<Rightarrow> bytes \<Rightarrow> ('h, 'c) Handshake \<Rightarrow> (bytes \<times> ('h, 'c) Handshake) option" where
  "ReadMessage fl message h =
     (case fl_read fl (hsState h) message of None \<Rightarrow> None | Some (payload, cs, s) \<Rightarrow> Some (payload, after_message cs (h\<lparr>hsState := s\<rparr>)))"

definition kk_Session :: "('h, 'c) Handshake \<Rightarrow> 'c Session" where
  "kk_Session h = \<lparr>ssSend = hsSend h, ssRecv = hsRecv h\<rparr>"

definition Encrypt :: "('h, 'c) flynn \<Rightarrow> bytes \<Rightarrow> 'c Session \<Rightarrow> (unit, bytes \<times> 'c Session) go_result" where
  "Encrypt fl plaintext s =
     (case ssSend s of
        None \<Rightarrow> Panic
      | Some c \<Rightarrow> (case fl_encrypt fl c plaintext of None \<Rightarrow> Err () | Some (ct, c') \<Rightarrow> Ret (ct, s\<lparr>ssSend := Some c'\<rparr>)))"

definition Decrypt :: "('h, 'c) flynn \<Rightarrow> bytes \<Rightarrow> 'c Session \<Rightarrow> (unit, bytes \<times> 'c Session) go_result" where
  "Decrypt fl ciphertext s =
     (case ssRecv s of
        None \<Rightarrow> Panic
      | Some c \<Rightarrow> (case fl_decrypt fl c ciphertext of None \<Rightarrow> Err () | Some (pt, c') \<Rightarrow> Ret (pt, s\<lparr>ssRecv := Some c'\<rparr>)))"

section \<open>The two sides: handshake.go\<close>

text \<open>
  \<open>RunInitiator\<close>: \<open>sent\<close> says whether a message goes out, \<open>reply\<close> what \<open>Recv\<close> gives after the first message. \<open>RunResponder\<close> also gives the message it sent.
\<close>

definition RunInitiator ::
  "('h, 'c) flynn \<Rightarrow> bytes \<Rightarrow> (bytes \<Rightarrow> bool) \<Rightarrow> (bytes \<Rightarrow> bytes option) \<Rightarrow> bytes \<Rightarrow> bytes \<Rightarrow> 'c Session option" where
  "RunInitiator fl rng sent reply staticPriv peerPub =
     (case NewInitiator fl staticPriv peerPub rng of
        None \<Rightarrow> None
      | Some hs \<Rightarrow>
          (case WriteMessage fl [] hs of
             None \<Rightarrow> None
           | Some (msg0, hs) \<Rightarrow>
               if \<not> sent msg0 then None
               else (case reply msg0 of
                       None \<Rightarrow> None
                     | Some resp \<Rightarrow> (case ReadMessage fl resp hs of None \<Rightarrow> None | Some (p, hs) \<Rightarrow> Some (kk_Session hs)))))"

definition RunResponder ::
  "('h, 'c) flynn \<Rightarrow> bytes \<Rightarrow> bytes option \<Rightarrow> (bytes \<Rightarrow> bool) \<Rightarrow> bytes \<Rightarrow> bytes \<Rightarrow> (bytes \<times> 'c Session) option" where
  "RunResponder fl rng received sent staticPriv peerPub =
     (case NewResponder fl staticPriv peerPub rng of
        None \<Rightarrow> None
      | Some hs \<Rightarrow>
          (case received of
             None \<Rightarrow> None
           | Some msg0 \<Rightarrow>
               (case ReadMessage fl msg0 hs of
                  None \<Rightarrow> None
                | Some (p, hs) \<Rightarrow>
                    (case WriteMessage fl [] hs of
                       None \<Rightarrow> None
                     | Some (resp, hs) \<Rightarrow> if \<not> sent resp then None else Some (resp, kk_Session hs)))))"

section \<open>Sending: sender.go\<close>

text \<open>\<open>sender.send\<close> holds its lock over encrypting and writing; \<open>write\<close> says which ciphertexts go out. \<open>send_all\<close> is a sequence of sends in the order of the lock.\<close>

definition sender_send :: "('h, 'c) flynn \<Rightarrow> (bytes \<Rightarrow> bool) \<Rightarrow> bytes \<Rightarrow> 'c Session \<Rightarrow> (unit, bytes \<times> 'c Session) go_result" where
  "sender_send fl write framed s =
     (case Encrypt fl framed s of
        Ret (ct, s') \<Rightarrow> if write ct then Ret (ct, s') else Err ()
      | Err e \<Rightarrow> Err e
      | Panic \<Rightarrow> Panic)"

fun send_all :: "('h, 'c) flynn \<Rightarrow> (bytes \<Rightarrow> bool) \<Rightarrow> bytes list \<Rightarrow> 'c Session \<Rightarrow> (unit, bytes list \<times> 'c Session) go_result" where
  "send_all fl write [] s = Ret ([], s)"
| "send_all fl write (p # ps) s =
     go_bind (sender_send fl write p s) (\<lambda>(ct, s'). go_bind (send_all fl write ps s') (\<lambda>(cts, s''). Ret (ct # cts, s'')))"

fun decrypt_all :: "('h, 'c) flynn \<Rightarrow> bytes list \<Rightarrow> 'c Session \<Rightarrow> (unit, bytes list \<times> 'c Session) go_result" where
  "decrypt_all fl [] s = Ret ([], s)"
| "decrypt_all fl (c # cs) s =
     go_bind (Decrypt fl c s) (\<lambda>(pt, s'). go_bind (decrypt_all fl cs s') (\<lambda>(pts, s''). Ret (pt # pts, s'')))"

section \<open>The channel\<close>

text \<open>
  What is relied on of \<^verbatim>\<open>flynn/noise\<close>: two states for KK whose static keys are each other's peer keys run through the pattern's two messages and end with the same pair of
  cipher states, the pair coming with the second message; and a cipher state decrypts what an equal one encrypted, both advancing alike.
\<close>

definition kk_agrees :: "('h, 'c) flynn \<Rightarrow> bool" where
  "kk_agrees fl \<longleftrightarrow>
     (\<forall>a b A B p ra rb. fl_public fl a = Some A \<longrightarrow> fl_public fl b = Some B \<longrightarrow>
        (\<exists>hi hr m0 hi' hr' m1 cs hr'' hi''.
           fl_new fl \<lparr>kkInitiator = True, kkPrologue = p, kkPriv = a, kkPub = A, kkPeer = B, kkRandom = ra\<rparr> = Some hi \<and>
           fl_new fl \<lparr>kkInitiator = False, kkPrologue = p, kkPriv = b, kkPub = B, kkPeer = A, kkRandom = rb\<rparr> = Some hr \<and>
           fl_write fl hi [] = Some (m0, None, hi') \<and> fl_read fl hr m0 = Some ([], None, hr') \<and>
           fl_write fl hr' [] = Some (m1, Some cs, hr'') \<and> fl_read fl hi' m1 = Some ([], Some cs, hi''))) \<and>
     (\<forall>c p ct c'. fl_encrypt fl c p = Some (ct, c') \<longrightarrow> fl_decrypt fl c ct = Some (p, c'))"

text \<open>A direction of the channel: the sender's state is the receiver's.\<close>

definition in_step :: "'c Session \<Rightarrow> 'c Session \<Rightarrow> bool" where
  "in_step s r \<longleftrightarrow> ssSend s \<noteq> None \<and> ssSend s = ssRecv r"

lemma send_decrypt:
  assumes "kk_agrees fl" "in_step s r" "sender_send fl write p s = Ret (ct, s')"
  shows "\<exists>r'. Decrypt fl ct r = Ret (p, r') \<and> in_step s' r' \<and> ssSend r' = ssSend r \<and> ssRecv s' = ssRecv s"
  using assms by (auto simp: sender_send_def Encrypt_def Decrypt_def in_step_def kk_agrees_def split: option.splits if_splits)

lemma send_all_decrypts:
  assumes "kk_agrees fl"
  shows "in_step s r \<Longrightarrow> send_all fl write ps s = Ret (cts, s') \<Longrightarrow>
    \<exists>r'. decrypt_all fl cts r = Ret (ps, r') \<and> in_step s' r' \<and> ssSend r' = ssSend r \<and> ssRecv s' = ssRecv s"
proof (induction ps arbitrary: s r cts)
  case (Cons p ps)
  obtain ct s1 where 1: "sender_send fl write p s = Ret (ct, s1)" using Cons.prems(2) by (cases "sender_send fl write p s") auto
  then obtain cts' where 2: "send_all fl write ps s1 = Ret (cts', s')" "cts = ct # cts'" using Cons.prems(2) by (cases "send_all fl write ps s1") auto
  from send_decrypt [OF assms Cons.prems(1) 1] obtain r1 where
    r1: "Decrypt fl ct r = Ret (p, r1)" "in_step s1 r1" "ssSend r1 = ssSend r" "ssRecv s1 = ssRecv s" by blast
  from Cons.IH [OF r1(2) 2(1)] r1 2(2) show ?case by auto
qed simp

lemma handshake_runs:
  assumes "kk_agrees fl" "fl_public fl a = Some A" "fl_public fl b = Some B"
  obtains m0 m1 si sr where "RunInitiator fl ra (\<lambda>m. True) (\<lambda>m. if m = m0 then Some m1 else None) a B = Some si"
    "RunResponder fl rb (Some m0) (\<lambda>m. True) b A = Some (m1, sr)" "in_step si sr" "in_step sr si"
proof -
  obtain hi hr m0 hi' hr' m1 cs hr'' hi'' where h:
    "fl_new fl \<lparr>kkInitiator = True, kkPrologue = bytes_of prologue, kkPriv = a, kkPub = A, kkPeer = B, kkRandom = ra\<rparr> = Some hi"
    "fl_new fl \<lparr>kkInitiator = False, kkPrologue = bytes_of prologue, kkPriv = b, kkPub = B, kkPeer = A, kkRandom = rb\<rparr> = Some hr"
    "fl_write fl hi [] = Some (m0, None, hi')" "fl_read fl hr m0 = Some ([], None, hr')"
    "fl_write fl hr' [] = Some (m1, Some cs, hr'')" "fl_read fl hi' m1 = Some ([], Some cs, hi'')"
    using conjunct1 [OF assms(1) [unfolded kk_agrees_def], rule_format, OF assms(2,3), of "bytes_of prologue" ra rb] by (elim exE conjE)
  have i: "NewInitiator fl a B ra = Some \<lparr>hsState = hi, hsInitiator = True, hsDone = False, hsSend = None, hsRecv = None\<rparr>"
    "NewResponder fl b A rb = Some \<lparr>hsState = hr, hsInitiator = False, hsDone = False, hsSend = None, hsRecv = None\<rparr>"
    by (simp_all add: NewInitiator_def NewResponder_def kk_newHandshake_def assms(2,3) h(1,2))
  have w: "WriteMessage fl [] \<lparr>hsState = hi, hsInitiator = True, hsDone = False, hsSend = None, hsRecv = None\<rparr> =
      Some (m0, \<lparr>hsState = hi', hsInitiator = True, hsDone = False, hsSend = None, hsRecv = None\<rparr>)"
    "WriteMessage fl [] \<lparr>hsState = hr', hsInitiator = False, hsDone = False, hsSend = None, hsRecv = None\<rparr> =
      Some (m1, \<lparr>hsState = hr'', hsInitiator = False, hsDone = True, hsSend = Some (snd cs), hsRecv = Some (fst cs)\<rparr>)"
    by (simp_all add: WriteMessage_def h(3,5) after_message_def complete_def)
  have r: "ReadMessage fl m0 \<lparr>hsState = hr, hsInitiator = False, hsDone = False, hsSend = None, hsRecv = None\<rparr> =
      Some ([], \<lparr>hsState = hr', hsInitiator = False, hsDone = False, hsSend = None, hsRecv = None\<rparr>)"
    "ReadMessage fl m1 \<lparr>hsState = hi', hsInitiator = True, hsDone = False, hsSend = None, hsRecv = None\<rparr> =
      Some ([], \<lparr>hsState = hi'', hsInitiator = True, hsDone = True, hsSend = Some (fst cs), hsRecv = Some (snd cs)\<rparr>)"
    by (simp_all add: ReadMessage_def h(4,6) after_message_def complete_def)
  have "RunInitiator fl ra (\<lambda>m. True) (\<lambda>m. if m = m0 then Some m1 else None) a B = Some \<lparr>ssSend = Some (fst cs), ssRecv = Some (snd cs)\<rparr>"
    "RunResponder fl rb (Some m0) (\<lambda>m. True) b A = Some (m1, \<lparr>ssSend = Some (snd cs), ssRecv = Some (fst cs)\<rparr>)"
    by (simp_all add: RunInitiator_def RunResponder_def i w r kk_Session_def)
  then show thesis by (rule that) (simp_all add: in_step_def)
qed

end
