(* ===== verification/Client_Dial.thy ===== *)
theory Client_Dial
  imports Noise_Session Client_Identity Signal_Conn Frames Go_Strings
begin

text \<open>
  A client's session with a machine: dialling through the relay (\<^verbatim>\<open>go/internal/client/relay_locator.go\<close>) and authenticating the machine (\<^verbatim>\<open>attach.go\<close>), the control
  messages that wait for an acknowledgement (\<^verbatim>\<open>grantctl.go\<close>, \<^verbatim>\<open>rename.go\<close>), one command (\<^verbatim>\<open>runcmd.go\<close>) and the terminal bridge (\<^verbatim>\<open>bridge.go\<close>).

  The relay's web socket and the WebRTC connection are the record \<open>dial_env\<close>. A session's messages are the list of its arrivals: a ciphertext, or a failure of \<open>Recv\<close>
  while the context is alive. A wait ends with its list: then the context is done, by its deadline or because its parent was cancelled.
\<close>

section \<open>Dialling: relay_locator.go\<close>

text \<open>\<open>url.QueryEscape\<close>.\<close>

definition upper_hex :: "nat \<Rightarrow> char" where
  "upper_hex n = (if n < 10 then char_of (48 + n) else char_of (55 + n))"

definition escape_char :: "char \<Rightarrow> string" where
  "escape_char c =
     (if is_alnum c \<or> c \<in> {CHR ''-'', CHR ''_'', CHR ''.'', CHR ''~''} then [c]
      else if c = CHR '' '' then ''+''
      else [CHR ''%'', upper_hex (of_char c div 16), upper_hex (of_char c mod 16)])"

definition QueryEscape :: "string \<Rightarrow> string" where
  "QueryEscape s = concat (map escape_char s)"

text \<open>
  \<open>de_decode\<close> is \<open>json.Unmarshal\<close> into a message: the message as filled and whether it succeeded. \<open>de_offer\<close> is the SDP of a new offering peer, if there is one; \<open>de_answer\<close>
  what is read after the offer went out; \<open>de_opened\<close> whether the data channel opens within twenty seconds of a description that was accepted.
\<close>

record dial_env =
  de_dial :: "string \<Rightarrow> bool"
  de_ready :: "bytes option"
  de_decode :: "bytes \<Rightarrow> SignalMsg \<times> bool"
  de_offer :: "string option"
  de_write :: "SignalMsg \<Rightarrow> bool"
  de_answer :: "SignalMsg \<Rightarrow> bytes option"
  de_accept :: "string \<Rightarrow> bool"
  de_opened :: bool

datatype attach_failure =
    DialSignaling | SignalingSession | MissingSession | NoOffer | NoSigner identity_error | OfferNotWritten | NoAnswer | SignalingError string | UnexpectedReply
  | AnswerRejected | NoPath | PredatesV2 | BadHostPub | HandshakeUnreachable

definition attach_url :: "Machine \<Rightarrow> Identity \<Rightarrow> string" where
  "attach_url m i =
     ''ws'' @ TrimPrefix (mSignalURL m) ''http'' @ ''/attach?owner_id='' @ QueryEscape (if mOwner m = [] then idOwnerID i else mOwner m) @
     ''&machine_id='' @ QueryEscape (mMachineID m)"

definition ready_session :: "dial_env \<Rightarrow> attach_failure + string" where
  "ready_session env =
     (case de_ready env of
        None \<Rightarrow> Inl SignalingSession
      | Some data \<Rightarrow>
          (case de_decode env data of (ready, ok) \<Rightarrow>
             if \<not> ok \<or> smType ready \<noteq> TypeReady \<or> smSession ready = [] then Inl MissingSession else Inr (smSession ready)))"

definition offer_message :: "crypto \<Rightarrow> Identity \<Rightarrow> Machine \<Rightarrow> string \<Rightarrow> string \<Rightarrow> Signer \<Rightarrow> SignalMsg" where
  "offer_message cr i m session sdp w =
     msg0\<lparr>smType := TypeOffer, smSDP := sdp, smBinding := idBindingJSON i,
          smAuth := b64_EncodeToString (SignAuth (cr_sign cr) w (AttachChallenge session (mMachineID m) sdp))\<rparr>"

definition await_answer :: "dial_env \<Rightarrow> SignalMsg \<Rightarrow> attach_failure option" where
  "await_answer env offer =
     (case de_answer env offer of
        None \<Rightarrow> Some NoAnswer
      | Some data \<Rightarrow>
          (case de_decode env data of (ans, ok) \<Rightarrow>
             if \<not> ok \<or> smType ans \<noteq> TypeAnswer
             then Some (if smType ans = TypeError then SignalingError (smReason ans) else UnexpectedReply)
             else if \<not> de_accept env (smSDP ans) then Some AnswerRejected
             else if \<not> de_opened env then Some NoPath
             else None))"

text \<open>\<open>relayLocator.Dial\<close>: a failure, or the offer that went out on a connection that is open.\<close>

definition Dial :: "dial_env \<Rightarrow> crypto \<Rightarrow> Machine \<Rightarrow> Identity \<Rightarrow> attach_failure + SignalMsg" where
  "Dial env cr m i =
     (if \<not> de_dial env (attach_url m i) then Inl DialSignaling
      else case ready_session env of
             Inl e \<Rightarrow> Inl e
           | Inr session \<Rightarrow>
               (case de_offer env of
                  None \<Rightarrow> Inl NoOffer
                | Some sdp \<Rightarrow>
                    (case id_Signer cr i of
                       Inl e \<Rightarrow> Inl (NoSigner e)
                     | Inr w \<Rightarrow>
                         let offer = offer_message cr i m session sdp w
                         in if \<not> de_write env offer then Inl OfferNotWritten
                            else (case await_answer env offer of Some e \<Rightarrow> Inl e | None \<Rightarrow> Inr offer))))"

section \<open>Attaching: attach.go\<close>

definition decodeHostPub :: "string \<Rightarrow> bytes option" where
  "decodeHostPub hexKey = (case hex_DecodeString hexKey of None \<Rightarrow> None | Some pub \<Rightarrow> if length pub \<noteq> 32 then None else Some pub)"

text \<open>The messages of the handshake on the open connection.\<close>

record kk_wire =
  kw_random :: bytes
  kw_sent :: "bytes \<Rightarrow> bool"
  kw_reply :: "bytes \<Rightarrow> bytes option"

definition kkAuth :: "('h, 'c) flynn \<Rightarrow> kk_wire \<Rightarrow> crypto \<Rightarrow> bytes \<Rightarrow> Identity \<Rightarrow> attach_failure + 'c Session" where
  "kkAuth fl w cr hostPub i =
     (case RunInitiator fl (kw_random w) (kw_sent w) (kw_reply w) (OwnerPriv cr i) hostPub of None \<Rightarrow> Inl HandshakeUnreachable | Some s \<Rightarrow> Inr s)"

definition dialLocator :: "attach_failure + SignalMsg \<Rightarrow> attach_failure + 'c Session \<Rightarrow> attach_failure + 'c Session" where
  "dialLocator dialled auth = (case dialled of Inl e \<Rightarrow> Inl e | Inr offer \<Rightarrow> auth)"

definition Attach :: "dial_env \<Rightarrow> ('h, 'c) flynn \<Rightarrow> kk_wire \<Rightarrow> crypto \<Rightarrow> Machine \<Rightarrow> Identity \<Rightarrow> attach_failure + 'c Session" where
  "Attach env fl w cr m i =
     (if \<not> HasRootedIdentity (id_Secret i) then Inl PredatesV2
      else case decodeHostPub (mHostPubHex m) of
             None \<Rightarrow> Inl BadHostPub
           | Some hostPub \<Rightarrow> dialLocator (Dial env cr m i) (kkAuth fl w cr hostPub i))"

section \<open>Control messages that are acknowledged: grantctl.go, rename.go\<close>

datatype arrival = Arrived bytes | Broken

datatype delivery_error = NotDelivered | Unconfirmed | ConnectionLost | Undecryptable

definition meta_field :: "(string, string) gomap \<Rightarrow> string \<Rightarrow> string" where
  "meta_field meta key = (case mget meta key of None \<Rightarrow> [] | Some v \<Rightarrow> v)"

text \<open>A frame that ends the wait: a HELLO whose payload decodes to a map with the wanted entry.\<close>

definition confirms :: "(bytes \<Rightarrow> (string, string) gomap option) \<Rightarrow> string \<Rightarrow> string \<Rightarrow> bytes \<Rightarrow> bool" where
  "confirms unmarshal key want pt \<longleftrightarrow>
     (case DecodeFrame pt of
        None \<Rightarrow> False
      | Some (typ, payload) \<Rightarrow>
          typ = FrameHello \<and> (case unmarshal payload of None \<Rightarrow> False | Some meta \<Rightarrow> meta_field meta key = want))"

fun await_hello ::
  "('h, 'c) flynn \<Rightarrow> (bytes \<Rightarrow> (string, string) gomap option) \<Rightarrow> string \<Rightarrow> string \<Rightarrow> arrival list \<Rightarrow> 'c Session \<Rightarrow> (delivery_error, 'c Session) go_result" where
  "await_hello fl unmarshal key want [] s = Err Unconfirmed"
| "await_hello fl unmarshal key want (Broken # as) s = Err ConnectionLost"
| "await_hello fl unmarshal key want (Arrived ct # as) s =
     (case Decrypt fl ct s of
        Panic \<Rightarrow> Panic
      | Err e \<Rightarrow> Err Undecryptable
      | Ret (pt, s') \<Rightarrow> if confirms unmarshal key want pt then Ret s' else await_hello fl unmarshal key want as s')"

text \<open>
  \<open>ctl_marshal\<close> is \<open>json.Marshal\<close> of a map of strings, \<open>ctl_unmarshal\<close> reads one, \<open>ctl_write\<close> says whether a ciphertext goes out and \<open>ctl_arrivals\<close> what arrives
  within the wait once it did.
\<close>

record control_env =
  ctl_marshal :: "(string \<times> string) list \<Rightarrow> bytes"
  ctl_unmarshal :: "bytes \<Rightarrow> (string, string) gomap option"
  ctl_write :: "bytes \<Rightarrow> bool"
  ctl_arrivals :: "bytes \<Rightarrow> arrival list"

definition deliver ::
  "control_env \<Rightarrow> ('h, 'c) flynn \<Rightarrow> (string \<times> string) list \<Rightarrow> string \<Rightarrow> string \<Rightarrow> 'c Session \<Rightarrow> (delivery_error, 'c Session) go_result" where
  "deliver env fl kvs key want s =
     (case sender_send fl (ctl_write env) (EncodeControl (ctl_marshal env kvs)) s of
        Panic \<Rightarrow> Panic
      | Err e \<Rightarrow> Err NotDelivered
      | Ret (ct, s') \<Rightarrow> await_hello fl (ctl_unmarshal env) key want (ctl_arrivals env ct) s')"

definition GrantOverSession :: "control_env \<Rightarrow> ('h, 'c) flynn \<Rightarrow> string \<Rightarrow> string \<Rightarrow> 'c Session \<Rightarrow> (delivery_error, 'c Session) go_result" where
  "GrantOverSession env fl record gid s =
     deliver env fl [(''a'', ''add-grant''), (''grant'', record)] ''ack'' (''add-grant:'' @ gid) s"

definition RevokeGrantOverSession :: "control_env \<Rightarrow> ('h, 'c) flynn \<Rightarrow> string \<Rightarrow> 'c Session \<Rightarrow> (delivery_error, 'c Session) go_result" where
  "RevokeGrantOverSession env fl gid s =
     deliver env fl [(''a'', ''revoke-grant''), (''gid'', gid)] ''ack'' (''revoke-grant:'' @ gid) s"

definition RenameOverSession ::
  "control_env \<Rightarrow> ('h, 'c) flynn \<Rightarrow> string \<Rightarrow> string \<Rightarrow> 'c Session \<Rightarrow> (delivery_error, 'c Session) go_result" where
  "RenameOverSession env fl newName blob s =
     deliver env fl [(''a'', ''rename-machine''), (''n'', newName), (''blob'', blob)] ''name'' newName s"

section \<open>Output and input: runcmd.go, bridge.go\<close>

datatype bridge_end = StreamOpen | RecvError | DecryptError | WriteError | RecvPanic

text \<open>
  The receiving loop of \<open>ClientBridgeSink\<close>, and of \<open>RunCommand\<close>, which has no sink: what is written to the terminal, the window snapshots given to the sink, and how it
  ended. \<open>outOK\<close> says which writes succeed.
\<close>

fun bridge_recv :: "('h, 'c) flynn \<Rightarrow> (bytes \<Rightarrow> bool) \<Rightarrow> bool \<Rightarrow> arrival list \<Rightarrow> 'c Session \<Rightarrow> bytes list \<times> bytes list \<times> bridge_end" where
  "bridge_recv fl outOK sink [] s = ([], [], StreamOpen)"
| "bridge_recv fl outOK sink (Broken # as) s = ([], [], RecvError)"
| "bridge_recv fl outOK sink (Arrived ct # as) s =
     (case Decrypt fl ct s of
        Panic \<Rightarrow> ([], [], RecvPanic)
      | Err e \<Rightarrow> ([], [], DecryptError)
      | Ret (pt, s') \<Rightarrow>
          (case DecodeFrame pt of
             None \<Rightarrow> bridge_recv fl outOK sink as s'
           | Some (typ, payload) \<Rightarrow>
               if typ = FrameData \<and> \<not> outOK payload then ([], [], WriteError)
               else let (out, wins, e) = bridge_recv fl outOK sink as s'
                    in ((if typ = FrameData then [payload] else []) @ out, (if typ = FrameWindows \<and> sink then [payload] else []) @ wins, e)))"

text \<open>
  What the bridge sends: the initial size, then, in the order in which its two other loops get hold of the sender, the chunks read from the terminal and the new sizes.
\<close>

datatype local_event = Typed bytes | Resized "16 word" "16 word"

fun local_frame :: "local_event \<Rightarrow> bytes" where
  "local_frame (Typed b) = EncodeData b"
| "local_frame (Resized cols rows) = EncodeResize cols rows"

definition bridge_frames :: "16 word \<times> 16 word \<Rightarrow> local_event list \<Rightarrow> bytes list" where
  "bridge_frames initial es = EncodeResize (fst initial) (snd initial) # map local_frame es"

text \<open>\<open>RunCommand\<close>: the command's line as a frame.\<close>

definition run_command_frame :: "string \<Rightarrow> bytes" where
  "run_command_frame cmd = EncodeData (bytes_of (cmd @ [nl]))"

section \<open>Lemmas\<close>

lemma await_hello_Ret:
  assumes "await_hello fl unmarshal key want as s = Ret s'"
  shows "\<exists>cts pts ct pt s1. map Arrived (cts @ [ct]) = take (Suc (length cts)) as \<and> decrypt_all fl cts s = Ret (pts, s1) \<and>
    Decrypt fl ct s1 = Ret (pt, s') \<and> confirms unmarshal key want pt"
  using assms
proof (induction fl unmarshal key want as s rule: await_hello.induct)
  case (3 fl unmarshal key want ct as s)
  then obtain pt s1 where d: "Decrypt fl ct s = Ret (pt, s1)" by (cases "Decrypt fl ct s") auto
  show ?case
  proof (cases "confirms unmarshal key want pt")
    case True
    with 3(2) d show ?thesis by (intro exI [of _ "[]"] exI [of _ ct] exI [of _ pt] exI [of _ s]) simp
  next
    case False
    with 3 d obtain cts pts ct' pt' s2 where "map Arrived (cts @ [ct']) = take (Suc (length cts)) as" "decrypt_all fl cts s1 = Ret (pts, s2)"
      "Decrypt fl ct' s2 = Ret (pt', s')" "confirms unmarshal key want pt'" by fastforce
    with d show ?thesis by (intro exI [of _ "ct # cts"] exI [of _ "pt # pts"] exI [of _ ct'] exI [of _ pt'] exI [of _ s2]) simp
  qed
qed simp_all

text \<open>A delivery that succeeds was confirmed by a HELLO of the session.\<close>

lemma deliver_Ret:
  assumes "deliver env fl kvs key want s = Ret s'"
  obtains ct s1 pt s2 ct' where "sender_send fl (ctl_write env) (EncodeControl (ctl_marshal env kvs)) s = Ret (ct, s1)"
    "Arrived ct' \<in> set (ctl_arrivals env ct)" "Decrypt fl ct' s2 = Ret (pt, s')" "confirms (ctl_unmarshal env) key want pt"
proof -
  obtain ct s1 where c: "sender_send fl (ctl_write env) (EncodeControl (ctl_marshal env kvs)) s = Ret (ct, s1)"
      "await_hello fl (ctl_unmarshal env) key want (ctl_arrivals env ct) s1 = Ret s'"
    using assms by (auto simp: deliver_def split: go_result.splits)
  from await_hello_Ret [OF c(2)] obtain cts ct' pt s2 where a: "map Arrived (cts @ [ct']) = take (Suc (length cts)) (ctl_arrivals env ct)"
      "Decrypt fl ct' s2 = Ret (pt, s')" "confirms (ctl_unmarshal env) key want pt" by blast
  have "Arrived ct' \<in> set (ctl_arrivals env ct)" using a(1) by (metis in_set_conv_decomp in_set_takeD list.simps(9) map_append)
  then show thesis using that c(1) a(2,3) by blast
qed

text \<open>An attached session is the one of a handshake with the machine's pinned key, and the offer it went through carries the identity's signature.\<close>

lemma Attach_Inr:
  assumes "Attach env fl w cr m i = Inr s"
  shows "\<exists>hostPub offer session sdp sgn. decodeHostPub (mHostPubHex m) = Some hostPub \<and> id_Signer cr i = Inr sgn \<and>
    offer = offer_message cr i m session sdp sgn \<and> session \<noteq> [] \<and> de_write env offer \<and>
    RunInitiator fl (kw_random w) (kw_sent w) (kw_reply w) (OwnerPriv cr i) hostPub = Some s"
  using assms
  by (auto simp: Attach_def dialLocator_def Dial_def kkAuth_def ready_session_def Let_def split: if_splits option.splits sum.splits prod.splits)

lemma bridge_recv_exact:
  assumes "decrypt_all fl cts s = Ret (pts, s')" "\<And>b. outOK b"
  shows "bridge_recv fl outOK sink (map Arrived cts) s =
    (map snd (filter (\<lambda>f. fst f = FrameData) (List.map_filter DecodeFrame pts)),
     map snd (filter (\<lambda>f. fst f = FrameWindows \<and> sink) (List.map_filter DecodeFrame pts)), StreamOpen)"
  using assms(1)
proof (induction cts arbitrary: s pts)
  case (Cons ct cts)
  obtain pt s1 where d: "Decrypt fl ct s = Ret (pt, s1)" using Cons.prems by (cases "Decrypt fl ct s") auto
  then obtain pts' where p: "decrypt_all fl cts s1 = Ret (pts', s')" "pts = pt # pts'" using Cons.prems by (cases "decrypt_all fl cts s1") auto
  show ?case using Cons.IH [OF p(1)] d p(2) assms(2) by (auto simp: map_filter_def split: option.splits)
qed (simp add: map_filter_def)

end
