(* ===== verification/Cli_Args.thy ===== *)
theory Cli_Args
  imports Client_Prewarm
begin

text \<open>
  The command line: flags and positionals and the other helpers of \<^verbatim>\<open>go/internal/cli/shared.go\<close>, the dispatch of \<^verbatim>\<open>cli.go\<close>, and the installation of tmux that
  \<^verbatim>\<open>mir up\<close> offers (\<^verbatim>\<open>tmux_bootstrap.go\<close>). \<open>flag.FlagSet\<close> is modelled as far as it is used: a set of flags is a function \<open>kind\<close> that says of a name whether it is defined
  and whether it is boolean, with \<open>ok\<close> telling which values its type accepts; every set exits on an error, which is the result none.
\<close>

section \<open>Package flag\<close>

fun cut_value :: "string \<Rightarrow> string \<times> string option" where
  "cut_value [] = ([], None)"
| "cut_value (c # s) = (if c = CHR ''='' then ([], Some s) else case cut_value s of (n, v) \<Rightarrow> (c # n, v))"

text \<open>The name of a flag and the value after an equals sign, which is looked for from the second character on.\<close>

definition flag_name :: "string \<Rightarrow> (string \<times> string option) option" where
  "flag_name s =
     (let name = (if HasPrefix s ''--'' then drop 2 s else drop 1 s)
      in if name = [] \<or> hd name = CHR ''-'' \<or> hd name = CHR ''='' then None
         else case cut_value (tl name) of (n, v) \<Rightarrow> Some (hd name # n, v))"

definition is_flag :: "string \<Rightarrow> bool" where
  "is_flag s \<longleftrightarrow> 2 \<le> length s \<and> hd s = CHR ''-''"

type_synonym settings = "(string \<times> string) list"

text \<open>\<open>Parse\<close>: the values set, in order, and the arguments from the first positional on.\<close>

fun flag_Parse :: "(string \<Rightarrow> bool option) \<Rightarrow> (string \<Rightarrow> string \<Rightarrow> bool) \<Rightarrow> string list \<Rightarrow> (settings \<times> string list) option" where
  "flag_Parse kind ok [] = Some ([], [])"
| "flag_Parse kind ok (s # as) =
     (if \<not> is_flag s then Some ([], s # as)
      else if s = ''--'' then Some ([], as)
      else case flag_name s of
             None \<Rightarrow> None
           | Some (n, v) \<Rightarrow>
               (case kind n of
                  None \<Rightarrow> None
                | Some True \<Rightarrow>
                    let x = (case v of None \<Rightarrow> ''true'' | Some x \<Rightarrow> x)
                    in if \<not> ok n x then None else map_option (\<lambda>(kv, r). ((n, x) # kv, r)) (flag_Parse kind ok as)
                | Some False \<Rightarrow>
                    (case v of
                       Some x \<Rightarrow> if \<not> ok n x then None else map_option (\<lambda>(kv, r). ((n, x) # kv, r)) (flag_Parse kind ok as)
                     | None \<Rightarrow>
                         (case as of
                            [] \<Rightarrow> None
                          | x # as' \<Rightarrow>
                              if \<not> ok n x then None else map_option (\<lambda>(kv, r). ((n, x) # kv, r)) (flag_Parse kind ok as')))))"

lemma flag_Parse_shorter: "flag_Parse kind ok as = Some (kv, rest) \<Longrightarrow> length rest \<le> length as"
proof (induction as arbitrary: kv rule: length_induct)
  case (1 as)
  have ih: "flag_Parse kind ok bs = Some (kv', rest) \<Longrightarrow> length bs < length as \<Longrightarrow> length rest \<le> length as" for bs kv' using 1 by (meson less_imp_le order_trans)
  show ?case
  proof (cases as)
    case (Cons s bs)
    have "length rest \<le> length as" if "flag_Parse kind ok bs = Some (kv', rest)" for kv' using ih [OF that] Cons by simp
    moreover have "length rest \<le> length as" if "bs = x # cs" "flag_Parse kind ok cs = Some (kv', rest)" for x cs kv' using ih [OF that(2)] Cons that(1) by simp
    ultimately show ?thesis using 1(2) unfolding Cons flag_Parse.simps Let_def
      by (auto split: if_split_asm option.split_asm bool.split_asm list.split_asm prod.split_asm)
  qed (use 1 in simp)
qed

section \<open>Flags and positionals in any order: shared.go\<close>

function parse_rounds :: "(string \<Rightarrow> bool option) \<Rightarrow> (string \<Rightarrow> string \<Rightarrow> bool) \<Rightarrow> string list \<Rightarrow> (settings \<times> string list) option" where
  "parse_rounds kind ok args =
     (case flag_Parse kind ok args of
        None \<Rightarrow> None
      | Some (kv, []) \<Rightarrow> Some (kv, [])
      | Some (kv, p # rest) \<Rightarrow> map_option (\<lambda>(kv', ps). (kv @ kv', p # ps)) (parse_rounds kind ok rest))"
  by pat_completeness auto
termination by (relation "measure (\<lambda>(kind, ok, args). length args)") (auto dest: flag_Parse_shorter)

declare parse_rounds.simps [simp del]

definition parseArgs :: "(string \<Rightarrow> bool option) \<Rightarrow> (string \<Rightarrow> string \<Rightarrow> bool) \<Rightarrow> string list \<Rightarrow> (settings \<times> string list) option" where
  "parseArgs kind ok args =
     (let before = takeWhile (\<lambda>a. a \<noteq> ''--'') args; literal = tl (dropWhile (\<lambda>a. a \<noteq> ''--'') args)
      in map_option (\<lambda>(kv, ps). (kv, ps @ literal)) (parse_rounds kind ok before))"

text \<open>A command line as its author means it, and how it is written.\<close>

datatype token = Positional string | Switch string | Setting string string | Equals string string

fun written :: "token \<Rightarrow> string list" where
  "written (Positional p) = [p]"
| "written (Switch n) = [''--'' @ n]"
| "written (Setting n v) = [''--'' @ n, v]"
| "written (Equals n v) = [''--'' @ n @ ''='' @ v]"

fun token_ok :: "(string \<Rightarrow> bool option) \<Rightarrow> (string \<Rightarrow> string \<Rightarrow> bool) \<Rightarrow> token \<Rightarrow> bool" where
  "token_ok kind ok (Positional p) \<longleftrightarrow> \<not> is_flag p"
| "token_ok kind ok (Switch n) \<longleftrightarrow> kind n = Some True \<and> ok n ''true''"
| "token_ok kind ok (Setting n v) \<longleftrightarrow> kind n = Some False \<and> ok n v \<and> v \<noteq> ''--''"
| "token_ok kind ok (Equals n v) \<longleftrightarrow> kind n \<noteq> None \<and> ok n v"

fun setting_of :: "token \<Rightarrow> settings" where
  "setting_of (Switch n) = [(n, ''true'')]"
| "setting_of (Setting n v) = [(n, v)]"
| "setting_of (Equals n v) = [(n, v)]"
| "setting_of (Positional p) = []"

fun positional_of :: "token \<Rightarrow> string list" where
  "positional_of (Positional p) = [p]"
| "positional_of t = []"

text \<open>Names of flags: not empty, without an equals sign, not starting with a dash.\<close>

definition plain_names :: "(string \<Rightarrow> bool option) \<Rightarrow> bool" where
  "plain_names kind \<longleftrightarrow> (\<forall>n. kind n \<noteq> None \<longrightarrow> n \<noteq> [] \<and> hd n \<noteq> CHR ''-'' \<and> CHR ''='' \<notin> set n)"

lemma cut_value_plain: "CHR ''='' \<notin> set n \<Longrightarrow> cut_value n = (n, None)"
  by (induction n) auto

lemma cut_value_equals: "CHR ''='' \<notin> set n \<Longrightarrow> cut_value (n @ CHR ''='' # v) = (n, Some v)"
  by (induction n) auto

lemma flag_name_written:
  assumes "plain_names kind" "kind n \<noteq> None"
  shows "flag_name (''--'' @ n) = Some (n, None)" "flag_name (''--'' @ n @ ''='' @ v) = Some (n, Some v)"
    "is_flag (''--'' @ n)" "is_flag (''--'' @ n @ ''='' @ v)" "''--'' @ n \<noteq> ''--''" "''--'' @ n @ ''='' @ v \<noteq> ''--''"
proof -
  have "n \<noteq> [] \<and> hd n \<noteq> CHR ''-'' \<and> CHR ''='' \<notin> set n" using assms by (simp add: plain_names_def)
  then obtain c m where n: "n = c # m" "c \<noteq> CHR ''-''" "c \<noteq> CHR ''=''" "CHR ''='' \<notin> set m"
    by (cases n) auto
  show "flag_name (''--'' @ n) = Some (n, None)" "flag_name (''--'' @ n @ ''='' @ v) = Some (n, Some v)"
    using n by (simp_all add: flag_name_def HasPrefix_def cut_value_plain cut_value_equals)
  show "is_flag (''--'' @ n)" "is_flag (''--'' @ n @ ''='' @ v)" "''--'' @ n \<noteq> ''--''" "''--'' @ n @ ''='' @ v \<noteq> ''--''" by (simp_all add: is_flag_def n(1))
qed

lemma flag_Parse_step:
  assumes "is_flag s" "s \<noteq> ''--''" "flag_name s = Some (n, v)"
  shows "kind n = Some True \<Longrightarrow> v = None \<Longrightarrow> ok n ''true'' \<Longrightarrow> flag_Parse kind ok (s # as) = map_option (\<lambda>(kv, r). ((n, ''true'') # kv, r)) (flag_Parse kind ok as)"
    "kind n = Some b \<Longrightarrow> v = Some x \<Longrightarrow> ok n x \<Longrightarrow> flag_Parse kind ok (s # as) = map_option (\<lambda>(kv, r). ((n, x) # kv, r)) (flag_Parse kind ok as)"
    "kind n = Some False \<Longrightarrow> v = None \<Longrightarrow> ok n y \<Longrightarrow> flag_Parse kind ok (s # y # as) = map_option (\<lambda>(kv, r). ((n, y) # kv, r)) (flag_Parse kind ok as)"
  using assms by (simp_all split: bool.splits)

lemma parse_rounds_step:
  assumes "flag_Parse kind ok bs = map_option (\<lambda>(kv, r). (kv0 @ kv, r)) (flag_Parse kind ok as)"
  shows "parse_rounds kind ok bs = map_option (\<lambda>(kv, ps). (kv0 @ kv, ps)) (parse_rounds kind ok as)"
  by (auto simp: parse_rounds.simps [of kind ok bs] parse_rounds.simps [of kind ok as] assms option.map_comp comp_def case_prod_beta' split: option.splits list.splits)

lemma parse_rounds_token:
  assumes "plain_names kind" "token_ok kind ok t"
  shows "parse_rounds kind ok (written t @ as) = map_option (\<lambda>(kv, ps). (setting_of t @ kv, positional_of t @ ps)) (parse_rounds kind ok as)"
proof -
  have flag: ?thesis if "positional_of t = []" "flag_Parse kind ok (written t @ as) = map_option (\<lambda>(kv, r). (setting_of t @ kv, r)) (flag_Parse kind ok as)"
    using parse_rounds_step [OF that(2)] that(1) by simp
  show ?thesis
  proof (cases t)
    case (Positional p)
    then show ?thesis using assms(2) by (simp add: parse_rounds.simps [of kind ok "p # as"])
  next
    case (Switch n)
    then have k: "kind n = Some True" "ok n ''true''" using assms(2) by simp_all
    then have d: "kind n \<noteq> None" by simp
    show ?thesis by (rule flag) (use flag_Parse_step(1) [OF flag_name_written(3,5,1) [OF assms(1) d], of kind ok] k in \<open>simp_all add: Switch\<close>)
  next
    case (Setting n v)
    then have k: "kind n = Some False" "ok n v" using assms(2) by simp_all
    then have d: "kind n \<noteq> None" by simp
    show ?thesis by (rule flag) (use flag_Parse_step(3) [OF flag_name_written(3,5,1) [OF assms(1) d], of kind ok] k in \<open>simp_all add: Setting\<close>)
  next
    case (Equals n v)
    then obtain b where k: "kind n = Some b" "ok n v" using assms(2) by auto
    then have d: "kind n \<noteq> None" by simp
    show ?thesis by (rule flag) (use flag_Parse_step(2) [OF flag_name_written(4,6,2) [OF assms(1) d], of kind b] k in \<open>simp_all add: Equals\<close>)
  qed
qed

lemma parse_rounds_tokens:
  assumes "plain_names kind" "list_all (token_ok kind ok) ts"
  shows "parse_rounds kind ok (concat (map written ts)) = Some (concat (map setting_of ts), concat (map positional_of ts))"
  using assms(2)
proof (induction ts)
  case Nil
  then show ?case by (simp add: parse_rounds.simps)
next
  case (Cons t ts)
  then show ?case using parse_rounds_token [OF assms(1), of ok t "concat (map written ts)"] by simp
qed

lemma written_no_dashes: "plain_names kind \<Longrightarrow> token_ok kind ok t \<Longrightarrow> ''--'' \<notin> set (written t)"
  by (cases t) (auto simp: is_flag_def plain_names_def)

text \<open>
  Flags are read wherever they stand: a command line of positionals and flags in any order, with values after a space or an equals sign, followed or not by a literal double
  dash and more arguments, gives exactly its settings in order and its positionals in order, and everything after the double dash as positionals.
\<close>

lemma parseArgs_any_order:
  assumes "plain_names kind" "list_all (token_ok kind ok) ts"
  shows "parseArgs kind ok (concat (map written ts)) = Some (concat (map setting_of ts), concat (map positional_of ts))"
    "parseArgs kind ok (concat (map written ts) @ ''--'' # rest) = Some (concat (map setting_of ts), concat (map positional_of ts) @ rest)"
proof -
  have "a \<noteq> ''--''" if "a \<in> set (concat (map written ts))" for a
    using that written_no_dashes [OF assms(1)] assms(2) by (auto simp: list_all_iff)
  then have "takeWhile (\<lambda>a. a \<noteq> ''--'') (concat (map written ts)) = concat (map written ts)" "dropWhile (\<lambda>a. a \<noteq> ''--'') (concat (map written ts)) = []"
      "takeWhile (\<lambda>a. a \<noteq> ''--'') (concat (map written ts) @ ''--'' # rest) = concat (map written ts)"
      "dropWhile (\<lambda>a. a \<noteq> ''--'') (concat (map written ts) @ ''--'' # rest) = ''--'' # rest"
    by (auto simp: takeWhile_append dropWhile_append)
  then show "parseArgs kind ok (concat (map written ts)) = Some (concat (map setting_of ts), concat (map positional_of ts))"
      "parseArgs kind ok (concat (map written ts) @ ''--'' # rest) = Some (concat (map setting_of ts), concat (map positional_of ts) @ rest)"
    unfolding parseArgs_def Let_def by (simp_all only: parse_rounds_tokens [OF assms]) simp_all
qed

section \<open>The other helpers of shared.go\<close>

definition looksLikeX25519Hex :: "string \<Rightarrow> bool" where
  "looksLikeX25519Hex s \<longleftrightarrow>
     length s = 64 \<and>
     list_all (\<lambda>c. let n = of_char c :: nat in 48 \<le> n \<and> n \<le> 57 \<or> 97 \<le> n \<and> n \<le> 102 \<or> 65 \<le> n \<and> n \<le> 70) s"

definition splitCSV :: "string \<Rightarrow> string list" where
  "splitCSV s =
     (if TrimSpace s = [] then [] else filter (\<lambda>u. u \<noteq> []) (map TrimSpace (Split (CHR '','') (TrimSpace s))))"

text \<open>The closure \<open>iceFlags\<close> returns, on the values of its four flags.\<close>

definition iceFlags :: "string \<Rightarrow> string \<Rightarrow> string \<Rightarrow> string \<Rightarrow> ICEServer list" where
  "iceFlags stun turn user pass =
     (if splitCSV stun \<noteq> [] then [\<lparr>icURLs = splitCSV stun, icUsername = [], icCredential = []\<rparr>] else []) @
     (if splitCSV turn \<noteq> [] then [\<lparr>icURLs = splitCSV turn, icUsername = user, icCredential = pass\<rparr>] else [])"

definition iceHasTURN :: "ICEServer list \<Rightarrow> bool" where
  "iceHasTURN servers \<longleftrightarrow> list_ex (\<lambda>s. icUsername s \<noteq> [] \<or> icCredential s \<noteq> []) servers"

definition iceSTUNURLs :: "ICEServer list \<Rightarrow> string list" where
  "iceSTUNURLs servers = concat (map icURLs (filter (\<lambda>s. icUsername s = [] \<and> icCredential s = []) servers))"

text \<open>\<open>parsePrefix\<close>; in the label the letter is in upper case.\<close>

definition parsePrefix :: "(nat \<Rightarrow> nat) \<Rightarrow> string \<Rightarrow> (byte \<times> string) option" where
  "parsePrefix lower s =
     (let x = TrimPrefix (TrimPrefix (TrimPrefix (ToLower lower (TrimSpace s)) ''ctrl-'') ''c-'') ''^''
      in if x = ''space'' then Some (0x00, ''Ctrl-Space'')
         else if x = '']'' then Some (0x1D, ''Ctrl-]'')
         else case x of
                [c] \<Rightarrow> let n = of_char c :: nat
                       in if 97 \<le> n \<and> n \<le> 122 then Some (and (byte_of c) 0x1F, ''Ctrl-'' @ [char_of (n - 32)]) else None
              | _ \<Rightarrow> None)"

definition freshSetup :: "(string \<Rightarrow> bool) \<Rightarrow> bool" where
  "freshSetup exists \<longleftrightarrow> \<not> list_ex exists [''client/owner.json'', ''client/machines.json'', ''agent/config.json'']"

definition hostname :: "string option \<Rightarrow> string" where
  "hostname h = (case h of None \<Rightarrow> ''machine'' | Some n \<Rightarrow> n)"

text \<open>A switch key is a control byte: it is never a byte that types a character.\<close>

lemma parsePrefix_control: "parsePrefix lower s = Some (b, label) \<Longrightarrow> b < 0x20"
proof -
  have "and b (0x1F :: byte) < 0x20" for b
    by (rule le_less_trans [OF word_and_le1]) simp
  then show "parsePrefix lower s = Some (b, label) \<Longrightarrow> b < 0x20"
    by (auto simp: parsePrefix_def Let_def split: if_splits list.splits)
qed

text \<open>Flags for TURN without a name and a password do not count as TURN: their servers are offered as STUN servers.\<close>

lemma iceFlags_anonymous_turn:
  "iceHasTURN (iceFlags stun turn [] []) = False" "set (splitCSV turn) \<subseteq> set (iceSTUNURLs (iceFlags stun turn [] []))"
  by (auto simp: iceFlags_def iceHasTURN_def iceSTUNURLs_def)

section \<open>Dispatch: cli.go\<close>

datatype command =
    Keygen | AddMachineCmd | ListCmd | AttachCmd | RunCmd | SelfUpdate | Enroll | PairDev | UpCmd | PairCmd | ShareCmd | JoinCmd | IdentityCmd | MachineCmd | Doctor | LegacyWallet | Overview

definition canonicalCommand :: "string \<Rightarrow> string" where
  "canonicalCommand cmd =
     (if cmd = ''a'' then ''attach'' else if cmd = ''ls'' then ''list'' else if cmd = ''id'' then ''identity'' else if cmd = ''update'' then ''self-update'' else cmd)"

definition command_table :: "(string \<times> command) list" where
  "command_table =
     [(''keygen'', Keygen), (''add-machine'', AddMachineCmd), (''list'', ListCmd), (''attach'', AttachCmd), (''run'', RunCmd), (''self-update'', SelfUpdate),
      (''enroll'', Enroll), (''pair-dev'', PairDev), (''up'', UpCmd), (''pair'', PairCmd), (''share'', ShareCmd), (''join'', JoinCmd), (''identity'', IdentityCmd),
      (''machine'', MachineCmd), (''doctor'', Doctor), (''wallet'', LegacyWallet)]"

text \<open>The exit code; \<open>handler\<close> says whether a command returned without an error.\<close>

definition exit_code :: "bool \<Rightarrow> int" where
  "exit_code ok = (if ok then 0 else 1)"

definition run :: "bool \<Rightarrow> (command \<Rightarrow> string list \<Rightarrow> bool) \<Rightarrow> string list \<Rightarrow> int" where
  "run tty handler argv =
     (case argv of
        [] \<Rightarrow> if tty then exit_code (handler Overview []) else 2
      | cmd # args \<Rightarrow>
          if canonicalCommand cmd \<in> {''--help'', ''-h'', ''help'', ''--version'', ''-v'', ''version''} then 0
          else case map_of command_table (canonicalCommand cmd) of None \<Rightarrow> 2 | Some c \<Rightarrow> exit_code (handler c args))"

section \<open>Installing tmux: tmux_bootstrap.go\<close>

record pkgManager =
  pmBin :: string
  pmArgs :: "string list"
  pmNeedsSudo :: bool

definition linuxPkgManagers :: "pkgManager list" where
  "linuxPkgManagers =
     [\<lparr>pmBin = ''apt-get'', pmArgs = [''install'', ''-y'', ''tmux''], pmNeedsSudo = True\<rparr>,
      \<lparr>pmBin = ''apt'', pmArgs = [''install'', ''-y'', ''tmux''], pmNeedsSudo = True\<rparr>,
      \<lparr>pmBin = ''dnf'', pmArgs = [''install'', ''-y'', ''tmux''], pmNeedsSudo = True\<rparr>,
      \<lparr>pmBin = ''pacman'', pmArgs = [''-S'', ''--noconfirm'', ''tmux''], pmNeedsSudo = True\<rparr>]"

definition pm_command :: "pkgManager \<Rightarrow> string" where
  "pm_command p = Join '' '' (pmBin p # pmArgs p)"

definition pm_runCommand :: "pkgManager \<Rightarrow> string" where
  "pm_runCommand p = (if pmNeedsSudo p then ''sudo '' @ pm_command p else pm_command p)"

text \<open>\<open>tb_lookPath\<close> is the search before an installation, \<open>tb_found\<close> whether tmux is found after one, \<open>tb_run\<close> the outcome of the package manager.\<close>

record tmuxBootstrap =
  tb_lookPath :: "string \<Rightarrow> bool"
  tb_found :: bool
  tb_run :: "string \<Rightarrow> string list \<Rightarrow> bool"
  tb_geteuid :: nat
  tb_goos :: string
  tb_isTTY :: bool
  tb_answer :: string

definition tb_detect :: "tmuxBootstrap \<Rightarrow> pkgManager option" where
  "tb_detect b =
     (if tb_goos b = ''darwin'' then
        (if tb_lookPath b ''brew'' then Some \<lparr>pmBin = ''brew'', pmArgs = [''install'', ''tmux''], pmNeedsSudo = False\<rparr> else None)
      else if tb_goos b = ''linux'' then find (\<lambda>pm. tb_lookPath b (pmBin pm)) linuxPkgManagers
      else None)"

definition installConsent :: "(nat \<Rightarrow> nat) \<Rightarrow> string \<Rightarrow> bool" where
  "installConsent lower s \<longleftrightarrow> ToLower lower (TrimSpace s) \<in> {[], ''y'', ''yes''}"

definition fallbackLaunch :: "string list" where "fallbackLaunch = [''sh'']"

datatype bootstrap_error = TmuxMissing "pkgManager option" | NeedsRoot string

text \<open>\<open>ensure\<close>: the launch command or a refusal, and the commands it ran. The launch command is not empty.\<close>

definition tb_ensure ::
  "(nat \<Rightarrow> nat) \<Rightarrow> tmuxBootstrap \<Rightarrow> string list \<Rightarrow> (bootstrap_error + string list) \<times> (string \<times> string list) list" where
  "tb_ensure lower b launch =
     (if hd launch \<noteq> ''tmux'' \<or> tb_lookPath b ''tmux'' then (Inr launch, [])
      else if \<not> tb_isTTY b then (Inl (TmuxMissing (tb_detect b)), [])
      else case tb_detect b of
             None \<Rightarrow> (Inr fallbackLaunch, [])
           | Some pm \<Rightarrow>
               if \<not> installConsent lower (tb_answer b) then (Inr fallbackLaunch, [])
               else if pmNeedsSudo pm \<and> tb_geteuid b \<noteq> 0 then (Inl (NeedsRoot (pm_runCommand pm)), [])
               else if \<not> tb_run b (pmBin pm) (pmArgs pm) \<or> \<not> tb_found b then (Inr fallbackLaunch, [(pmBin pm, pmArgs pm)])
               else (Inr launch, [(pmBin pm, pmArgs pm)]))"

text \<open>
  Something is run only for a person at the terminal who consented, only a known package manager's installation of tmux, and a system package manager only as root; a launch
  command that is returned starts tmux only where tmux is found.
\<close>

lemma tb_ensure_safe:
  assumes "tb_ensure lower b launch = (r, cmds)"
  shows "(cmds \<noteq> [] \<longrightarrow> tb_isTTY b \<and> installConsent lower (tb_answer b) \<and> \<not> tb_lookPath b ''tmux'') \<and>
    (\<forall>(bin, args) \<in> set cmds. args \<noteq> [] \<and> last args = ''tmux'' \<and> (bin \<noteq> ''brew'' \<longrightarrow> tb_geteuid b = 0)) \<and>
    (\<forall>l. r = Inr l \<longrightarrow> l \<noteq> launch \<longrightarrow> l = fallbackLaunch) \<and>
    (\<forall>l. r = Inr l \<longrightarrow> hd l = ''tmux'' \<longrightarrow> tb_lookPath b ''tmux'' \<or> tb_found b)"
proof -
  have "pmArgs pm \<noteq> [] \<and> last (pmArgs pm) = ''tmux'' \<and> (pmBin pm \<noteq> ''brew'' \<longrightarrow> pmNeedsSudo pm)" if "tb_detect b = Some pm" for pm
    using that by (auto simp: tb_detect_def linuxPkgManagers_def split: if_splits)
  then show ?thesis using assms by (auto simp: tb_ensure_def fallbackLaunch_def split: if_splits option.splits)
qed

end
