(* ===== verification/Cli_Machines.thy ===== *)
theory Cli_Machines
  imports Cli_Args Cli_Overview Client_Dial Pair_Flow
begin

text \<open>
  The commands on machines, \<^verbatim>\<open>go/internal/cli/client_cmds.go\<close>: finding the machines a command names, attaching, listing, renaming and retiring them. They compose the
  warm-up, the local files and the session. \<open>warm_env\<close> holds what the environment gives a command (answers of the relay, clocks, file faults, encodings) and \<open>client_dir\<close>
  the files it reads and writes. The three fetches of a warm-up touch different files, so their order does not matter. What is printed is left out, except where it is the result.
\<close>

section \<open>The warm-up and the files\<close>

record 'f warm_env =
  we_identity :: "identity_error + Identity"
  we_signal :: string
  we_verify :: "bytes \<Rightarrow> bytes \<Rightarrow> bytes \<Rightarrow> bool"
  we_crypto :: crypto
  we_aead :: aead
  we_recordR :: "registryRecord \<Rightarrow> bytes"
  we_unrecordR :: "bytes \<Rightarrow> registryRecord option"
  we_marshalM :: "Machine list \<Rightarrow> 'f"
  we_unmarshalM :: "'f \<Rightarrow> Machine list option"
  we_marshalD :: "localRevocations \<Rightarrow> 'f"
  we_unmarshalD :: "'f \<Rightarrow> localRevocations option"
  we_marshalV :: "unit cacheEnvelope \<Rightarrow> 'f"
  we_unmarshalV :: "'f \<Rightarrow> unit cacheEnvelope option"
  we_marshalG :: "registryEntry list option cacheEnvelope \<Rightarrow> 'f"
  we_unmarshalG :: "'f \<Rightarrow> registryEntry list option cacheEnvelope option"
  we_marshalI :: "ICEServer list option cacheEnvelope \<Rightarrow> 'f"
  we_unmarshalI :: "'f \<Rightarrow> ICEServer list option cacheEnvelope option"
  we_marshalS :: "string list \<Rightarrow> 'f"
  we_unmarshalS :: "'f \<Rightarrow> string list"
  we_mkdir :: bool
  we_readM :: bool
  we_readD :: bool
  we_readV :: bool
  we_readG :: bool
  we_readI :: bool
  we_readS :: bool
  we_writeS :: "bool \<times> 'f option"
  we_ioM :: "file_call \<Rightarrow> bool"
  we_ioR :: "file_call \<Rightarrow> bool"
  we_ioD :: "Revocation \<Rightarrow> file_call \<Rightarrow> bool"
  we_ioV :: "file_call \<Rightarrow> bool"
  we_ioG :: "file_call \<Rightarrow> bool"
  we_ioI :: "file_call \<Rightarrow> bool"
  we_revocations :: "Revocation list option"
  we_registry :: "registryEntry list option"
  we_registry2 :: "registryEntry list option"
  we_turn :: "turnCreds http_answer"
  we_turn2 :: "turnCreds http_answer"
  we_start :: time
  we_now :: time
  we_stored :: time
  we_later :: time
  we_arrivedV :: bool
  we_arrivedG :: bool
  we_nonce :: "bytes option"
  we_post :: "string \<Rightarrow> Revocation \<Rightarrow> int option"

record 'f client_dir =
  cd_machines :: "'f option"
  cd_deny :: "'f option"
  cd_cacheV :: "'f option"
  cd_cacheG :: "'f option"
  cd_cacheI :: "'f option"
  cd_seen :: "'f option"

record Prewarm =
  pwDiscovered :: "Machine list"
  pwRegistrySource :: source
  pwRegistryErr :: "registry_error option"
  pwICE :: "ICEServer list"
  pwICESource :: source
  pwICEFrom :: string

text \<open>\<open>Prewarmer.Run\<close> for the default relay; \<open>ICEErr\<close> is set exactly when the source is the fallback to the cache or an error.\<close>

definition Prewarm_Run :: "'f warm_env \<Rightarrow> Identity \<Rightarrow> string \<Rightarrow> string list \<Rightarrow> 'f client_dir \<Rightarrow> Prewarm \<times> 'f client_dir" where
  "Prewarm_Run env i turnURL stun d =
     (let rooted = HasRootedIdentity (id_Secret i);
          ((discovered, regSource, regErr), cacheG) =
            run_registry (cr_hkdf (we_crypto env)) (we_aead env) (we_unrecordR env) (we_marshalG env) (we_unmarshalG env) (we_readG env) (we_ioG env)
              (we_registry env) (we_stored env) (we_arrivedG env) (we_start env) (we_signal env) (idOwnerID i) (id_Secret i) (cd_cacheG d);
          ((ice, iceSource), cacheI) =
            run_ice (we_marshalI env) (we_unmarshalI env) (we_readI env) (we_ioI env) (we_turn env) (we_now env) (we_stored env) (we_later env) (we_start env)
              turnURL stun (cd_cacheI d);
          (revSource, deny, cacheV) =
            run_revocations (we_verify env) (we_marshalD env) (we_unmarshalD env) (we_marshalV env) (we_unmarshalV env) (we_readV env) (we_ioD env) (we_ioV env)
              rooted (we_revocations env) (we_stored env) (we_arrivedV env) (we_start env) (we_signal env) (idOwnerID i) (cd_deny d, cd_cacheV d)
      in (\<lparr>pwDiscovered = discovered, pwRegistrySource = regSource, pwRegistryErr = regErr, pwICE = ice, pwICESource = iceSource,
           pwICEFrom = (if TrimSpace turnURL \<noteq> [] then turnURL else [])\<rparr>,
          d\<lparr>cd_cacheG := cacheG, cd_cacheI := cacheI, cd_deny := deny, cd_cacheV := cacheV\<rparr>))"

definition ICE_ok :: "Prewarm \<Rightarrow> bool" where
  "ICE_ok w \<longleftrightarrow> pwICESource w \<noteq> SourceCacheFallback \<and> pwICESource w \<noteq> SourceError"

definition RefreshRegistry :: "'f warm_env \<Rightarrow> Identity \<Rightarrow> 'f client_dir \<Rightarrow> (registry_error + Machine list) \<times> 'f client_dir" where
  "RefreshRegistry env i d =
     (if \<not> HasRootedIdentity (id_Secret i) then (Inr [], d)
      else case fetchRegistry (cr_hkdf (we_crypto env)) (we_aead env) (we_unrecordR env) (we_marshalG env) (we_ioG env) (we_registry2 env) (we_stored env)
                  (we_signal env) (idOwnerID i) (id_Secret i) (cd_cacheG d) of
             (r, cache) \<Rightarrow> (r, d\<lparr>cd_cacheG := cache\<rparr>))"

definition notify_devices :: "'f warm_env \<Rightarrow> Machine list \<Rightarrow> 'f client_dir \<Rightarrow> 'f client_dir" where
  "notify_devices env ms d =
     d\<lparr>cd_seen := snd (snd (NotifyNewDevices (we_marshalS env) (we_unmarshalS env) (we_readS env) (fst (we_writeS env)) (snd (we_writeS env)) ms (cd_seen d)))\<rparr>"

section \<open>From names to machines\<close>

datatype cmd_error =
    CeUsage | CeIdentity identity_error | CeLegacy | CeStore store_error | CeRevocations revocations_error | CeUnknown string bool | CeNoMachines
  | CeBadName | CeSeal registry_error | CeUnreachable attach_failure | CeUnconfirmed delivery_error | CeSign id_error | CePublish "string list" | CeNeedsYes
  | CeShareEnded string | CePrefix | CeMissingFlags

definition requireRootedIdentity :: "Identity \<Rightarrow> cmd_error option" where
  "requireRootedIdentity i = (if HasRootedIdentity (id_Secret i) then None else Some CeLegacy)"

text \<open>\<open>resolveNames\<close>: the machines and the first name that is none, which is empty when every name landed.\<close>

fun resolve_each :: "Machine list \<Rightarrow> Machine list \<Rightarrow> string list \<Rightarrow> Machine list \<Rightarrow> Machine list \<times> string" where
  "resolve_each local discovered [] acc = (acc, [])"
| "resolve_each local discovered (name # names) acc =
     (case ResolveMachine local discovered name of None \<Rightarrow> ([], name) | Some (m, d) \<Rightarrow> resolve_each local discovered names (acc @ [m]))"

definition resolveNames :: "Machine list \<Rightarrow> Machine list \<Rightarrow> string list \<Rightarrow> Machine list \<times> string" where
  "resolveNames local discovered names = resolve_each local discovered names []"

definition resolution :: "Machine list \<times> string \<Rightarrow> bool \<Rightarrow> Prewarm \<Rightarrow> cmd_error + Machine list \<times> Prewarm" where
  "resolution r fetchErr warm = (if snd r \<noteq> [] then Inl (CeUnknown (snd r) fetchErr) else Inr (fst r, warm))"

definition resolveMachinesWarm ::
  "'f warm_env \<Rightarrow> string list \<Rightarrow> Identity \<Rightarrow> string \<Rightarrow> string list \<Rightarrow> 'f client_dir \<Rightarrow> (cmd_error + Machine list \<times> Prewarm) \<times> 'f client_dir" where
  "resolveMachinesWarm env names i turnURL stun d =
     (case ListMachines (we_unmarshalM env) (we_readM env) (cd_machines d) of
        Inl e \<Rightarrow> (Inl (CeStore e), d)
      | Inr local \<Rightarrow>
          let (warm, d1) = Prewarm_Run env i turnURL stun d;
              d2 = (if HasRootedIdentity (id_Secret i) then notify_devices env (pwDiscovered warm) d1 else d1)
          in case ListRevocations (we_verify env) (we_unmarshalD env) (we_readD env) (cd_deny d2) of
               Inl e \<Rightarrow> (Inl (CeRevocations e), d2)
             | Inr revocations \<Rightarrow>
                 let local' = FilterRevoked local (idOwnerID i) revocations;
                     r = resolveNames local' (FilterRevoked (pwDiscovered warm) (idOwnerID i) revocations) names
                 in if snd r \<noteq> [] \<and> RegistryIsCached (pwRegistrySource warm) then
                      (case RefreshRegistry env i d2 of
                         (Inl e, d3) \<Rightarrow> (resolution r True warm, d3)
                       | (Inr live, d3) \<Rightarrow>
                           (resolution (resolveNames local' (FilterRevoked live (idOwnerID i) revocations) names) False
                              (warm\<lparr>pwDiscovered := live, pwRegistrySource := SourceRelay, pwRegistryErr := None\<rparr>),
                            notify_devices env live d3))
                    else (resolution r (pwRegistryErr warm \<noteq> None) warm, d2))"

definition resolveMachines ::
  "'f warm_env \<Rightarrow> string list \<Rightarrow> Identity \<Rightarrow> 'f client_dir \<Rightarrow> (cmd_error + Machine list) \<times> 'f client_dir" where
  "resolveMachines env names i d =
     (case resolveMachinesWarm env names i [] [] d of (Inl e, d') \<Rightarrow> (Inl e, d') | (Inr (ms, warm), d') \<Rightarrow> (Inr ms, d'))"

text \<open>How \<^verbatim>\<open>run\<close>, \<^verbatim>\<open>share\<close>, \<^verbatim>\<open>share revoke\<close> and \<^verbatim>\<open>machine rename\<close> start: the identity, its root, and \<open>machines[0]\<close>, which panics on an empty list.\<close>

definition pick_machine :: "'f warm_env \<Rightarrow> string \<Rightarrow> 'f client_dir \<Rightarrow> (cmd_error, Identity \<times> Machine) go_result \<times> 'f client_dir" where
  "pick_machine env name d =
     (case we_identity env of
        Inl e \<Rightarrow> (Err (CeIdentity e), d)
      | Inr i \<Rightarrow>
          (case requireRootedIdentity i of
             Some e \<Rightarrow> (Err e, d)
           | None \<Rightarrow>
               (case resolveMachines env [name] i d of
                  (Inl e, d') \<Rightarrow> (Err e, d')
                | (Inr [], d') \<Rightarrow> (Panic, d')
                | (Inr (m # ms), d') \<Rightarrow> (Ret (i, m), d'))))"

definition defaultAttachTarget :: "'f warm_env \<Rightarrow> string \<Rightarrow> 'f client_dir \<Rightarrow> (cmd_error + string) \<times> 'f client_dir" where
  "defaultAttachTarget env lastUsed d =
     (case we_identity env of
        Inl e \<Rightarrow> (Inl (CeIdentity e), d)
      | Inr i \<Rightarrow>
          (case requireRootedIdentity i of
             Some e \<Rightarrow> (Inl e, d)
           | None \<Rightarrow>
               (case ListMachines (we_unmarshalM env) (we_readM env) (cd_machines d) of
                  Inl e \<Rightarrow> (Inl (CeStore e), d)
                | Inr local \<Rightarrow>
                    (case Prewarm_Run env i [] [] d of (warm, d1) \<Rightarrow>
                       (case ListRevocations (we_verify env) (we_unmarshalD env) (we_readD env) (cd_deny d1) of
                          Inl e \<Rightarrow> (Inl (CeRevocations e), d1)
                        | Inr revocations \<Rightarrow>
                            let merged = FilterRevoked (MergeMachines local (pwDiscovered warm)) (idOwnerID i) revocations
                            in (if merged = [] then Inl CeNoMachines
                                else Inr (case pickDefaultMachine lastUsed merged of Some m \<Rightarrow> mName m | None \<Rightarrow> []), d1))))))"

definition localRelayFor :: "'f warm_env \<Rightarrow> string \<Rightarrow> 'f client_dir \<Rightarrow> string" where
  "localRelayFor env name d =
     (case GetMachine (we_unmarshalM env) (we_readM env) name (cd_machines d) of
        Inr m \<Rightarrow> if TrimSpace (mSignalURL m) \<noteq> [] then mSignalURL m else we_signal env
      | Inl e \<Rightarrow> we_signal env)"

definition sameRelay :: "string \<Rightarrow> string \<Rightarrow> bool" where
  "sameRelay a b \<longleftrightarrow> TrimRightSlash (TrimSpace a) = TrimRightSlash (TrimSpace b)"

section \<open>Renaming\<close>

record ('h, 'c) session_env =
  se_dial :: dial_env
  se_flynn :: "('h, 'c) flynn"
  se_kk :: kk_wire
  se_ctl :: control_env

definition open_session :: "('h, 'c) session_env \<Rightarrow> crypto \<Rightarrow> Machine \<Rightarrow> Identity \<Rightarrow> attach_failure + 'c Session" where
  "open_session se cr m i = Attach (se_dial se) (se_flynn se) (se_kk se) cr m i"

definition confirmed :: "(delivery_error, 'a) go_result \<Rightarrow> (cmd_error, unit) go_result" where
  "confirmed r = (case r of Ret s \<Rightarrow> Ret () | Err e \<Rightarrow> Err (CeUnconfirmed e) | Panic \<Rightarrow> Panic)"

definition renameResolved ::
  "('h, 'c) session_env \<Rightarrow> 'f warm_env \<Rightarrow> Identity \<Rightarrow> Machine \<Rightarrow> string \<Rightarrow> 'f client_dir \<Rightarrow> (cmd_error, unit) go_result \<times> 'f client_dir" where
  "renameResolved se env i m newName d =
     (if \<not> ValidMachineName newName then (Err CeBadName, d)
      else case SealRegistryMachine (cr_hkdf (we_crypto env)) (we_aead env) (we_recordR env) (we_nonce env) (we_now env) (id_Secret i)
                  \<lparr>mName = newName, mMachineID = mMachineID m, mHostPubHex = mHostPubHex m, mSignalURL = mSignalURL m, mNameTS = 0, mOwner = []\<rparr> of
             Inl e \<Rightarrow> (Err (CeSeal e), d)
           | Inr (blob, ts) \<Rightarrow>
               (case RenameLocalMachine (we_marshalM env) (we_unmarshalM env) (we_mkdir env) (we_readM env) (we_ioM env) m newName ts (cd_machines d) of
                  (Some e, f) \<Rightarrow> (Err (CeStore e), d\<lparr>cd_machines := f\<rparr>)
                | (None, f) \<Rightarrow>
                    (case open_session se (we_crypto env) m i of
                       Inl e \<Rightarrow> (Err (CeUnreachable e), d\<lparr>cd_machines := f\<rparr>)
                     | Inr s \<Rightarrow> (confirmed (RenameOverSession (se_ctl se) (se_flynn se) newName blob s), d\<lparr>cd_machines := f\<rparr>))))"

definition cmdMachineRename ::
  "('h, 'c) session_env \<Rightarrow> 'f warm_env \<Rightarrow> string list \<Rightarrow> 'f client_dir \<Rightarrow> (cmd_error, unit) go_result \<times> 'f client_dir" where
  "cmdMachineRename se env args d =
     (case args of
        [name, newName] \<Rightarrow>
          if \<not> ValidMachineName newName then (Err CeBadName, d)
          else (case pick_machine env name d of
                  (Err e, d1) \<Rightarrow> (Err e, d1)
                | (Panic, d1) \<Rightarrow> (Panic, d1)
                | (Ret (i, m), d1) \<Rightarrow> if newName = mName m then (Ret (), d1) else renameResolved se env i m newName d1)
      | _ \<Rightarrow> (Err CeUsage, d))"

section \<open>Retiring\<close>

text \<open>\<open>confirmRetire\<close> on the line that is read, none when there is no input.\<close>

definition confirmRetire :: "(nat \<Rightarrow> nat) \<Rightarrow> string option \<Rightarrow> bool" where
  "confirmRetire lower line = (case line of None \<Rightarrow> False | Some l \<Rightarrow> isAffirmative lower l)"

text \<open>The loop over the relays: those that failed, and those that were asked, in order.\<close>

fun publish :: "(string \<Rightarrow> revocations_error option) \<Rightarrow> string list \<Rightarrow> string list \<Rightarrow> string list \<times> string list" where
  "publish post seen [] = ([], [])"
| "publish post seen (r # rs) =
     (let relay = TrimRightSlash (TrimSpace r)
      in if relay = [] \<or> relay \<in> set seen then publish post seen rs
         else case publish post (relay # seen) rs of
                (failed, asked) \<Rightarrow> ((if post relay \<noteq> None then [relay] else []) @ failed, relay # asked))"

definition retireResolved ::
  "'f warm_env \<Rightarrow> Identity \<Rightarrow> Machine \<Rightarrow> 'f client_dir \<Rightarrow> (cmd_error, unit) go_result \<times> string list \<times> 'f client_dir" where
  "retireResolved env i m d =
     (case id_Signer (we_crypto env) i of
        Inl e \<Rightarrow> (Err (CeIdentity e), [], d)
      | Inr signer \<Rightarrow>
          (case SignRevocation (cr_sign (we_crypto env)) signer (mMachineID m) (we_now env) of
             Inl e \<Rightarrow> (Err (CeSign e), [], d)
           | Inr record \<Rightarrow>
               (case RecordRevocation (we_verify env) (we_marshalD env) (we_unmarshalD env) (we_readD env) (we_ioR env) record (cd_deny d) of
                  (Some e, f) \<Rightarrow> (Err (CeRevocations e), [], d\<lparr>cd_deny := f\<rparr>)
                | (None, f) \<Rightarrow>
                    (case publish (\<lambda>relay. PostRevocation (we_verify env) (we_post env relay) record) [] [mSignalURL m, we_signal env] of
                       (failed, asked) \<Rightarrow> (if failed \<noteq> [] then Err (CePublish failed) else Ret (), asked, d\<lparr>cd_deny := f\<rparr>)))))"

definition cmdMachineRevoke ::
  "(nat \<Rightarrow> nat) \<Rightarrow> 'f warm_env \<Rightarrow> bool \<Rightarrow> bool \<Rightarrow> string option \<Rightarrow> string list \<Rightarrow> 'f client_dir \<Rightarrow>
   (cmd_error, unit) go_result \<times> string list \<times> 'f client_dir" where
  "cmdMachineRevoke lower env yes tty line args d =
     (case args of
        [name] \<Rightarrow>
          if \<not> yes \<and> \<not> tty then (Err CeNeedsYes, [], d)
          else if \<not> yes \<and> \<not> confirmRetire lower line then (Ret (), [], d)
          else (case we_identity env of
                  Inl e \<Rightarrow> (Err (CeIdentity e), [], d)
                | Inr i \<Rightarrow>
                    (case requireRootedIdentity i of
                       Some e \<Rightarrow> (Err e, [], d)
                     | None \<Rightarrow>
                         (case ListMachines (we_unmarshalM env) (we_readM env) (cd_machines d) of
                            Inl e \<Rightarrow> (Err (CeStore e), [], d)
                          | Inr local \<Rightarrow>
                              let discovered = (case FetchRegistry (cr_hkdf (we_crypto env)) (we_aead env) (we_unrecordR env) (we_registry env) (we_signal env)
                                                       (id_Secret i) of Inl e \<Rightarrow> [] | Inr ms \<Rightarrow> ms)
                              in case ResolveMachine local discovered name of
                                   None \<Rightarrow> (Err (CeUnknown name False), [], d)
                                 | Some (m, x) \<Rightarrow> retireResolved env i m d)))
      | _ \<Rightarrow> (Err CeUsage, [], d))"

section \<open>Attaching, running, listing\<close>

text \<open>\<open>cmdAttach\<close> up to the connection: what it attaches to, with which ICE servers; there is at least one name (a bare \<^verbatim>\<open>mir attach\<close> takes \<open>defaultAttachTarget\<close>). \<open>grants\<close> is
  \<open>GuestGrantFor\<close>.\<close>

datatype attach_plan = AttachOne Machine "ICEServer list" | AttachMany "Machine list" "ICEServer list"

definition share_open :: "(string \<Rightarrow> SignedGrant option) \<Rightarrow> time \<Rightarrow> Machine \<Rightarrow> bool" where
  "share_open grants now m \<longleftrightarrow>
     mOwner m = [] \<or> (case grants (mMachineID m) of None \<Rightarrow> False | Some g \<Rightarrow> ValidAt (sgGrant g) now = None)"

definition attach_ice :: "'f warm_env \<Rightarrow> ICEServer list \<Rightarrow> Machine list \<Rightarrow> Prewarm \<Rightarrow> ICEServer list" where
  "attach_ice env servers resolved warm =
     (if resolved = [] \<or> iceHasTURN servers then servers
      else if ICE_ok warm \<and> sameRelay (pwICEFrom warm) (mSignalURL (hd resolved)) then pwICE warm
      else case ResolveICE (we_turn2 env) (we_now env) (mSignalURL (hd resolved)) (iceSTUNURLs servers) of None \<Rightarrow> servers | Some got \<Rightarrow> got)"

definition cmdAttach ::
  "(nat \<Rightarrow> nat) \<Rightarrow> 'f warm_env \<Rightarrow> (string \<Rightarrow> SignedGrant option) \<Rightarrow> string \<Rightarrow> ICEServer list \<Rightarrow> string list \<Rightarrow> 'f client_dir \<Rightarrow>
   (cmd_error + attach_plan) \<times> 'f client_dir" where
  "cmdAttach lower env grants prefix servers names d =
     (case parsePrefix lower prefix of
        None \<Rightarrow> (Inl CePrefix, d)
      | Some p \<Rightarrow>
          (case we_identity env of
             Inl e \<Rightarrow> (Inl (CeIdentity e), d)
           | Inr i \<Rightarrow>
               (case requireRootedIdentity i of
                  Some e \<Rightarrow> (Inl e, d)
                | None \<Rightarrow>
                    (case resolveMachinesWarm env names i (if iceHasTURN servers then [] else localRelayFor env (hd names) d) (iceSTUNURLs servers) d of
                       (Inl e, d1) \<Rightarrow> (Inl e, d1)
                     | (Inr (resolved, warm), d1) \<Rightarrow>
                         (case find (\<lambda>m. \<not> share_open grants (we_now env) m) resolved of
                            Some m \<Rightarrow> (Inl (CeShareEnded (mName m)), d1)
                          | None \<Rightarrow>
                              (Inr (case resolved of
                                      [m] \<Rightarrow> AttachOne m (attach_ice env servers resolved warm)
                                    | _ \<Rightarrow> AttachMany resolved (attach_ice env servers resolved warm)), d1))))))"

text \<open>\<open>cmdRun\<close>: the frame that is sent and the machine it is sent to.\<close>

definition cmdRun ::
  "('h, 'c) session_env \<Rightarrow> 'f warm_env \<Rightarrow> string list \<Rightarrow> 'f client_dir \<Rightarrow> (cmd_error, Machine \<times> bytes) go_result \<times> 'f client_dir" where
  "cmdRun se env args d =
     (case args of
        name # w # ws \<Rightarrow>
          (case pick_machine env name d of
             (Err e, d1) \<Rightarrow> (Err e, d1)
           | (Panic, d1) \<Rightarrow> (Panic, d1)
           | (Ret (i, m), d1) \<Rightarrow>
               (case open_session se (we_crypto env) m i of
                  Inl e \<Rightarrow> (Err (CeUnreachable e), d1)
                | Inr s \<Rightarrow>
                    (case sender_send (se_flynn se) (ctl_write (se_ctl se)) (run_command_frame (Join '' '' (w # ws))) s of
                       Ret x \<Rightarrow> (Ret (m, run_command_frame (Join '' '' (w # ws))), d1)
                     | Err e \<Rightarrow> (Err (CeUnconfirmed NotDelivered), d1)
                     | Panic \<Rightarrow> (Panic, d1))))
      | _ \<Rightarrow> (Err CeUsage, d))"

text \<open>\<open>cmdList\<close> after \<open>SweepGuestState\<close>: the lines, a machine with whether it is online or what its share says.\<close>

definition list_line :: "(string \<Rightarrow> SignedGrant option) \<Rightarrow> time \<Rightarrow> Machine list \<Rightarrow> Machine \<Rightarrow> string \<times> string \<times> string" where
  "list_line grants now discovered m =
     (mName m, mMachineID m,
      if mOwner m \<noteq> [] then
        (case grants (mMachineID m) of
           None \<Rightarrow> ''shared with you''
         | Some g \<Rightarrow> ''shared with you'' @ dot_sep @ modeWord (gMode (sgGrant g)) @ dot_sep @ expiryPhrase (gNA (sgGrant g)) False now)
      else mSignalURL m @ (if mMachineID m \<in> set (map mMachineID discovered) then ''  (online)'' else []))"

definition cmdList ::
  "'f warm_env \<Rightarrow> (string \<Rightarrow> SignedGrant option) \<Rightarrow> 'f client_dir \<Rightarrow> (cmd_error + (string \<times> string \<times> string) list) \<times> 'f client_dir" where
  "cmdList env grants d =
     (case ListMachines (we_unmarshalM env) (we_readM env) (cd_machines d) of
        Inl e \<Rightarrow> (Inl (CeStore e), d)
      | Inr local \<Rightarrow>
          (case we_identity env of
             Inl e \<Rightarrow> (Inl (CeIdentity e), d)
           | Inr i \<Rightarrow>
               let (discovered, d1) =
                     (if HasRootedIdentity (id_Secret i)
                      then (case Prewarm_Run env i [] [] d of (warm, d') \<Rightarrow> (pwDiscovered warm, notify_devices env (pwDiscovered warm) d'))
                      else ([], d))
               in case ListRevocations (we_verify env) (we_unmarshalD env) (we_readD env) (cd_deny d1) of
                    Inl e \<Rightarrow> (Inl (CeRevocations e), d1)
                  | Inr revocations \<Rightarrow>
                      (Inr (map (list_line grants (we_now env) discovered) (FilterRevoked (MergeMachines local discovered) (idOwnerID i) revocations)), d1)))"

definition cmdAddMachine ::
  "(nat \<Rightarrow> nat) \<Rightarrow> 'f warm_env \<Rightarrow> string \<Rightarrow> string \<Rightarrow> string \<Rightarrow> string \<Rightarrow> 'f client_dir \<Rightarrow> cmd_error option \<times> 'f client_dir" where
  "cmdAddMachine lower env name ident hostPub signalURL d =
     (if name = [] \<or> ident = [] \<or> hostPub = [] then (Some CeMissingFlags, d)
      else case AddMachine (we_marshalM env) (we_unmarshalM env) (we_mkdir env) (we_readM env) (we_ioM env)
                  \<lparr>mName = name, mMachineID = ident, mHostPubHex = ToLower lower hostPub, mSignalURL = signalURL, mNameTS = 0, mOwner = []\<rparr> (cd_machines d) of
             (e, f) \<Rightarrow> (map_option CeStore e, d\<lparr>cd_machines := f\<rparr>))"

section \<open>What resolving gives\<close>

lemma merge_one_source: "merge_one i local discovered = Some m \<Longrightarrow> i \<in> mMachineID ` (set local \<union> set discovered)"
proof (rule ccontr)
  assume "merge_one i local discovered = Some m" "i \<notin> mMachineID ` (set local \<union> set discovered)"
  moreover from this have "filter (\<lambda>m. mMachineID m = i) local = []" "filter (\<lambda>m. mMachineID m = i) discovered = []" by (auto simp: filter_empty_conv)
  ultimately show False by (simp add: merge_one_def)
qed

lemma MergeMachines_source: "m \<in> set (MergeMachines local discovered) \<Longrightarrow> mMachineID m \<in> mMachineID ` (set local \<union> set discovered)"
  using merge_one_source by (auto simp: MergeMachines_mem)

lemma merged_not_revoked:
  assumes "m \<in> set (MergeMachines (FilterRevoked local owner rs) (FilterRevoked discovered owner rs))"
  shows "\<not> IsMachineRevoked (mMachineID m) owner rs"
  using MergeMachines_source [OF assms] by (auto simp: FilterRevoked_exact)

lemma resolve_each_all:
  assumes "resolve_each local discovered names acc = (ms, [])"
  shows "ms = [] \<and> [] \<in> set names \<or> (\<exists>ms'. ms = acc @ ms' \<and> map mName ms' = names \<and> set ms' \<subseteq> set (MergeMachines local discovered))"
  using assms
proof (induction names arbitrary: acc)
  case (Cons name names)
  show ?case
  proof (cases "ResolveMachine local discovered name")
    case None
    with Cons.prems show ?thesis by simp
  next
    case (Some p)
    obtain m x where p: "p = (m, x)" by fastforce
    have m: "mName m = name" "m \<in> set (MergeMachines local discovered)"
      using Some by (auto simp: p ResolveMachine_def Let_def find_Some_iff)
    from Cons.prems Some p have "resolve_each local discovered names (acc @ [m]) = (ms, [])" by simp
    from Cons.IH [OF this] show ?thesis
    proof (elim disjE exE conjE)
      fix ms' assume "ms = (acc @ [m]) @ ms'" "map mName ms' = names" "set ms' \<subseteq> set (MergeMachines local discovered)"
      then show ?thesis using m by (intro disjI2 exI [of _ "m # ms'"]) simp
    qed simp
  qed
qed simp

lemma resolution_Inr: "resolution r e warm = Inr (ms, w) \<longleftrightarrow> snd r = [] \<and> ms = fst r \<and> w = warm"
  by (auto simp: resolution_def)

lemma notify_devices_deny [simp]: "cd_deny (notify_devices env ms d) = cd_deny d"
  by (simp add: notify_devices_def)

lemma RefreshRegistry_deny: "RefreshRegistry env i d = (r, d') \<Longrightarrow> cd_deny d' = cd_deny d"
  by (auto simp: RefreshRegistry_def split: if_splits prod.splits)

text \<open>What a resolution that succeeds rests on: the deny list on disk when it returns, and lists of machines that are not on it.\<close>

lemma resolveMachinesWarm_Inr:
  assumes "resolveMachinesWarm env names i turnURL stun d = (Inr (ms, warm), d')"
  obtains local disc rs warm0 d1 where "ListMachines (we_unmarshalM env) (we_readM env) (cd_machines d) = Inr local"
    "Prewarm_Run env i turnURL stun d = (warm0, d1)" "cd_deny d' = cd_deny d1"
    "ListRevocations (we_verify env) (we_unmarshalD env) (we_readD env) (cd_deny d1) = Inr rs"
    "resolveNames (FilterRevoked local (idOwnerID i) rs) (FilterRevoked disc (idOwnerID i) rs) names = (ms, [])"
    "pwICE warm = pwICE warm0" "pwICEFrom warm = pwICEFrom warm0" "pwICESource warm = pwICESource warm0"
proof -
  obtain local where l: "ListMachines (we_unmarshalM env) (we_readM env) (cd_machines d) = Inr local"
    using assms by (auto simp: resolveMachinesWarm_def split: sum.splits)
  obtain warm0 d1 where w: "Prewarm_Run env i turnURL stun d = (warm0, d1)" by fastforce
  define d2 where "d2 = (if HasRootedIdentity (id_Secret i) then notify_devices env (pwDiscovered warm0) d1 else d1)"
  have d2: "cd_deny d2 = cd_deny d1" by (simp add: d2_def)
  obtain rs where r: "ListRevocations (we_verify env) (we_unmarshalD env) (we_readD env) (cd_deny d1) = Inr rs"
    using assms by (auto simp: resolveMachinesWarm_def l w Let_def d2_def [symmetric] d2 split: sum.splits)
  let ?local = "FilterRevoked local (idOwnerID i) rs"
  let ?first = "resolveNames ?local (FilterRevoked (pwDiscovered warm0) (idOwnerID i) rs) names"
  note unfold = assms [unfolded resolveMachinesWarm_def l w Let_def sum.case prod.case d2_def [symmetric] d2 r]
  show thesis
  proof (cases "snd ?first \<noteq> [] \<and> RegistryIsCached (pwRegistrySource warm0)")
    case False
    then have e: "resolution ?first (pwRegistryErr warm0 \<noteq> None) warm0 = Inr (ms, warm)" "d' = d2" using unfold by (simp_all only: if_False prod.inject)
    then have "?first = (ms, [])" "warm = warm0" by (auto simp: resolution_Inr prod_eq_iff)
    with that [OF l w _ r] e(2) d2 show ?thesis by blast
  next
    case True
    obtain res d3 where f: "RefreshRegistry env i d2 = (res, d3)" by fastforce
    have d3: "cd_deny d3 = cd_deny d1" using RefreshRegistry_deny [OF f] d2 by simp
    show ?thesis
    proof (cases res)
      case (Inl e)
      then have "resolution ?first True warm0 = Inr (ms, warm)" using unfold True f by (simp only: if_True sum.case prod.case prod.inject simp_thms)
      with True show ?thesis by (simp add: resolution_Inr)
    next
      case (Inr live)
      then have e: "resolution (resolveNames ?local (FilterRevoked live (idOwnerID i) rs) names) False
            (warm0\<lparr>pwDiscovered := live, pwRegistrySource := SourceRelay, pwRegistryErr := None\<rparr>) = Inr (ms, warm)" "d' = notify_devices env live d3"
        using unfold True f by (simp_all only: if_True sum.case prod.case prod.inject simp_thms)
      then have "resolveNames ?local (FilterRevoked live (idOwnerID i) rs) names = (ms, [])"
          "warm = warm0\<lparr>pwDiscovered := live, pwRegistrySource := SourceRelay, pwRegistryErr := None\<rparr>" by (auto simp: resolution_Inr prod_eq_iff)
      with that [OF l w _ r] e(2) d3 show ?thesis by simp
    qed
  qed
qed

lemma resolved_machines:
  assumes "resolveMachinesWarm env names i turnURL stun d = (Inr (ms, warm), d')"
  shows "\<exists>rs. ListRevocations (we_verify env) (we_unmarshalD env) (we_readD env) (cd_deny d') = Inr rs \<and>
    (\<forall>m \<in> set ms. \<not> IsMachineRevoked (mMachineID m) (idOwnerID i) rs) \<and> (map mName ms = names \<or> ms = [] \<and> [] \<in> set names)"
proof -
  obtain local disc rs warm0 d1 where "Prewarm_Run env i turnURL stun d = (warm0, d1)"
    and r: "cd_deny d' = cd_deny d1" "ListRevocations (we_verify env) (we_unmarshalD env) (we_readD env) (cd_deny d1) = Inr rs"
    "resolveNames (FilterRevoked local (idOwnerID i) rs) (FilterRevoked disc (idOwnerID i) rs) names = (ms, [])"
    using assms by (rule resolveMachinesWarm_Inr) blast
  from resolve_each_all [OF r(3) [unfolded resolveNames_def]] have
    "(map mName ms = names \<or> ms = [] \<and> [] \<in> set names) \<and> set ms \<subseteq> set (MergeMachines (FilterRevoked local (idOwnerID i) rs) (FilterRevoked disc (idOwnerID i) rs))"
    by auto
  then show ?thesis using r(1,2) merged_not_revoked by (intro exI [of _ rs]) auto
qed

lemma Prewarm_Run_deny:
  assumes "Prewarm_Run env i turnURL stun d = (warm, d')"
  shows "(deny_step (we_verify env) (we_marshalD env) (we_unmarshalD env))\<^sup>*\<^sup>* (cd_deny d) (cd_deny d')"
proof -
  obtain src deny cache where r: "run_revocations (we_verify env) (we_marshalD env) (we_unmarshalD env) (we_marshalV env) (we_unmarshalV env) (we_readV env) (we_ioD env)
      (we_ioV env) (HasRootedIdentity (id_Secret i)) (we_revocations env) (we_stored env) (we_arrivedV env) (we_start env) (we_signal env) (idOwnerID i)
      (cd_deny d, cd_cacheV d) = (src, deny, cache)" by (metis prod.exhaust)
  have deny: "cd_deny d' = deny" using assms by (auto simp: Prewarm_Run_def r Let_def split: prod.splits)
  obtain out deny1 cache1 where f: "fetchRevocations (we_verify env) (we_marshalD env) (we_unmarshalD env) (we_marshalV env) (we_ioD env) (we_ioV env)
      (we_revocations env) (we_stored env) (we_signal env) (idOwnerID i) (cd_deny d, cd_cacheV d) = (out, deny1, cache1)" by (metis prod.exhaust)
  have "deny = cd_deny d \<or> deny = deny1" using r f by (auto simp: run_revocations_def split: if_splits cachePlan.splits)
  moreover have "(deny_step (we_verify env) (we_marshalD env) (we_unmarshalD env))\<^sup>*\<^sup>* (cd_deny d) deny1"
    using f record_all_steps by (fastforce simp: fetchRevocations_def split: sum.splits prod.splits bool.splits)
  ultimately show ?thesis using deny by auto
qed


text \<open>
  Attaching is gated: \<^verbatim>\<open>mir attach\<close> only ever dials machines that its owner has not retired as far as the deny list on this device says, and a machine that somebody shared only
  within the window of a grant that is stored here.
\<close>

theorem attach_gated:
  assumes "cmdAttach lower env grants prefix servers names d = (Inr plan, d')"
  shows "\<exists>i rs ms. we_identity env = Inr i \<and> HasRootedIdentity (id_Secret i) \<and>
    ListRevocations (we_verify env) (we_unmarshalD env) (we_readD env) (cd_deny d') = Inr rs \<and>
    (\<exists>ice. plan = AttachMany ms ice \<or> (\<exists>m. ms = [m] \<and> plan = AttachOne m ice)) \<and>
    (\<forall>m \<in> set ms. \<not> IsMachineRevoked (mMachineID m) (idOwnerID i) rs \<and>
       (mOwner m = [] \<or> (\<exists>g. grants (mMachineID m) = Some g \<and> ValidAt (sgGrant g) (we_now env) = None)))"
proof -
  obtain i where i: "we_identity env = Inr i" "HasRootedIdentity (id_Secret i)"
    using assms by (auto simp: cmdAttach_def requireRootedIdentity_def split: option.splits sum.splits if_splits)
  obtain ms warm where r: "resolveMachinesWarm env names i (if iceHasTURN servers then [] else localRelayFor env (hd names) d) (iceSTUNURLs servers) d = (Inr (ms, warm), d')"
      "find (\<lambda>m. \<not> share_open grants (we_now env) m) ms = None"
      "plan = (case ms of [m] \<Rightarrow> AttachOne m (attach_ice env servers ms warm) | _ \<Rightarrow> AttachMany ms (attach_ice env servers ms warm))"
    using assms i by (auto simp: cmdAttach_def requireRootedIdentity_def split: option.splits sum.splits prod.splits)
  have "\<exists>ice. plan = AttachMany ms ice \<or> (\<exists>m. ms = [m] \<and> plan = AttachOne m ice)" using r(3) by (auto split: list.splits)
  moreover have "mOwner m = [] \<or> (\<exists>g. grants (mMachineID m) = Some g \<and> ValidAt (sgGrant g) (we_now env) = None)" if "m \<in> set ms" for m
    using r(2) that by (auto simp: find_None_ball share_open_def split: option.splits)
  ultimately show ?thesis using i resolved_machines [OF r(1)] by blast
qed

section \<open>An empty name\<close>

lemma MergeMachines_local: "m \<in> set (MergeMachines local []) \<Longrightarrow> m \<in> set local"
proof -
  have "fold (\<lambda>m acc. Some m) ms acc = Some m \<Longrightarrow> m \<in> set ms \<or> acc = Some m" for ms and acc :: "Machine option"
    by (induction ms arbitrary: acc) auto
  then show "m \<in> set (MergeMachines local []) \<Longrightarrow> m \<in> set local" by (fastforce simp: MergeMachines_mem merge_one_def)
qed

lemma ResolveMachine_local_None: "\<forall>m \<in> set local. mName m \<noteq> name \<Longrightarrow> ResolveMachine local [] name = None"
  using MergeMachines_local by (fastforce simp: ResolveMachine_def Let_def find_None_ball)

lemma relay_down:
  assumes "we_registry env = None" "we_revocations env = None" "cd_cacheG d = None" "cd_cacheV d = None"
  obtains warm d' where "Prewarm_Run env i [] [] d = (warm, d')" "pwDiscovered warm = []" "\<not> RegistryIsCached (pwRegistrySource warm)" "cd_deny d' = cd_deny d"
    "HasRootedIdentity (id_Secret i) \<longrightarrow> pwRegistryErr warm \<noteq> None"
proof -
  let ?g = "run_registry (cr_hkdf (we_crypto env)) (we_aead env) (we_unrecordR env) (we_marshalG env) (we_unmarshalG env) (we_readG env) (we_ioG env)
              (we_registry env) (we_stored env) (we_arrivedG env) (we_start env) (we_signal env) (idOwnerID i) (id_Secret i) (cd_cacheG d)"
  let ?v = "run_revocations (we_verify env) (we_marshalD env) (we_unmarshalD env) (we_marshalV env) (we_unmarshalV env) (we_readV env) (we_ioD env) (we_ioV env)
              (HasRootedIdentity (id_Secret i)) (we_revocations env) (we_stored env) (we_arrivedV env) (we_start env) (we_signal env) (idOwnerID i) (cd_deny d, cd_cacheV d)"
  have g: "\<exists>src err c. ?g = (([], src, err), c) \<and> \<not> RegistryIsCached src \<and> (HasRootedIdentity (id_Secret i) \<longrightarrow> err \<noteq> None)"
    by (simp add: run_registry_def assms readCacheEnvelope_def directoryPlan_def fetchRegistry_def RegistryIsCached_def)
  have v: "\<exists>src c. ?v = (src, cd_deny d, c)"
    by (simp add: run_revocations_def assms readCacheEnvelope_def directoryPlan_def fetchRevocations_def FetchRevocations_def)
  obtain warm d' where w: "Prewarm_Run env i [] [] d = (warm, d')" by fastforce
  have "pwDiscovered warm = []" "\<not> RegistryIsCached (pwRegistrySource warm)" "cd_deny d' = cd_deny d"
      "HasRootedIdentity (id_Secret i) \<longrightarrow> pwRegistryErr warm \<noteq> None"
    using w g v by (auto simp: Prewarm_Run_def Let_def split: prod.splits)
  with w show thesis by (rule that)
qed

lemma resolve_offline:
  assumes "ListMachines (we_unmarshalM env) (we_readM env) (cd_machines d) = Inr local" "HasRootedIdentity (id_Secret i)" "cd_deny d = None"
    and "we_registry env = None" "we_revocations env = None" "cd_cacheG d = None" "cd_cacheV d = None"
  shows "\<exists>warm. fst (resolveMachinesWarm env names i [] [] d) = resolution (resolveNames local [] names) True warm"
proof -
  obtain warm d1 where w: "Prewarm_Run env i [] [] d = (warm, d1)" "pwDiscovered warm = []" "\<not> RegistryIsCached (pwRegistrySource warm)" "cd_deny d1 = cd_deny d"
      "HasRootedIdentity (id_Secret i) \<longrightarrow> pwRegistryErr warm \<noteq> None"
    using relay_down [OF assms(4-7)] .
  have "cd_deny (notify_devices env [] d1) = None" using w(4) assms(3) by simp
  then show ?thesis using assms(1,2) w
    by (intro exI [of _ warm]) (simp add: resolveMachinesWarm_def ListRevocations_def FilterRevoked_def Let_def)
qed

text \<open>
  An empty machine name crashes the commands that take one: where any other name that no machine has is answered with an error that names it, the empty name is taken for
  resolved, the list of machines is empty, and its first element does not exist. Stated of \<^verbatim>\<open>mir run\<close> with the relay unreachable and nothing cached, for every list of local machines.
\<close>

theorem empty_name_panics:
  assumes "we_identity env = Inr i" "HasRootedIdentity (id_Secret i)" "ListMachines (we_unmarshalM env) (we_readM env) (cd_machines d) = Inr local"
    and "\<forall>m \<in> set local. mName m \<noteq> [] \<and> mName m \<noteq> name" "name \<noteq> []"
    and "cd_deny d = None" "we_registry env = None" "we_revocations env = None" "cd_cacheG d = None" "cd_cacheV d = None"
  shows "fst (cmdRun se env (name # w # ws) d) = Err (CeUnknown name True) \<and> fst (cmdRun se env ([] # w # ws) d) = Panic"
proof -
  have r: "resolveNames local [] [n] = ([], n)" if "n = [] \<or> n = name" for n
    using that assms(4) ResolveMachine_local_None [of local n] by (auto simp: resolveNames_def)
  note offline = resolve_offline [OF assms(3,2,6-10)]
  obtain w1 where 1: "fst (resolveMachinesWarm env [name] i [] [] d) = Inl (CeUnknown name True)" using offline [of "[name]"] r [of name] assms(5) by (auto simp: resolution_def)
  obtain w2 where 2: "fst (resolveMachinesWarm env [[]] i [] [] d) = Inr ([], w2)" using offline [of "[[]]"] r [of "[]"] by (auto simp: resolution_def)
  have p1: "fst (pick_machine env name d) = Err (CeUnknown name True)"
    using 1 assms(1,2) by (auto simp: pick_machine_def requireRootedIdentity_def resolveMachines_def split: prod.splits)
  have p2: "fst (pick_machine env [] d) = Panic"
    using 2 assms(1,2) by (auto simp: pick_machine_def requireRootedIdentity_def resolveMachines_def split: prod.splits)
  have "fst (cmdRun se env (n # w # ws) d) = Err e" if "fst (pick_machine env n d) = Err e" for n e
    using that by (auto simp: cmdRun_def split: prod.splits)
  moreover have "fst (cmdRun se env (n # w # ws) d) = Panic" if "fst (pick_machine env n d) = Panic" for n
    using that by (auto simp: cmdRun_def split: prod.splits)
  ultimately show ?thesis using p1 p2 by blast
qed

text \<open>A stand-in for the witnesses: files that hold what was written, a relay that cannot be reached, a clock at seven seconds.\<close>

datatype demo_file = FMachines "Machine list" | FDeny localRevocations | FRevoked "unit cacheEnvelope" | FRegistry "registryEntry list option cacheEnvelope"
  | FIce "ICEServer list option cacheEnvelope" | FSeen "string list"

definition demo_other :: Machine where "demo_other = demo_machine\<lparr>mName := ''lab'', mMachineID := ''m2'', mHostPubHex := hex_EncodeToString (replicate 32 0)\<rparr>"

definition demo_self :: Identity where "demo_self = demo_owner\<lparr>idOwnerID := demo_id\<rparr>"

definition demo_warm :: "demo_file warm_env" where
  "demo_warm =
     \<lparr>we_identity = Inr demo_self, we_signal = demo_url, we_verify = demo_verify, we_crypto = demo_crypto, we_aead = demo_aead, we_recordR = \<lambda>r. [7], we_unrecordR = \<lambda>b. None,
      we_marshalM = FMachines, we_unmarshalM = \<lambda>f. (case f of FMachines ms \<Rightarrow> read_if (list_all machine_text) ms | _ \<Rightarrow> None),
      we_marshalD = FDeny, we_unmarshalD = \<lambda>f. (case f of FDeny l \<Rightarrow> read_if revocations_text l | _ \<Rightarrow> None),
      we_marshalV = FRevoked, we_unmarshalV = \<lambda>f. None, we_marshalG = FRegistry, we_unmarshalG = \<lambda>f. None, we_marshalI = FIce, we_unmarshalI = \<lambda>f. None,
      we_marshalS = FSeen, we_unmarshalS = \<lambda>f. (case f of FSeen s \<Rightarrow> s | _ \<Rightarrow> []), we_mkdir = True, we_readM = True, we_readD = True, we_readV = True, we_readG = True,
      we_readI = True, we_readS = True, we_writeS = (True, None), we_ioM = \<lambda>c. True, we_ioR = \<lambda>c. True, we_ioD = \<lambda>r c. True, we_ioV = \<lambda>c. True, we_ioG = \<lambda>c. True,
      we_ioI = \<lambda>c. True, we_revocations = None, we_registry = None, we_registry2 = None, we_turn = RequestFailed, we_turn2 = RequestFailed, we_start = 0, we_now = 7 * second,
      we_stored = 0, we_later = 0, we_arrivedV = False, we_arrivedG = False, we_nonce = Some (replicate 12 1), we_post = \<lambda>r x. None\<rparr>"

definition demo_client_dir :: "demo_file client_dir" where
  "demo_client_dir =
     \<lparr>cd_machines = Some (FMachines [demo_machine, demo_other]), cd_deny = None, cd_cacheV = None, cd_cacheG = None, cd_cacheI = None, cd_seen = None\<rparr>"

lemma demo_warm_fields [simp]:
  "we_identity demo_warm = Inr demo_self" "we_signal demo_warm = demo_url" "we_verify demo_warm = demo_verify" "we_crypto demo_warm = demo_crypto"
  "we_marshalD demo_warm = FDeny" "we_unmarshalD demo_warm (FDeny l) = read_if revocations_text l" "we_unmarshalM demo_warm (FMachines ms) = read_if (list_all machine_text) ms"
  "we_readM demo_warm" "we_readD demo_warm" "we_ioR demo_warm c" "we_revocations demo_warm = None" "we_registry demo_warm = None" "we_now demo_warm = 7 * second"
  "we_post demo_warm r x = None"
  "cd_machines demo_client_dir = Some (FMachines [demo_machine, demo_other])" "cd_deny demo_client_dir = None" "cd_cacheV demo_client_dir = None" "cd_cacheG demo_client_dir = None"
  by (simp_all add: demo_warm_def demo_client_dir_def)

lemma demo_names [simp]:
  "mName demo_machine = ''box''" "mMachineID demo_machine = ''m1''" "mName demo_other = ''lab''" "mMachineID demo_other = ''m2''" "mOwner demo_other = []"
  "mSignalURL demo_machine = ''https://r''"
  by (simp_all add: demo_machine_def demo_other_def)

lemma demo_machines_text: "list_all machine_text [demo_machine, demo_other]"
  by (simp add: machine_text_def demo_other_def demo_machine_def ValidString_ascii ValidString_hex del: hex_EncodeToString.simps)

lemma demo_machines: "ListMachines (we_unmarshalM demo_warm) (we_readM demo_warm) (cd_machines demo_client_dir) = Inr [demo_machine, demo_other]"
  using demo_machines_text by (simp add: ListMachines_def read_if_def)

lemma demo_self_rooted: "HasRootedIdentity (id_Secret demo_self)" "we_identity demo_warm = Inr demo_self" "idOwnerID demo_self = demo_id"
  by (simp_all add: HasRootedIdentity_def id_Secret_def demo_self_def demo_owner_def)

theorem empty_name_panics_witness:
  "\<forall>se :: (unit, unit) session_env. fst (cmdRun se demo_warm [''nas'', ''ls''] demo_client_dir) = Err (CeUnknown ''nas'' True) \<and>
     fst (cmdRun se demo_warm [[], ''ls''] demo_client_dir) = Panic"
  using empty_name_panics [OF demo_self_rooted(2,1) demo_machines, where name = "''nas''" and w = "''ls''" and ws = "[]"] by auto

lemma demo_deny_json: "json_reads revocations_text (we_marshalD demo_warm) (we_unmarshalD demo_warm)"
  by (auto simp: json_reads_def demo_warm_def read_if_def split: demo_file.splits if_splits)

lemma demo_signer_self:
  obtains w where "id_Signer (we_crypto demo_warm) demo_self = Inr w" "Address w = demo_id"
    "SignRevocation (cr_sign (we_crypto demo_warm)) w ''m1'' (7 * second) = Inr demo_revocation"
proof -
  obtain w where w: "id_Signer demo_crypto demo_owner = Inr w" "Address w = demo_id" using demo_Signer by blast
  have "id_Secret demo_self = id_Secret demo_owner" by (simp add: id_Secret_def demo_self_def)
  then have "id_Signer (we_crypto demo_warm) demo_self = Inr w" using w(1) unfolding id_Signer_def demo_warm_fields by metis
  moreover have "SignRevocation (cr_sign (we_crypto demo_warm)) w ''m1'' (7 * second) = Inr demo_revocation"
    using w(2) by (simp add: SignRevocation_def SignAuth_def demo_crypto_def demo_revocation_def machineIDRe_def is_name_char_def is_alnum_def unix_def second_def
        del: b64_EncodeToString.simps)
  ultimately show thesis using that w(2) by blast
qed

lemma demo_retire:
  "\<exists>failed asked. retireResolved demo_warm demo_self demo_machine demo_client_dir =
     (Err (CePublish failed), asked, demo_client_dir\<lparr>cd_deny := Some (FDeny \<lparr>lrV = 1, lrRevocations = [demo_revocation]\<rparr>)\<rparr>)"
proof -
  obtain w where w: "id_Signer (we_crypto demo_warm) demo_self = Inr w" "Address w = demo_id"
    "SignRevocation (cr_sign (we_crypto demo_warm)) w ''m1'' (7 * second) = Inr demo_revocation" by (rule demo_signer_self)
  have r: "RecordRevocation (we_verify demo_warm) (we_marshalD demo_warm) (we_unmarshalD demo_warm) (we_readD demo_warm) (we_ioR demo_warm) demo_revocation None =
      (None, Some (FDeny \<lparr>lrV = 1, lrRevocations = [demo_revocation]\<rparr>))"
    by (simp add: RecordRevocation_def verify_demo_revocation ListRevocations_def upsert_def write_temp_rename_def)
  have url: "TrimRightSlash (TrimSpace ''https://r'') = ''https://r''" by (subst TrimSpace_plain) (simp_all add: all_ascii_def codes_def IsSpace_def TrimRightSlash_def)
  have "\<exists>failed asked. publish (\<lambda>relay. PostRevocation (we_verify demo_warm) (we_post demo_warm relay) demo_revocation) [] [mSignalURL demo_machine, we_signal demo_warm] = (failed, asked) \<and> failed \<noteq> []"
    by (simp add: demo_url_def url PostRevocation_def verify_demo_revocation Let_def)
  then obtain failed asked where p: "publish (\<lambda>relay. PostRevocation (we_verify demo_warm) (we_post demo_warm relay) demo_revocation) []
      [mSignalURL demo_machine, we_signal demo_warm] = (failed, asked)" "failed \<noteq> []" by blast
  have "mMachineID demo_machine = ''m1''" "cd_deny demo_client_dir = None" "we_now demo_warm = 7 * second" by simp_all
  then have "retireResolved demo_warm demo_self demo_machine demo_client_dir =
      (Err (CePublish failed), asked, demo_client_dir\<lparr>cd_deny := Some (FDeny \<lparr>lrV = 1, lrRevocations = [demo_revocation]\<rparr>)\<rparr>)"
    unfolding retireResolved_def w(1) sum.case by (simp only: w(3) r p sum.case prod.case option.case if_True not_False_eq_True simp_thms)
  then show ?thesis by blast
qed

lemma demo_after_retire:
  "\<exists>warm d3. resolveMachinesWarm demo_warm [''lab''] demo_self [] [] (demo_client_dir\<lparr>cd_deny := Some (FDeny \<lparr>lrV = 1, lrRevocations = [demo_revocation]\<rparr>)\<rparr>) =
     (Inr ([demo_other], warm), d3)"
proof -
  let ?d = "demo_client_dir\<lparr>cd_deny := Some (FDeny \<lparr>lrV = 1, lrRevocations = [demo_revocation]\<rparr>)\<rparr>"
  obtain warm d1 where w: "Prewarm_Run demo_warm demo_self [] [] ?d = (warm, d1)" "pwDiscovered warm = []" "\<not> RegistryIsCached (pwRegistrySource warm)"
      "cd_deny d1 = cd_deny ?d" by (rule relay_down [of demo_warm ?d demo_self]) simp_all
  have t: "revocations_text \<lparr>lrV = 1, lrRevocations = [demo_revocation]\<rparr>"
    using verified_revocation_text [OF verify_demo_revocation] by (simp add: revocations_text_def)
  have rs: "ListRevocations (we_verify demo_warm) (we_unmarshalD demo_warm) (we_readD demo_warm) (cd_deny d1) = Inr [demo_revocation]"
    using t w(4) by (simp add: ListRevocations_def read_if_def verify_demo_revocation)
  have l: "ListMachines (we_unmarshalM demo_warm) (we_readM demo_warm) (cd_machines ?d) = Inr [demo_machine, demo_other]" using demo_machines by simp
  have f: "FilterRevoked [demo_machine, demo_other] demo_id [demo_revocation] = [demo_other]"
    by (simp add: FilterRevoked_exact IsMachineRevoked_def demo_revocation_def)
  have "MergeMachines [demo_other] [] = [demo_other]" by (simp add: MergeMachines_def merge_state_def merge_local_def)
  then have "resolveNames [demo_other] [] [''lab''] = ([demo_other], [])" by (simp add: resolveNames_def ResolveMachine_def)
  then have n: "resolveNames (FilterRevoked [demo_machine, demo_other] demo_id [demo_revocation]) (FilterRevoked [] demo_id [demo_revocation]) [''lab''] = ([demo_other], [])"
    by (simp only: f) (simp add: FilterRevoked_def)
  show ?thesis using demo_self_rooted w l rs n by (simp add: resolveMachinesWarm_def Let_def resolution_def)
qed


theorem attach_gated_witness:
  "\<exists>ice d'. cmdAttach (\<lambda>r. r) demo_warm (\<lambda>m. None) ''ctrl-o'' [\<lparr>icURLs = [], icUsername = ''u'', icCredential = []\<rparr>] [''lab'']
       (demo_client_dir\<lparr>cd_deny := Some (FDeny \<lparr>lrV = 1, lrRevocations = [demo_revocation]\<rparr>)\<rparr>) = (Inr (AttachOne demo_other ice), d') \<and>
     (\<exists>rs. ListRevocations demo_verify (we_unmarshalD demo_warm) True (cd_deny d') = Inr rs \<and> \<not> IsMachineRevoked ''m2'' demo_id rs)"
proof -
  let ?d = "demo_client_dir\<lparr>cd_deny := Some (FDeny \<lparr>lrV = 1, lrRevocations = [demo_revocation]\<rparr>)\<rparr>"
  let ?ice = "[\<lparr>icURLs = [], icUsername = ''u'', icCredential = []\<rparr>]"
  obtain warm d3 where s: "resolveMachinesWarm demo_warm [''lab''] demo_self [] [] ?d = (Inr ([demo_other], warm), d3)" using demo_after_retire by blast
  have "TrimSpace ''ctrl-o'' = ''ctrl-o''" by (simp add: TrimSpace_plain all_ascii_def codes_def IsSpace_def)
  moreover have "ToLower (\<lambda>r. r) ''ctrl-o'' = ''ctrl-o''" by code_simp
  moreover have "and (byte_of (CHR ''o'')) 0x1F = 0x0F" "char_of (of_char (CHR ''o'') - 32 :: nat) = CHR ''O''" by code_simp+
  ultimately have p: "parsePrefix (\<lambda>r. r) ''ctrl-o'' = Some (0x0F, ''Ctrl-O'')" by (simp add: parsePrefix_def TrimPrefix_def HasPrefix_def)
  have i: "iceHasTURN ?ice" "iceSTUNURLs ?ice = []" "mOwner demo_other = []" by (simp_all add: iceHasTURN_def iceSTUNURLs_def)
  have c: "cmdAttach (\<lambda>r. r) demo_warm (\<lambda>m. None) ''ctrl-o'' ?ice [''lab''] ?d = (Inr (AttachOne demo_other (attach_ice demo_warm ?ice [demo_other] warm)), d3)"
    unfolding cmdAttach_def p using demo_self_rooted s i by (simp add: requireRootedIdentity_def share_open_def)
  from attach_gated [OF c] obtain i rs ms where g: "we_identity demo_warm = Inr i"
      "ListRevocations (we_verify demo_warm) (we_unmarshalD demo_warm) (we_readD demo_warm) (cd_deny d3) = Inr rs"
      "\<exists>ice. AttachOne demo_other (attach_ice demo_warm ?ice [demo_other] warm) = AttachMany ms ice \<or>
         (\<exists>m. ms = [m] \<and> AttachOne demo_other (attach_ice demo_warm ?ice [demo_other] warm) = AttachOne m ice)"
      "\<forall>m \<in> set ms. \<not> IsMachineRevoked (mMachineID m) (idOwnerID i) rs" by blast
  have v: "we_verify demo_warm = demo_verify" "we_readD demo_warm" "mMachineID demo_other = ''m2''" by simp_all
  then have "ListRevocations demo_verify (we_unmarshalD demo_warm) True (cd_deny d3) = Inr rs" "\<not> IsMachineRevoked ''m2'' demo_id rs"
    using g demo_self_rooted(2,3) by auto
  with c show ?thesis by blast
qed

end
