(* ===== verification/Share_Flow.thy ===== *)
theory Share_Flow
  imports Cli_Machines
begin

text \<open>
  Sharing a machine, \<^verbatim>\<open>go/internal/cli/share.go\<close>: the owner's ceremony (\<open>shareResolved\<close>), the guest's side (\<open>cmdJoin\<close>), the list and the end of a share. They compose the
  pairing handshake, the grants, the owner's session with the machine and the files of both sides. What the environment gives is in \<open>share_env\<close> and \<open>join_env\<close>: randomness,
  messages, the lines a person types, encodings and faults; the five minutes of an invite show as messages that do not arrive.
\<close>

section \<open>The owner's side\<close>

record ('n, 'h, 'c, 'f) share_env =
  sh_lower :: "nat \<Rightarrow> nat"
  sh_typedName :: string
  sh_token :: "bytes option"
  sh_dial :: "string \<Rightarrow> bool"
  sh_noise :: "'n noise_nn"
  sh_json :: pair_json
  sh_rnd :: bytes
  sh_msg1 :: "bytes option"
  sh_net :: "bytes \<Rightarrow> net_reply"
  sh_verify :: "bytes \<Rightarrow> bytes \<Rightarrow> bytes \<Rightarrow> bool"
  sh_binding :: "bytes option"
  sh_unbinding :: "string \<Rightarrow> wireBinding option"
  sh_answer :: string
  sh_crypto :: crypto
  sh_gid :: "bytes option"
  sh_now :: time
  sh_session :: "('h, 'c) session_env"
  sh_unmarshalG :: "string \<Rightarrow> wireGrant option"
  sh_marshalS :: "OwnerShare \<Rightarrow> 'f"
  sh_mkdir :: bool
  sh_out :: "'f write_outcome"
  sh_send :: "bytes \<Rightarrow> bool"

datatype share_failure =
    ScToken | ScRelay | ScHandshake pair_error | ScGuestGone | ScBinding | ScIdentity identity_error | ScMint id_error | ScUnreachable attach_failure
  | ScNotAccepted delivery_error | ScGuestLost

datatype share_end = Shared | Declined | WriteCancelled

text \<open>What leaves the owner's device: a record given to the machine over the owner's session, a record given to the guest.\<close>

datatype share_effect = ToAgent string | ToGuest string

definition share_info :: "Machine \<Rightarrow> AgentInfo" where
  "share_info m = \<lparr>aiHostPubHex = mHostPubHex m, aiMachineID = mMachineID m, aiName = mName m, aiRegistrationCommitment = []\<rparr>"

text \<open>The room and the handshake: the handshake's state and the guest's proven id.\<close>

definition share_handshake :: "('n, 'h, 'c, 'f) share_env \<Rightarrow> Machine \<Rightarrow> share_failure + StartedResponder \<times> string" where
  "share_handshake env m =
     (case sh_token env of
        None \<Rightarrow> Inl ScToken
      | Some token \<Rightarrow>
          if \<not> sh_dial env (DialPair_url (mSignalURL m) (RoomID token)) then Inl ScRelay
          else (case StartResponder (sh_noise env) (sh_json env) (sh_rnd env) (sh_msg1 env) (\<lambda>m2. sh_net env m2 \<noteq> NotSent) token (share_info m) of
                  Inl e \<Rightarrow> Inl (ScHandshake e)
                | Inr (m2, started) \<Rightarrow>
                    (case Responder_Finish (sh_verify env) (sh_json env) (received (sh_net env m2)) started of
                       Inl e \<Rightarrow> Inl (ScHandshake e)
                     | Inr (guest, pv) \<Rightarrow> Inr (started, guest))))"

text \<open>The guest's binding: it has to verify and to be the guest's own.\<close>

definition guest_binding :: "('n, 'h, 'c, 'f) share_env \<Rightarrow> string \<Rightarrow> share_failure + SignedBinding" where
  "guest_binding env guest =
     (case sh_binding env of
        None \<Rightarrow> Inl ScGuestGone
      | Some b \<Rightarrow>
          (case ParseSignedBinding (sh_unbinding env) (string_of b) of
             Inl e \<Rightarrow> Inl ScBinding
           | Inr sb \<Rightarrow> if VerifyBinding (sh_verify env) sb \<noteq> None \<or> bWallet (sbBinding sb) \<noteq> guest then Inl ScBinding else Inr sb))"

definition share_mint ::
  "('n, 'h, 'c, 'f) share_env \<Rightarrow> Identity \<Rightarrow> Machine \<Rightarrow> duration \<Rightarrow> string \<Rightarrow> string \<Rightarrow> string \<Rightarrow> share_failure + SignedGrant \<times> string" where
  "share_mint env i m ttl mode session guest =
     (case id_Signer (sh_crypto env) i of
        Inl e \<Rightarrow> Inl (ScIdentity e)
      | Inr signer \<Rightarrow>
          (case MintGrant (cr_sign (sh_crypto env)) (sh_gid env) signer (mMachineID m) guest session mode ttl (sh_now env) of
             Inl e \<Rightarrow> Inl (ScMint e)
           | Inr sg \<Rightarrow> (case JSON_grant sg of Inl e \<Rightarrow> Inl (ScMint e) | Inr record \<Rightarrow> Inr (sg, record))))"

text \<open>The agent first, then the local record (a failure is only a warning), then the guest.\<close>

definition share_deliver ::
  "('n, 'h, 'c, 'f) share_env \<Rightarrow> Identity \<Rightarrow> Machine \<Rightarrow> SignedGrant \<Rightarrow> string \<Rightarrow> 'f dir \<Rightarrow> (share_failure, share_end) go_result \<times> share_effect list \<times> 'f dir" where
  "share_deliver env i m sg record d =
     (let se = sh_session env
      in case open_session se (sh_crypto env) m i of
           Inl e \<Rightarrow> (Err (ScUnreachable e), [], d)
         | Inr s \<Rightarrow>
             (case GrantOverSession (se_ctl se) (se_flynn se) record (gGID (sgGrant sg)) s of
                Panic \<Rightarrow> (Panic, [ToAgent record], d)
              | Err e \<Rightarrow> (Err (ScNotAccepted e), [ToAgent record], d)
              | Ret s' \<Rightarrow>
                  let d' = snd (SaveOwnerShare (sh_unmarshalG env) (sh_marshalS env) (sh_mkdir env) (sh_out env) record (mName m) d)
                  in if \<not> sh_send env (bytes_of record) then (Err ScGuestLost, [ToAgent record], d')
                     else (Ret Shared, [ToAgent record, ToGuest record], d')))"

definition shareResolved ::
  "('n, 'h, 'c, 'f) share_env \<Rightarrow> Identity \<Rightarrow> Machine \<Rightarrow> duration \<Rightarrow> bool \<Rightarrow> string \<Rightarrow> 'f dir \<Rightarrow>
   (share_failure, share_end) go_result \<times> share_effect list \<times> 'f dir" where
  "shareResolved env i m ttl write session d =
     (if write \<and> TrimSpace (sh_typedName env) \<noteq> mName m then (Ret WriteCancelled, [], d)
      else case share_handshake env m of
             Inl e \<Rightarrow> (Err e, [], d)
           | Inr (started, guest) \<Rightarrow>
               (case guest_binding env guest of
                  Inl e \<Rightarrow> (Err e, [], d)
                | Inr sb \<Rightarrow>
                    if \<not> isAffirmative (sh_lower env) (sh_answer env) then (Ret Declined, [], d)
                    else (case share_mint env i m ttl (if write then ''rw'' else ''ro'') session guest of
                            Inl e \<Rightarrow> (Err e, [], d)
                          | Inr (sg, record) \<Rightarrow> share_deliver env i m sg record d)))"

section \<open>The guest's side\<close>

record ('n, 'f) join_env =
  jn_parse :: "string \<Rightarrow> (string \<times> string) option"
  jn_uncode :: "bytes \<Rightarrow> codePayload option"
  jn_identity :: "identity_error + Identity"
  jn_crypto :: crypto
  jn_dial :: "string \<Rightarrow> bool"
  jn_noise :: "'n noise_nn"
  jn_json :: pair_json
  jn_rnd :: bytes
  jn_net :: "bytes \<Rightarrow> net_reply"
  jn_sent :: "bytes \<Rightarrow> bool"
  jn_sentBinding :: "bytes \<Rightarrow> bool"
  jn_verdict :: "bytes option"
  jn_unmarshalG :: "string \<Rightarrow> wireGrant option"
  jn_verify :: "bytes \<Rightarrow> bytes \<Rightarrow> bytes \<Rightarrow> bool"
  jn_marshalM :: "Machine list \<Rightarrow> 'f"
  jn_unmarshalM :: "'f \<Rightarrow> Machine list option"
  jn_mkdir :: bool
  jn_readable :: bool
  jn_io :: "file_call \<Rightarrow> bool"
  jn_mkdirG :: bool
  jn_out :: "string write_outcome"

datatype join_failure =
    JnUsage | JnCode code_error | JnIdentity identity_error | JnLegacy | JnRelay | JnHandshake pair_error | JnNotSent | JnDeclined | JnNotVerified | JnOther
  | JnStore store_error | JnGrant share_error

definition join_handshake :: "('n, 'f) join_env \<Rightarrow> string \<Rightarrow> join_failure + string \<times> Identity \<times> StartedInitiator" where
  "join_handshake env code =
     (case DecodeCode (jn_parse env) (jn_uncode env) code of
        Inl e \<Rightarrow> Inl (JnCode e)
      | Inr (signalURL, token) \<Rightarrow>
          (case jn_identity env of
             Inl e \<Rightarrow> Inl (JnIdentity e)
           | Inr i \<Rightarrow>
               if \<not> HasRootedIdentity (id_Secret i) then Inl JnLegacy
               else (case id_Signer (jn_crypto env) i of
                       Inl e \<Rightarrow> Inl (JnIdentity e)
                     | Inr w \<Rightarrow>
                         if \<not> jn_dial env (DialPair_url signalURL (RoomID token)) then Inl JnRelay
                         else (case StartInitiator (jn_noise env) (jn_json env) (jn_rnd env) (jn_net env) token w of
                                 Inl e \<Rightarrow> Inl (JnHandshake e)
                               | Inr started \<Rightarrow>
                                   (case Initiator_Finish (cr_sign (jn_crypto env)) (jn_json env) None started of
                                      Inl e \<Rightarrow> Inl (JnHandshake e)
                                    | Inr msg3 \<Rightarrow>
                                        if \<not> jn_sent env msg3 then Inl (JnHandshake SendFailed)
                                        else if \<not> jn_sentBinding env (bytes_of (idBindingJSON i)) then Inl JnNotSent
                                        else Inr (signalURL, i, started))))))"

definition join_verdict :: "('n, 'f) join_env \<Rightarrow> Identity \<Rightarrow> AgentInfo \<Rightarrow> join_failure + SignedGrant" where
  "join_verdict env i info =
     (case jn_verdict env of
        None \<Rightarrow> Inl JnDeclined
      | Some v \<Rightarrow>
          (case ParseSignedGrant (jn_unmarshalG env) (string_of v) of
             Inl e \<Rightarrow> Inl JnNotVerified
           | Inr sg \<Rightarrow>
               if VerifyGrant (jn_verify env) sg \<noteq> None then Inl JnNotVerified
               else if gGuest (sgGrant sg) \<noteq> idOwnerID i \<or> gMachine (sgGrant sg) \<noteq> aiMachineID info then Inl JnOther
               else Inr sg))"

definition joined_machine :: "AgentInfo \<Rightarrow> string \<Rightarrow> SignedGrant \<Rightarrow> Machine" where
  "joined_machine info signalURL sg =
     \<lparr>mName = aiName info, mMachineID = aiMachineID info, mHostPubHex = aiHostPubHex info, mSignalURL = signalURL, mNameTS = 0, mOwner = gOwner (sgGrant sg)\<rparr>"

text \<open>\<open>cmdJoin\<close> on the machine list and the directory of received grants. The record is rendered again; that cannot fail for a grant that verified.\<close>

definition cmdJoin ::
  "('n, 'f) join_env \<Rightarrow> string list \<Rightarrow> 'f option \<Rightarrow> string dir \<Rightarrow> join_failure option \<times> 'f option \<times> string dir" where
  "cmdJoin env args f g =
     (case args of
        [code] \<Rightarrow>
          (case join_handshake env code of
             Inl e \<Rightarrow> (Some e, f, g)
           | Inr (signalURL, i, started) \<Rightarrow>
               (case join_verdict env i (siInfo started) of
                  Inl e \<Rightarrow> (Some e, f, g)
                | Inr sg \<Rightarrow>
                    (case AddMachine (jn_marshalM env) (jn_unmarshalM env) (jn_mkdir env) (jn_readable env) (jn_io env) (joined_machine (siInfo started) signalURL sg) f of
                       (Some e, f') \<Rightarrow> (Some (JnStore e), f', g)
                     | (None, f') \<Rightarrow>
                         (case SaveGuestGrant (jn_mkdirG env) (jn_out env) (gGID (sgGrant sg)) (case JSON_grant sg of Inr r \<Rightarrow> r | Inl e \<Rightarrow> []) g of
                            (Some e, g') \<Rightarrow> (Some (JnGrant e), f', g')
                          | (None, g') \<Rightarrow> (None, f', g')))))
      | _ \<Rightarrow> (Some JnUsage, f, g))"

section \<open>Listing and ending a share\<close>

text \<open>\<open>cmdShareLs\<close>: id, machine, mode, session and clock of every recorded share. Slicing the id panics when a recorded one has less than eight characters.\<close>

definition share_line :: "time \<Rightarrow> OwnerShare \<times> SignedGrant \<Rightarrow> string list" where
  "share_line now p =
     (case p of (s, sg) \<Rightarrow>
        [take 8 (gGID (sgGrant sg)), osMachineName s, modeWord (gMode (sgGrant sg)), gScope (sgGrant sg), expiryPhrase (gNA (sgGrant sg)) (osRevoked s) now])"

definition cmdShareLs :: "(string \<Rightarrow> wireGrant option) \<Rightarrow> ('f \<Rightarrow> OwnerShare option) \<Rightarrow> time \<Rightarrow> 'f dir \<Rightarrow> (unit, string list list) go_result" where
  "cmdShareLs unmarshalG unmarshal now shares =
     (let ss = ListOwnerShares unmarshalG unmarshal shares
      in if list_ex (\<lambda>(s, sg). length (gGID (sgGrant sg)) < 8) ss then Panic else Ret (map (share_line now) ss))"

record 'f revoke_env =
  rk_unmarshalG :: "string \<Rightarrow> wireGrant option"
  rk_marshalS :: "OwnerShare \<Rightarrow> 'f"
  rk_unmarshalS :: "'f \<Rightarrow> OwnerShare option"
  rk_out :: "'f write_outcome"

datatype revoke_failure = RkUsage | RkShare share_error | RkCmd cmd_error

datatype revoke_end = AlreadyRevoked | RevokedOn Machine

definition cmdShareRevoke ::
  "('h, 'c) session_env \<Rightarrow> 'g warm_env \<Rightarrow> 'f revoke_env \<Rightarrow> string list \<Rightarrow> 'f dir \<Rightarrow> 'g client_dir \<Rightarrow>
   (revoke_failure, revoke_end) go_result \<times> 'f dir \<times> 'g client_dir" where
  "cmdShareRevoke se env rk args shares d =
     (case args of
        [pre] \<Rightarrow>
          (case ResolveShareGID (rk_unmarshalG rk) (rk_unmarshalS rk) pre shares of
             Inl e \<Rightarrow> (Err (RkShare e), shares, d)
           | Inr (os, sg) \<Rightarrow>
               if osRevoked os then (if length (gGID (sgGrant sg)) < 8 then Panic else Ret AlreadyRevoked, shares, d)
               else (case pick_machine env (osMachineName os) d of
                       (Panic, d1) \<Rightarrow> (Panic, shares, d1)
                     | (Err e, d1) \<Rightarrow> (Err (RkCmd e), shares, d1)
                     | (Ret (i, m), d1) \<Rightarrow>
                         (case open_session se (we_crypto env) m i of
                            Inl e \<Rightarrow> (Err (RkCmd (CeUnreachable e)), shares, d1)
                          | Inr s \<Rightarrow>
                              (case RevokeGrantOverSession (se_ctl se) (se_flynn se) (gGID (sgGrant sg)) s of
                                 Panic \<Rightarrow> (Panic, shares, d1)
                               | Err e \<Rightarrow> (Err (RkCmd (CeUnconfirmed e)), shares, d1)
                               | Ret s' \<Rightarrow>
                                   (if length (gGID (sgGrant sg)) < 8 then Panic else Ret (RevokedOn m),
                                    snd (MarkShareRevoked (rk_marshalS rk) (rk_unmarshalS rk) (rk_out rk) (gGID (sgGrant sg)) shares), d1)))))
      | _ \<Rightarrow> (Err RkUsage, shares, d))"

section \<open>Nothing is shared without the owner\<close>

lemma share_handshake_Inr:
  assumes "share_handshake env m = Inr (started, guest)"
  shows "\<exists>token m2 sig. sh_token env = Some token \<and>
    StartResponder (sh_noise env) (sh_json env) (sh_rnd env) (sh_msg1 env) (\<lambda>m2. sh_net env m2 \<noteq> NotSent) token (share_info m) = Inr (m2, started) \<and>
    guest = srClaim started \<and> VerifyAuth (sh_verify env) guest (srBinding started) sig = None"
  using assms
  by (fastforce simp: share_handshake_def Responder_Finish_def split: option.splits if_splits sum.splits prod.splits)

lemma guest_binding_Inr:
  assumes "guest_binding env guest = Inr sb"
  shows "VerifyBinding (sh_verify env) sb = None \<and> bWallet (sbBinding sb) = guest"
  using assms by (auto simp: guest_binding_def split: option.splits if_splits sum.splits)

lemma share_mint_Inr:
  assumes "share_mint env i m ttl mode session guest = Inr (sg, rec)" "mode \<in> {''ro'', ''rw''}"
  shows "\<exists>signer. id_Signer (sh_crypto env) i = Inr signer \<and> gOwner (sgGrant sg) = Address signer \<and> gMachine (sgGrant sg) = mMachineID m \<and>
    gGuest (sgGrant sg) = guest \<and> gMode (sgGrant sg) = mode \<and> gNA (sgGrant sg) \<le> unix (sh_now env + GrantMaxTTL) \<and> JSON_grant sg = Inr rec"
  using assms unix_mono [of "sh_now env + ttl" "sh_now env + GrantMaxTTL"]
  by (auto simp: share_mint_def MintGrant_def SignGrant_def Let_def split: sum.splits option.splits if_splits)

text \<open>A HELLO of the owner's session with the machine that acknowledges the grant.\<close>

definition agent_acked :: "('n, 'h, 'c, 'f) share_env \<Rightarrow> SignedGrant \<Rightarrow> bool" where
  "agent_acked env sg \<longleftrightarrow>
     (\<exists>ct ct' s s' pt. Arrived ct' \<in> set (ctl_arrivals (se_ctl (sh_session env)) ct) \<and> Decrypt (se_flynn (sh_session env)) ct' s = Ret (pt, s') \<and>
        confirms (ctl_unmarshal (se_ctl (sh_session env))) ''ack'' (''add-grant:'' @ gGID (sgGrant sg)) pt)"

lemma share_deliver_effects:
  assumes "share_deliver env i m sg rec d = (r, effs, d')"
  shows "set effs \<subseteq> {ToAgent rec, ToGuest rec} \<and> (ToGuest rec \<in> set effs \<or> d' \<noteq> d \<or> r = Ret Shared \<longrightarrow> agent_acked env sg)"
proof (cases "\<exists>s s'. GrantOverSession (se_ctl (sh_session env)) (se_flynn (sh_session env)) rec (gGID (sgGrant sg)) s = Ret s'")
  case True
  then obtain s s' where "GrantOverSession (se_ctl (sh_session env)) (se_flynn (sh_session env)) rec (gGID (sgGrant sg)) s = Ret s'" by blast
  then have "agent_acked env sg" unfolding GrantOverSession_def by (rule deliver_Ret) (use agent_acked_def in blast)
  then show ?thesis using assms by (auto simp: share_deliver_def Let_def split: sum.splits go_result.splits if_splits)
next
  case False
  then show ?thesis using assms by (auto simp: share_deliver_def Let_def split: sum.splits go_result.splits if_splits)
qed


section \<open>Joining\<close>

text \<open>A guest's device changes only for a grant that verifies, is for this guest and for the machine of the handshake.\<close>

lemma join_gated:
  assumes "cmdJoin env args f g = (e, f', g')" "f' \<noteq> f \<or> g' \<noteq> g \<or> e = None"
  obtains code url i started sg where "args = [code]" "join_handshake env code = Inr (url, i, started)" "VerifyGrant (jn_verify env) sg = None"
    "gGuest (sgGrant sg) = idOwnerID i" "gMachine (sgGrant sg) = aiMachineID (siInfo started)"
    "AddMachine (jn_marshalM env) (jn_unmarshalM env) (jn_mkdir env) (jn_readable env) (jn_io env) (joined_machine (siInfo started) url sg) f = (None, f') \<or>
     (\<exists>err. AddMachine (jn_marshalM env) (jn_unmarshalM env) (jn_mkdir env) (jn_readable env) (jn_io env) (joined_machine (siInfo started) url sg) f = (Some err, f') \<and> e \<noteq> None)"
proof -
  obtain code url i started sg where c: "args = [code]" "join_handshake env code = Inr (url, i, started)" "join_verdict env i (siInfo started) = Inr sg"
    using assms by (auto simp: cmdJoin_def split: list.splits sum.splits prod.splits)
  moreover have "VerifyGrant (jn_verify env) sg = None" "gGuest (sgGrant sg) = idOwnerID i" "gMachine (sgGrant sg) = aiMachineID (siInfo started)"
    using c(3) by (auto simp: join_verdict_def split: option.splits sum.splits if_splits)
  moreover have "AddMachine (jn_marshalM env) (jn_unmarshalM env) (jn_mkdir env) (jn_readable env) (jn_io env) (joined_machine (siInfo started) url sg) f = (None, f') \<or>
     (\<exists>err. AddMachine (jn_marshalM env) (jn_unmarshalM env) (jn_mkdir env) (jn_readable env) (jn_io env) (joined_machine (siInfo started) url sg) f = (Some err, f') \<and> e \<noteq> None)"
    using assms(1) c by (auto simp: cmdJoin_def split: prod.splits option.splits)
  ultimately show thesis using that by blast
qed

lemma change_first_find: "find P xs = Some x \<Longrightarrow> \<exists>as bs. xs = as @ x # bs \<and> change_first P g xs = Some (as @ g x # bs) \<and> (\<forall>y \<in> set as. \<not> P y)"
proof (induction xs)
  case (Cons a xs)
  show ?case
  proof (cases "P a")
    case True
    with Cons.prems show ?thesis by (intro exI [of _ "[]"] exI [of _ xs]) simp
  next
    case False
    with Cons obtain as bs where "xs = as @ x # bs" "change_first P g xs = Some (as @ g x # bs)" "\<forall>y \<in> set as. \<not> P y" by auto
    with False show ?thesis by (intro exI [of _ "a # as"] exI [of _ bs]) simp
  qed
qed simp

text \<open>
  C40. Joining a share can take the place of a machine of one's own: the entry is stored under the name the sharing side sends, and when a machine of the guest has that name, its
  pinned entry is replaced. Afterwards the name stands for the sharing side's machine, with its host key and owner, and the entry that was there is gone.
\<close>

theorem join_replaces_pin:
  assumes json: "json_reads (list_all machine_text) (jn_marshalM env) (jn_unmarshalM env)" "jn_readable env"
    and join: "cmdJoin env [code] f g = (None, f', g')" "join_handshake env code = Inr (url, i, started)"
    and texts: "ValidString (aiName (siInfo started))" "ValidString (aiMachineID (siInfo started))" "ValidString (aiHostPubHex (siInfo started))" "ValidString url"
    and own: "GetMachine (jn_unmarshalM env) True (aiName (siInfo started)) f = Inr own"
  shows "\<exists>as bs sg. ListMachines (jn_unmarshalM env) True f = Inr (as @ own # bs) \<and>
    ListMachines (jn_unmarshalM env) True f' = Inr (as @ joined_machine (siInfo started) url sg # bs) \<and>
    GetMachine (jn_unmarshalM env) True (aiName (siInfo started)) f' = Inr (joined_machine (siInfo started) url sg) \<and>
    gOwner (sgGrant sg) \<noteq> [] \<and> VerifyGrant (jn_verify env) sg = None"
proof -
  obtain sg where sg: "VerifyGrant (jn_verify env) sg = None"
      "AddMachine (jn_marshalM env) (jn_unmarshalM env) (jn_mkdir env) True (jn_io env) (joined_machine (siInfo started) url sg) f = (None, f')"
    by (rule join_gated [OF join(1)]) (use join json(2) in auto)
  let ?m = "joined_machine (siInfo started) url sg"
  obtain ms where ms: "ListMachines (jn_unmarshalM env) True f = Inr ms" "find (\<lambda>m. mName m = aiName (siInfo started)) ms = Some own"
    using own by (auto simp: GetMachine_def split: sum.splits option.splits)
  have n: "mName ?m = aiName (siInfo started)" by (simp add: joined_machine_def)
  from change_first_find [OF ms(2), of "\<lambda>x. ?m"] obtain as bs where
    c: "ms = as @ own # bs" "change_first (\<lambda>m. mName m = aiName (siInfo started)) (\<lambda>x. ?m) ms = Some (as @ ?m # bs)" "\<forall>y \<in> set as. mName y \<noteq> aiName (siInfo started)" by blast
  have f': "f' = Some (jn_marshalM env (as @ ?m # bs))"
  proof -
    have "upsert (\<lambda>x. mName x = aiName (siInfo started)) (\<lambda>x. ?m) ?m ms = as @ ?m # bs" by (simp add: upsert_def c(2))
    moreover have "with_machines (jn_marshalM env) (jn_unmarshalM env) True (jn_io env) (upsert (\<lambda>x. mName x = aiName (siInfo started)) (\<lambda>x. ?m) ?m) f = (None, f')"
      using sg(2) by (auto simp: AddMachine_def n split: if_splits)
    ultimately show ?thesis using with_machines_result ms(1) by fastforce
  qed
  obtain pub where key: "key_of (gOwner (sgGrant sg)) = Some pub" using sg(1) by (auto simp: VerifyGrant_None)
  have "machine_text ?m" using texts ValidString_key [OF key] by (simp add: machine_text_def joined_machine_def)
  then have "list_all machine_text (as @ ?m # bs)" using ListMachines_text [OF json(1) ms(1)] c(1) by simp
  then have l: "ListMachines (jn_unmarshalM env) True f' = Inr (as @ ?m # bs)" unfolding f' by (rule ListMachines_written [OF json(1)])
  have "find (\<lambda>m. mName m = aiName (siInfo started)) (as @ ?m # bs) = Some ?m" using c(3) n by (induction as) auto
  then have "GetMachine (jn_unmarshalM env) True (aiName (siInfo started)) f' = Inr ?m" by (simp add: GetMachine_def l)
  moreover have "key_of [] = None" by code_simp
  then have "gOwner (sgGrant sg) \<noteq> []" using key by auto
  ultimately show ?thesis using ms(1) c(1) l sg(1) by blast
qed

section \<open>Ending a share on the wrong machine\<close>

text \<open>An agent that does not hold the grant acknowledges its revocation and changes nothing.\<close>

lemma unknown_revocation_acked:
  assumes "gidRe gid" "grantByID unmarshalG gid dm = None"
  shows "revokeGrantHandler unmarshalG owner machine mkdir out remove (Some (''revoke-grant'', gid)) dm live = (Ack (''revoke-grant:'' @ gid), dm, guest_drop gid live)"
  using assms by (simp add: revokeGrantHandler_def guestGIDShape_def)

lemma answered_delivery:
  assumes "sender_send fl (ctl_write env) (EncodeControl (ctl_marshal env kvs)) s = Ret (ct, s1)" "ctl_arrivals env ct = Arrived ct' # as"
    and "Decrypt fl ct' s1 = Ret (EncodeHello payload, s2)" "ctl_unmarshal env payload = Some meta" "meta_field meta key = want"
  shows "deliver env fl kvs key want s = Ret s2"
  using assms by (simp add: deliver_def confirms_def EncodeHello_def FrameHello_def)

text \<open>
  C39. Ending a share can end nothing: \<^verbatim>\<open>mir share revoke\<close> looks the machine up by the name it had when it was shared. When that name now belongs to a machine whose agent does
  not hold the grant, that agent acknowledges all the same and changes nothing, and as soon as its answer arrives the command reports the share as revoked there and marks it revoked
  on the owner's device, whatever machine the grant is for.
\<close>

theorem revoke_misdirected:
  assumes share: "ResolveShareGID (rk_unmarshalG rk) (rk_unmarshalS rk) pre shares = Inr (os, sg)" "\<not> osRevoked os" "gidRe (gGID (sgGrant sg))"
      "mget shares (grantPath (gGID (sgGrant sg))) = Some raw" "rk_unmarshalS rk raw = Some os'" "rk_out rk = Written"
    and machine: "pick_machine env (osMachineName os) d = (Ret (i, m), d1)" "open_session se (we_crypto env) m i = Inr s" "mMachineID m \<noteq> gMachine (sgGrant sg)"
    and agent: "grantByID unmarshalG (gGID (sgGrant sg)) dm = None"
      "revokeGrantHandler unmarshalG owner (mMachineID m) mkdir out remove (Some (''revoke-grant'', gGID (sgGrant sg))) dm live = (answer, dm', cancelled)"
    and arrives: "sender_send (se_flynn se) (ctl_write (se_ctl se))
        (EncodeControl (ctl_marshal (se_ctl se) [(''a'', ''revoke-grant''), (''gid'', gGID (sgGrant sg))])) s = Ret (ct, s1)"
      "ctl_arrivals (se_ctl se) ct = Arrived ct' # as" "Decrypt (se_flynn se) ct' s1 = Ret (EncodeHello payload, s2)" "ctl_unmarshal (se_ctl se) payload = Some meta"
      "answer = Ack (meta_field meta ''ack'')"
  shows "dm' = dm \<and> (\<exists>shares'. cmdShareRevoke se env rk [pre] shares d = (Ret (RevokedOn m), shares', d1) \<and>
    mget shares' (grantPath (gGID (sgGrant sg))) = Some (rk_marshalS rk (os'\<lparr>osRevoked := True\<rparr>)))"
proof -
  let ?gid = "gGID (sgGrant sg)"
  note acked = agent(2) [unfolded unknown_revocation_acked [OF share(3) agent(1)]]
  then have "meta_field meta ''ack'' = ''revoke-grant:'' @ ?gid" using arrives(5) by simp
  then have r: "RevokeGrantOverSession (se_ctl se) (se_flynn se) ?gid s = Ret s2"
    unfolding RevokeGrantOverSession_def by (rule answered_delivery [OF arrives(1-4)])
  have "MarkShareRevoked (rk_marshalS rk) (rk_unmarshalS rk) (rk_out rk) ?gid shares = (None, mput shares (grantPath ?gid) (rk_marshalS rk (os'\<lparr>osRevoked := True\<rparr>)))"
    by (simp add: MarkShareRevoked_def share(4-6) write_file_def)
  moreover have "\<not> length ?gid < 8" using share(3) by (simp add: gidRe_def)
  ultimately show ?thesis using acked share(1,2) machine(1,2) r by (auto simp: cmdShareRevoke_def)
qed

section \<open>Concrete runs\<close>

text \<open>A stand-in for the witnesses: a channel that sends what it is given, a relay that answers every offer, a machine that acknowledges with the text \<open>ack\<close>.\<close>

definition demo_flynn :: "(unit, unit) flynn" where
  "demo_flynn = \<lparr>fl_public = \<lambda>p. Some p, fl_new = \<lambda>c. Some (), fl_write = \<lambda>h p. Some ([], Some ((), ()), ()), fl_read = \<lambda>h m. Some ([], Some ((), ()), ()),
     fl_encrypt = \<lambda>c p. Some (p, c), fl_decrypt = \<lambda>c p. Some (p, c)\<rparr>"

definition demo_session :: "string \<Rightarrow> (unit, unit) session_env" where
  "demo_session ack =
     \<lparr>se_dial = \<lparr>de_dial = \<lambda>u. True, de_ready = Some [0], de_decode = \<lambda>b. (if b = [0] then msg0\<lparr>smType := TypeReady, smSession := ''s1''\<rparr> else msg0\<lparr>smType := TypeAnswer\<rparr>, True),
        de_offer = Some ''sdp'', de_write = \<lambda>m. True, de_answer = \<lambda>m. Some [1], de_accept = \<lambda>x. True, de_opened = True\<rparr>,
      se_flynn = demo_flynn, se_kk = \<lparr>kw_random = [], kw_sent = \<lambda>m. True, kw_reply = \<lambda>m. Some []\<rparr>,
      se_ctl = \<lparr>ctl_marshal = \<lambda>kvs. [], ctl_unmarshal = \<lambda>b. Some [(''ack'', string_of b)], ctl_write = \<lambda>m. True,
        ctl_arrivals = \<lambda>ct. [Arrived (EncodeHello (bytes_of ack))]\<rparr>\<rparr>"

definition demo_channel :: "unit Session" where "demo_channel = \<lparr>ssSend = Some (), ssRecv = Some ()\<rparr>"

lemma demo_open: "open_session (demo_session ack) demo_crypto demo_other demo_self = Inr demo_channel"
proof -
  obtain w where w: "id_Signer demo_crypto demo_self = Inr w" using demo_signer_self by auto
  have "decodeHostPub (mHostPubHex demo_other) = Some (replicate 32 0)" by (simp add: decodeHostPub_def demo_other_def del: hex_EncodeToString.simps)
  then show ?thesis using demo_self_rooted(1)
    by (simp add: open_session_def demo_session_def Attach_def dialLocator_def Dial_def ready_session_def w await_answer_def kkAuth_def RunInitiator_def NewInitiator_def
        kk_newHandshake_def WriteMessage_def ReadMessage_def after_message_def complete_def kk_Session_def demo_flynn_def demo_channel_def Type_defs msg0_def Let_def)
qed

lemma demo_send: "sender_send (se_flynn (demo_session ack)) (ctl_write (se_ctl (demo_session ack))) p demo_channel = Ret (p, demo_channel)"
  "Decrypt (se_flynn (demo_session ack)) p demo_channel = Ret (p, demo_channel)"
  by (simp_all add: sender_send_def Encrypt_def Decrypt_def demo_session_def demo_flynn_def demo_channel_def)

lemma demo_ctl: "ctl_arrivals (se_ctl (demo_session ack)) ct = [Arrived (EncodeHello (bytes_of ack))]" "ctl_unmarshal (se_ctl (demo_session ack)) (bytes_of ack) = Some [(''ack'', ack)]"
  "meta_field [(''ack'', ack)] ''ack'' = ack"
  by (simp_all add: demo_session_def meta_field_def)

lemma demo_deliver: "deliver (se_ctl (demo_session ack)) (se_flynn (demo_session ack)) kvs ''ack'' ack demo_channel = Ret demo_channel"
  by (rule answered_delivery [OF demo_send(1) demo_ctl(1) demo_send(2) demo_ctl(2,3)])

lemma demo_pick: "\<exists>d1. pick_machine demo_warm ''lab'' (demo_client_dir\<lparr>cd_deny := Some (FDeny \<lparr>lrV = 1, lrRevocations = [demo_revocation]\<rparr>)\<rparr>) = (Ret (demo_self, demo_other), d1)"
proof -
  obtain warm d3 where "resolveMachinesWarm demo_warm [''lab''] demo_self [] [] (demo_client_dir\<lparr>cd_deny := Some (FDeny \<lparr>lrV = 1, lrRevocations = [demo_revocation]\<rparr>)\<rparr>) =
      (Inr ([demo_other], warm), d3)" using demo_after_retire by blast
  then show ?thesis using demo_self_rooted by (simp add: pick_machine_def requireRootedIdentity_def resolveMachines_def)
qed

definition demo_owner_share :: "string \<Rightarrow> OwnerShare" where
  "demo_owner_share rec = \<lparr>osRecord = rec, osMachineName = ''lab'', osRevoked = False\<rparr>"

definition demo_revoke :: "OwnerShare revoke_env" where
  "demo_revoke = \<lparr>rk_unmarshalG = scan_grant, rk_marshalS = \<lambda>s. s, rk_unmarshalS = Some, rk_out = Written\<rparr>"

theorem revoke_misdirected_witness:
  "\<exists>rec shares' d1. JSON_grant demo_signed_grant = Inr rec \<and> gMachine (sgGrant demo_signed_grant) = ''m1'' \<and> mMachineID demo_other = ''m2'' \<and>
     cmdShareRevoke (demo_session ''revoke-grant:0123456789abcdef'') demo_warm demo_revoke [''0123''] [(grantPath ''0123456789abcdef'', demo_owner_share rec)]
       (demo_client_dir\<lparr>cd_deny := Some (FDeny \<lparr>lrV = 1, lrRevocations = [demo_revocation]\<rparr>)\<rparr>) = (Ret (RevokedOn demo_other), shares', d1)"
proof -
  let ?ack = "''revoke-grant:0123456789abcdef''"
  obtain rec where rec: "JSON_grant demo_signed_grant = Inr rec" "ParseSignedGrant scan_grant rec = Inr demo_signed_grant"
    using grant_record_roundtrip_witness by blast
  obtain d1 where pick: "pick_machine demo_warm ''lab'' (demo_client_dir\<lparr>cd_deny := Some (FDeny \<lparr>lrV = 1, lrRevocations = [demo_revocation]\<rparr>)\<rparr>) = (Ret (demo_self, demo_other), d1)"
    using demo_pick by blast
  have g: "gGID (sgGrant demo_signed_grant) = ''0123456789abcdef''" "gMachine (sgGrant demo_signed_grant) = ''m1''" by (simp_all add: demo_signed_grant_def demo_grant_def)
  let ?shares = "[(grantPath (gGID (sgGrant demo_signed_grant)), demo_owner_share rec)]"
  have r: "ResolveShareGID (rk_unmarshalG demo_revoke) (rk_unmarshalS demo_revoke) ''0123'' ?shares = Inr (demo_owner_share rec, demo_signed_grant)"
    using rec(2) g(1) by (simp add: ResolveShareGID_def ListOwnerShares_def map_filter_simps share_entry_def json_ext_grantPath demo_revoke_def demo_owner_share_def HasPrefix_def)
  have gid: "gidRe (gGID (sgGrant demo_signed_grant))" unfolding g by code_simp
  have none: "grantByID scan_grant (gGID (sgGrant demo_signed_grant)) empty_dir = None" by (simp add: grantByID_def empty_dir_def)
  have os: "\<not> osRevoked (demo_owner_share rec)" "mget ?shares (grantPath (gGID (sgGrant demo_signed_grant))) = Some (demo_owner_share rec)"
      "rk_unmarshalS demo_revoke (demo_owner_share rec) = Some (demo_owner_share rec)" "rk_out demo_revoke = Written" "osMachineName (demo_owner_share rec) = ''lab''"
    by (simp_all add: demo_owner_share_def demo_revoke_def)
  have m: "mMachineID demo_other \<noteq> gMachine (sgGrant demo_signed_grant)" "we_crypto demo_warm = demo_crypto" by (simp_all add: g)
  have ack: "Ack (''revoke-grant:'' @ gGID (sgGrant demo_signed_grant)) = Ack (meta_field [(''ack'', ?ack)] ''ack'')" unfolding demo_ctl(3) g by simp
  note handled = unknown_revocation_acked [OF gid none, where owner = demo_id and machine = "mMachineID demo_other" and mkdir = True and out = Written and remove = True
      and live = "\<lparr>gr_next = 0, gr_byID = []\<rparr>"]
  note run = revoke_misdirected [OF r os(1) gid os(2-4) pick [folded os(5)] demo_open [of ?ack, folded m(2)] m(1) none handled demo_send(1) demo_ctl(1) demo_send(2) demo_ctl(2) ack]
  then show ?thesis using rec(1) g by auto
qed

lemma demo_grant_verifies: "VerifyGrant demo_verify demo_signed_grant = None"
  unfolding VerifyGrant_None demo_signed_grant_def SignedGrant.simps validate_demo sig_of_demo by (simp add: demo_grant_def key_of_demo demo_verify_def)

definition demo_join :: "string \<Rightarrow> (unit, Machine list) join_env" where
  "demo_join rec =
     \<lparr>jn_parse = ie_parse demo_initiator, jn_uncode = ie_uncode demo_initiator, jn_identity = Inr demo_self, jn_crypto = demo_crypto, jn_dial = \<lambda>u. True, jn_noise = demo_noise,
      jn_json = demo_json, jn_rnd = [], jn_net = \<lambda>m. Reply (pj_info demo_json (share_info demo_machine)), jn_sent = \<lambda>m. True, jn_sentBinding = \<lambda>b. True,
      jn_verdict = Some (bytes_of rec), jn_unmarshalG = scan_grant, jn_verify = demo_verify, jn_marshalM = \<lambda>x. x, jn_unmarshalM = read_if (list_all machine_text), jn_mkdir = True,
      jn_readable = True, jn_io = \<lambda>c. True, jn_mkdirG = True, jn_out = Written\<rparr>"

lemma demo_join_handshake: "\<exists>started. join_handshake (demo_join rec) demo_code = Inr (demo_url, demo_self, started) \<and> siInfo started = share_info demo_machine"
proof -
  obtain w where w: "id_Signer demo_crypto demo_self = Inr w" using demo_signer_self by auto
  have "DecodeCode (jn_parse (demo_join rec)) (jn_uncode (demo_join rec)) demo_code = Inr (demo_url, replicate 16 0)" using demo_decode by (simp add: demo_join_def)
  moreover have "pj_uninfo demo_json (pj_info demo_json x) = Some x" for x by (simp add: demo_json_def)
  ultimately show ?thesis using w demo_self_rooted(1)
    by (simp add: join_handshake_def demo_join_def StartInitiator_def StartInitiator_msg1_def newHandshake_def demo_noise_def Initiator_Finish_def Let_def)
qed

definition demo_own :: Machine where "demo_own = demo_machine\<lparr>mMachineID := ''m9''\<rparr>"

theorem join_replaces_pin_witness:
  "\<exists>rec f' g' sg started. join_handshake (demo_join rec) demo_code = Inr (demo_url, demo_self, started) \<and>
     cmdJoin (demo_join rec) [demo_code] (Some [demo_own]) [] = (None, f', g') \<and> mOwner demo_own = [] \<and>
     ListMachines (read_if (list_all machine_text)) True f' = Inr [joined_machine (siInfo started) demo_url sg] \<and> gOwner (sgGrant sg) \<noteq> []"
proof -
  obtain rec where rec: "JSON_grant demo_signed_grant = Inr rec" "ParseSignedGrant scan_grant rec = Inr demo_signed_grant"
    using grant_record_roundtrip_witness by blast
  obtain started where st: "join_handshake (demo_join rec) demo_code = Inr (demo_url, demo_self, started)" "siInfo started = share_info demo_machine"
    using demo_join_handshake by blast
  have g: "gGuest (sgGrant demo_signed_grant) = demo_id" "gMachine (sgGrant demo_signed_grant) = ''m1''" "gGID (sgGrant demo_signed_grant) = ''0123456789abcdef''"
    by (simp_all add: demo_signed_grant_def demo_grant_def)
  have v: "join_verdict (demo_join rec) demo_self (share_info demo_machine) = Inr demo_signed_grant"
    using rec(2) g demo_grant_verifies demo_self_rooted(3) by (simp add: join_verdict_def demo_join_def share_info_def)
  have t: "list_all machine_text [demo_own]" by (simp add: machine_text_def demo_own_def demo_machine_def ValidString_ascii)
  have l: "ListMachines (jn_unmarshalM (demo_join rec)) True (Some [demo_own]) = Inr [demo_own]" using t by (simp add: ListMachines_def demo_join_def read_if_def)
  then have o: "GetMachine (jn_unmarshalM (demo_join rec)) True (aiName (siInfo started)) (Some [demo_own]) = Inr demo_own"
    by (simp add: GetMachine_def st(2) share_info_def demo_own_def)
  have gid: "gidRe ''0123456789abcdef''" by code_simp
  have "\<exists>f'. AddMachine (jn_marshalM (demo_join rec)) (jn_unmarshalM (demo_join rec)) (jn_mkdir (demo_join rec)) (jn_readable (demo_join rec)) (jn_io (demo_join rec))
      (joined_machine (siInfo started) demo_url demo_signed_grant) (Some [demo_own]) = (None, f')"
    using l by (simp add: AddMachine_def with_machines_def demo_join_def writeMachines_def write_temp_rename_def)
  moreover have "\<exists>g'. SaveGuestGrant (jn_mkdirG (demo_join rec)) (jn_out (demo_join rec)) (gGID (sgGrant demo_signed_grant)) rec [] = (None, g')"
    using gid g by (simp add: SaveGuestGrant_def demo_join_def write_file_def)
  ultimately obtain f' g' where c: "cmdJoin (demo_join rec) [demo_code] (Some [demo_own]) [] = (None, f', g')"
    using st v rec(1) by (auto simp: cmdJoin_def)
  have texts: "ValidString (aiName (siInfo started))" "ValidString (aiMachineID (siInfo started))" "ValidString (aiHostPubHex (siInfo started))" "ValidString demo_url"
    by (simp_all add: st(2) share_info_def demo_machine_def demo_url_def ValidString_ascii)
  have j: "json_reads (list_all machine_text) (jn_marshalM (demo_join rec)) (jn_unmarshalM (demo_join rec))" "jn_readable (demo_join rec)" by (simp_all add: demo_join_def)
  from join_replaces_pin [OF j c st(1) texts o] obtain as bs sg where
    "ListMachines (jn_unmarshalM (demo_join rec)) True (Some [demo_own]) = Inr (as @ demo_own # bs)"
    "ListMachines (jn_unmarshalM (demo_join rec)) True f' = Inr (as @ joined_machine (siInfo started) demo_url sg # bs)" "gOwner (sgGrant sg) \<noteq> []" by blast
  moreover from this(1) l have "as = []" "bs = []" by (auto simp: append_eq_Cons_conv Cons_eq_append_conv)
  ultimately show ?thesis using st(1) c by (intro exI [of _ rec] exI [of _ f'] exI [of _ g'] exI [of _ sg] exI [of _ started]) (simp add: demo_own_def demo_machine_def demo_join_def)
qed

definition demo_guest_binding :: wireBinding where
  "demo_guest_binding = \<lparr>wbV = 1, wbWallet = demo_id, wbDevice = ''dev'', wbX25519 = replicate 64 (CHR ''a''), wbTs = 5, wbSig = replicate 64 (CHR ''1'')\<rparr>"

definition demo_gid :: bytes where "demo_gid = [1, 2, 3, 4, 5, 6, 7, 8]"

definition demo_share :: "(unit, unit, unit, OwnerShare) share_env" where
  "demo_share =
     \<lparr>sh_lower = \<lambda>r. r, sh_typedName = [], sh_token = Some (replicate 16 0), sh_dial = \<lambda>u. True, sh_noise = demo_noise, sh_json = demo_json, sh_rnd = [],
      sh_msg1 = Some (put demo_id), sh_net = \<lambda>m. Reply (replicate 64 0), sh_verify = demo_verify, sh_binding = Some [], sh_unbinding = \<lambda>s. Some demo_guest_binding,
      sh_answer = ''y'', sh_crypto = demo_crypto, sh_gid = Some demo_gid, sh_now = 1300 * second, sh_session = demo_session (''add-grant:'' @ hex_EncodeToString demo_gid),
      sh_unmarshalG = scan_grant, sh_marshalS = \<lambda>s. s, sh_mkdir = True, sh_out = Written, sh_send = \<lambda>b. True\<rparr>"

lemma demo_share_handshake: "\<exists>started. share_handshake demo_share demo_other = Inr (started, demo_id)"
proof -
  have "VerifyAuth demo_verify demo_id b (replicate 64 0) = None" for b by (simp add: VerifyAuth_None key_of_demo demo_verify_def)
  then show ?thesis
    by (simp add: share_handshake_def demo_share_def StartResponder_def newHandshake_def demo_noise_def demo_json_def key_of_demo share_info_def Responder_Finish_def received_def
        proof_parts_def)
qed

lemma demo_share_binding: "\<exists>sb. guest_binding demo_share demo_id = Inr sb"
  by (simp add: guest_binding_def demo_share_def ParseSignedBinding_def demo_guest_binding_def VerifyBinding_None validate_binding_def key_of_demo deviceRe_def hex64Re_def
      is_name_char_def is_alnum_def is_lower_hex_def sig_of_demo demo_verify_def list_all_iff)

lemma demo_share_mint:
  "\<exists>sg rec. share_mint demo_share demo_self demo_other hour ''ro'' ''main'' demo_id = Inr (sg, rec) \<and> gGID (sgGrant sg) = hex_EncodeToString demo_gid"
proof -
  obtain w where w: "id_Signer demo_crypto demo_owner = Inr w" "signs_for (cr_sign demo_crypto) demo_verify w" using demo_Signer by blast
  have "id_Secret demo_self = id_Secret demo_owner" by (simp add: id_Secret_def demo_self_def)
  then have i: "id_Signer demo_crypto demo_self = Inr w" using w(1) unfolding id_Signer_def by metis
  have side: "0 < hour" "hour \<le> GrantMaxTTL" "GrantSkew + second \<le> 1300 * second" "machineIDRe ''m2''" "key_of demo_id \<noteq> None" "''main'' = [] \<or> scopeRe ''main''"
      "''ro'' \<in> {[], ''ro'', ''rw''}" "length demo_gid = 8"
    by (simp_all add: hour_def minute_def second_def GrantMaxTTL_def GrantSkew_def machineIDRe_def scopeRe_def is_name_char_def is_alnum_def key_of_demo demo_gid_def)
  from MintGrant_correct [OF w(2) side] obtain sg where
    sg: "MintGrant (cr_sign demo_crypto) (Some demo_gid) w ''m2'' demo_id ''main'' ''ro'' hour (1300 * second) = Inr sg" "VerifyGrant demo_verify sg = None" by blast
  have "gGID (sgGrant sg) = hex_EncodeToString demo_gid"
    using sg(1) by (auto simp: MintGrant_def SignGrant_def Let_def split: if_splits sum.splits)
  moreover obtain rec where "JSON_grant sg = Inr rec" using sg(2) by (auto simp: VerifyGrant_None JSON_grant_def CanonicalGrant_def)
  ultimately show ?thesis using i sg(1) by (simp add: share_mint_def demo_share_def)
qed


end
