(* ===== verification/Spec2Isabelle.thy ===== *)
theory Spec2Isabelle
  imports Base58 Identity RateLimit ProofStore Revocations Relay Bip39 Signer_Derive Grant_Store Agent_Attach Agent_Config
    Agent_Control Agent_Owners Agent_Slots Frames Pair_Rooms Utf8 Pair_Flow Client_Machines Client_Registry Client_Revocations Client_Prewarm
    Client_Reconnect Client_Mux Client_Identity Client_Shares Go_Strings Agent_Tmux Agent_Push Cli_Overview Self_Update Relay_Http
    Noise_Session Client_Dial Cli_Args Cli_Machines Share_Flow
begin

text \<open>
  Verification of the Go code of Miranda: a terminal that reaches its owner's machines from anywhere. The sources are under \<^verbatim>\<open>src/go\<close>; names of files below are
  relative to \<^verbatim>\<open>src/go/internal\<close>.

  \<^bold>\<open>The program.\<close> An \<^emph>\<open>agent\<close> runs on each machine and keeps a websocket to a \<^emph>\<open>relay\<close> for each of its owners. A \<^emph>\<open>client\<close> of an owner, or of a guest the owner shared a
  machine with, asks the relay to forward an offer to the agent; agent and client then talk directly, encrypted end to end. The relay is not trusted with
  content or with authority: an owner pairs with an agent once, through a one-time code and a safety number compared by eye, and from then on every attach is
  authorised by signatures that the agent checks. Grants let guests in for a time, and revocations take machines and grants back for good.

  \<^bold>\<open>The library and the sources.\<close> One theory for each component, in the order in which they build on each other.

  \<^item> \<open>Go_Prelude\<close>, \<open>Codec\<close>, \<open>Utf8\<close>, \<open>Go_Strings\<close>, \<open>Json_Text\<close>, \<open>Atomic_File\<close>, \<open>Runs\<close>, \<open>Sha256\<close>, \<open>Lru\<close>: what the components share. Go's bytes, strings, maps, times and
    outcomes; the text encodings, runes and string functions of its standard library; files replaced by rename, with a fault at every call; the
    locales \<open>step_invariant\<close> and \<open>tombstones\<close> for runs of a step relation, which every component with a step relation interprets; SHA-256; the least-recently-used
    eviction that two stores of the relay share, as a locale.
  \<^item> \<open>Base58\<close> (\<^verbatim>\<open>base58/base58.go\<close>), \<open>Wordlist\<close> and \<open>Bip39\<close> (\<^verbatim>\<open>bip39\<close>), \<open>Signer_Derive\<close> (\<^verbatim>\<open>identity/signer.go\<close>): keys as text and as phrases. Codecs are total, inverse to
    each other, and accept nothing but what they produce.
  \<^item> \<open>Identity\<close>, \<open>Grant_Json\<close> (\<^verbatim>\<open>identity/auth.go, binding.go, grant.go, revocation.go\<close>): signed records. The locale \<open>signed_record\<close> states what a kind of record owes
    its readers (a canonical text that determines the record, apart from all other kinds), is interpreted for grants, bindings and challenges, and gives that a
    verified record is the one that was signed.
  \<^item> \<open>RateLimit\<close>, \<open>ProofStore\<close>, \<open>Revocations\<close>, \<open>Signal_Conn\<close>, \<open>Relay_Server\<close>, \<open>Relay\<close>, \<open>Pair_Rooms\<close>, \<open>Relay_Http\<close> (\<^verbatim>\<open>signal\<close>): the relay. The handlers are cut at the points where they
    take and release a lock; \<open>Relay.relay_step\<close> and \<open>Pair_Rooms.pair_step\<close> interleave the pieces of any number of handlers, and the theorems hold in every
    reachable state.
  \<^item> \<open>Grant_Store\<close>, \<open>Agent_Attach\<close>, \<open>Agent_Slots\<close>, \<open>Agent_Config\<close>, \<open>Agent_Owners\<close>, \<open>Agent_Control\<close>, \<open>Frames\<close>, \<open>Agent_Tmux\<close>, \<open>Agent_Push\<close> (\<^verbatim>\<open>agent\<close>, \<^verbatim>\<open>noise/frame.go\<close>): the agent. Stored
    grants and live guests, the decision on an offer, the bound on handshakes, the configuration with its keys and pins, one loop per owner, the frames
    of a session, the tmux commands a client can cause, the sessions the agent mints and sweeps, and the snapshots it pushes.
  \<^item> \<open>Pairing\<close>, \<open>Pair_Flow\<close> (\<^verbatim>\<open>pairing\<close>, \<^verbatim>\<open>sas\<close>, \<^verbatim>\<open>cli/pair.go\<close>): both sides of a pairing up to what each writes to disk.
  \<^item> \<open>Client_Machines\<close>, \<open>Client_Registry\<close>, \<open>Client_Revocations\<close>, \<open>Client_Prewarm\<close>, \<open>Client_Reconnect\<close>, \<open>Client_Mux\<close>, \<open>Client_Identity\<close>, \<open>Client_Shares\<close> (\<^verbatim>\<open>client\<close>, \<^verbatim>\<open>peer/turn.go\<close>,
    \<^verbatim>\<open>identity/registry.go\<close>): the client's files, the relay's directory, the warm-up before an attach, reconnecting, the multiplexer, the owner's root key and shares.
  \<^item> \<open>Noise_Session\<close> (\<^verbatim>\<open>noise/noise.go\<close>, \<^verbatim>\<open>peer/handshake.go\<close>, \<^verbatim>\<open>client/sender.go\<close>), \<open>Client_Dial\<close> (\<^verbatim>\<open>client/relay_locator.go, attach.go, grantctl.go, rename.go, runcmd.go, bridge.go\<close>): the
    encrypted channel and a client's session with a machine, from the dialogue with the relay to the frames of the terminal and the acknowledged control messages.
  \<^item> \<open>Cli_Overview\<close> (\<^verbatim>\<open>cli/overview.go, overview_model.go\<close>): the interactive list of machines. \<open>Self_Update\<close> (\<^verbatim>\<open>selfupdate\<close>): replacing the installed binary.
  \<^item> \<open>Cli_Args\<close> (\<^verbatim>\<open>cli/shared.go, cli.go, tmux_bootstrap.go\<close>), \<open>Cli_Machines\<close> (\<^verbatim>\<open>cli/client_cmds.go\<close>), \<open>Share_Flow\<close> (\<^verbatim>\<open>cli/share.go\<close>): the commands. They compose the client's components: which
    machines a name stands for, attaching, renaming and retiring, and both sides of a share up to what each writes to disk.
  \<^item> This theory: properties across components, from the pairing of a machine to its registration at the relay, from a share to the guest's attach, from an
    authorised offer back to the signatures behind it, and from the keyboard to the shell and back.

  \<^bold>\<open>How the code is rendered.\<close> A struct is a record with the code's fields under a prefix, an enumeration a datatype, a function one definition under its own name;
  a loop is a recursive function over what it iterates, named after the function it is part of. State a function mutates is an argument and a result. An error is
  a value of an error type, a panic is \<open>Panic\<close> or none. A file is its content, none when it is missing, together with what its operations can do wrong: \<open>readable\<close>,
  a fault, or the call that fails. Words of eight, sixteen and sixty-four bits are kept at their width where the code computes with them; times are nanoseconds
  without a bound, durations that the code multiplies wrap at 64 bits (\<open>wrap64\<close>).

  \<^bold>\<open>Loops and fuel.\<close> All loops that the code bounds are total functions. Loops that run until something outside ends them (the read loops, the owner loops, the
  reconnect loop, the overview, the pusher) take the sequence of what they receive, which is finite in every run so far; their theorems speak of every such
  sequence. Where the code promises an end, it is proved: the pairing handlers return from every reachable state, the reconnect loop gives up within its budget,
  the relay's writer delivers everything before it closes.

  \<^bold>\<open>What is outside the sources\<close> is an argument, and what the code relies on is a named hypothesis where it is used: Ed25519 (\<open>signs_for\<close>, and that only the key's holder
  signs), Noise (\<open>noise_agrees\<close> in pairing, \<open>kk_agrees\<close> for sessions), the AEAD of registry records, \<open>encoding/json\<close> on valid UTF-8 (\<open>json_reads\<close>), HKDF, HMAC, the system keychain, GitHub, cosign, tar,
  the order of versions, and tmux, which is an arbitrary server. Each property with such a hypothesis has a witness in which it holds.

  \<^bold>\<open>What the properties show.\<close> Authority: whoever attaches is the pinned owner or a guest with an open grant, signed by the right keys for this very session (in this
  theory, \<open>Agent_Attach\<close>, \<open>Identity\<close>); guests stay confined, control messages touch only what is the owner's and only allowed tmux commands (\<open>Agent_Control\<close>, \<open>Agent_Tmux\<close>).
  Pairing: nothing is trusted before the safety number is confirmed, and an honest pairing leads to a registration that the relay accepts (\<open>Pair_Flow\<close>, this
  theory). Revocation is permanent at the relay, the agent and the client (\<open>Relay\<close>, \<open>Revocations\<close>, \<open>Grant_Store\<close>, \<open>Client_Revocations\<close>, \<open>Client_Prewarm\<close>). Isolation and bounds at
  the relay under every interleaving. No key, pin or identity is lost to a fault or crash (\<open>Agent_Config\<close>, \<open>Client_Identity\<close>), and only released binaries are
  installed (\<open>Self_Update\<close>). Codecs are exact, and the terminal is transparent end to end. Sharing is gated by the
  owner's answer and the machine's acknowledgement (\<open>Share_Flow\<close>), and a retired machine is never resolved again (\<open>Cli_Machines\<close>). Some theorems record behaviour that the code does
  not intend: \<open>Relay.acknowledged_revocation_lost\<close>, \<open>Relay.teardown_misses_session\<close>, \<open>Cli_Overview.prompt_loses_s\<close>, \<open>Cli_Overview.retire_misdirected\<close>, \<open>Share_Flow.revoke_misdirected\<close>,
  \<open>Share_Flow.join_replaces_pin\<close> and \<open>Cli_Machines.empty_name_panics\<close>; lemmas record further ones (\<open>Grant_Store.gid_displaced\<close>,
  \<open>Agent_Config.rename_lost_at_restart\<close>, \<open>Agent_Config.unreadable_config_replaced\<close>, \<open>Client_Mux.stale_resize\<close>, \<open>Agent_Tmux.window_name_with_separator\<close>).

  \<^bold>\<open>Not modelled.\<close> The WebRTC connection (\<^verbatim>\<open>peer/peer.go\<close>), which wraps a library; terminals, PTYs and how the goroutines that copy bytes between them and a connection are
  stopped; the commands \<^verbatim>\<open>doctor\<close>, \<^verbatim>\<open>identity\<close>, \<^verbatim>\<open>up\<close> and \<^verbatim>\<open>enroll\<close>, which parse flags, probe and print around the operations modelled here; process start-up in \<^verbatim>\<open>cmd\<close>;
  logging, statistics and the HTTP plumbing of the relay.
\<close>

section \<open>Across components\<close>

lemma holds_auth:
  assumes "holds unmarshal d (provision owner blob auth cfg)" "auth \<noteq> []"
  shows "RegistrationAuthForOwner unmarshal True d owner = auth"
  using assms by (auto simp: holds_def RegistrationAuthForOwner_def read_config_def provision_def split: option.splits)

lemma paired_registration_authorized:
  assumes sg: "signs_for sign verify w" and com: "RegistrationCommitment cfg = Some commitment"
  shows "agentRegistrationAuthorized verify (Address w) (cMachineID cfg) (cRegistrationSecret cfg)
      (registration_auth sign w (agent_info cfg commitment))" "registration_auth sign w (agent_info cfg commitment) \<noteq> []"
proof -
  obtain secret where s: "hex_DecodeString (cRegistrationSecret cfg) = Some secret" "length secret = 32" "commitment = hex_EncodeToString (sha256 secret)"
    using com by (auto simp: RegistrationCommitment_def split: option.splits if_splits)
  have ne: "commitment \<noteq> []" using s(3) length_hex_EncodeToString [of "sha256 secret"] by force
  have auth: "registration_auth sign w (agent_info cfg commitment) = b64_EncodeToString (SignAuth sign w (RegistrationChallenge (cMachineID cfg) commitment))"
    using ne by (simp add: registration_auth_def agent_info_def)
  then show "agentRegistrationAuthorized verify (Address w) (cMachineID cfg) (cRegistrationSecret cfg) (registration_auth sign w (agent_info cfg commitment))"
    using s VerifyAuth_SignAuth [OF sg] by (simp add: agentRegistrationAuthorized_def del: b64_EncodeToString.simps)
  have "length (SignAuth sign w (RegistrationChallenge (cMachineID cfg) commitment)) = 64" using sg by (simp add: signs_for_def SignAuth_def)
  then show "registration_auth sign w (agent_info cfg commitment) \<noteq> []" unfolding auth using length_b64 [of "SignAuth sign w (RegistrationChallenge (cMachineID cfg) commitment)"] by fastforce
qed

lemma GetMachine_added:
  assumes "json_reads (list_all machine_text) marshal unmarshal" "list_all machine_text machines" "machine_text m"
  shows "GetMachine unmarshal True (mName m) (Some (marshal (upsert (\<lambda>x. mName x = mName m) (\<lambda>x. m) m machines))) = Inr m"
proof -
  let ?ms = "upsert (\<lambda>x. mName x = mName m) (\<lambda>x. m) m machines"
  have "list_all machine_text ?ms" by (rule upsert_text [OF assms(2,3)]) (rule assms(3))
  moreover have "find (\<lambda>x. mName x = mName m) ?ms = Some m"
    using find_upsert [of "\<lambda>x. mName x = mName m" "\<lambda>x. m" m machines] by (simp split: option.splits)
  ultimately show ?thesis by (simp add: GetMachine_def ListMachines_written [OF assms(1)])
qed

text \<open>
  C7. A pairing leads to a working machine, end to end: when the two sides of a pairing code run over a relay that delivers their messages, they see one binding
  and hence one safety number; if both gates accept it, both commands succeed, the client finds the machine under its name with the agent's host key, the agent's
  configuration pins the owner and holds the sealed record, and the relay authorises the registration the agent makes with its secret and the
  authorization it stored.
\<close>

theorem paired_agent_registers:
  fixes ie :: "('h, 'f) initiator_env" and re :: "('h, 'g) responder_env"
  assumes same: "ie_noise ie = re_noise re" "ie_json ie = re_json re" and nz: "noise_agrees (re_noise re)" and js: "pair_json_faithful (re_json re)"
    and idn: "ie_identity ie = Inr idn" "HasRootedIdentity (id_Secret idn)" "id_Signer (ie_crypto ie) idn = Inr w"
    and sg: "signs_for (cr_sign (ie_crypto ie)) (re_verify re) w"
    and code: "DecodeCode (ie_parse ie) (ie_uncode ie) code = Inr (url, token)" "re_token re = Some token"
    and dial: "ie_dial ie (DialPair_url url (RoomID token))" "re_dial re (DialPair_url url (RoomID token))"
    and load: "LoadOrInit (re_marshal re) (re_unmarshal re) (re_mkdir re) (re_readable re) (re_entropy re) (re_fault re) name url d = (Inr cfg, d1)"
    and com: "RegistrationCommitment cfg = Some commitment"
    and texts: "config_text cfg" "ValidString commitment" "json_faithful (re_marshal re) (re_unmarshal re)"
      "json_reads (list_all machine_text) (ie_marshalM ie) (ie_unmarshalM ie)"
    and prov: "initiator_provision ie idn url (agent_info cfg commitment) = Some registry" "ValidString registry" "registry \<noteq> []"
    and room: "length (pj_claim (re_json re) (Address w)) \<le> noise_room" "length (pj_info (re_json re) (agent_info cfg commitment)) \<le> noise_room"
    and io: "ie_mkdir ie" "\<And>c. ie_io ie c" "ListMachines (ie_unmarshalM ie) (ie_readable ie) f = Inr machines" "re_readable2 re" "re_fault2 re = NoFault"
  shows "\<exists>msg1 msg2 msg3 si s.
    StartInitiator (re_noise re) (re_json re) (ie_rnd ie) (\<lambda>m. if m = msg1 then Reply msg2 else NotSent) token w = Inr si \<and>
    responder_handshake (wired_responder msg1 msg2 msg3 re) url cfg = Inr (msg2, s) \<and> FromBinding (siBinding si) = FromBinding (srBinding s) \<and>
    (confirm (ie_lower ie) gi (FromBinding (siBinding si)) = None \<and> confirm (re_lower re) gr (FromBinding (srBinding s)) = None \<longrightarrow>
     (\<exists>f' d2 c. pairInitiate (wired_initiator msg1 msg2 ie) code gi f = (None, Some msg3, Some f') \<and>
        pairRespond (wired_responder msg1 msg2 msg3 re) name url gr d = (None, d2) \<and>
        GetMachine (ie_unmarshalM ie) True (cMachineName cfg) (Some f') = Inr (machine_of_info (agent_info cfg commitment) url) \<and>
        holds (re_unmarshal re) d2 c \<and> IsOwnerPinned c (Address w) \<and> RegistryForOwner (re_unmarshal re) True d2 (Address w) = registry \<and>
        agentRegistrationAuthorized (re_verify re) (Address w) (cMachineID cfg) (cRegistrationSecret cfg)
          (RegistrationAuthForOwner (re_unmarshal re) True d2 (Address w))))"
proof -
  let ?m = "machine_of_info (agent_info cfg commitment) url" and ?auth = "registration_auth (cr_sign (ie_crypto ie)) w (agent_info cfg commitment)"
  have "machine_text ?m" using texts(1) LoadOrInit_url [OF load] by (simp add: machine_text_def machine_of_info_def agent_info_def config_text_def)
  note found = GetMachine_added [OF texts(4) ListMachines_text [OF texts(4) io(3)] this]
  have name: "mName ?m = cMachineName cfg" by (simp add: machine_of_info_def agent_info_def)
  have end_state: "IsOwnerPinned (provision (Address w) registry ?auth cfg) (Address w) \<and> RegistryForOwner (re_unmarshal re) True d2 (Address w) = registry \<and>
      agentRegistrationAuthorized (re_verify re) (Address w) (cMachineID cfg) (cRegistrationSecret cfg) (RegistrationAuthForOwner (re_unmarshal re) True d2 (Address w))"
    if h: "holds (re_unmarshal re) d2 (provision (Address w) registry ?auth cfg)" for d2
  proof (intro conjI)
    show "IsOwnerPinned (provision (Address w) registry ?auth cfg) (Address w)" by (auto simp: IsOwnerPinned_def provision_def list_ex_iff)
    show "RegistryForOwner (re_unmarshal re) True d2 (Address w) = registry"
      using h prov(3) by (auto simp: holds_def RegistryForOwner_def read_config_def provision_def split: option.splits)
    show "agentRegistrationAuthorized (re_verify re) (Address w) (cMachineID cfg) (cRegistrationSecret cfg) (RegistrationAuthForOwner (re_unmarshal re) True d2 (Address w))"
      using paired_registration_authorized [OF sg com] holds_auth [OF h] by simp
  qed
  obtain msg1 msg2 msg3 si s d2 where p:
      "StartInitiator (re_noise re) (re_json re) (ie_rnd ie) (\<lambda>m. if m = msg1 then Reply msg2 else NotSent) token w = Inr si"
      "responder_handshake (wired_responder msg1 msg2 msg3 re) url cfg = Inr (msg2, s)" "siBinding si = srBinding s"
      "confirm (ie_lower ie) gi (FromBinding (siBinding si)) = None \<Longrightarrow> confirm (re_lower re) gr (FromBinding (srBinding s)) = None \<Longrightarrow>
       pairInitiate (wired_initiator msg1 msg2 ie) code gi f = (None, Some msg3, Some (ie_marshalM ie (upsert (\<lambda>x. mName x = mName ?m) (\<lambda>x. ?m) ?m machines))) \<and>
       pairRespond (wired_responder msg1 msg2 msg3 re) name url gr d = (None, d2) \<and> holds (re_unmarshal re) d2 (provision (Address w) registry ?auth cfg)"
    using pairing_completes [OF same nz js idn sg code dial load com texts(1-3) prov(1,2) room io refl, of gi gr] by (elim exE conjE) (rule that; blast)
  show ?thesis
  proof (intro exI conjI impI)
    show "StartInitiator (re_noise re) (re_json re) (ie_rnd ie) (\<lambda>m. if m = msg1 then Reply msg2 else NotSent) token w = Inr si" by (rule p(1))
    show "responder_handshake (wired_responder msg1 msg2 msg3 re) url cfg = Inr (msg2, s)" by (rule p(2))
    show "FromBinding (siBinding si) = FromBinding (srBinding s)" using p(3) by simp
    assume "confirm (ie_lower ie) gi (FromBinding (siBinding si)) = None \<and> confirm (re_lower re) gr (FromBinding (srBinding s)) = None"
    then have q: "pairInitiate (wired_initiator msg1 msg2 ie) code gi f = (None, Some msg3, Some (ie_marshalM ie (upsert (\<lambda>x. mName x = mName ?m) (\<lambda>x. ?m) ?m machines)))"
       "pairRespond (wired_responder msg1 msg2 msg3 re) name url gr d = (None, d2)" "holds (re_unmarshal re) d2 (provision (Address w) registry ?auth cfg)"
      using p(4) by blast+
    note e = end_state [OF q(3)]
    show "pairInitiate (wired_initiator msg1 msg2 ie) code gi f = (None, Some msg3, Some (ie_marshalM ie (upsert (\<lambda>x. mName x = mName ?m) (\<lambda>x. ?m) ?m machines)))"
      "pairRespond (wired_responder msg1 msg2 msg3 re) name url gr d = (None, d2)" "holds (re_unmarshal re) d2 (provision (Address w) registry ?auth cfg)"
      by (rule q)+
    show "GetMachine (ie_unmarshalM ie) True (cMachineName cfg) (Some (ie_marshalM ie (upsert (\<lambda>x. mName x = mName ?m) (\<lambda>x. ?m) ?m machines))) = Inr ?m"
      using found name by simp
    show "IsOwnerPinned (provision (Address w) registry ?auth cfg) (Address w)" "RegistryForOwner (re_unmarshal re) True d2 (Address w) = registry"
      "agentRegistrationAuthorized (re_verify re) (Address w) (cMachineID cfg) (cRegistrationSecret cfg) (RegistrationAuthForOwner (re_unmarshal re) True d2 (Address w))"
      using e by blast+
  qed
qed

theorem paired_agent_registers_witness:
  "\<exists>msg1 msg2 msg3 d2. pairRespond (wired_responder msg1 msg2 msg3 demo_responder) ''box'' demo_url demo_gate demo_dir = (None, d2) \<and>
     agentRegistrationAuthorized demo_verify demo_id (cMachineID demo_agent_config) (cRegistrationSecret demo_agent_config)
       (RegistrationAuthForOwner Some True d2 demo_id)"
proof -
  obtain w registry where w: "id_Signer (ie_crypto demo_initiator) demo_owner = Inr w" "signs_for (cr_sign (ie_crypto demo_initiator)) (re_verify demo_responder) w"
      "Address w = demo_id"
    and reg: "initiator_provision demo_initiator demo_owner demo_url (agent_info demo_agent_config (hex_EncodeToString (sha256 (replicate 32 7)))) = Some registry"
      "ValidString registry" "registry \<noteq> []"
    and room: "length (pj_claim (re_json demo_responder) (Address w)) \<le> noise_room"
      "length (pj_info (re_json demo_responder) (agent_info demo_agent_config (hex_EncodeToString (sha256 (replicate 32 7))))) \<le> noise_room"
    by (rule demo_commitment_cases)
  have json: "json_reads (list_all machine_text) (ie_marshalM demo_initiator) (ie_unmarshalM demo_initiator)" by simp
  obtain msg1 msg2 msg3 s and si :: StartedInitiator where h:
      "responder_handshake (wired_responder msg1 msg2 msg3 demo_responder) demo_url demo_agent_config = Inr (msg2, s)"
      "FromBinding (siBinding si) = FromBinding (srBinding s)"
      "confirm (ie_lower demo_initiator) demo_gate (FromBinding (siBinding si)) = None \<and> confirm (re_lower demo_responder) demo_gate (FromBinding (srBinding s)) = None \<longrightarrow>
       (\<exists>d2. pairRespond (wired_responder msg1 msg2 msg3 demo_responder) ''box'' demo_url demo_gate demo_dir = (None, d2) \<and>
          agentRegistrationAuthorized (re_verify demo_responder) (Address w) (cMachineID demo_agent_config) (cRegistrationSecret demo_agent_config)
            (RegistrationAuthForOwner (re_unmarshal demo_responder) True d2 (Address w)))"
    using paired_agent_registers [OF demo_setting(1-6) w(1,2) demo_decode demo_fields(16,6,17) demo_load_config demo_commitment demo_agent_config_text demo_setting(7)
        json reg room demo_fields(7,8) demo_setting(8) demo_fields(18,19), of demo_gate demo_gate] by (elim exE conjE) (erule that, assumption, blast)
  have "srBinding s = []" using demo_binding [OF h(1)] by (simp add: wired_responder_def)
  then show ?thesis using h(2,3) demo_gate_ok w(3) by auto
qed

section \<open>Sharing\<close>

lemma SignBinding_verifies:
  assumes "signs_for sign verify w" "SignBinding sign w device x ts = Inr sb"
  shows "VerifyBinding verify sb = None" "bWallet (sbBinding sb) = Address w"
  using assms signs_for_key [OF assms(1)]
  by (auto simp: SignBinding_def Let_def VerifyBinding_None CanonicalBinding_Inr sig_of_encode58 signs_for_def split: sum.splits)


definition demo_offer :: SignalMsg where
  "demo_offer = \<lparr>smType = TypeOffer, smSession = ''s1'', smSDP = ''sdp'', smReason = [], smBinding = ''b'',
     smAuth = b64_EncodeToString (SignAuth demo_sign demo_signer (AttachChallenge ''s1'' ''m1'' ''sdp'')), smRegistry = []\<rparr>"

definition demo_wire_binding :: wireBinding where
  "demo_wire_binding = \<lparr>wbV = 1, wbWallet = demo_id, wbDevice = ''dev'', wbX25519 = replicate 64 (CHR ''a''), wbTs = 5, wbSig = replicate 64 (CHR ''1'')\<rparr>"


section \<open>Who can attach\<close>

text \<open>
  C1. Only holders of keys attach: if every signature that verifies under a key was made by its holder (\<open>acts pub\<close> is what the holder of \<open>pub\<close> signed), then behind
  every authorised offer, whatever the relay or anyone else sends, there is a principal that signed exactly this session, machine and SDP and the binding of exactly this
  transport key; and the principal is the pinned owner, or the owner signed a grant for that principal on this machine whose window is open.
\<close>

theorem only_key_holders_attach:
  assumes unforgeable: "\<And>pub msg sig. verify pub msg sig \<Longrightarrow> \<exists>a \<in> acts pub. act_message a = Some msg"
    and "fst (authorizeOffer verify unmarshalB unmarshalG machine pins d now owner m seen) = Inr au"
  shows "\<exists>prin pub b. key_of prin = Some pub \<and> ActAuth (AttachChallenge (smSession m) machine (smSDP m)) \<in> acts pub \<and>
    ActBinding b \<in> acts pub \<and> bWallet b = prin \<and> hex_DecodeString (bX25519 b) = Some (oa_pub au) \<and>
    (prin = owner \<and> owner \<in> set pins \<or>
     (\<exists>g opub. key_of owner = Some opub \<and> ActGrant g \<in> acts opub \<and> gOwner g = owner \<and> gMachine g = machine \<and> gGuest g = prin \<and> ValidAt g now = None))"
proof -
  obtain seen' where "authorizeOffer verify unmarshalB unmarshalG machine pins d now owner m seen = (Inr au, seen')" using assms(2) by (metis prod.collapse)
  then obtain sb where sb: "proves verify unmarshalB machine m sb" "hex_DecodeString (bX25519 (sbBinding sb)) = Some (oa_pub au)"
      "if bWallet (sbBinding sb) = owner \<and> owner \<in> set pins then oa_grant au = None
       else oa_grant au \<noteq> None \<and> oa_grant au = findValidGuestGrant verify unmarshalG d owner machine (bWallet (sbBinding sb)) now"
    unfolding authorizeOffer_Inr by blast
  obtain sig pub where v: "VerifyBinding verify sb = None" "key_of (bWallet (sbBinding sb)) = Some pub"
      "VerifyAuth verify (bWallet (sbBinding sb)) (AttachChallenge (smSession m) machine (smSDP m)) sig = None"
    using sb(1) by (auto simp: proves_def VerifyBinding_None)
  have signed: "ActAuth (AttachChallenge (smSession m) machine (smSDP m)) \<in> acts pub" "ActBinding (sbBinding sb) \<in> acts pub"
    by (rule auth_signed [OF _ v(3,2)], erule unforgeable) (rule binding_signed [OF _ v(1,2)], erule unforgeable)
  have "bWallet (sbBinding sb) = owner \<and> owner \<in> set pins \<or>
     (\<exists>g opub. key_of owner = Some opub \<and> ActGrant g \<in> acts opub \<and> gOwner g = owner \<and> gMachine g = machine \<and> gGuest g = bWallet (sbBinding sb) \<and> ValidAt g now = None)"
  proof (cases "bWallet (sbBinding sb) = owner \<and> owner \<in> set pins")
    case False
    have "\<not> (bWallet (sbBinding sb) = owner \<and> owner \<in> set pins)" by (rule False)
    then obtain sg where "findValidGuestGrant verify unmarshalG d owner machine (bWallet (sbBinding sb)) now = Some sg" using sb(3) by (metis option.exhaust)
    then have a: "authorises verify d owner machine (bWallet (sbBinding sb)) now sg" using find_Some by blast
    then obtain opub where o: "key_of (gOwner (sgGrant sg)) = Some opub" by (auto simp: authorises_def VerifyGrant_None)
    have v: "VerifyGrant verify sg = None" using a by (simp add: authorises_def)
    have "ActGrant (sgGrant sg) \<in> acts opub" by (rule grant_signed [OF _ v o], erule unforgeable)
    with a o show ?thesis by (intro disjI2 exI [of _ "sgGrant sg"] exI [of _ opub]) (simp add: authorises_def)
  qed simp
  then show ?thesis using v(2) signed sb(2) by blast
qed

text \<open>For the witness a scheme in which exactly the bytes of the two acts below verify.\<close>

definition demo_binding_record :: Binding where
  "demo_binding_record = \<lparr>bV = 1, bWallet = demo_id, bDevice = ''dev'', bX25519 = replicate 64 (CHR ''a''), bTs = 5\<rparr>"

definition demo_acts :: "owner_act set" where
  "demo_acts = {ActAuth (AttachChallenge ''s1'' ''m1'' ''sdp''), ActBinding demo_binding_record}"

definition strict_verify :: "bytes \<Rightarrow> bytes \<Rightarrow> bytes \<Rightarrow> bool" where
  "strict_verify pub msg sig \<longleftrightarrow> Some msg \<in> act_message ` demo_acts \<and> sig = replicate 64 0"

theorem only_key_holders_attach_witness:
  "\<exists>au prin pub b. fst (authorizeOffer strict_verify (\<lambda>s. Some demo_wire_binding) scan_grant ''m1'' [demo_id] empty_dir 0 demo_id demo_offer []) = Inr au \<and>
     key_of prin = Some pub \<and> ActBinding b \<in> demo_acts \<and> bWallet b = prin \<and> hex_DecodeString (bX25519 b) = Some (oa_pub au)"
proof -
  have unforgeable: "\<exists>a \<in> demo_acts. act_message a = Some msg" if "strict_verify pub msg sig" for pub msg sig
    using that by (auto simp: strict_verify_def image_iff)
  have valid: "validate_binding demo_binding_record = None"
    by (simp add: validate_binding_def demo_binding_record_def key_of_demo deviceRe_def hex64Re_def is_name_char_def is_alnum_def is_lower_hex_def list_all_iff)
  have b: "VerifyBinding strict_verify \<lparr>sbBinding = demo_binding_record, sbSig = replicate 64 (CHR ''1'')\<rparr> = None"
    unfolding VerifyBinding_None using valid sig_of_demo key_of_demo
    by (auto simp: strict_verify_def demo_acts_def CanonicalBinding_def) (simp add: demo_binding_record_def)
  have parse: "ParseSignedBinding (\<lambda>s. Some demo_wire_binding) (smBinding demo_offer) = Inr \<lparr>sbBinding = demo_binding_record, sbSig = replicate 64 (CHR ''1'')\<rparr>"
    by (simp add: ParseSignedBinding_def demo_wire_binding_def demo_binding_record_def)
  have auth: "VerifyAuth strict_verify demo_id (AttachChallenge ''s1'' ''m1'' ''sdp'') (replicate 64 0) = None"
    by (simp add: VerifyAuth_None key_of_demo strict_verify_def demo_acts_def)
  have "smAuth demo_offer \<noteq> []" using length_b64 [of "replicate 64 0"] by (force simp: demo_offer_def SignAuth_def demo_sign_def)
  then have p: "proves strict_verify (\<lambda>s. Some demo_wire_binding) ''m1'' demo_offer \<lparr>sbBinding = demo_binding_record, sbSig = replicate 64 (CHR ''1'')\<rparr>"
    using parse b auth by (simp add: proves_def demo_offer_def SignAuth_def demo_sign_def demo_binding_record_def del: b64_EncodeToString.simps)
  obtain pub where k: "hex_DecodeString (bX25519 demo_binding_record) = Some pub" using verified_binding_key [OF b] by auto
  have w: "bWallet demo_binding_record = demo_id" by (simp add: demo_binding_record_def)
  have a: "fst (authorizeOffer strict_verify (\<lambda>s. Some demo_wire_binding) scan_grant ''m1'' [demo_id] empty_dir 0 demo_id demo_offer []) = Inr \<lparr>oa_pub = pub, oa_grant = None\<rparr>"
    using authorizeOffer_proved [OF p, of pub] k w by (simp add: admit_principal_def ownerPinned_def acceptAttachSession_def Let_def)
  have "\<exists>prin k b. key_of prin = Some k \<and> ActAuth (AttachChallenge (smSession demo_offer) ''m1'' (smSDP demo_offer)) \<in> demo_acts \<and>
      ActBinding b \<in> demo_acts \<and> bWallet b = prin \<and> hex_DecodeString (bX25519 b) = Some (oa_pub \<lparr>oa_pub = pub, oa_grant = None\<rparr>) \<and>
      (prin = demo_id \<and> demo_id \<in> set [demo_id] \<or>
       (\<exists>g opub. key_of demo_id = Some opub \<and> ActGrant g \<in> demo_acts \<and> gOwner g = demo_id \<and> gMachine g = ''m1'' \<and> gGuest g = prin \<and> ValidAt g 0 = None))"
    by (rule only_key_holders_attach [where acts = "\<lambda>pub. demo_acts", OF _ a]) (erule unforgeable)
  with a show ?thesis by blast
qed

section \<open>The terminal\<close>

text \<open>What \<open>RunAgentSession\<close> sends: a greeting, the chunks it reads from the shell, the snapshots of the windows; and what the other side's bridge asks of the shell.\<close>

datatype shell_event = Greeting bytes | Output bytes | Snapshot bytes

fun shell_frame :: "shell_event \<Rightarrow> bytes" where
  "shell_frame (Greeting b) = EncodeHello b"
| "shell_frame (Output b) = EncodeData b"
| "shell_frame (Snapshot b) = EncodeWindows b"

fun shell_effect :: "local_event \<Rightarrow> effect" where
  "shell_effect (Typed b) = ShellWrite b"
| "shell_effect (Resized cols rows) = ShellResize cols rows"

lemma session_frames_local: "session_frames control pid (map local_frame es) st = (map shell_effect es, st)"
proof (induction es)
  case (Cons e es)
  have "DecodeResize (put16 cols @ put16 rows) = Some (cols, rows)" for cols rows by (simp add: put16_def uint16_put16)
  then show ?case using Cons by (cases e) (simp_all add: session_frame_def EncodeData_def EncodeResize_def Frame_defs)
qed simp

lemma bridge_frames_effects:
  "session_frames control pid (bridge_frames initial es) st = (ShellResize (fst initial) (snd initial) # map shell_effect es, st)"
  using session_frames_local [of control pid "Resized (fst initial) (snd initial) # es" st] by (simp add: bridge_frames_def)

lemma decoded_shell_frames:
  "map snd (filter (\<lambda>f. fst f = FrameData) (List.map_filter DecodeFrame (map shell_frame es))) = concat (map (\<lambda>e. case e of Output b \<Rightarrow> [b] | _ \<Rightarrow> []) es)"
  "map snd (filter (\<lambda>f. fst f = FrameWindows \<and> True) (List.map_filter DecodeFrame (map shell_frame es))) = concat (map (\<lambda>e. case e of Snapshot b \<Rightarrow> [b] | _ \<Rightarrow> []) es)"
  by (induction es) (auto simp: map_filter_simps EncodeData_def EncodeHello_def EncodeWindows_def Frame_defs split: shell_event.splits)

text \<open>
  C10. The terminal is transparent, end to end: a client and an agent that hold each other's keys complete the handshake, and over the channel they get, however the client's
  bridge cuts the input into chunks and mixes in new sizes, the agent writes exactly those bytes to the shell in order, sets exactly those sizes in order and does nothing else; and
  however the agent mixes greetings and window snapshots into the shell's output, the client's terminal shows exactly the output in order and its overview gets exactly the snapshots.
\<close>

theorem terminal_transparent:
  assumes "kk_agrees fl" "fl_public fl a = Some A" "fl_public fl b = Some B"
  shows "\<exists>m0 m1 si sr. RunInitiator fl ra (\<lambda>m. True) (\<lambda>m. if m = m0 then Some m1 else None) a B = Some si \<and>
    RunResponder fl rb (Some m0) (\<lambda>m. True) b A = Some (m1, sr) \<and>
    (\<forall>initial es cts s'. send_all fl (\<lambda>c. True) (bridge_frames initial es) si = Ret (cts, s') \<longrightarrow>
       (\<exists>pts r'. decrypt_all fl cts sr = Ret (pts, r') \<and>
          session_frames control pid pts st = (ShellResize (fst initial) (snd initial) # map shell_effect es, st))) \<and>
    (\<forall>es cts s'. send_all fl (\<lambda>c. True) (map shell_frame es) sr = Ret (cts, s') \<longrightarrow>
       bridge_recv fl (\<lambda>b. True) True (map Arrived cts) si =
         (concat (map (\<lambda>e. case e of Output b \<Rightarrow> [b] | _ \<Rightarrow> []) es), concat (map (\<lambda>e. case e of Snapshot b \<Rightarrow> [b] | _ \<Rightarrow> []) es), StreamOpen))"
proof -
  obtain m0 m1 si sr where h: "RunInitiator fl ra (\<lambda>m. True) (\<lambda>m. if m = m0 then Some m1 else None) a B = Some si"
    "RunResponder fl rb (Some m0) (\<lambda>m. True) b A = Some (m1, sr)" "in_step si sr" "in_step sr si" using assms by (rule handshake_runs)
  have "\<exists>pts r'. decrypt_all fl cts sr = Ret (pts, r') \<and> session_frames control pid pts st = (ShellResize (fst initial) (snd initial) # map shell_effect es, st)"
    if sent: "send_all fl (\<lambda>c. True) (bridge_frames initial es) si = Ret (cts, s')" for initial es cts s'
  proof -
    obtain r' where "decrypt_all fl cts sr = Ret (bridge_frames initial es, r')" using send_all_decrypts [OF assms(1) h(3) sent] by blast
    then show ?thesis using bridge_frames_effects [of control pid initial es st] by auto
  qed
  moreover have "bridge_recv fl (\<lambda>b. True) True (map Arrived cts) si =
      (concat (map (\<lambda>e. case e of Output b \<Rightarrow> [b] | _ \<Rightarrow> []) es), concat (map (\<lambda>e. case e of Snapshot b \<Rightarrow> [b] | _ \<Rightarrow> []) es), StreamOpen)"
    if sent: "send_all fl (\<lambda>c. True) (map shell_frame es) sr = Ret (cts, s')" for es cts s'
  proof -
    obtain r' where "decrypt_all fl cts si = Ret (map shell_frame es, r')" using send_all_decrypts [OF assms(1) h(4) sent] by blast
    from bridge_recv_exact [OF this, of "\<lambda>b. True" True] show ?thesis unfolding decoded_shell_frames by simp
  qed
  ultimately show ?thesis using h(1,2) by blast
qed

definition demo_kk :: "(nat, unit) flynn" where
  "demo_kk = \<lparr>fl_public = \<lambda>p. Some p, fl_new = \<lambda>c. Some (if kkInitiator c then 0 else 1),
     fl_write = \<lambda>h p. Some ([], if h = 0 then None else Some ((), ()), if h = 0 then 2 else 4),
     fl_read = \<lambda>h m. Some ([], if h = 1 then None else Some ((), ()), if h = 1 then 3 else 4), fl_encrypt = \<lambda>c p. Some (p, c), fl_decrypt = \<lambda>c p. Some (p, c)\<rparr>"

theorem terminal_transparent_witness:
  "\<exists>si sr pts. RunInitiator demo_kk [] (\<lambda>m. True) (\<lambda>m. Some []) [1] [2] = Some si \<and> RunResponder demo_kk [] (Some []) (\<lambda>m. True) [2] [1] = Some ([], sr) \<and>
     decrypt_all demo_kk (bridge_frames (80, 24) [Typed [108, 115], Resized 100 30, Typed [10]]) sr = Ret (pts, sr) \<and>
     session_frames None 0 pts () = ([ShellResize 80 24, ShellWrite [108, 115], ShellResize 100 30, ShellWrite [10]], ())"
proof -
  have kk: "kk_agrees demo_kk" by (simp add: kk_agrees_def demo_kk_def)
  have pub: "fl_public demo_kk p = Some p" for p by (simp add: demo_kk_def)
  let ?s = "\<lparr>ssSend = Some (), ssRecv = Some ()\<rparr>"
  have run: "RunInitiator demo_kk [] (\<lambda>m. True) reply [1] [2] = (case reply [] of None \<Rightarrow> None | Some x \<Rightarrow> Some ?s)" "RunResponder demo_kk [] (Some m) (\<lambda>m. True) [2] [1] = Some ([], ?s)" for reply m
    by (simp_all add: RunInitiator_def RunResponder_def NewInitiator_def NewResponder_def kk_newHandshake_def WriteMessage_def ReadMessage_def after_message_def complete_def
        kk_Session_def demo_kk_def split: option.splits)
  have send: "send_all demo_kk (\<lambda>c. True) ps ?s = Ret (ps, ?s)" "decrypt_all demo_kk ps ?s = Ret (ps, ?s)" for ps
    by (induction ps) (simp_all add: sender_send_def Encrypt_def Decrypt_def demo_kk_def)
  obtain m0 m1 si sr where t: "RunInitiator demo_kk [] (\<lambda>m. True) (\<lambda>m. if m = m0 then Some m1 else None) [1] [2] = Some si" "RunResponder demo_kk [] (Some m0) (\<lambda>m. True) [2] [1] = Some (m1, sr)"
      "\<And>initial es cts s'. send_all demo_kk (\<lambda>c. True) (bridge_frames initial es) si = Ret (cts, s') \<Longrightarrow>
         \<exists>pts r'. decrypt_all demo_kk cts sr = Ret (pts, r') \<and> session_frames None 0 pts () = (ShellResize (fst initial) (snd initial) # map shell_effect es, ())"
    using terminal_transparent [OF kk pub pub, of "[]" "[1]" "[2]" "[]" None 0 "()"] by (elim exE conjE) (erule that, assumption, iprover)
  have s: "si = ?s" "sr = ?s" using t(1,2) run by (auto split: if_splits)
  from t(3) [of "(80, 24)" "[Typed [108, 115], Resized 100 30, Typed [10]]"] send run show ?thesis unfolding s by auto
qed

end
